(* ===== verification/Prelude.thy ===== *)
theory Prelude
  imports Main "HOL-Library.AList" "HOL-Library.Word"
begin

text \<open>
  Shared material of the development: the JavaScript \<open>Map\<close> as an association list in
  insertion order, generic lemmas on such maps, and the two locales every component uses
  (a keyed store, and an invariant of an event-driven machine).
\<close>

section \<open>JavaScript maps\<close>

text \<open>
  A JavaScript \<open>Map\<close> (and a plain object used as a dictionary) iterates in insertion
  order. \<open>set\<close> on a present key keeps its position, on a new key appends;
  \<open>delete\<close> removes the key. That is exactly \<^const>\<open>AList.update\<close> and
  \<^const>\<open>AList.delete\<close> of the library.
\<close>

type_synonym ('k, 'v) jsmap = "('k \<times> 'v) list"
type_synonym ms = int
type_synonym byte = "8 word"

named_theorems jm_simps \<open>equations of the JavaScript map operations\<close>
named_theorems wf_intros \<open>preservation of component invariants\<close>

definition jm_get :: "('k, 'v) jsmap \<Rightarrow> 'k \<Rightarrow> 'v option" where
  "jm_get m k = map_of m k"

definition jm_has :: "('k, 'v) jsmap \<Rightarrow> 'k \<Rightarrow> bool" where
  "jm_has m k = (map_of m k \<noteq> None)"

definition jm_set :: "('k, 'v) jsmap \<Rightarrow> 'k \<Rightarrow> 'v \<Rightarrow> ('k, 'v) jsmap" where
  "jm_set m k v = AList.update k v m"

definition jm_del :: "('k, 'v) jsmap \<Rightarrow> 'k \<Rightarrow> ('k, 'v) jsmap" where
  "jm_del m k = AList.delete k m"

definition jm_keys :: "('k, 'v) jsmap \<Rightarrow> 'k list" where
  "jm_keys m = map fst m"

definition jm_values :: "('k, 'v) jsmap \<Rightarrow> 'v list" where
  "jm_values m = map snd m"

definition jm_wf :: "('k, 'v) jsmap \<Rightarrow> bool" where
  "jm_wf m = distinct (map fst m)"

text \<open>Deleting, while iterating, every entry that a condition selects.\<close>

definition jm_reject :: "('k \<Rightarrow> 'v \<Rightarrow> bool) \<Rightarrow> ('k, 'v) jsmap \<Rightarrow> ('k, 'v) jsmap" where
  "jm_reject P m = filter (\<lambda>(k, v). \<not> P k v) m"

text \<open>\<open>Object.assign\<close> and object spread: later keys win.\<close>

definition jm_merge :: "('k, 'v) jsmap \<Rightarrow> ('k, 'v) jsmap \<Rightarrow> ('k, 'v) jsmap" where
  "jm_merge m n = foldl (\<lambda>acc (k, v). jm_set acc k v) m n"

definition jm_del_all :: "('k, 'v) jsmap \<Rightarrow> 'k list \<Rightarrow> ('k, 'v) jsmap" where
  "jm_del_all m ks = foldl jm_del m ks"

lemma jm_get_Nil [simp, jm_simps]: "jm_get [] k = None"
  by (simp add: jm_get_def)

lemma jm_get_set [simp, jm_simps]: "jm_get (jm_set m k v) k' = (if k' = k then Some v else jm_get m k')"
  by (simp add: jm_get_def jm_set_def update_conv')

lemma jm_get_del [simp, jm_simps]: "jm_get (jm_del m k) k' = (if k' = k then None else jm_get m k')"
  by (simp add: jm_get_def jm_del_def delete_conv')

lemma jm_has_iff [simp, jm_simps]: "jm_has m k \<longleftrightarrow> (\<exists>v. jm_get m k = Some v)"
  by (simp add: jm_has_def jm_get_def)

lemma jm_wf_Nil [simp]: "jm_wf []"
  by (simp add: jm_wf_def)

lemma jm_wf_set [simp, wf_intros]: "jm_wf m \<Longrightarrow> jm_wf (jm_set m k v)"
  by (simp add: jm_wf_def jm_set_def distinct_update)

lemma jm_wf_del [simp, wf_intros]: "jm_wf m \<Longrightarrow> jm_wf (jm_del m k)"
  by (simp add: jm_wf_def jm_del_def distinct_delete)

lemma jm_wf_reject [simp, wf_intros]: "jm_wf m \<Longrightarrow> jm_wf (jm_reject P m)"
  unfolding jm_wf_def jm_reject_def by (induction m) auto

lemma jm_get_mem: "jm_get m k = Some v \<Longrightarrow> (k, v) \<in> set m"
  by (simp add: jm_get_def map_of_SomeD)

lemma jm_mem_get: "jm_wf m \<Longrightarrow> (k, v) \<in> set m \<longleftrightarrow> jm_get m k = Some v"
  by (simp add: jm_get_def jm_wf_def)

lemma jm_get_Cons [jm_simps]: "jm_get (a # m) k = (if k = fst a then Some (snd a) else jm_get m k)"
  by (simp add: jm_get_def)

lemma jm_get_append [jm_simps]:
  "jm_get (m @ n) k = (case jm_get m k of None \<Rightarrow> jm_get n k | Some v \<Rightarrow> Some v)"
  by (simp add: jm_get_def map_add_def split: option.splits)

lemma jm_get_reject [simp, jm_simps]:
  "jm_wf m \<Longrightarrow> jm_get (jm_reject P m) k =
     (case jm_get m k of None \<Rightarrow> None | Some v \<Rightarrow> if P k v then None else Some v)"
proof (induction m)
  case Nil
  then show ?case by (simp add: jm_reject_def)
next
  case (Cons a m)
  have fresh: "jm_get m (fst a) = None"
    using Cons.prems by (simp add: jm_get_def jm_wf_def map_of_eq_None_iff)
  have "jm_reject P (a # m) = (if P (fst a) (snd a) then jm_reject P m else a # jm_reject P m)"
    by (simp add: jm_reject_def case_prod_unfold)
  with Cons fresh show ?case
    by (auto simp: jm_get_Cons jm_wf_def)
qed

lemma set_jm_reject [simp]: "set (jm_reject P m) = {(k, v) \<in> set m. \<not> P k v}"
  by (auto simp: jm_reject_def)

lemma jm_reject_False [simp]: "jm_reject (\<lambda>_ _. False) m = m"
  by (simp add: jm_reject_def)

lemma jm_reject_reject: "jm_reject P (jm_reject Q m) = jm_reject (\<lambda>k v. P k v \<or> Q k v) m"
  unfolding jm_reject_def by (induction m) auto

lemma jm_reject_cong: "(\<And>k v. P k v = Q k v) \<Longrightarrow> jm_reject P m = jm_reject Q m"
  by (simp add: jm_reject_def)

lemma set_jm_set: "set (jm_set m k v) \<subseteq> insert (k, v) (set m)"
  unfolding jm_set_def by (induction m) auto

lemma jm_get_merge:
  "jm_get (jm_merge m n) k = (case jm_get (rev n) k of None \<Rightarrow> jm_get m k | Some v \<Rightarrow> Some v)"
proof (induction n arbitrary: m)
  case Nil
  then show ?case by (simp add: jm_merge_def)
next
  case (Cons a n)
  have "jm_merge m (a # n) = jm_merge (jm_set m (fst a) (snd a)) n"
    by (simp add: jm_merge_def case_prod_unfold)
  then show ?case
    by (simp add: Cons.IH jm_get_append jm_get_Cons split: option.splits)
qed

lemma jm_wf_merge [simp, wf_intros]: "jm_wf m \<Longrightarrow> jm_wf (jm_merge m n)"
proof (induction n arbitrary: m)
  case Nil
  then show ?case by (simp add: jm_merge_def)
next
  case (Cons a n)
  have "jm_merge m (a # n) = jm_merge (jm_set m (fst a) (snd a)) n"
    by (simp add: jm_merge_def case_prod_unfold)
  with Cons show ?case by simp
qed

lemma jm_get_del_all [simp, jm_simps]:
  "jm_get (jm_del_all m ks) k = (if k \<in> set ks then None else jm_get m k)"
  unfolding jm_del_all_def by (induction ks arbitrary: m) auto

lemma jm_wf_del_all [simp, wf_intros]: "jm_wf m \<Longrightarrow> jm_wf (jm_del_all m ks)"
  unfolding jm_del_all_def by (induction ks arbitrary: m) auto

lemma jm_keys_iff: "k \<in> set (jm_keys m) \<longleftrightarrow> jm_get m k \<noteq> None"
  by (simp add: jm_keys_def jm_get_def map_of_eq_None_iff)

lemma jm_values_iff: "jm_wf m \<Longrightarrow> v \<in> set (jm_values m) \<longleftrightarrow> (\<exists>k. jm_get m k = Some v)"
  by (force simp: jm_values_def jm_mem_get [symmetric] image_iff)

lemma jm_set_new: "jm_get m k = None \<Longrightarrow> jm_set m k v = m @ [(k, v)]"
  unfolding jm_get_def jm_set_def by (induction m) (auto split: if_splits)

lemma sorted_values_del [simp]: "sorted_wrt P (jm_values m) \<Longrightarrow> sorted_wrt P (jm_values (jm_del m k))"
  unfolding jm_values_def jm_del_def by (induction m) (auto simp: AList.delete_eq)

section \<open>The keyed store interface\<close>

text \<open>
  What the components rely on of a store: lookups after an update and after a deletion, and
  that both keep the store well formed.
\<close>

locale keyed_store =
  fixes lookup :: "'m \<Rightarrow> 'k \<Rightarrow> 'v option"
    and insert :: "'m \<Rightarrow> 'k \<Rightarrow> 'v \<Rightarrow> 'm"
    and remove :: "'m \<Rightarrow> 'k \<Rightarrow> 'm"
    and wf :: "'m \<Rightarrow> bool"
  assumes lookup_insert: "lookup (insert m k v) k' = (if k' = k then Some v else lookup m k')"
    and lookup_remove: "lookup (remove m k) k' = (if k' = k then None else lookup m k')"
    and wf_insert: "wf m \<Longrightarrow> wf (insert m k v)"
    and wf_remove: "wf m \<Longrightarrow> wf (remove m k)"
begin

lemma remove_all: "lookup (foldl remove m ks) k = (if k \<in> set ks then None else lookup m k)"
  by (induction ks arbitrary: m) (auto simp: lookup_remove)

lemma wf_remove_all: "wf m \<Longrightarrow> wf (foldl remove m ks)"
  by (induction ks arbitrary: m) (auto simp: wf_remove)

end

interpretation jsm: keyed_store jm_get jm_set jm_del jm_wf
  by unfold_locales simp_all

section \<open>Event-driven machines\<close>

text \<open>
  The components are deterministic machines: a handler per event, and the environment (the
  network, timers, user callbacks, random sources) chooses the events. An invariant that
  holds at the start and is kept by every event the environment may produce holds after
  every run. \<open>ok\<close> says which events may occur in which state.
\<close>

fun run :: "('s \<Rightarrow> 'e \<Rightarrow> 's) \<Rightarrow> 's \<Rightarrow> 'e list \<Rightarrow> 's" where
  "run step s [] = s"
| "run step s (e # es) = run step (step s e) es"

fun run_ok :: "('s \<Rightarrow> 'e \<Rightarrow> bool) \<Rightarrow> ('s \<Rightarrow> 'e \<Rightarrow> 's) \<Rightarrow> 's \<Rightarrow> 'e list \<Rightarrow> bool" where
  "run_ok ok step s [] = True"
| "run_ok ok step s (e # es) = (ok s e \<and> run_ok ok step (step s e) es)"

lemma run_append: "run step s (xs @ ys) = run step (run step s xs) ys"
  by (induction xs arbitrary: s) auto

lemma run_ok_append:
  "run_ok ok step s (xs @ ys) \<longleftrightarrow> run_ok ok step s xs \<and> run_ok ok step (run step s xs) ys"
  by (induction xs arbitrary: s) auto

lemma run_ok_True [simp]: "run_ok (\<lambda>_ _. True) step s es"
  by (induction es arbitrary: s) auto

locale step_invariant =
  fixes step :: "'s \<Rightarrow> 'e \<Rightarrow> 's"
    and ok :: "'s \<Rightarrow> 'e \<Rightarrow> bool"
    and I :: "'s \<Rightarrow> bool"
  assumes I_step: "I s \<Longrightarrow> ok s e \<Longrightarrow> I (step s e)"
begin

lemma I_run: "I s \<Longrightarrow> run_ok ok step s es \<Longrightarrow> I (run step s es)"
  by (induction es arbitrary: s) (auto intro: I_step)

lemma I_prefix: "I s \<Longrightarrow> run_ok ok step s (xs @ ys) \<Longrightarrow> I (run step s xs)"
  by (auto simp: run_ok_append intro: I_run)

lemma I_every_step:
  "I s \<Longrightarrow> run_ok ok step s (xs @ e # ys) \<Longrightarrow> I (run step s xs) \<and> I (step (run step s xs) e)"
  by (auto simp: run_ok_append intro: I_run I_step)

end

end
