(* ===== verification/Notify_Protocol.thy ===== *)
theory Notify_Protocol
  imports Prelude
begin

text \<open>
  \<open>src/common/notify-protocol.ts\<close>: the room-to-server notification messages, the
  length-prefixed frames that carry them, and the streaming frame parser. The packcat codec
  (\<open>notifyCodec\<close>) is a third-party package: its \<open>pack\<close> and \<open>unpack\<close> are
  arguments of the definitions that use it, \<open>unpack\<close> returning \<open>None\<close> where
  the package throws.
\<close>

section \<open>Messages\<close>

record process_metrics =
  memoryRss :: int
  memoryHeapUsed :: int
  memoryHeapTotal :: int
  cpuUser :: int
  cpuSystem :: int

type_synonym tags = "(string, string) jsmap"

record heartbeat_client =
  hc_clientId :: string
  hc_tags :: tags

datatype notify_message =
    Ready nat
  | Heartbeat ms "process_metrics option" "heartbeat_client list"
  | ClientConnected string string tags
  | ClientDisconnected string
  | ErrorMsg string
  | Stopped

section \<open>Frames\<close>

definition HEADER_SIZE :: nat where
  "HEADER_SIZE = 4"

text \<open>\<open>DataView.setUint32(0, n, false)\<close>: big endian, the value taken modulo \<open>2 ^ 32\<close>.\<close>

definition setUint32 :: "nat \<Rightarrow> byte list" where
  "setUint32 n = [word_of_nat (n div 2 ^ 24), word_of_nat (n div 2 ^ 16), word_of_nat (n div 2 ^ 8), word_of_nat n]"

fun getUint32 :: "byte list \<Rightarrow> nat" where
  "getUint32 (a # b # c # d # _) = unat a * 2 ^ 24 + unat b * 2 ^ 16 + unat c * 2 ^ 8 + unat d"
| "getUint32 _ = 0"

definition encodeRawFrame :: "byte list \<Rightarrow> byte list" where
  "encodeRawFrame payload = setUint32 (length payload) @ payload"

definition encodeNotifyFrame :: "(notify_message \<Rightarrow> byte list) \<Rightarrow> notify_message \<Rightarrow> byte list" where
  "encodeNotifyFrame pack msg = encodeRawFrame (pack msg)"

text \<open>
  The \<open>while\<close> loop of the parser: the completed payloads, in order, and the bytes left
  in \<open>buffer\<close>. A read of the header happens only with four bytes present, so the
  second equation of \<^const>\<open>getUint32\<close> is never reached from here.
\<close>

function frame_loop :: "byte list \<Rightarrow> byte list list \<times> byte list" where
  "frame_loop buffer =
     (if HEADER_SIZE \<le> length buffer then
        let payloadLength = getUint32 buffer;
            totalFrameSize = HEADER_SIZE + payloadLength
        in if length buffer < totalFrameSize then ([], buffer)
           else let payload = take payloadLength (drop HEADER_SIZE buffer);
                    (frames, rest) = frame_loop (drop totalFrameSize buffer)
                in (payload # frames, rest)
      else ([], buffer))"
  by pat_completeness auto
termination
  by (relation "measure length") (auto simp: HEADER_SIZE_def)

declare frame_loop.simps [simp del]

text \<open>One call of the push function: merge the chunk into the buffer, then loop.\<close>

definition frame_parser_push :: "byte list \<Rightarrow> byte list \<Rightarrow> byte list list \<times> byte list" where
  "frame_parser_push buffer data = (if buffer = [] then frame_loop data else frame_loop (buffer @ data))"

text \<open>A whole stream of chunks through one parser.\<close>

fun frame_parser_run :: "byte list \<Rightarrow> byte list list \<Rightarrow> byte list list \<times> byte list" where
  "frame_parser_run buffer [] = ([], buffer)"
| "frame_parser_run buffer (chunk # chunks) =
     (let (frames, buffer') = frame_parser_push buffer chunk;
          (frames', rest) = frame_parser_run buffer' chunks
      in (frames @ frames', rest))"

text \<open>
  \<open>createFrameReader\<close>: each payload is unpacked; a payload the codec rejects goes to
  \<open>onError\<close> and is dropped, the others reach \<open>onMessage\<close>.
\<close>

datatype 'm reader_call = OnMessage 'm | OnError

definition frame_reader_payload :: "(byte list \<Rightarrow> 'm option) \<Rightarrow> byte list \<Rightarrow> 'm reader_call" where
  "frame_reader_payload unpack payload = (case unpack payload of Some m \<Rightarrow> OnMessage m | None \<Rightarrow> OnError)"

definition frame_reader_push ::
    "(byte list \<Rightarrow> 'm option) \<Rightarrow> byte list \<Rightarrow> byte list \<Rightarrow> 'm reader_call list \<times> byte list" where
  "frame_reader_push unpack buffer data =
     (let (payloads, rest) = frame_parser_push buffer data
      in (map (frame_reader_payload unpack) payloads, rest))"

fun frame_reader_run ::
    "(byte list \<Rightarrow> 'm option) \<Rightarrow> byte list \<Rightarrow> byte list list \<Rightarrow> 'm reader_call list \<times> byte list" where
  "frame_reader_run unpack buffer [] = ([], buffer)"
| "frame_reader_run unpack buffer (chunk # chunks) =
     (let (calls, buffer') = frame_reader_push unpack buffer chunk;
          (calls', rest) = frame_reader_run unpack buffer' chunks
      in (calls @ calls', rest))"

section \<open>Lemmas\<close>

lemma length_setUint32 [simp]: "length (setUint32 n) = 4"
  by (simp add: setUint32_def)

lemma unat_byte_of_nat: "unat (word_of_nat n :: byte) = n mod 256"
  by (simp add: unat_of_nat)

lemma getUint32_setUint32: "getUint32 (setUint32 n @ rest) = n mod 2 ^ 32"
proof -
  have h: "n mod (k * 256) = n div k mod 256 * k + n mod k" for k
    by (simp add: mod_mult2_eq mult.commute)
  have "n mod 2 ^ 32 = n div 2 ^ 24 mod 256 * 2 ^ 24 + n div 2 ^ 16 mod 256 * 2 ^ 16
      + n div 2 ^ 8 mod 256 * 2 ^ 8 + n mod 256"
    using h [of "2 ^ 24"] h [of "2 ^ 16"] h [of "2 ^ 8"] by simp
  then show ?thesis
    by (simp add: setUint32_def unat_byte_of_nat)
qed

lemma getUint32_append: "4 \<le> length xs \<Longrightarrow> getUint32 (xs @ ys) = getUint32 xs"
  by (induction xs rule: getUint32.induct) auto

lemma frame_loop_short: "length buffer < HEADER_SIZE \<Longrightarrow> frame_loop buffer = ([], buffer)"
  by (subst frame_loop.simps) simp

lemma frame_loop_Nil [simp]: "frame_loop [] = ([], [])"
  by (simp add: frame_loop_short HEADER_SIZE_def)

lemma frame_loop_incomplete:
  "length buffer < HEADER_SIZE + getUint32 buffer \<Longrightarrow> frame_loop buffer = ([], buffer)"
  by (subst frame_loop.simps) (simp add: Let_def)

lemma frame_loop_complete:
  assumes "HEADER_SIZE \<le> length buffer" and "HEADER_SIZE + getUint32 buffer \<le> length buffer"
  shows "frame_loop buffer =
    (take (getUint32 buffer) (drop HEADER_SIZE buffer) # fst (frame_loop (drop (HEADER_SIZE + getUint32 buffer) buffer)),
     snd (frame_loop (drop (HEADER_SIZE + getUint32 buffer) buffer)))"
  using assms by (subst frame_loop.simps) (simp add: Let_def case_prod_unfold)

lemma frame_loop_append:
  "frame_loop (xs @ ys) =
     (fst (frame_loop xs) @ fst (frame_loop (snd (frame_loop xs) @ ys)),
      snd (frame_loop (snd (frame_loop xs) @ ys)))"
proof (induction xs rule: frame_loop.induct)
  case (1 xs)
  show ?case
  proof (cases "HEADER_SIZE \<le> length xs \<and> HEADER_SIZE + getUint32 xs \<le> length xs")
    case True
    then have len: "HEADER_SIZE \<le> length xs" "HEADER_SIZE + getUint32 xs \<le> length xs" by auto
    have get: "getUint32 (xs @ ys) = getUint32 xs"
      using len by (simp add: getUint32_append HEADER_SIZE_def)
    have IH: "frame_loop (drop (HEADER_SIZE + getUint32 xs) xs @ ys) =
       (fst (frame_loop (drop (HEADER_SIZE + getUint32 xs) xs)) @
          fst (frame_loop (snd (frame_loop (drop (HEADER_SIZE + getUint32 xs) xs)) @ ys)),
        snd (frame_loop (snd (frame_loop (drop (HEADER_SIZE + getUint32 xs) xs)) @ ys)))"
      using "1.IH" len by simp
    show ?thesis
      using len IH by (simp add: frame_loop_complete [of xs] frame_loop_complete [of "xs @ ys"] get)
  next
    case False
    then have "frame_loop xs = ([], xs)"
      by (cases "HEADER_SIZE \<le> length xs") (simp_all add: frame_loop_incomplete frame_loop_short)
    then show ?thesis by simp
  qed
qed

lemma frame_parser_push_eq: "frame_parser_push buffer data = frame_loop (buffer @ data)"
  by (simp add: frame_parser_push_def)

text \<open>Chunk boundaries do not matter: only the concatenation of the chunks does.\<close>

lemma frame_parser_run_concat:
  "frame_loop buffer = ([], buffer) \<Longrightarrow> frame_parser_run buffer chunks = frame_loop (buffer @ concat chunks)"
proof (induction chunks arbitrary: buffer)
  case Nil
  then show ?case by simp
next
  case (Cons c cs)
  have "frame_loop (snd (frame_loop (buffer @ c))) = ([], snd (frame_loop (buffer @ c)))"
    using frame_loop_append [of "buffer @ c" "[]"] by (simp add: prod_eq_iff)
  then show ?case
    using frame_loop_append [of "buffer @ c" "concat cs"]
    by (simp add: frame_parser_push_eq case_prod_unfold Let_def Cons.IH)
qed

lemma frame_loop_encode:
  "length payload < 2 ^ 32 \<Longrightarrow>
     frame_loop (encodeRawFrame payload @ rest) = (payload # fst (frame_loop rest), snd (frame_loop rest))"
  by (subst frame_loop_complete)
     (simp_all add: encodeRawFrame_def getUint32_setUint32 HEADER_SIZE_def)

lemma frame_loop_encode_all:
  "\<forall>p \<in> set ps. length p < 2 ^ 32 \<Longrightarrow>
     frame_loop (concat (map encodeRawFrame ps) @ rest) = (ps @ fst (frame_loop rest), snd (frame_loop rest))"
  by (induction ps) (simp_all add: frame_loop_encode)

lemma frame_reader_run_eq:
  "frame_reader_run unpack buffer chunks =
     (map (frame_reader_payload unpack) (fst (frame_parser_run buffer chunks)), snd (frame_parser_run buffer chunks))"
  by (induction chunks arbitrary: buffer)
     (simp_all add: frame_reader_push_def case_prod_unfold Let_def)

text \<open>What stays in the buffer is an incomplete frame, and no byte is lost or duplicated.\<close>

lemma frame_loop_residue:
  "length (snd (frame_loop buffer)) < HEADER_SIZE \<or>
   length (snd (frame_loop buffer)) < HEADER_SIZE + getUint32 (snd (frame_loop buffer))"
proof (induction buffer rule: frame_loop.induct)
  case (1 buffer)
  show ?case
  proof (cases "HEADER_SIZE \<le> length buffer \<and> HEADER_SIZE + getUint32 buffer \<le> length buffer")
    case True
    then show ?thesis using "1.IH" by (simp add: frame_loop_complete [of buffer])
  next
    case False
    then show ?thesis
      by (cases "HEADER_SIZE \<le> length buffer") (simp_all add: frame_loop_incomplete frame_loop_short)
  qed
qed

lemma frame_stream_run:
  assumes "\<forall>p \<in> set payloads. length p < 2 ^ 32"
    and "concat chunks = concat (map encodeRawFrame payloads)"
  shows "frame_parser_run [] chunks = (payloads, [])"
  using frame_parser_run_concat [of "[]" chunks] frame_loop_encode_all [OF assms(1), of "[]"] assms(2)
  by simp

section \<open>Properties\<close>

text \<open>
  C24: however the transport cuts the stream into chunks, a parser that starts empty hands
  \<open>onFrame\<close> exactly the payloads that were framed with \<open>encodeRawFrame\<close>, in order,
  and ends with an empty buffer. Payloads are below 4 GiB, the range of the uint32 header.
\<close>

theorem frame_stream_roundtrip:
  assumes "\<forall>p \<in> set payloads. length p < 2 ^ 32"
    and "concat chunks = concat (map encodeRawFrame payloads)"
  shows "frame_parser_run [] chunks = (payloads, [])"
  using assms by (rule frame_stream_run)

theorem frame_stream_roundtrip_witness:
  "frame_parser_run [] [[0, 0], [0, 2, 7], [8, 0, 0, 0, 0, 0], [0, 0, 1, 9]] = ([[7, 8], [], [9]], [])"
  by (rule frame_stream_roundtrip) (simp_all add: encodeRawFrame_def setUint32_def)

text \<open>
  A room's notify messages survive the channel. Where the codec unpacks what it packed
  (packcat's contract) into payloads below 4 GiB, the server's frame reader calls
  \<open>onMessage\<close> with the messages the room sent, in order, for any chunking, even with
  malformed payloads framed in between: each of those costs one \<open>onError\<close> and nothing
  else.
\<close>

theorem notify_reader_delivers:
  assumes "\<forall>m. Inl m \<in> set items \<longrightarrow> unpack (pack m) = Some m \<and> length (pack m) < 2 ^ 32"
    and "\<forall>b. Inr b \<in> set items \<longrightarrow> unpack b = None \<and> length b < 2 ^ 32"
    and "concat chunks = concat (map (case_sum (encodeNotifyFrame pack) encodeRawFrame) items)"
  shows "frame_reader_run unpack [] chunks = (map (case_sum OnMessage (\<lambda>_. OnError)) items, [])"
proof -
  let ?p = "case_sum pack id"
  have frames: "map (case_sum (encodeNotifyFrame pack) encodeRawFrame) items = map encodeRawFrame (map ?p items)"
    by (auto simp: encodeNotifyFrame_def split: sum.splits)
  have small: "\<forall>p \<in> set (map ?p items). length p < 2 ^ 32"
    using assms(1,2) by (auto split: sum.splits)
  have "frame_parser_run [] chunks = (map ?p items, [])"
    using frame_stream_run [OF small] assms(3) frames by simp
  moreover have "map (frame_reader_payload unpack) (map ?p items) = map (case_sum OnMessage (\<lambda>_. OnError)) items"
    using assms(1,2) by (auto simp: frame_reader_payload_def split: sum.splits)
  ultimately show ?thesis by (simp add: frame_reader_run_eq)
qed

theorem notify_reader_delivers_witness:
  "frame_reader_run (\<lambda>b. if b = [5] then Some Stopped else None) [] [[0, 0, 0], [1, 5, 0, 0, 0, 2], [8, 9]] =
     ([OnMessage Stopped, OnError], [])"
  using notify_reader_delivers [of "[Inl Stopped, Inr [8, 9]]" "\<lambda>b. if b = [5] then Some Stopped else None"
      "\<lambda>_. [5]" "[[0, 0, 0], [1, 5, 0, 0, 0, 2], [8, 9]]"]
  by (simp add: encodeNotifyFrame_def encodeRawFrame_def setUint32_def)

end
