(* ===== verification/Protocol.thy ===== *)
theory Protocol
  imports Prelude
begin

text \<open>
  \<open>src/common/protocol.ts\<close> and \<open>src/common/close-code.ts\<close>: the one-byte framing of websocket
  messages. JavaScript strings are lists of UTF-16 code units; \<open>TextEncoder\<close> and
  \<open>TextDecoder\<close> are written out (WHATWG encoding standard: a lone surrogate encodes as
  U+FFFD, a malformed sequence decodes to U+FFFD per maximal subpart, and a decoder created
  without \<open>ignoreBOM\<close> drops a leading byte order mark). The packcat codec of the protocol
  messages is an argument.
\<close>

section \<open>Text\<close>

type_synonym js_string = "nat list"

fun utf16_scalars :: "js_string \<Rightarrow> nat list" where
  "utf16_scalars [] = []"
| "utf16_scalars [u] = [if 0xD800 \<le> u \<and> u \<le> 0xDFFF then 0xFFFD else u]"
| "utf16_scalars (u # v # us) =
     (if 0xD800 \<le> u \<and> u \<le> 0xDBFF \<and> 0xDC00 \<le> v \<and> v \<le> 0xDFFF
      then (0x10000 + (u - 0xD800) * 0x400 + (v - 0xDC00)) # utf16_scalars us
      else (if 0xD800 \<le> u \<and> u \<le> 0xDFFF then 0xFFFD else u) # utf16_scalars (v # us))"

definition scalar_units :: "nat \<Rightarrow> js_string" where
  "scalar_units c =
     (if c < 0x10000 then [c] else [0xD800 + (c - 0x10000) div 0x400, 0xDC00 + (c - 0x10000) mod 0x400])"

definition utf8_scalar :: "nat \<Rightarrow> nat list" where
  "utf8_scalar c =
     (if c < 0x80 then [c]
      else if c < 0x800 then [0xC0 + c div 64, 0x80 + c mod 64]
      else if c < 0x10000 then [0xE0 + c div 4096, 0x80 + c div 64 mod 64, 0x80 + c mod 64]
      else [0xF0 + c div 262144, 0x80 + c div 4096 mod 64, 0x80 + c div 64 mod 64, 0x80 + c mod 64])"

definition cont :: "nat \<Rightarrow> bool" where
  "cont b = (0x80 \<le> b \<and> b \<le> 0xBF)"

fun utf8_scalars :: "nat list \<Rightarrow> nat list" where
  "utf8_scalars [] = []"
| "utf8_scalars (b # bs) =
     (if b < 0x80 then b # utf8_scalars bs
      else if 0xC2 \<le> b \<and> b \<le> 0xDF then
        (case bs of [] \<Rightarrow> [0xFFFD]
         | c # cs \<Rightarrow> if cont c then ((b - 0xC0) * 64 + (c - 0x80)) # utf8_scalars cs else 0xFFFD # utf8_scalars bs)
      else if 0xE0 \<le> b \<and> b \<le> 0xEF then
        (case bs of [] \<Rightarrow> [0xFFFD]
         | c # cs \<Rightarrow>
             if (if b = 0xE0 then 0xA0 else 0x80) \<le> c \<and> c \<le> (if b = 0xED then 0x9F else 0xBF) then
               (case cs of [] \<Rightarrow> [0xFFFD]
                | d # ds \<Rightarrow>
                    if cont d then ((b - 0xE0) * 4096 + (c - 0x80) * 64 + (d - 0x80)) # utf8_scalars ds
                    else 0xFFFD # utf8_scalars cs)
             else 0xFFFD # utf8_scalars bs)
      else if 0xF0 \<le> b \<and> b \<le> 0xF4 then
        (case bs of [] \<Rightarrow> [0xFFFD]
         | c # cs \<Rightarrow>
             if (if b = 0xF0 then 0x90 else 0x80) \<le> c \<and> c \<le> (if b = 0xF4 then 0x8F else 0xBF) then
               (case cs of [] \<Rightarrow> [0xFFFD]
                | d # ds \<Rightarrow>
                    if cont d then
                      (case ds of [] \<Rightarrow> [0xFFFD]
                       | e # es \<Rightarrow>
                           if cont e
                           then ((b - 0xF0) * 262144 + (c - 0x80) * 4096 + (d - 0x80) * 64 + (e - 0x80)) # utf8_scalars es
                           else 0xFFFD # utf8_scalars ds)
                    else 0xFFFD # utf8_scalars cs)
             else 0xFFFD # utf8_scalars bs)
      else 0xFFFD # utf8_scalars bs)"

definition strip_bom :: "nat list \<Rightarrow> nat list" where
  "strip_bom bs = (if take 3 bs = [0xEF, 0xBB, 0xBF] then drop 3 bs else bs)"

definition textEncoder_encode :: "js_string \<Rightarrow> byte list" where
  "textEncoder_encode s = map word_of_nat (concat (map utf8_scalar (utf16_scalars s)))"

definition textDecoder_decode :: "byte list \<Rightarrow> js_string" where
  "textDecoder_decode bs = concat (map scalar_units (utf8_scalars (strip_bom (map unat bs))))"

text \<open>A string without lone surrogates, all units 16 bit.\<close>

fun well_formed_utf16 :: "js_string \<Rightarrow> bool" where
  "well_formed_utf16 [] = True"
| "well_formed_utf16 [u] = (u < 0x10000 \<and> \<not> (0xD800 \<le> u \<and> u \<le> 0xDFFF))"
| "well_formed_utf16 (u # v # us) =
     (if 0xD800 \<le> u \<and> u \<le> 0xDBFF then 0xDC00 \<le> v \<and> v \<le> 0xDFFF \<and> well_formed_utf16 us
      else u < 0x10000 \<and> \<not> (0xDC00 \<le> u \<and> u \<le> 0xDFFF) \<and> well_formed_utf16 (v # us))"

section \<open>Frames\<close>

definition PROTOCOL_VERSION :: nat where
  "PROTOCOL_VERSION = 1"

definition FRAME_PROTOCOL :: byte where
  "FRAME_PROTOCOL = 0x00"

definition FRAME_USER_TEXT :: byte where
  "FRAME_USER_TEXT = 0x01"

definition FRAME_USER_BINARY :: byte where
  "FRAME_USER_BINARY = 0x02"

definition CONSENTED :: nat where
  "CONSENTED = 4000"

definition GOING_AWAY :: nat where
  "GOING_AWAY = 1001"

definition ABNORMAL :: nat where
  "ABNORMAL = 1006"

datatype protocol_message = Session string string | AuthError string | Leave

datatype frame = ProtocolFrame protocol_message | UserText js_string | UserBinary "byte list"

datatype frame_error = EmptyFrame | UnknownFrameType byte | CodecError | BlobNotConverted

definition packProtocol :: "(protocol_message \<Rightarrow> byte list) \<Rightarrow> protocol_message \<Rightarrow> byte list" where
  "packProtocol pack msg = FRAME_PROTOCOL # pack msg"

definition packUserText :: "js_string \<Rightarrow> byte list" where
  "packUserText t = FRAME_USER_TEXT # textEncoder_encode t"

definition packUserBinary :: "byte list \<Rightarrow> byte list" where
  "packUserBinary data = FRAME_USER_BINARY # data"

definition unpackFrame :: "(byte list \<Rightarrow> protocol_message option) \<Rightarrow> byte list \<Rightarrow> frame_error + frame" where
  "unpackFrame unpack data =
     (case data of [] \<Rightarrow> Inl EmptyFrame
      | ty # payload \<Rightarrow>
          if ty = FRAME_PROTOCOL then
            (case unpack payload of Some m \<Rightarrow> Inr (ProtocolFrame m) | None \<Rightarrow> Inl CodecError)
          else if ty = FRAME_USER_TEXT then Inr (UserText (textDecoder_decode payload))
          else if ty = FRAME_USER_BINARY then Inr (UserBinary payload)
          else Inl (UnknownFrameType ty))"

text \<open>
  The values \<open>send\<close> takes: a string, an \<open>ArrayBuffer\<close>, a view of a buffer (buffer, byte
  offset, byte length), or a \<open>Blob\<close>, which the framing refuses.
\<close>

datatype user_message = TextMsg js_string | BufferMsg "byte list" | ViewMsg "byte list" nat nat | BlobMsg "byte list"

definition frameUserMessage :: "user_message \<Rightarrow> frame_error + byte list" where
  "frameUserMessage m =
     (case m of TextMsg t \<Rightarrow> Inr (packUserText t)
      | BufferMsg b \<Rightarrow> Inr (packUserBinary b)
      | BlobMsg _ \<Rightarrow> Inl BlobNotConverted
      | ViewMsg buf off len \<Rightarrow> Inr (packUserBinary (take len (drop off buf))))"

section \<open>Lemmas\<close>

definition scalar :: "nat \<Rightarrow> bool" where
  "scalar c = (c < 0x110000 \<and> \<not> (0xD800 \<le> c \<and> c \<le> 0xDFFF))"

lemma utf16_scalars_scalar: "well_formed_utf16 us \<Longrightarrow> c \<in> set (utf16_scalars us) \<Longrightarrow> scalar c"
  by (induction us rule: utf16_scalars.induct) (auto simp: scalar_def split: if_splits)

lemma utf16_scalars_units: "well_formed_utf16 us \<Longrightarrow> concat (map scalar_units (utf16_scalars us)) = us"
proof (induction us rule: utf16_scalars.induct)
  case (3 u v us)
  show ?case
  proof (cases "0xD800 \<le> u \<and> u \<le> 0xDBFF")
    case True
    with "3.prems" have v: "0xDC00 \<le> v" "v \<le> 0xDFFF" "well_formed_utf16 us" by auto
    define a b where "a = u - 0xD800" and "b = v - 0xDC00"
    have ab: "u = 0xD800 + a" "v = 0xDC00 + b" "b < 0x400"
      using True v by (auto simp: a_def b_def)
    have "scalar_units (0x10000 + (u - 0xD800) * 0x400 + (v - 0xDC00)) = [u, v]"
      using ab by (simp add: scalar_units_def)
    with True v "3.IH"(1) show ?thesis by simp
  next
    case False
    with "3.prems" "3.IH"(2) show ?thesis by (auto simp: scalar_units_def)
  qed
qed (auto simp: scalar_units_def)

lemma utf8_scalar_bytes: "scalar c \<Longrightarrow> b \<in> set (utf8_scalar c) \<Longrightarrow> b < 256"
  by (auto simp: utf8_scalar_def scalar_def split: if_splits)

lemma cont_mod: "cont (0x80 + n mod 64)"
  by (simp add: cont_def)

lemma utf8_scalars_scalar: "scalar c \<Longrightarrow> utf8_scalars (utf8_scalar c @ rest) = c # utf8_scalars rest"
proof -
  assume s: "scalar c"
  have m: "n div 64 * 64 + n mod 64 = n" and lt: "n mod 64 \<le> 63" for n :: nat by simp_all
  have q: "c div 64 div 64 = c div 4096" "c div 4096 div 64 = c div 262144"
    by (simp_all add: div_mult2_eq [symmetric])
  have d2: "c div 4096 * 64 + c div 64 mod 64 = c div 64" and d3: "c div 262144 * 64 + c div 4096 mod 64 = c div 4096"
    using m [of "c div 64"] m [of "c div 4096"] by (simp_all only: q)
  consider "c < 0x80" | "0x80 \<le> c" "c < 0x800" | "0x800 \<le> c" "c < 0x10000" | "0x10000 \<le> c" by linarith
  then show ?thesis
  proof cases
    case 1
    then show ?thesis by (simp add: utf8_scalar_def)
  next
    case 2
    with m [of c] lt [of c] have "2 \<le> c div 64" "c div 64 \<le> 31" by linarith+
    with 2 show ?thesis by (simp add: utf8_scalar_def cont_mod)
  next
    case 3
    have b: "c div 4096 \<le> 15" using 3 d2 m [of c] by linarith
    have lo: "32 \<le> c div 64 mod 64" if "c div 4096 = 0" using 3 d2 m [of c] lt [of c] that by linarith
    have hi: "c div 64 mod 64 \<le> 31" if "c div 4096 = 13"
      using 3 s d2 m [of c] lt [of c] that unfolding scalar_def by linarith
    have "c div 4096 * 4096 + c div 64 mod 64 * 64 + c mod 64 = c"
      using d2 m [of c] by linarith
    moreover have "c div 64 \<le> 63" if "c div 4096 = 0" using d2 lt [of "c div 64"] that by linarith
    ultimately show ?thesis using 3 b lo hi lt [of "c div 64"] by (simp add: utf8_scalar_def cont_mod)
  next
    case 4
    have b: "c div 262144 \<le> 4" using s d2 d3 m [of c] unfolding scalar_def by linarith
    have lo: "16 \<le> c div 4096 mod 64" if "c div 262144 = 0"
      using 4 d2 d3 m [of c] lt [of c] lt [of "c div 64"] that by linarith
    have hi: "c div 4096 mod 64 \<le> 15" if "c div 262144 = 4"
      using s d2 d3 m [of c] that unfolding scalar_def by linarith
    have "c div 262144 * 262144 + c div 4096 mod 64 * 4096 + c div 64 mod 64 * 64 + c mod 64 = c"
      using d2 d3 m [of c] by linarith
    with 4 b lo hi lt [of "c div 4096"] show ?thesis by (simp add: utf8_scalar_def cont_mod)
  qed
qed

lemma utf8_scalars_all: "\<forall>c \<in> set cs. scalar c \<Longrightarrow> utf8_scalars (concat (map utf8_scalar cs)) = cs"
  by (induction cs) (simp_all add: utf8_scalars_scalar del: utf8_scalars.simps(2))

lemma textDecoder_encode_strip:
  assumes "well_formed_utf16 t"
  shows "textDecoder_decode (textEncoder_encode t) =
    concat (map scalar_units (utf8_scalars (strip_bom (concat (map utf8_scalar (utf16_scalars t))))))"
proof -
  have "b < 256" if "b \<in> set (concat (map utf8_scalar (utf16_scalars t)))" for b
    using that utf16_scalars_scalar [OF assms] utf8_scalar_bytes by auto
  then have "map unat (map word_of_nat (concat (map utf8_scalar (utf16_scalars t))) :: byte list) =
      concat (map utf8_scalar (utf16_scalars t))"
    unfolding map_map by (intro map_idI) (simp add: unat_of_nat)
  then show ?thesis by (simp only: textDecoder_decode_def textEncoder_encode_def)
qed

lemma utf8_scalar_bom: "scalar c \<Longrightarrow> take 3 (utf8_scalar c @ rest) = [0xEF, 0xBB, 0xBF] \<longleftrightarrow> c = 0xFEFF"
proof
  assume s: "scalar c" and t: "take 3 (utf8_scalar c @ rest) = [0xEF, 0xBB, 0xBF]"
  show "c = 0xFEFF"
  proof (cases "c < 0x10000 \<and> 0x800 \<le> c")
    case True
    with t have "0xE0 + c div 4096 = 0xEF" "0x80 + c div 64 mod 64 = 0xBB" "0x80 + c mod 64 = 0xBF"
      by (simp_all add: utf8_scalar_def)
    moreover have "c div 64 * 64 + c mod 64 = c" by simp
    moreover have "c div 4096 * 64 + c div 64 mod 64 = c div 64"
      using div_mult_mod_eq [of "c div 64" 64] by (simp add: div_mult2_eq [symmetric])
    ultimately show ?thesis by linarith
  next
    case False
    have "c div 64 \<le> 31" if "c < 0x800" using that div_mult_mod_eq [of c 64] by linarith
    moreover have "c div 262144 \<le> 4" if "c < 0x110000" using that div_le_mono [of c "0x10FFFF" 262144] by simp
    ultimately show ?thesis using False s t by (auto simp: utf8_scalar_def scalar_def split: if_splits)
  qed
qed (simp add: utf8_scalar_def)

lemma utf16_scalars_bom: "well_formed_utf16 (u # us) \<Longrightarrow> (hd (utf16_scalars (u # us)) = 0xFEFF) = (u = 0xFEFF)"
  by (cases us) auto

lemma utf16_scalars_Cons_bom: "utf16_scalars (0xFEFF # us) = 0xFEFF # utf16_scalars us"
  by (cases us) simp_all

lemma text_roundtrip:
  assumes "well_formed_utf16 t"
  shows "textDecoder_decode (textEncoder_encode t) = (if take 1 t = [0xFEFF] then drop 1 t else t)"
proof (cases t)
  case Nil
  then show ?thesis by (simp add: textDecoder_decode_def textEncoder_encode_def strip_bom_def)
next
  case (Cons u us)
  obtain c cs where c: "utf16_scalars t = c # cs"
    using Cons by (cases "utf16_scalars t") (cases us; simp split: if_splits)+
  have all: "\<forall>x \<in> set (c # cs). scalar x"
    using utf16_scalars_scalar [OF assms] c by auto
  have bom: "c = 0xFEFF \<longleftrightarrow> u = 0xFEFF"
    using utf16_scalars_bom [of u us] assms Cons c by simp
  have units: "concat (map scalar_units (c # cs)) = t"
    using utf16_scalars_units [OF assms] c by simp
  show ?thesis
  proof (cases "u = 0xFEFF")
    case True
    then have cs: "c = 0xFEFF" and "cs = utf16_scalars us"
      using c Cons utf16_scalars_Cons_bom [of us] by auto
    have "strip_bom (concat (map utf8_scalar (c # cs))) = concat (map utf8_scalar cs)"
      by (simp add: strip_bom_def cs utf8_scalar_def)
    moreover have "utf8_scalars (concat (map utf8_scalar cs)) = cs"
      using all by (simp add: utf8_scalars_all)
    moreover have "concat (map scalar_units cs) = us"
      using units cs Cons True by (simp add: scalar_units_def)
    ultimately have "textDecoder_decode (textEncoder_encode t) = us"
      using textDecoder_encode_strip [OF assms] c by simp
    then show ?thesis using True Cons by simp
  next
    case False
    have "strip_bom (concat (map utf8_scalar (c # cs))) = concat (map utf8_scalar (c # cs))"
      using utf8_scalar_bom [of c "concat (map utf8_scalar cs)"] all bom False by (simp add: strip_bom_def)
    then have "utf8_scalars (strip_bom (concat (map utf8_scalar (c # cs)))) = c # cs"
      using utf8_scalars_all [OF all] by simp
    then have "textDecoder_decode (textEncoder_encode t) = t"
      using textDecoder_encode_strip [OF assms] c units by simp
    then show ?thesis using False Cons by simp
  qed
qed

section \<open>Properties\<close>

text \<open>
  Framing a user message and unpacking the frame gives the message back: binary data and
  views byte for byte, text unit for unit, except that a text whose first unit is a byte order
  mark arrives without it. A \<open>Blob\<close> is refused.
\<close>

theorem user_message_roundtrip:
  assumes "\<forall>t. m = TextMsg t \<longrightarrow> well_formed_utf16 t"
  shows "(case frameUserMessage m of Inl e \<Rightarrow> Inl e | Inr f \<Rightarrow> unpackFrame unpack f) =
    (case m of TextMsg t \<Rightarrow> Inr (UserText (if take 1 t = [0xFEFF] then drop 1 t else t))
     | BufferMsg b \<Rightarrow> Inr (UserBinary b)
     | ViewMsg buf off len \<Rightarrow> Inr (UserBinary (take len (drop off buf)))
     | BlobMsg _ \<Rightarrow> Inl BlobNotConverted)"
  using assms
  by (cases m) (simp_all add: frameUserMessage_def unpackFrame_def packUserText_def packUserBinary_def
      FRAME_USER_TEXT_def FRAME_USER_BINARY_def FRAME_PROTOCOL_def text_roundtrip)

theorem user_message_roundtrip_witness:
  "(case frameUserMessage (TextMsg [0xFEFF, 104, 0xD83D, 0xDE00]) of Inl e \<Rightarrow> Inl e | Inr f \<Rightarrow> unpackFrame (\<lambda>_. None) f) =
     Inr (UserText [104, 0xD83D, 0xDE00])"
  using user_message_roundtrip [of "TextMsg [0xFEFF, 104, 0xD83D, 0xDE00]" "\<lambda>_. None"] by simp

end
