(* ===== verification/Room_Engine.thy ===== *)
theory Room_Engine
  imports Prelude Notify_Protocol Protocol
begin

text \<open>
  \<open>src/room/start.ts\<close>: the room engine. Tracked clients are mutable objects that outlive their
  entry in \<open>state.clients\<close> (user code keeps the \<open>Client\<close> handles, timers and awaited
  callbacks close over them), so they live in a heap and everything else refers to them by
  address; a handle is the address of its tracked client. Every synchronous piece of code
  between two awaits is one function on the state. What the room does to the outside (socket
  calls, pub/sub, notify messages, scheduled user callbacks) is appended to a log, in order.
  User callbacks run in the environment: a call is a log entry, its settling a later event, and
  whatever it does with handles and the room are events of their own.
\<close>

section \<open>State\<close>

type_synonym addr = nat
type_synonym sock = nat

record buffered_message =
  bm_payload :: "byte list"
  bm_byteSize :: nat

record tracked_client =
  tc_id :: string
  tc_data :: string
  tc_socket :: "sock option"
  tc_sessionToken :: string
  tc_reliableBuffer :: "buffered_message list"
  tc_reliableBufferBytes :: nat
  tc_disconnectTimer :: "nat option"
  tc_tags :: tags
  tc_alive :: bool

datatype callback =
    OnAuth string string
  | OnJoin addr
  | OnMessage addr frame
  | OnLeave addr
  | OnDrop addr nat
  | OnReconnect addr
  | OnShutdown

datatype action =
    Send sock "byte list"
  | CloseSocket sock nat string
  | Subscribe sock string
  | Publish string "byte list"
  | Ipc notify_message
  | IpcClose
  | ServerClose
  | Call callback

datatype notify_source = NotifierObject | NotifyUri string

datatype start_phase = NotStarting | Dialing | Listening

datatype room_error = NotStarted | AlreadyStarted | NoManagedContext | Framing frame_error

text \<open>
  What the room is created with and never changes: the packcat codec of the protocol messages,
  \<open>jwtVerify\<close> on this room's clock, the buffer cap and which callbacks are defined.
\<close>

record seat_claims =
  sc_clientId :: string
  sc_roomId :: string
  sc_data :: "string option"
  sc_tags :: "tags option"

record room_config =
  pack :: "protocol_message \<Rightarrow> byte list"
  unpack :: "byte list \<Rightarrow> protocol_message option"
  jwtVerify :: "string \<Rightarrow> string \<Rightarrow> seat_claims option"
  maxBufferBytes :: int
  has_onJoin :: bool
  has_onMessage :: bool
  has_onLeave :: bool
  has_onDrop :: bool
  has_onReconnect :: bool
  has_onShutdown :: bool

record pending_auth =
  pa_clientId :: string
  pa_socket :: sock
  pa_tags :: tags

record room_state =
  rs_roomId :: string
  rs_roomType :: string
  rs_serverId :: "string option"
  rs_roomSecret :: "string option"
  rs_clients :: "(string, addr) jsmap"
  rs_sessionTokens :: "(string, string) jsmap"
  rs_notifySource :: "notify_source option"
  rs_ipc :: bool
  rs_heartbeatInterval :: bool
  rs_started :: bool
  rs_alive :: bool
  rs_server :: bool
  rs_sigtermHandler :: bool
  rs_startWarnTimer :: bool
  rs_phase :: start_phase
  rs_stopping :: "bool option"
  rs_heap :: "(addr, tracked_client) jsmap"
  rs_timers :: "(nat, addr) jsmap"
  rs_auths :: "(nat, pending_auth) jsmap"
  rs_drops :: "(nat, addr) jsmap"
  rs_next :: nat
  rs_log :: "action list"

definition BROADCAST_TOPIC :: string where
  "BROADCAST_TOPIC = ''room''"

definition HEARTBEAT_INTERVAL_MS :: ms where
  "HEARTBEAT_INTERVAL_MS = 3000"

definition DEFAULT_MAX_BUFFER_BYTES :: int where
  "DEFAULT_MAX_BUFFER_BYTES = 1048576"

definition deref :: "room_state \<Rightarrow> addr \<Rightarrow> tracked_client option" where
  "deref s a = jm_get (rs_heap s) a"

definition put :: "room_state \<Rightarrow> addr \<Rightarrow> tracked_client \<Rightarrow> room_state" where
  "put s a t = s\<lparr>rs_heap := jm_set (rs_heap s) a t\<rparr>"

definition act :: "room_state \<Rightarrow> action list \<Rightarrow> room_state" where
  "act s as = s\<lparr>rs_log := rs_log s @ as\<rparr>"

text \<open>\<open>state.ipc?.send(msg)\<close>, and a callback scheduled only where it is defined.\<close>

definition ipc_send :: "room_state \<Rightarrow> notify_message \<Rightarrow> action list" where
  "ipc_send s msg = (if rs_ipc s then [Ipc msg] else [])"

definition call :: "bool \<Rightarrow> callback \<Rightarrow> action list" where
  "call defined cb = (if defined then [Call cb] else [])"

section \<open>Eviction and buffering\<close>

definition clear_timer :: "room_state \<Rightarrow> nat option \<Rightarrow> room_state" where
  "clear_timer s k = (case k of None \<Rightarrow> s | Some i \<Rightarrow> s\<lparr>rs_timers := jm_del (rs_timers s) i\<rparr>)"

text \<open>The parts of a tracked client that an eviction and a shutdown reset.\<close>

definition retired :: "tracked_client \<Rightarrow> tracked_client" where
  "retired t = t\<lparr>tc_alive := False, tc_disconnectTimer := None, tc_reliableBuffer := [], tc_reliableBufferBytes := 0\<rparr>"

definition evictClient :: "room_config \<Rightarrow> room_state \<Rightarrow> addr \<Rightarrow> room_state" where
  "evictClient cfg s a =
     (case deref s a of None \<Rightarrow> s
      | Some t \<Rightarrow>
          if \<not> tc_alive t then s
          else
            let s1 = clear_timer (put s a (retired t)) (tc_disconnectTimer t);
                s2 = s1\<lparr>rs_sessionTokens := jm_del (rs_sessionTokens s1) (tc_sessionToken t)\<rparr>;
                s3 = act s2 (case tc_socket t of Some k \<Rightarrow> [CloseSocket k 4000 ''evicted''] | None \<Rightarrow> []);
                s4 = s3\<lparr>rs_clients := jm_del (rs_clients s3) (tc_id t)\<rparr>
            in act s4 (call (has_onLeave cfg) (OnLeave a) @ ipc_send s4 (ClientDisconnected (tc_id t))))"

definition bufferForClient :: "room_config \<Rightarrow> room_state \<Rightarrow> addr \<Rightarrow> byte list \<Rightarrow> room_state" where
  "bufferForClient cfg s a payload =
     (case deref s a of None \<Rightarrow> s
      | Some t \<Rightarrow>
          let byteSize = length payload;
              t1 = t\<lparr>tc_reliableBuffer := tc_reliableBuffer t @ [\<lparr>bm_payload = payload, bm_byteSize = byteSize\<rparr>],
                     tc_reliableBufferBytes := tc_reliableBufferBytes t + byteSize\<rparr>;
              s1 = put s a t1
          in if int (tc_reliableBufferBytes t1) > maxBufferBytes cfg then evictClient cfg s1 a else s1)"

section \<open>Client handles\<close>

definition handle_send ::
    "room_config \<Rightarrow> room_state \<Rightarrow> addr \<Rightarrow> user_message \<Rightarrow> bool \<Rightarrow> (room_error + unit) \<times> room_state" where
  "handle_send cfg s a message reliable =
     (case deref s a of None \<Rightarrow> (Inr (), s)
      | Some t \<Rightarrow>
          if \<not> tc_alive t \<or> \<not> rs_alive s then (Inr (), s)
          else case frameUserMessage message of Inl e \<Rightarrow> (Inl (Framing e), s)
            | Inr framed \<Rightarrow>
                (case tc_socket t of Some k \<Rightarrow> (Inr (), act s [Send k framed])
                 | None \<Rightarrow> if reliable then (Inr (), bufferForClient cfg s a framed) else (Inr (), s)))"

definition handle_allowReconnection :: "room_state \<Rightarrow> addr \<Rightarrow> room_state" where
  "handle_allowReconnection s a =
     (case deref s a of None \<Rightarrow> s
      | Some t \<Rightarrow>
          if \<not> tc_alive t then s
          else if tc_socket t \<noteq> None then s
          else (put s a (t\<lparr>tc_disconnectTimer := Some (rs_next s)\<rparr>))
                 \<lparr>rs_timers := jm_set (rs_timers s) (rs_next s) a, rs_next := Suc (rs_next s)\<rparr>)"

text \<open>The window has passed: the callback that \<open>setTimeout\<close> got.\<close>

definition timer_fire :: "room_config \<Rightarrow> room_state \<Rightarrow> nat \<Rightarrow> room_state" where
  "timer_fire cfg s i =
     (case jm_get (rs_timers s) i of None \<Rightarrow> s
      | Some a \<Rightarrow>
          let s1 = s\<lparr>rs_timers := jm_del (rs_timers s) i\<rparr>
          in case deref s1 a of None \<Rightarrow> s1
             | Some t \<Rightarrow> evictClient cfg (put s1 a (t\<lparr>tc_disconnectTimer := None\<rparr>)) a)"

definition handle_disconnect :: "room_config \<Rightarrow> room_state \<Rightarrow> addr \<Rightarrow> room_state" where
  "handle_disconnect cfg s a =
     (case deref s a of None \<Rightarrow> s
      | Some t \<Rightarrow> if \<not> tc_alive t then s else evictClient cfg s a)"

text \<open>\<open>depth\<close> is the socket's own \<open>bufferedAmount()\<close>.\<close>

definition handle_bufferedAmount :: "(sock \<Rightarrow> nat) \<Rightarrow> room_state \<Rightarrow> addr \<Rightarrow> nat" where
  "handle_bufferedAmount depth s a =
     (case deref s a of None \<Rightarrow> 0
      | Some t \<Rightarrow> if \<not> tc_alive t then 0 else (case tc_socket t of Some k \<Rightarrow> depth k | None \<Rightarrow> 0))"

section \<open>The client collection\<close>

definition clients_get :: "room_state \<Rightarrow> string \<Rightarrow> addr option" where
  "clients_get s k = jm_get (rs_clients s) k"

definition clients_has :: "room_state \<Rightarrow> string \<Rightarrow> bool" where
  "clients_has s k = jm_has (rs_clients s) k"

definition clients_count :: "room_state \<Rightarrow> nat" where
  "clients_count s = length (rs_clients s)"

definition clients_ids :: "room_state \<Rightarrow> string list" where
  "clients_ids s = jm_keys (rs_clients s)"

definition clients_all :: "room_state \<Rightarrow> addr list" where
  "clients_all s = jm_values (rs_clients s)"

section \<open>Broadcast\<close>

text \<open>
  \<open>except\<close> is given by the ids of the excluded handles. The loops run over the clients present
  at the start: an overflow inside deletes only the entry being visited.
\<close>

definition broadcast_buffer :: "room_config \<Rightarrow> byte list \<Rightarrow> room_state \<Rightarrow> addr \<Rightarrow> room_state" where
  "broadcast_buffer cfg framed s a =
     (case deref s a of None \<Rightarrow> s
      | Some t \<Rightarrow> if tc_socket t = None then bufferForClient cfg s a framed else s)"

definition broadcast_one ::
    "room_config \<Rightarrow> byte list \<Rightarrow> bool \<Rightarrow> string list \<Rightarrow> room_state \<Rightarrow> addr \<Rightarrow> room_state" where
  "broadcast_one cfg framed reliable excludedIds s a =
     (case deref s a of None \<Rightarrow> s
      | Some t \<Rightarrow>
          if tc_id t \<in> set excludedIds then s
          else case tc_socket t of Some k \<Rightarrow> act s [Send k framed]
            | None \<Rightarrow> if reliable then bufferForClient cfg s a framed else s)"

definition broadcast ::
    "room_config \<Rightarrow> room_state \<Rightarrow> user_message \<Rightarrow> bool \<Rightarrow> string list option \<Rightarrow>
     (room_error + unit) \<times> room_state" where
  "broadcast cfg s message reliable except =
     (if \<not> rs_started s then (Inl NotStarted, s)
      else if \<not> rs_alive s then (Inr (), s)
      else if \<not> rs_server s then (Inr (), s)
      else case frameUserMessage message of Inl e \<Rightarrow> (Inl (Framing e), s)
        | Inr framed \<Rightarrow>
            (case except of
               None \<Rightarrow>
                 let s1 = act s [Publish BROADCAST_TOPIC framed]
                 in (Inr (), if reliable then foldl (broadcast_buffer cfg framed) s1 (clients_all s1) else s1)
             | Some excludedIds \<Rightarrow>
                 (Inr (), foldl (broadcast_one cfg framed reliable excludedIds) s (clients_all s))))"

section \<open>Heartbeat\<close>

definition heartbeat_clients :: "room_state \<Rightarrow> heartbeat_client list" where
  "heartbeat_clients s =
     concat (map (\<lambda>(k, a). case deref s a of None \<Rightarrow> []
                   | Some t \<Rightarrow> if tc_socket t \<noteq> None then [\<lparr>hc_clientId = k, hc_tags = tc_tags t\<rparr>] else [])
             (rs_clients s))"

definition heartbeat_tick :: "room_state \<Rightarrow> ms \<Rightarrow> process_metrics option \<Rightarrow> room_state" where
  "heartbeat_tick s now metrics =
     (if \<not> rs_heartbeatInterval s \<or> \<not> rs_alive s then s
      else act s [Ipc (Heartbeat now metrics (heartbeat_clients s))])"

section \<open>Upgrade\<close>

record upgrade_result =
  ur_clientId :: string
  ur_reconnecting :: bool
  ur_joinData :: string
  ur_tags :: tags
  ur_versionMismatch :: "string option"

definition digit_char :: "nat \<Rightarrow> char" where
  "digit_char n = (''0123456789'') ! (n mod 10)"

fun js_String_nat :: "nat \<Rightarrow> string" where
  "js_String_nat n = (if n < 10 then [digit_char n] else js_String_nat (n div 10) @ [digit_char n])"

text \<open>
  \<open>params\<close> are the name/value pairs \<open>new URLSearchParams(query)\<close> yields, \<open>get\<close> returns the
  first of a name. \<open>uuid\<close> is \<open>crypto.randomUUID()\<close>. Absent data and tags are the empty object.
\<close>

definition accepted :: "string \<Rightarrow> bool \<Rightarrow> string option \<Rightarrow> upgrade_result" where
  "accepted clientId reconnecting vm =
     \<lparr>ur_clientId = clientId, ur_reconnecting = reconnecting, ur_joinData = ''{}'', ur_tags = [],
      ur_versionMismatch = vm\<rparr>"

definition truthy :: "string option \<Rightarrow> bool" where
  "truthy x = (x \<noteq> None \<and> x \<noteq> Some [])"

definition upgrade ::
    "room_config \<Rightarrow> room_state \<Rightarrow> (string \<times> string) list \<Rightarrow> string \<Rightarrow> upgrade_result option" where
  "upgrade cfg s params uuid =
     (let clientVersion = (case map_of params ''gv'' of None \<Rightarrow> ''none'' | Some v \<Rightarrow> v) in
      if clientVersion \<noteq> js_String_nat PROTOCOL_VERSION then
        Some (accepted uuid (truthy (map_of params ''session''))
          (Some (''protocol version mismatch (client '' @ clientVersion @ '', server '' @
                 js_String_nat PROTOCOL_VERSION @ '')'')))
      else if truthy (map_of params ''session'') then
        (let session = the (map_of params ''session'') in
         case jm_get (rs_sessionTokens s) session of
           Some clientId \<Rightarrow>
             (case Option.bind (jm_get (rs_clients s) clientId) (deref s) of
                Some t \<Rightarrow> if clientId \<noteq> [] \<and> tc_socket t = None then Some (accepted clientId True None)
                          else Some (accepted session True None)
              | None \<Rightarrow> Some (accepted session True None))
         | None \<Rightarrow> Some (accepted session True None))
      else if truthy (rs_roomSecret s) then
        (if \<not> truthy (map_of params ''token'') then None
         else case jwtVerify cfg (the (map_of params ''token'')) (the (rs_roomSecret s)) of
             None \<Rightarrow> None
           | Some c \<Rightarrow>
               if sc_roomId c \<noteq> rs_roomId s then None
               else Some \<lparr>ur_clientId = sc_clientId c, ur_reconnecting = False,
                          ur_joinData = (case sc_data c of Some d \<Rightarrow> d | None \<Rightarrow> ''{}''),
                          ur_tags = (case sc_tags c of Some t \<Rightarrow> t | None \<Rightarrow> []),
                          ur_versionMismatch = None\<rparr>)
      else Some (accepted uuid False None))"

section \<open>Transport handlers\<close>

definition reject_socket :: "room_config \<Rightarrow> sock \<Rightarrow> string \<Rightarrow> nat \<Rightarrow> string \<Rightarrow> action list" where
  "reject_socket cfg k err code reason =
     [Send k (packProtocol (pack cfg) (AuthError err)), CloseSocket k code reason]"

text \<open>\<open>open\<close> up to the await of \<open>onAuth\<close> (awaited also when it is not defined).\<close>

definition open_conn ::
    "room_config \<Rightarrow> room_state \<Rightarrow> string \<Rightarrow> sock \<Rightarrow> string \<Rightarrow> tags \<Rightarrow> string option \<Rightarrow> room_state" where
  "open_conn cfg s clientId k joinData tags versionMismatch =
     (if truthy versionMismatch then
        act s (reject_socket cfg k (the versionMismatch) CONSENTED ''protocol version mismatch'')
      else if jm_has (rs_clients s) clientId then
        act s (reject_socket cfg k ''seat already in use'' 4000 ''seat already in use'')
      else act s [Call (OnAuth clientId joinData)]
             \<lparr>rs_auths := jm_set (rs_auths s) (rs_next s)
                \<lparr>pa_clientId = clientId, pa_socket = k, pa_tags = tags\<rparr>,
              rs_next := Suc (rs_next s)\<rparr>)"

datatype auth_result = AuthThrew | AuthRejected string | AuthOk string

text \<open>
  The rest of \<open>open\<close>, when \<open>onAuth\<close> has settled: \<open>token\<close> is \<open>randomHex(16)\<close>. The session
  entry is written, then the tracked client, then the socket is subscribed and told.
\<close>

definition auth_settled :: "room_config \<Rightarrow> room_state \<Rightarrow> nat \<Rightarrow> auth_result \<Rightarrow> string \<Rightarrow> room_state" where
  "auth_settled cfg s i result token =
     (case jm_get (rs_auths s) i of None \<Rightarrow> s
      | Some p \<Rightarrow>
          let s0 = s\<lparr>rs_auths := jm_del (rs_auths s) i\<rparr>; clientId = pa_clientId p; k = pa_socket p in
          (case result of
             AuthThrew \<Rightarrow> act s0 (reject_socket cfg k ''internal error'' 1011 ''internal error'')
           | AuthRejected err \<Rightarrow> act s0 (reject_socket cfg k err 4000 ''auth rejected'')
           | AuthOk data \<Rightarrow>
               let a = rs_next s0;
                   t = \<lparr>tc_id = clientId, tc_data = data, tc_socket = Some k, tc_sessionToken = token,
                        tc_reliableBuffer = [], tc_reliableBufferBytes = 0, tc_disconnectTimer = None,
                        tc_tags = pa_tags p, tc_alive = True\<rparr>;
                   s1 = (put s0 a t)
                          \<lparr>rs_sessionTokens := jm_set (rs_sessionTokens s0) token clientId,
                           rs_clients := jm_set (rs_clients s0) clientId a, rs_next := Suc a\<rparr>
               in act s1
                    ([Subscribe k BROADCAST_TOPIC, Send k (packProtocol (pack cfg) (Session token clientId))]
                     @ ipc_send s1 (ClientConnected clientId (rs_roomId s1) (pa_tags p))
                     @ call (has_onJoin cfg) (OnJoin a))))"

text \<open>A frame that does not unpack makes the handler throw into the transport (\<open>Inl\<close>).\<close>

definition message :: "room_config \<Rightarrow> room_state \<Rightarrow> string \<Rightarrow> byte list \<Rightarrow> (room_error + unit) \<times> room_state" where
  "message cfg s clientId data =
     (case jm_get (rs_clients s) clientId of None \<Rightarrow> (Inr (), s)
      | Some a \<Rightarrow>
          (case deref s a of None \<Rightarrow> (Inr (), s)
           | Some t \<Rightarrow>
               (case tc_socket t of None \<Rightarrow> (Inr (), s)
                | Some k \<Rightarrow>
                    (case unpackFrame (unpack cfg) data of
                       Inl e \<Rightarrow> (Inl (Framing e), s)
                     | Inr (ProtocolFrame m) \<Rightarrow>
                         (Inr (), if m = Leave then act s [CloseSocket k 4000 ''consented leave''] else s)
                     | Inr f \<Rightarrow> (Inr (), act s (call (has_onMessage cfg) (OnMessage a f)))))))"

definition reconnect ::
    "room_config \<Rightarrow> room_state \<Rightarrow> string \<Rightarrow> sock \<Rightarrow> string option \<Rightarrow> string \<Rightarrow> room_state" where
  "reconnect cfg s clientId k versionMismatch newToken =
     (if truthy versionMismatch then
        act s (reject_socket cfg k (the versionMismatch) CONSENTED ''protocol version mismatch'')
      else
        let invalid = act s (reject_socket cfg k ''invalid session'' 4000 ''invalid session'') in
        case jm_get (rs_clients s) clientId of None \<Rightarrow> invalid
        | Some a \<Rightarrow>
            (case deref s a of None \<Rightarrow> invalid
             | Some t \<Rightarrow>
                 if tc_socket t \<noteq> None then invalid
                 else
                   let s1 = clear_timer s (tc_disconnectTimer t);
                       s2 = act (s1\<lparr>rs_sessionTokens :=
                                     jm_set (jm_del (rs_sessionTokens s1) (tc_sessionToken t)) newToken clientId\<rparr>)
                              (Subscribe k BROADCAST_TOPIC # map (\<lambda>b. Send k (bm_payload b)) (tc_reliableBuffer t));
                       s3 = put s2 a (t\<lparr>tc_disconnectTimer := None, tc_socket := Some k, tc_sessionToken := newToken,
                                        tc_reliableBuffer := [], tc_reliableBufferBytes := 0\<rparr>)
                   in act s3 ([Send k (packProtocol (pack cfg) (Session newToken clientId))]
                        @ call (has_onReconnect cfg) (OnReconnect a)
                        @ ipc_send s3 (ClientConnected clientId (rs_roomId s3) (tc_tags t)))))"

text \<open>
  \<open>close\<close>: a consented close, or any close when \<open>onDrop\<close> is not defined, evicts at once.
  Otherwise the seat is kept without a socket while \<open>onDrop\<close> runs; \<open>drop_settled\<close> is what
  follows the await (nothing, when \<open>onDrop\<close> threw).
\<close>

definition close :: "room_config \<Rightarrow> room_state \<Rightarrow> string \<Rightarrow> nat \<Rightarrow> room_state" where
  "close cfg s clientId code =
     (case jm_get (rs_clients s) clientId of None \<Rightarrow> s
      | Some a \<Rightarrow>
          if code = 4000 \<or> \<not> has_onDrop cfg then evictClient cfg s a
          else (case deref s a of None \<Rightarrow> s
                | Some t \<Rightarrow>
                    act (put s a (t\<lparr>tc_socket := None\<rparr>)) [Call (OnDrop a code)]
                      \<lparr>rs_drops := jm_set (rs_drops s) (rs_next s) a, rs_next := Suc (rs_next s)\<rparr>))"

definition drop_settled :: "room_config \<Rightarrow> room_state \<Rightarrow> nat \<Rightarrow> bool \<Rightarrow> room_state" where
  "drop_settled cfg s i ok =
     (case jm_get (rs_drops s) i of None \<Rightarrow> s
      | Some a \<Rightarrow>
          let s1 = s\<lparr>rs_drops := jm_del (rs_drops s) i\<rparr> in
          if \<not> ok then s1
          else case deref s1 a of None \<Rightarrow> s1
            | Some t \<Rightarrow>
                if tc_disconnectTimer t = None \<and> tc_socket t = None \<and> jm_has (rs_clients s1) (tc_id t)
                then evictClient cfg s1 a else s1)"

section \<open>Start and stop\<close>

text \<open>
  \<open>startRoom\<close> in its three synchronous pieces: up to the dial of a notify URI, up to
  \<open>transport.listen\<close>, and after it (\<open>port\<close> is \<open>None\<close> where listening failed). A \<open>process\<close>
  with signals is present (node, bun, deno).
\<close>

definition startRoom_begin :: "room_state \<Rightarrow> (room_error + unit) \<times> room_state" where
  "startRoom_begin s =
     (if rs_started s then (Inl AlreadyStarted, s)
      else
        let s1 = s\<lparr>rs_started := True, rs_startWarnTimer := False\<rparr> in
        (Inr (), case rs_notifySource s of
             Some (NotifyUri _) \<Rightarrow> s1\<lparr>rs_phase := Dialing\<rparr>
           | Some NotifierObject \<Rightarrow> s1\<lparr>rs_ipc := True, rs_phase := Listening\<rparr>
           | None \<Rightarrow> s1\<lparr>rs_ipc := False, rs_phase := Listening\<rparr>))"

definition startRoom_dialed :: "room_state \<Rightarrow> bool \<Rightarrow> room_state" where
  "startRoom_dialed s ok =
     (if rs_phase s \<noteq> Dialing then s
      else if ok then s\<lparr>rs_ipc := True, rs_phase := Listening\<rparr> else s\<lparr>rs_phase := NotStarting\<rparr>)"

definition startRoom_listening :: "room_state \<Rightarrow> nat option \<Rightarrow> room_state" where
  "startRoom_listening s port =
     (if rs_phase s \<noteq> Listening then s
      else case port of None \<Rightarrow> s\<lparr>rs_phase := NotStarting\<rparr>
        | Some n \<Rightarrow>
            (act s (ipc_send s (Ready n)))
              \<lparr>rs_phase := NotStarting, rs_server := True, rs_heartbeatInterval := rs_ipc s,
               rs_sigtermHandler := True\<rparr>)"

text \<open>\<open>stopRoom\<close>: one client, everything after \<open>onShutdown\<close>, and everything before it.\<close>

definition stop_client :: "room_config \<Rightarrow> room_state \<Rightarrow> addr \<Rightarrow> room_state" where
  "stop_client cfg s a =
     (case deref s a of None \<Rightarrow> s
      | Some t \<Rightarrow>
          let s1 = clear_timer (put s a (retired t)) (tc_disconnectTimer t)
          in act s1 (call (has_onLeave cfg) (OnLeave a) @ ipc_send s1 (ClientDisconnected (tc_id t))
                @ (case tc_socket t of Some k \<Rightarrow> [CloseSocket k 1001 ''room shutting down''] | None \<Rightarrow> [])))"

definition stopRoom_finish :: "room_config \<Rightarrow> room_state \<Rightarrow> bool \<Rightarrow> room_state" where
  "stopRoom_finish cfg s selfInitiated =
     (let trackedClients = jm_values (rs_clients s);
          s1 = s\<lparr>rs_clients := [], rs_sessionTokens := [], rs_stopping := None\<rparr>;
          s2 = foldl (stop_client cfg) s1 trackedClients;
          s3 = (act s2 (if rs_server s2 then [ServerClose] else []))\<lparr>rs_server := False\<rparr>
      in act s3 ((if selfInitiated then ipc_send s3 Stopped else []) @ (if rs_ipc s3 then [IpcClose] else [])))"

definition stopRoom_begin :: "room_config \<Rightarrow> room_state \<Rightarrow> bool \<Rightarrow> room_state" where
  "stopRoom_begin cfg s selfInitiated =
     (if \<not> rs_alive s then s
      else
        let s1 = s\<lparr>rs_alive := False, rs_startWarnTimer := False, rs_sigtermHandler := False,
                   rs_heartbeatInterval := False\<rparr>
        in if has_onShutdown cfg then act s1 [Call OnShutdown]\<lparr>rs_stopping := Some selfInitiated\<rparr>
           else stopRoom_finish cfg s1 selfInitiated)"

definition shutdown_settled :: "room_config \<Rightarrow> room_state \<Rightarrow> bool \<Rightarrow> room_state" where
  "shutdown_settled cfg s ok =
     (case rs_stopping s of None \<Rightarrow> s
      | Some selfInitiated \<Rightarrow> if ok then stopRoom_finish cfg s selfInitiated else s\<lparr>rs_stopping := None\<rparr>)"

section \<open>Creation\<close>

record server_config =
  sc_notify :: "notify_source option"
  sc_room :: "string option"
  sc_type :: "string option"
  sc_secret :: "string option"
  sc_server :: "string option"

record create_options =
  co_server :: "server_config option"
  co_standalone :: bool

definition or_else :: "'a option \<Rightarrow> 'a option \<Rightarrow> 'a option" where
  "or_else x y = (case x of Some v \<Rightarrow> Some v | None \<Rightarrow> y)"

definition notify_truthy :: "notify_source option \<Rightarrow> bool" where
  "notify_truthy n = (n \<noteq> None \<and> n \<noteq> Some (NotifyUri []))"

definition initial_state ::
    "string \<Rightarrow> string \<Rightarrow> string option \<Rightarrow> string option \<Rightarrow> notify_source option \<Rightarrow> room_state" where
  "initial_state roomId roomType serverId roomSecret notifySource =
     \<lparr>rs_roomId = roomId, rs_roomType = roomType, rs_serverId = serverId, rs_roomSecret = roomSecret,
      rs_clients = [], rs_sessionTokens = [], rs_notifySource = notifySource, rs_ipc = False,
      rs_heartbeatInterval = False, rs_started = False, rs_alive = True, rs_server = False,
      rs_sigtermHandler = False, rs_startWarnTimer = True, rs_phase = NotStarting, rs_stopping = None,
      rs_heap = [], rs_timers = [], rs_auths = [], rs_drops = [], rs_next = 0, rs_log = []\<rparr>"

text \<open>\<open>create\<close>: \<open>env\<close> is \<open>process.env\<close>, \<open>uuid\<close> the random room id used where none is configured.\<close>

definition create :: "(string \<Rightarrow> string option) \<Rightarrow> create_options \<Rightarrow> string \<Rightarrow> room_error + room_state" where
  "create env opts uuid =
     (if co_standalone opts then Inr (initial_state uuid ''room'' None None None)
      else
        let server = co_server opts;
            roomId = or_else (Option.bind server sc_room) (env ''GATHO_ROOM_ID'');
            roomType = or_else (Option.bind server sc_type) (env ''GATHO_ROOM_TYPE'');
            roomSecret = or_else (Option.bind server sc_secret) (env ''GATHO_ROOM_SECRET'');
            serverId = or_else (Option.bind server sc_server) (env ''GATHO_SERVER_ID'');
            notifySource = or_else (Option.bind server sc_notify)
              (map_option NotifyUri (env ''GATHO_NOTIFY_SOCKET''))
        in if \<not> notify_truthy notifySource \<and> \<not> truthy roomSecret then Inl NoManagedContext
           else Inr (initial_state (case roomId of Some r \<Rightarrow> r | None \<Rightarrow> uuid)
                       (case roomType of Some r \<Rightarrow> r | None \<Rightarrow> ''room'')
                       serverId roomSecret notifySource))"

end
