(* ===== verification/Room_Engine_Correct.thy ===== *)
theory Room_Engine_Correct
  imports Room_Engine
begin

text \<open>
  The room engine as a machine: one event per synchronous piece of code, the invariant of its
  heap, maps, timers and log, and the properties of the clients' life cycle.
\<close>

section \<open>Events\<close>

datatype room_event =
    EvOpen string sock string tags "string option"
  | EvAuthSettled nat auth_result string
  | EvMessage string "byte list"
  | EvReconnect string sock "string option" string
  | EvClose string nat
  | EvDropSettled nat bool
  | EvTimer nat
  | EvSend addr user_message bool
  | EvAllowReconnection addr
  | EvDisconnect addr
  | EvBroadcast user_message bool "string list option"
  | EvHeartbeat ms "process_metrics option"
  | EvStart
  | EvDialed bool
  | EvListening "nat option"
  | EvStop bool
  | EvShutdownSettled bool

fun room_step :: "room_config \<Rightarrow> room_state \<Rightarrow> room_event \<Rightarrow> room_state" where
  "room_step cfg s (EvOpen c k d tg vm) = open_conn cfg s c k d tg vm"
| "room_step cfg s (EvAuthSettled i r tok) = auth_settled cfg s i r tok"
| "room_step cfg s (EvMessage c d) = snd (message cfg s c d)"
| "room_step cfg s (EvReconnect c k vm tok) = reconnect cfg s c k vm tok"
| "room_step cfg s (EvClose c code) = close cfg s c code"
| "room_step cfg s (EvDropSettled i b) = drop_settled cfg s i b"
| "room_step cfg s (EvTimer i) = timer_fire cfg s i"
| "room_step cfg s (EvSend a m r) = snd (handle_send cfg s a m r)"
| "room_step cfg s (EvAllowReconnection a) = handle_allowReconnection s a"
| "room_step cfg s (EvDisconnect a) = handle_disconnect cfg s a"
| "room_step cfg s (EvBroadcast m r ex) = snd (broadcast cfg s m r ex)"
| "room_step cfg s (EvHeartbeat now ms) = heartbeat_tick s now ms"
| "room_step cfg s EvStart = snd (startRoom_begin s)"
| "room_step cfg s (EvDialed b) = startRoom_dialed s b"
| "room_step cfg s (EvListening p) = startRoom_listening s p"
| "room_step cfg s (EvStop b) = stopRoom_begin cfg s b"
| "room_step cfg s (EvShutdownSettled b) = shutdown_settled cfg s b"

text \<open>Session tokens are 16 random bytes: a new one differs from every token in use or ever used.\<close>

definition token_fresh :: "room_state \<Rightarrow> string \<Rightarrow> bool" where
  "token_fresh s tok = (list_all (\<lambda>(_, t). tc_sessionToken t \<noteq> tok) (rs_heap s) \<and> jm_get (rs_sessionTokens s) tok = None)"

fun room_ok :: "room_state \<Rightarrow> room_event \<Rightarrow> bool" where
  "room_ok s (EvAuthSettled i r tok) = token_fresh s tok"
| "room_ok s (EvReconnect c k vm tok) = token_fresh s tok"
| "room_ok s _ = True"

section \<open>The invariant\<close>

definition leaves :: "room_state \<Rightarrow> addr \<Rightarrow> nat" where
  "leaves s a = count_list (rs_log s) (Call (OnLeave a))"

definition object_ok :: "room_config \<Rightarrow> room_state \<Rightarrow> addr \<Rightarrow> tracked_client \<Rightarrow> bool" where
  "object_ok cfg s a t \<longleftrightarrow>
     a < rs_next s \<and>
     tc_reliableBufferBytes t = sum_list (map bm_byteSize (tc_reliableBuffer t)) \<and>
     (\<forall>b \<in> set (tc_reliableBuffer t). bm_byteSize b = length (bm_payload b)) \<and>
     (tc_reliableBuffer t \<noteq> [] \<longrightarrow>
       int (sum_list (map bm_byteSize (tc_reliableBuffer t))) \<le> maxBufferBytes cfg \<and> tc_socket t = None \<and> tc_alive t) \<and>
     (\<forall>i. tc_disconnectTimer t = Some i \<longrightarrow> tc_alive t \<and> jm_get (rs_timers s) i = Some a) \<and>
     leaves s a = (if has_onLeave cfg \<and> \<not> tc_alive t then 1 else 0)"

definition heap_ok :: "room_config \<Rightarrow> room_state \<Rightarrow> bool" where
  "heap_ok cfg s \<longleftrightarrow>
     (\<forall>a t. jm_get (rs_heap s) a = Some t \<longrightarrow> object_ok cfg s a t) \<and>
     (\<forall>a. jm_get (rs_heap s) a = None \<longrightarrow> leaves s a = 0) \<and>
     (\<forall>i a. jm_get (rs_timers s) i = Some a \<longrightarrow> i < rs_next s)"

definition clients_ok :: "room_state \<Rightarrow> bool" where
  "clients_ok s \<longleftrightarrow> jm_wf (rs_clients s) \<and>
     (\<forall>k a. jm_get (rs_clients s) k = Some a \<longrightarrow>
        (\<exists>t. jm_get (rs_heap s) a = Some t \<and> tc_id t = k \<and> tc_alive t \<and>
             jm_get (rs_sessionTokens s) (tc_sessionToken t) = Some k))"

definition tokens_ok :: "room_state \<Rightarrow> bool" where
  "tokens_ok s \<longleftrightarrow>
     (\<forall>tok k. jm_get (rs_sessionTokens s) tok = Some k \<longrightarrow>
        (\<exists>a t. jm_get (rs_heap s) a = Some t \<and> tc_alive t \<and> tc_id t = k \<and> tc_sessionToken t = tok)) \<and>
     (\<forall>a b t u. jm_get (rs_heap s) a = Some t \<longrightarrow> jm_get (rs_heap s) b = Some u \<longrightarrow>
        tc_sessionToken t = tc_sessionToken u \<longrightarrow> a = b)"

definition room_inv :: "room_config \<Rightarrow> room_state \<Rightarrow> bool" where
  "room_inv cfg s \<longleftrightarrow> heap_ok cfg s \<and> clients_ok s \<and> tokens_ok s"

lemma room_invI:
  assumes "\<And>a t. jm_get (rs_heap s) a = Some t \<Longrightarrow> object_ok cfg s a t"
    and "\<And>a. jm_get (rs_heap s) a = None \<Longrightarrow> leaves s a = 0"
    and "\<And>i a. jm_get (rs_timers s) i = Some a \<Longrightarrow> i < rs_next s"
    and "jm_wf (rs_clients s)"
    and "\<And>k a. jm_get (rs_clients s) k = Some a \<Longrightarrow> \<exists>t. jm_get (rs_heap s) a = Some t \<and> tc_id t = k \<and> tc_alive t \<and>
             jm_get (rs_sessionTokens s) (tc_sessionToken t) = Some k"
    and "\<And>tok k. jm_get (rs_sessionTokens s) tok = Some k \<Longrightarrow>
        \<exists>a t. jm_get (rs_heap s) a = Some t \<and> tc_alive t \<and> tc_id t = k \<and> tc_sessionToken t = tok"
    and "\<And>a b t u. jm_get (rs_heap s) a = Some t \<Longrightarrow> jm_get (rs_heap s) b = Some u \<Longrightarrow>
        tc_sessionToken t = tc_sessionToken u \<Longrightarrow> a = b"
  shows "room_inv cfg s"
  unfolding room_inv_def heap_ok_def clients_ok_def tokens_ok_def
  by (intro conjI allI impI) (rule assms; assumption)+

lemma room_invD:
  assumes "room_inv cfg s"
  shows "jm_get (rs_heap s) a = Some t \<Longrightarrow> object_ok cfg s a t"
    and "jm_get (rs_heap s) a = None \<Longrightarrow> leaves s a = 0"
    and "jm_get (rs_timers s) i = Some a \<Longrightarrow> i < rs_next s"
    and "jm_wf (rs_clients s)"
    and "jm_get (rs_clients s) k = Some a \<Longrightarrow> \<exists>t. jm_get (rs_heap s) a = Some t \<and> tc_id t = k \<and> tc_alive t \<and>
             jm_get (rs_sessionTokens s) (tc_sessionToken t) = Some k"
    and "jm_get (rs_sessionTokens s) tok = Some k \<Longrightarrow>
        \<exists>a t. jm_get (rs_heap s) a = Some t \<and> tc_alive t \<and> tc_id t = k \<and> tc_sessionToken t = tok"
    and "jm_get (rs_heap s) a = Some t \<Longrightarrow> jm_get (rs_heap s) b = Some u \<Longrightarrow>
        tc_sessionToken t = tc_sessionToken u \<Longrightarrow> a = b"
  using assms unfolding room_inv_def heap_ok_def clients_ok_def tokens_ok_def by blast+

section \<open>The log\<close>

definition quiet :: "action list \<Rightarrow> bool" where
  "quiet as = (\<forall>a. Call (OnLeave a) \<notin> set as)"

lemma leaves_act [simp]: "leaves (act s as) a = leaves s a + count_list as (Call (OnLeave a))"
  by (simp add: leaves_def act_def)

lemma quiet_count [simp]: "quiet as \<Longrightarrow> count_list as (Call (OnLeave a)) = 0"
  by (simp add: quiet_def count_list_0_iff)

lemma act_fields [simp]:
  "rs_heap (act s as) = rs_heap s" "rs_timers (act s as) = rs_timers s" "rs_next (act s as) = rs_next s"
  "rs_clients (act s as) = rs_clients s" "rs_sessionTokens (act s as) = rs_sessionTokens s"
  "rs_ipc (act s as) = rs_ipc s" "rs_roomId (act s as) = rs_roomId s" "rs_alive (act s as) = rs_alive s"
  "rs_auths (act s as) = rs_auths s" "rs_drops (act s as) = rs_drops s" "rs_server (act s as) = rs_server s"
  "rs_log (act s as) = rs_log s @ as" "rs_started (act s as) = rs_started s" "rs_phase (act s as) = rs_phase s"
  by (simp_all add: act_def)

lemma quiet_simps [simp]:
  "quiet []" "quiet (a # as) \<longleftrightarrow> (\<forall>x. a \<noteq> Call (OnLeave x)) \<and> quiet as"
  "quiet (as @ bs) \<longleftrightarrow> quiet as \<and> quiet bs"
  "quiet (map (\<lambda>b. Send k (f b)) bs)" "quiet (ipc_send s m)" "quiet (reject_socket cfg k e code r)"
  "quiet (call d c) \<longleftrightarrow> \<not> d \<or> (\<forall>x. c \<noteq> OnLeave x)"
  by (auto simp: quiet_def ipc_send_def reject_socket_def call_def)

text \<open>The fields the invariant reads; a change of any other field keeps it.\<close>

lemma room_inv_cong:
  assumes inv: "room_inv cfg s"
    and eq: "rs_heap s' = rs_heap s" "rs_timers s' = rs_timers s" "rs_next s \<le> rs_next s'"
      "rs_clients s' = rs_clients s" "rs_sessionTokens s' = rs_sessionTokens s" "\<And>a. leaves s' a = leaves s a"
  shows "room_inv cfg s'"
proof (rule room_invI)
  fix a t assume "jm_get (rs_heap s') a = Some t"
  then have "object_ok cfg s a t" using room_invD(1) [OF inv] eq(1) by simp
  then show "object_ok cfg s' a t" using eq by (simp add: object_ok_def)
next
  fix i a assume "jm_get (rs_timers s') i = Some a"
  then show "i < rs_next s'" using room_invD(3) [OF inv] eq(2,3) by fastforce
qed (unfold eq; rule room_invD [OF inv]; assumption)+

lemma room_inv_act [wf_intros]: "room_inv cfg s \<Longrightarrow> quiet as \<Longrightarrow> room_inv cfg (act s as)"
  by (rule room_inv_cong) simp_all

section \<open>Eviction\<close>

lemma evict_None: "deref s a = None \<Longrightarrow> evictClient cfg s a = s"
  by (simp add: evictClient_def)

lemma evict_dead: "deref s a = Some t \<Longrightarrow> \<not> tc_alive t \<Longrightarrow> evictClient cfg s a = s"
  by (simp add: evictClient_def)

lemma evict_alive:
  assumes "deref s a = Some t" and "tc_alive t"
  shows "evictClient cfg s a =
    s\<lparr>rs_heap := jm_set (rs_heap s) a (retired t),
      rs_timers := (case tc_disconnectTimer t of None \<Rightarrow> rs_timers s | Some i \<Rightarrow> jm_del (rs_timers s) i),
      rs_sessionTokens := jm_del (rs_sessionTokens s) (tc_sessionToken t),
      rs_clients := jm_del (rs_clients s) (tc_id t),
      rs_log := rs_log s @ (case tc_socket t of Some k \<Rightarrow> [CloseSocket k 4000 ''evicted''] | None \<Rightarrow> [])
         @ call (has_onLeave cfg) (OnLeave a) @ ipc_send s (ClientDisconnected (tc_id t))\<rparr>"
  using assms
  by (simp add: evictClient_def clear_timer_def put_def act_def ipc_send_def Let_def split: option.splits)

lemma count_leave [simp]:
  "count_list (call d c) x = (if d \<and> Call c = x then 1 else 0)"
  "count_list (ipc_send s m) (Call c') = 0"
  by (auto simp: call_def ipc_send_def)

lemma retired_fields [simp]:
  "tc_id (retired t) = tc_id t" "tc_sessionToken (retired t) = tc_sessionToken t" "tc_alive (retired t) = False"
  "tc_socket (retired t) = tc_socket t" "tc_disconnectTimer (retired t) = None" "tc_reliableBuffer (retired t) = []"
  "tc_reliableBufferBytes (retired t) = 0" "tc_tags (retired t) = tc_tags t"
  by (simp_all add: retired_def)

lemma leaves_evict:
  assumes "deref s a = Some t" and "tc_alive t"
  shows "leaves (evictClient cfg s a) b = leaves s b + (if has_onLeave cfg \<and> a = b then 1 else 0)"
  using assms by (simp add: evict_alive leaves_def split: option.splits)

lemma evict_fields:
  assumes "deref s a = Some t" and "tc_alive t"
  shows "rs_heap (evictClient cfg s a) = jm_set (rs_heap s) a (retired t)"
    and "rs_timers (evictClient cfg s a) =
      (case tc_disconnectTimer t of None \<Rightarrow> rs_timers s | Some i \<Rightarrow> jm_del (rs_timers s) i)"
    and "rs_sessionTokens (evictClient cfg s a) = jm_del (rs_sessionTokens s) (tc_sessionToken t)"
    and "rs_clients (evictClient cfg s a) = jm_del (rs_clients s) (tc_id t)"
    and "rs_next (evictClient cfg s a) = rs_next s"
  by (simp_all add: evict_alive [OF assms])

lemma room_inv_evict [wf_intros]:
  assumes inv: "room_inv cfg s"
  shows "room_inv cfg (evictClient cfg s a)"
proof (cases "\<exists>t. deref s a = Some t \<and> tc_alive t")
  case False
  then show ?thesis using inv by (cases "deref s a") (auto simp: evict_None evict_dead)
next
  case True
  then obtain t where t: "deref s a = Some t" "tc_alive t" by blast
  let ?s = "evictClient cfg s a"
  note eq = evict_fields [OF t]
  have t': "jm_get (rs_heap s) a = Some t" using t by (simp add: deref_def)
  have ok: "object_ok cfg s a t" using room_invD(1) [OF inv t'] .
  show ?thesis
  proof (rule room_invI)
    fix b u assume u: "jm_get (rs_heap ?s) b = Some u"
    show "object_ok cfg ?s b u"
    proof (cases "b = a")
      case True
      then show ?thesis
        using u [symmetric] ok t leaves_evict [OF t] by (simp add: object_ok_def eq)
    next
      case False
      then have "jm_get (rs_heap s) b = Some u" using u by (simp add: eq)
      then have "object_ok cfg s b u" by (rule room_invD(1) [OF inv])
      then show ?thesis
        using ok False leaves_evict [OF t] by (auto simp: object_ok_def eq split: option.splits)
    qed
  next
    fix b assume "jm_get (rs_heap ?s) b = None"
    then show "leaves ?s b = 0"
      using room_invD(2) [OF inv] by (auto simp: leaves_evict [OF t] eq split: if_splits)
  next
    fix i b assume "jm_get (rs_timers ?s) i = Some b"
    then show "i < rs_next ?s"
      using room_invD(3) [OF inv] by (auto simp: eq split: option.splits if_splits)
  next
    show "jm_wf (rs_clients ?s)" using room_invD(4) [OF inv] by (simp add: eq)
  next
    fix k b assume "jm_get (rs_clients ?s) k = Some b"
    then have k: "jm_get (rs_clients s) k = Some b" "k \<noteq> tc_id t" by (simp_all add: eq split: if_splits)
    obtain u where u: "jm_get (rs_heap s) b = Some u" "tc_id u = k" "tc_alive u"
        "jm_get (rs_sessionTokens s) (tc_sessionToken u) = Some k"
      using room_invD(5) [OF inv k(1)] by blast
    then have "b \<noteq> a" using t' k by auto
    then have "tc_sessionToken u \<noteq> tc_sessionToken t"
      using room_invD(7) [OF inv u(1) t'] by auto
    then show "\<exists>u. jm_get (rs_heap ?s) b = Some u \<and> tc_id u = k \<and> tc_alive u \<and>
        jm_get (rs_sessionTokens ?s) (tc_sessionToken u) = Some k"
      using u \<open>b \<noteq> a\<close> by (simp add: eq)
  next
    fix tok k assume "jm_get (rs_sessionTokens ?s) tok = Some k"
    then have tok: "jm_get (rs_sessionTokens s) tok = Some k" "tok \<noteq> tc_sessionToken t"
      by (simp_all add: eq split: if_splits)
    obtain b u where u: "jm_get (rs_heap s) b = Some u" "tc_alive u" "tc_id u = k" "tc_sessionToken u = tok"
      using room_invD(6) [OF inv tok(1)] by blast
    then have "b \<noteq> a" using t' tok by auto
    then show "\<exists>b u. jm_get (rs_heap ?s) b = Some u \<and> tc_alive u \<and> tc_id u = k \<and> tc_sessionToken u = tok"
      using u by (intro exI [of _ b] exI [of _ u]) (simp add: eq)
  next
    fix b c u v
    assume "jm_get (rs_heap ?s) b = Some u" "jm_get (rs_heap ?s) c = Some v" "tc_sessionToken u = tc_sessionToken v"
    then show "b = c"
      using room_invD(7) [OF inv] t' by (auto simp: eq split: if_splits)
  qed
qed

section \<open>Changing one object\<close>

lemma room_inv_update:
  assumes inv: "room_inv cfg s" and t: "jm_get (rs_heap s) a = Some t"
    and same: "tc_id t' = tc_id t" "tc_sessionToken t' = tc_sessionToken t" "tc_alive t' = tc_alive t"
    and s': "rs_heap s' = jm_set (rs_heap s) a t'" "rs_next s \<le> rs_next s'" "rs_clients s' = rs_clients s"
      "rs_sessionTokens s' = rs_sessionTokens s" "\<And>a. leaves s' a = leaves s a"
    and timers: "\<And>i b. jm_get (rs_timers s) i = Some b \<Longrightarrow> b \<noteq> a \<Longrightarrow> jm_get (rs_timers s') i = Some b"
      "\<And>i b. jm_get (rs_timers s') i = Some b \<Longrightarrow> i < rs_next s'"
    and ok: "object_ok cfg s' a t'"
  shows "room_inv cfg s'"
proof (rule room_invI)
  fix b u assume "jm_get (rs_heap s') b = Some u"
  then show "object_ok cfg s' b u"
    using ok room_invD(1) [OF inv, of b u] s' timers(1)
    by (cases "b = a") (auto simp: object_ok_def)
next
  fix b assume "jm_get (rs_heap s') b = None"
  then show "leaves s' b = 0"
    using room_invD(2) [OF inv] s' by (auto split: if_splits)
next
  fix k b assume "jm_get (rs_clients s') k = Some b"
  then show "\<exists>u. jm_get (rs_heap s') b = Some u \<and> tc_id u = k \<and> tc_alive u \<and>
        jm_get (rs_sessionTokens s') (tc_sessionToken u) = Some k"
    using room_invD(5) [OF inv, of k b] s' t same by (cases "b = a") auto
next
  fix tok k assume "jm_get (rs_sessionTokens s') tok = Some k"
  then obtain b u where u: "jm_get (rs_heap s) b = Some u" "tc_alive u" "tc_id u = k" "tc_sessionToken u = tok"
    using room_invD(6) [OF inv, of tok k] s' by auto
  then show "\<exists>b u. jm_get (rs_heap s') b = Some u \<and> tc_alive u \<and> tc_id u = k \<and> tc_sessionToken u = tok"
    using t same s' by (intro exI [of _ b] exI [of _ "if b = a then t' else u"]) auto
next
  fix b c u v
  assume uv: "jm_get (rs_heap s') b = Some u" "jm_get (rs_heap s') c = Some v" "tc_sessionToken u = tc_sessionToken v"
  have "jm_get (rs_heap s) b = Some (if b = a then t else u)" "jm_get (rs_heap s) c = Some (if c = a then t else v)"
    using uv t s' by (auto split: if_splits)
  moreover have "tc_sessionToken (if b = a then t else u) = tc_sessionToken (if c = a then t else v)"
    using uv same s' by (auto split: if_splits)
  ultimately show "b = c" by (rule room_invD(7) [OF inv])
qed (use room_invD(4) [OF inv] s' timers in auto)

section \<open>Every event keeps the invariant\<close>

definition alive_at :: "room_state \<Rightarrow> addr \<Rightarrow> bool" where
  "alive_at s a = (\<exists>t. deref s a = Some t \<and> tc_alive t)"

lemma deref_put [simp]: "deref (put s a t) b = (if b = a then Some t else deref s b)"
  by (simp add: deref_def put_def)

lemma deref_act [simp]: "deref (act s as) b = deref s b"
  by (simp add: deref_def)

lemma deref_evict: "deref (evictClient cfg s a) b =
    (case deref s b of None \<Rightarrow> None | Some t \<Rightarrow> if b = a \<and> tc_alive t then Some (retired t) else Some t)"
proof (cases "\<exists>t. deref s a = Some t \<and> tc_alive t")
  case True
  then obtain t where t: "deref s a = Some t" "tc_alive t" by blast
  have "deref (evictClient cfg s a) b = (if b = a then Some (retired t) else deref s b)"
    unfolding deref_def evict_fields(1) [OF t] by simp
  with t show ?thesis by (cases "b = a"; cases "deref s b") simp_all
next
  case False
  then have "evictClient cfg s a = s" by (cases "deref s a") (auto simp: evict_None evict_dead)
  then show ?thesis using False by (auto split: option.splits)
qed

lemma evict_of_put:
  assumes "deref s a = Some t" and "tc_alive t"
    and "tc_id t' = tc_id t" "tc_sessionToken t' = tc_sessionToken t" "tc_alive t'"
      "tc_disconnectTimer t' = tc_disconnectTimer t" "tc_socket t' = tc_socket t" "retired t' = retired t"
  shows "evictClient cfg (put s a t') a = evictClient cfg s a"
proof -
  have "jm_set (jm_set (rs_heap s) a t') a (retired t) = jm_set (rs_heap s) a (retired t)"
    by (simp add: jm_set_def update_last)
  moreover have "deref (put s a t') a = Some t'" by simp
  ultimately show ?thesis
    unfolding evict_alive [OF assms(1,2)] evict_alive [OF \<open>deref (put s a t') a = Some t'\<close> assms(5)]
    by (simp only: assms) (simp add: put_def ipc_send_def split: option.splits)
qed

definition pushed :: "tracked_client \<Rightarrow> byte list \<Rightarrow> tracked_client" where
  "pushed t payload =
     t\<lparr>tc_reliableBuffer := tc_reliableBuffer t @ [\<lparr>bm_payload = payload, bm_byteSize = length payload\<rparr>],
       tc_reliableBufferBytes := tc_reliableBufferBytes t + length payload\<rparr>"

lemma bufferForClient_alive:
  assumes "deref s a = Some t" and "tc_alive t"
  shows "bufferForClient cfg s a payload =
    (if int (tc_reliableBufferBytes t + length payload) > maxBufferBytes cfg then evictClient cfg s a
     else put s a (pushed t payload))"
proof -
  have "evictClient cfg (put s a (pushed t payload)) a = evictClient cfg s a"
    by (rule evict_of_put [OF assms]) (simp_all add: pushed_def retired_def assms)
  then show ?thesis
    using assms by (simp add: bufferForClient_def Let_def pushed_def)
qed

lemma room_inv_buffer:
  assumes inv: "room_inv cfg s" and t: "deref s a = Some t" "tc_alive t" "tc_socket t = None"
  shows "room_inv cfg (bufferForClient cfg s a payload)"
proof (cases "int (tc_reliableBufferBytes t + length payload) > maxBufferBytes cfg")
  case True
  then show ?thesis using room_inv_evict [OF inv] t by (simp add: bufferForClient_alive)
next
  case False
  have t': "jm_get (rs_heap s) a = Some t" using t by (simp add: deref_def)
  have "room_inv cfg (put s a (pushed t payload))"
    by (rule room_inv_update [OF inv t', where t' = "pushed t payload"])
       (use room_invD(1) [OF inv t'] room_invD(3) [OF inv] t False in
         \<open>auto simp: put_def pushed_def object_ok_def leaves_def\<close>)
  then show ?thesis using t False by (simp add: bufferForClient_alive)
qed

lemma room_inv_send [wf_intros]:
  "room_inv cfg s \<Longrightarrow> room_inv cfg (snd (handle_send cfg s a m r))"
  unfolding handle_send_def
  by (auto split: option.splits sum.splits intro!: room_inv_act room_inv_buffer)

lemma room_inv_allow [wf_intros]:
  assumes inv: "room_inv cfg s"
  shows "room_inv cfg (handle_allowReconnection s a)"
proof (cases "\<exists>t. deref s a = Some t \<and> tc_alive t \<and> tc_socket t = None")
  case False
  then show ?thesis using inv by (auto simp: handle_allowReconnection_def split: option.splits)
next
  case True
  then obtain t where t: "deref s a = Some t" "tc_alive t" "tc_socket t = None" by blast
  then have t': "jm_get (rs_heap s) a = Some t" by (simp add: deref_def)
  let ?t = "t\<lparr>tc_disconnectTimer := Some (rs_next s)\<rparr>"
  let ?s = "put s a ?t\<lparr>rs_timers := jm_set (rs_timers s) (rs_next s) a, rs_next := Suc (rs_next s)\<rparr>"
  have old: "i \<noteq> rs_next s" if "jm_get (rs_timers s) i = Some b" for i b
    using room_invD(3) [OF inv that] by simp
  have "room_inv cfg ?s"
    by (rule room_inv_update [OF inv t', where t' = ?t])
       (use room_invD(1) [OF inv t'] room_invD(3) [OF inv] t old in
         \<open>auto simp: put_def object_ok_def leaves_def less_Suc_eq split: if_splits\<close>)
  then show ?thesis using t by (simp add: handle_allowReconnection_def)
qed

lemma room_inv_disconnect [wf_intros]: "room_inv cfg s \<Longrightarrow> room_inv cfg (handle_disconnect cfg s a)"
  by (auto simp: handle_disconnect_def split: option.splits intro: room_inv_evict)

lemma room_inv_timer [wf_intros]:
  assumes inv: "room_inv cfg s"
  shows "room_inv cfg (timer_fire cfg s i)"
proof (cases "jm_get (rs_timers s) i")
  case None
  then show ?thesis using inv by (simp add: timer_fire_def)
next
  case (Some a)
  let ?s1 = "s\<lparr>rs_timers := jm_del (rs_timers s) i\<rparr>"
  show ?thesis
  proof (cases "deref s a")
    case None
    have "room_inv cfg ?s1"
    proof (rule room_invI)
      fix b t assume "jm_get (rs_heap ?s1) b = Some t"
      then have "object_ok cfg s b t" "b \<noteq> a"
        using room_invD(1) [OF inv, of b t] None by (auto simp: deref_def)
      then show "object_ok cfg ?s1 b t" using Some by (auto simp: object_ok_def leaves_def)
    next
      fix j b assume "jm_get (rs_timers ?s1) j = Some b"
      then show "j < rs_next ?s1" using room_invD(3) [OF inv] by (simp split: if_splits)
    qed (unfold leaves_def, simp_all, (rule room_invD [OF inv, unfolded leaves_def], assumption?)+)
    then show ?thesis using None Some by (simp add: timer_fire_def Let_def deref_def)
  next
    case t: (Some t)
    then have t': "jm_get (rs_heap s) a = Some t" by (simp add: deref_def)
    have "room_inv cfg (put ?s1 a (t\<lparr>tc_disconnectTimer := None\<rparr>))"
      by (rule room_inv_update [OF inv t', where t' = "t\<lparr>tc_disconnectTimer := None\<rparr>"])
         (use room_invD(1) [OF inv t'] room_invD(3) [OF inv] Some in
           \<open>auto simp: put_def object_ok_def leaves_def split: if_splits\<close>)
    then show ?thesis
      using Some t room_inv_evict by (simp add: timer_fire_def Let_def deref_def)
  qed
qed

lemma room_inv_close [wf_intros]:
  assumes inv: "room_inv cfg s"
  shows "room_inv cfg (close cfg s c code)"
proof (cases "\<exists>a t. jm_get (rs_clients s) c = Some a \<and> deref s a = Some t \<and> code \<noteq> 4000 \<and> has_onDrop cfg")
  case False
  then show ?thesis
    using inv room_inv_evict [OF inv] by (auto simp: close_def split: option.splits)
next
  case True
  then obtain a t where a: "jm_get (rs_clients s) c = Some a" "deref s a = Some t" "code \<noteq> 4000" "has_onDrop cfg"
    by blast
  then have t: "jm_get (rs_heap s) a = Some t" by (simp add: deref_def)
  have "room_inv cfg (act (put s a (t\<lparr>tc_socket := None\<rparr>)) [Call (OnDrop a code)]
     \<lparr>rs_drops := jm_set (rs_drops s) (rs_next s) a, rs_next := Suc (rs_next s)\<rparr>)"
    by (rule room_inv_update [OF inv t, where t' = "t\<lparr>tc_socket := None\<rparr>"])
       (use room_invD(1) [OF inv t] room_invD(3) [OF inv] in
         \<open>auto simp: put_def act_def object_ok_def leaves_def less_Suc_eq\<close>)
  then show ?thesis using a by (simp add: close_def)
qed

lemma room_inv_drop_settled [wf_intros]:
  assumes inv: "room_inv cfg s"
  shows "room_inv cfg (drop_settled cfg s i ok)"
proof -
  have "room_inv cfg (s\<lparr>rs_drops := d\<rparr>)" for d
    by (rule room_inv_cong [OF inv]) (simp_all add: leaves_def)
  then show ?thesis
    using inv room_inv_evict
    by (auto simp: drop_settled_def Let_def split: option.splits)
qed

lemma room_inv_open [wf_intros]:
  assumes inv: "room_inv cfg s"
  shows "room_inv cfg (open_conn cfg s c k d tg vm)"
proof -
  have "room_inv cfg (act s [Call (OnAuth x y)]\<lparr>rs_auths := p, rs_next := Suc (rs_next s)\<rparr>)" for x y p
    by (rule room_inv_cong [OF inv]) (simp_all add: leaves_def act_def)
  then show ?thesis
    using inv by (auto simp: open_conn_def intro!: room_inv_act)
qed

lemma room_inv_message [wf_intros]: "room_inv cfg s \<Longrightarrow> room_inv cfg (snd (message cfg s c d))"
  unfolding message_def by (auto split: option.splits sum.splits frame.splits intro!: room_inv_act)

lemma room_inv_heartbeat [wf_intros]: "room_inv cfg s \<Longrightarrow> room_inv cfg (heartbeat_tick s now ms)"
  by (auto simp: heartbeat_tick_def intro!: room_inv_act)

lemma room_inv_start [wf_intros]:
  assumes inv: "room_inv cfg s"
  shows "room_inv cfg (snd (startRoom_begin s))" "room_inv cfg (startRoom_dialed s b)"
    "room_inv cfg (startRoom_listening s p)"
  by (auto simp: startRoom_begin_def startRoom_dialed_def startRoom_listening_def Let_def leaves_def act_def ipc_send_def
      split: option.splits notify_source.splits intro!: room_inv_cong [OF inv])

lemma token_freshD:
  assumes "token_fresh s tok"
  shows "jm_get (rs_heap s) a = Some t \<Longrightarrow> tc_sessionToken t \<noteq> tok" and "jm_get (rs_sessionTokens s) tok = None"
  using assms by (auto simp: token_fresh_def list_all_iff dest: jm_get_mem)

text \<open>A new object at the next address, as \<open>open\<close> makes it.\<close>

lemma room_inv_new:
  assumes inv: "room_inv cfg s" and fresh: "token_fresh s tok"
    and t: "tc_id t = c" "tc_sessionToken t = tok" "tc_alive t" "tc_reliableBuffer t = []"
      "tc_reliableBufferBytes t = 0" "tc_disconnectTimer t = None"
    and s': "rs_heap s' = jm_set (rs_heap s) (rs_next s) t" "rs_timers s' = rs_timers s" "rs_next s' = Suc (rs_next s)"
      "rs_sessionTokens s' = jm_set (rs_sessionTokens s) tok c" "rs_clients s' = jm_set (rs_clients s) c (rs_next s)"
      "\<And>a. leaves s' a = leaves s a"
  shows "room_inv cfg s'"
proof (rule room_invI)
  have none: "jm_get (rs_heap s) (rs_next s) = None"
    using room_invD(1) [OF inv, of "rs_next s"] by (cases "jm_get (rs_heap s) (rs_next s)") (auto simp: object_ok_def)
  note tok = token_freshD [OF fresh]
  {
    fix a u assume "jm_get (rs_heap s') a = Some u"
    then show "object_ok cfg s' a u"
      using room_invD(1) [OF inv, of a u] room_invD(2) [OF inv none] s' t
      by (cases "a = rs_next s") (auto simp: object_ok_def)
  next
    fix a assume "jm_get (rs_heap s') a = None"
    then show "leaves s' a = 0" using room_invD(2) [OF inv] s' by (simp split: if_splits)
  next
    fix i a assume "jm_get (rs_timers s') i = Some a"
    then show "i < rs_next s'" using room_invD(3) [OF inv] s' by (simp add: less_SucI)
  next
    show "jm_wf (rs_clients s')" using room_invD(4) [OF inv] s' by simp
  next
    fix k a assume k: "jm_get (rs_clients s') k = Some a"
    show "\<exists>u. jm_get (rs_heap s') a = Some u \<and> tc_id u = k \<and> tc_alive u \<and>
        jm_get (rs_sessionTokens s') (tc_sessionToken u) = Some k"
    proof (cases "k = c")
      case False
      then obtain u where u: "jm_get (rs_heap s) a = Some u" "tc_id u = k" "tc_alive u"
          "jm_get (rs_sessionTokens s) (tc_sessionToken u) = Some k"
        using room_invD(5) [OF inv, of k a] k s' by auto
      then show ?thesis using none tok(2) s' by (intro exI [of _ u]) auto
    qed (use k s' t in simp)
  next
    fix tk k assume k: "jm_get (rs_sessionTokens s') tk = Some k"
    show "\<exists>a u. jm_get (rs_heap s') a = Some u \<and> tc_alive u \<and> tc_id u = k \<and> tc_sessionToken u = tk"
    proof (cases "tk = tok")
      case False
      then obtain a u where "jm_get (rs_heap s) a = Some u" "tc_alive u" "tc_id u = k" "tc_sessionToken u = tk"
        using room_invD(6) [OF inv, of tk k] k s' by auto
      then show ?thesis using none s' by (intro exI [of _ a] exI [of _ u]) auto
    qed (use k s' t in auto)
  next
    fix a b u v
    assume "jm_get (rs_heap s') a = Some u" "jm_get (rs_heap s') b = Some v" "tc_sessionToken u = tc_sessionToken v"
    then show "a = b"
      using room_invD(7) [OF inv, of a u b v] tok(1) [of a u] tok(1) [of b v] t s' by (auto split: if_splits)
  }
qed

lemma room_inv_auth_settled [wf_intros]:
  assumes inv: "room_inv cfg s" and fresh: "token_fresh s tok"
  shows "room_inv cfg (auth_settled cfg s i r tok)"
proof (cases "jm_get (rs_auths s) i")
  case None
  then show ?thesis using inv by (simp add: auth_settled_def)
next
  case (Some p)
  have s0: "room_inv cfg (s\<lparr>rs_auths := d\<rparr>)" for d
    by (rule room_inv_cong [OF inv]) (simp_all add: leaves_def)
  show ?thesis
  proof (cases r)
    case (AuthOk d)
    show ?thesis
      unfolding auth_settled_def Some AuthOk Let_def
      by (simp, rule room_inv_act, rule room_inv_new [OF inv fresh]) (simp_all add: put_def leaves_def)
  qed (use Some s0 in \<open>auto simp: auth_settled_def Let_def intro!: room_inv_act\<close>)
qed

text \<open>A token rotation with the rest of \<open>reconnect\<close>'s change of the object.\<close>

lemma room_inv_rotate:
  assumes inv: "room_inv cfg s" and fresh: "token_fresh s tok"
    and a: "jm_get (rs_clients s) c = Some a" "jm_get (rs_heap s) a = Some t"
    and t: "tc_id t' = c" "tc_sessionToken t' = tok" "tc_alive t'" "tc_reliableBuffer t' = []"
      "tc_reliableBufferBytes t' = 0" "tc_disconnectTimer t' = None"
    and s': "rs_heap s' = jm_set (rs_heap s) a t'" "rs_next s' = rs_next s"
      "rs_timers s' = (case tc_disconnectTimer t of None \<Rightarrow> rs_timers s | Some i \<Rightarrow> jm_del (rs_timers s) i)"
      "rs_sessionTokens s' = jm_set (jm_del (rs_sessionTokens s) (tc_sessionToken t)) tok c"
      "rs_clients s' = rs_clients s" "\<And>a. leaves s' a = leaves s a"
  shows "room_inv cfg s'"
proof (rule room_invI)
  note tok = token_freshD [OF fresh]
  have tt: "tc_id t = c" "tc_alive t" using room_invD(5) [OF inv a(1)] a(2) by auto
  have ok: "object_ok cfg s a t" by (rule room_invD(1) [OF inv a(2)])
  {
    fix b u assume u: "jm_get (rs_heap s') b = Some u"
    show "object_ok cfg s' b u"
    proof (cases "b = a")
      case True
      then show ?thesis using u ok s' t tt by (simp add: object_ok_def)
    next
      case False
      then have "object_ok cfg s b u" using u room_invD(1) [OF inv, of b u] s' by simp
      then show ?thesis using False ok s' by (auto simp: object_ok_def split: option.splits)
    qed
  next
    fix b assume "jm_get (rs_heap s') b = None"
    then show "leaves s' b = 0" using room_invD(2) [OF inv] s' by (simp split: if_splits)
  next
    fix i b assume "jm_get (rs_timers s') i = Some b"
    then show "i < rs_next s'" using room_invD(3) [OF inv] s' by (auto split: if_splits option.splits)
  next
    show "jm_wf (rs_clients s')" using room_invD(4) [OF inv] s' by simp
  next
    fix k b assume k: "jm_get (rs_clients s') k = Some b"
    then obtain u where u: "jm_get (rs_heap s) b = Some u" "tc_id u = k" "tc_alive u"
          "jm_get (rs_sessionTokens s) (tc_sessionToken u) = Some k"
      using room_invD(5) [OF inv, of k b] s' by auto
    show "\<exists>u. jm_get (rs_heap s') b = Some u \<and> tc_id u = k \<and> tc_alive u \<and>
        jm_get (rs_sessionTokens s') (tc_sessionToken u) = Some k"
    proof (cases "b = a")
      case True
      then show ?thesis using u a tt s' t by simp
    next
      case False
      then have "tc_sessionToken u \<noteq> tc_sessionToken t" using room_invD(7) [OF inv u(1) a(2)] by auto
      then show ?thesis using u False tok(1) [OF u(1)] s' by (intro exI [of _ u]) simp
    qed
  next
    fix tk k assume k: "jm_get (rs_sessionTokens s') tk = Some k"
    show "\<exists>b u. jm_get (rs_heap s') b = Some u \<and> tc_alive u \<and> tc_id u = k \<and> tc_sessionToken u = tk"
    proof (cases "tk = tok")
      case False
      then have old: "tk \<noteq> tc_sessionToken t" "jm_get (rs_sessionTokens s) tk = Some k"
        using k s' by (auto split: if_splits)
      then obtain b u where u: "jm_get (rs_heap s) b = Some u" "tc_alive u" "tc_id u = k" "tc_sessionToken u = tk"
        using room_invD(6) [OF inv] by blast
      then have "b \<noteq> a" using old a by auto
      then show ?thesis using u s' by (intro exI [of _ b] exI [of _ u]) simp
    qed (use k s' t in auto)
  next
    fix b d u v
    assume "jm_get (rs_heap s') b = Some u" "jm_get (rs_heap s') d = Some v" "tc_sessionToken u = tc_sessionToken v"
    then show "b = d"
      using room_invD(7) [OF inv, of b u d v] tok(1) [of b u] tok(1) [of d v] t s' by (auto split: if_splits)
  }
qed

lemma room_inv_reconnect [wf_intros]:
  assumes inv: "room_inv cfg s" and fresh: "token_fresh s tok"
  shows "room_inv cfg (reconnect cfg s c k vm tok)"
proof (cases "\<exists>a t. \<not> truthy vm \<and> jm_get (rs_clients s) c = Some a \<and> deref s a = Some t \<and> tc_socket t = None")
  case False
  then show ?thesis using inv
    by (auto simp: reconnect_def Let_def split: option.splits intro!: room_inv_act)
next
  case True
  then obtain a t where a: "\<not> truthy vm" "jm_get (rs_clients s) c = Some a" "deref s a = Some t" "tc_socket t = None"
    by blast
  then have t: "jm_get (rs_heap s) a = Some t" by (simp add: deref_def)
  have tt: "tc_id t = c" "tc_alive t" using room_invD(5) [OF inv a(2)] t by auto
  show ?thesis
    unfolding reconnect_def
    by (simp add: a Let_def, rule room_inv_act, rule room_inv_rotate [OF inv fresh a(2) t,
          where t' = "t\<lparr>tc_disconnectTimer := None, tc_socket := Some k, tc_sessionToken := tok,
            tc_reliableBuffer := [], tc_reliableBufferBytes := 0\<rparr>"])
       (simp_all add: put_def clear_timer_def act_def leaves_def tt count_list_0_iff image_iff split: option.splits)
qed

subsection \<open>The loops\<close>

lemma distinct_clients: "room_inv cfg s \<Longrightarrow> distinct (clients_all s)"
proof -
  assume inv: "room_inv cfg s"
  have "inj_on snd (set (rs_clients s))"
  proof (rule inj_onI)
    fix x y assume xy: "x \<in> set (rs_clients s)" "y \<in> set (rs_clients s)" "snd x = snd y"
    then have "jm_get (rs_clients s) (fst x) = Some (snd x)" "jm_get (rs_clients s) (fst y) = Some (snd x)"
      using jm_mem_get [OF room_invD(4) [OF inv]] by (metis prod.collapse)+
    then show "x = y" using room_invD(5) [OF inv] xy(3) by (metis option.inject prod.expand)
  qed
  then show "distinct (clients_all s)"
    using room_invD(4) [OF inv] by (simp add: clients_all_def jm_values_def distinct_map jm_wf_def)
qed

lemma clients_alive:
  assumes inv: "room_inv cfg s" and a: "a \<in> set (clients_all s)"
  shows "alive_at s a"
  using a room_invD(5) [OF inv] jm_values_iff [OF room_invD(4) [OF inv]]
  by (fastforce simp: clients_all_def alive_at_def deref_def)

lemma alive_at_evict: "alive_at (evictClient cfg s a) b \<longleftrightarrow> alive_at s b \<and> b \<noteq> a"
  by (auto simp: alive_at_def deref_evict split: option.splits if_splits)

lemma alive_at_act [simp]: "alive_at (act s as) b = alive_at s b"
  by (simp add: alive_at_def)

lemma alive_at_buffer: "alive_at s a \<Longrightarrow> b \<noteq> a \<Longrightarrow> alive_at (bufferForClient cfg s a p) b = alive_at s b"
  by (auto simp: alive_at_def bufferForClient_alive deref_evict split: option.splits if_splits)

lemma clients_fold:
  assumes step: "\<And>s a. P s \<Longrightarrow> alive_at s a \<Longrightarrow> P (f s a)"
    and other: "\<And>s a b. P s \<Longrightarrow> alive_at s a \<Longrightarrow> b \<noteq> a \<Longrightarrow> alive_at (f s a) b = alive_at s b"
  shows "P s \<Longrightarrow> distinct as \<Longrightarrow> \<forall>a \<in> set as. alive_at s a \<Longrightarrow> P (foldl f s as)"
proof (induction as arbitrary: s)
  case (Cons a as)
  have "\<forall>b \<in> set as. alive_at (f s a) b"
    using Cons.prems other by (metis distinct.simps(2) list.set_intros(1,2))
  then show ?case using Cons.IH [of "f s a"] Cons.prems step by simp
qed simp

lemma broadcast_buffer_step:
  assumes "room_inv cfg s" and "alive_at s a"
  shows "room_inv cfg (broadcast_buffer cfg p s a)" "b \<noteq> a \<Longrightarrow> alive_at (broadcast_buffer cfg p s a) b = alive_at s b"
proof -
  obtain t where t: "deref s a = Some t" "tc_alive t" using assms(2) by (auto simp: alive_at_def)
  then show "room_inv cfg (broadcast_buffer cfg p s a)"
    using room_inv_buffer [OF assms(1) t] assms(1) by (simp add: broadcast_buffer_def)
  show "b \<noteq> a \<Longrightarrow> alive_at (broadcast_buffer cfg p s a) b = alive_at s b"
    using t alive_at_buffer [OF assms(2)] by (simp add: broadcast_buffer_def)
qed

lemma broadcast_one_step:
  assumes "room_inv cfg s" and "alive_at s a"
  shows "room_inv cfg (broadcast_one cfg p r ids s a)" "b \<noteq> a \<Longrightarrow> alive_at (broadcast_one cfg p r ids s a) b = alive_at s b"
proof -
  obtain t where t: "deref s a = Some t" "tc_alive t" using assms(2) by (auto simp: alive_at_def)
  then show "room_inv cfg (broadcast_one cfg p r ids s a)"
    using room_inv_buffer [OF assms(1) t] assms(1)
    by (simp add: broadcast_one_def room_inv_act split: option.splits)
  show "b \<noteq> a \<Longrightarrow> alive_at (broadcast_one cfg p r ids s a) b = alive_at s b"
    using t alive_at_buffer [OF assms(2)] by (simp add: broadcast_one_def split: option.splits)
qed

lemma room_inv_clients_fold:
  assumes inv: "room_inv cfg s"
    and "\<And>s a. room_inv cfg s \<Longrightarrow> alive_at s a \<Longrightarrow> room_inv cfg (f s a)"
    and "\<And>s a b. room_inv cfg s \<Longrightarrow> alive_at s a \<Longrightarrow> b \<noteq> a \<Longrightarrow> alive_at (f s a) b = alive_at s b"
  shows "room_inv cfg (foldl f s (clients_all s))"
  using clients_fold [where P = "room_inv cfg" and f = f, OF assms(2,3) inv distinct_clients [OF inv]]
    clients_alive [OF inv] by blast

lemma room_inv_broadcast [wf_intros]:
  assumes inv: "room_inv cfg s"
  shows "room_inv cfg (snd (broadcast cfg s m r ex))"
proof -
  have buffers: "room_inv cfg (foldl (broadcast_buffer cfg p) s' (clients_all s'))" if "room_inv cfg s'" for p s'
    by (rule room_inv_clients_fold [OF that]) (simp_all add: broadcast_buffer_step)
  have one: "room_inv cfg (foldl (broadcast_one cfg p r ids) s (clients_all s))" for p ids
    by (rule room_inv_clients_fold [OF inv]) (simp_all add: broadcast_one_step)
  have "room_inv cfg (act s [Publish BROADCAST_TOPIC p])" for p
    using inv by (intro room_inv_act) simp_all
  then show ?thesis
    using inv one buffers by (auto simp: broadcast_def Let_def split: sum.splits option.splits)
qed

lemma stop_client_eq:
  assumes "deref s a = Some t"
  shows "stop_client cfg s a =
    s\<lparr>rs_heap := jm_set (rs_heap s) a (retired t),
      rs_timers := (case tc_disconnectTimer t of None \<Rightarrow> rs_timers s | Some i \<Rightarrow> jm_del (rs_timers s) i),
      rs_log := rs_log s @ call (has_onLeave cfg) (OnLeave a) @ ipc_send s (ClientDisconnected (tc_id t))
         @ (case tc_socket t of Some k \<Rightarrow> [CloseSocket k 1001 ''room shutting down''] | None \<Rightarrow> [])\<rparr>"
  using assms
  by (simp add: stop_client_def clear_timer_def put_def act_def ipc_send_def Let_def split: option.splits)

lemma stop_client_step:
  assumes inv: "room_inv cfg s" and a: "alive_at s a" and empty: "rs_clients s = []" "rs_sessionTokens s = []"
  shows "room_inv cfg (stop_client cfg s a) \<and> rs_clients (stop_client cfg s a) = [] \<and>
    rs_sessionTokens (stop_client cfg s a) = []"
    and "b \<noteq> a \<Longrightarrow> alive_at (stop_client cfg s a) b = alive_at s b"
proof -
  obtain t where t: "deref s a = Some t" "tc_alive t" using a by (auto simp: alive_at_def)
  have "room_inv cfg (stop_client cfg s a)"
    by (rule room_inv_cong [OF room_inv_evict [OF inv, of a]])
       (simp_all add: stop_client_eq [OF t(1)] evict_fields [OF t] leaves_evict [OF t] empty jm_del_def,
         simp add: leaves_def split: option.splits)
  then show "room_inv cfg (stop_client cfg s a) \<and> rs_clients (stop_client cfg s a) = [] \<and>
    rs_sessionTokens (stop_client cfg s a) = []"
    using empty by (simp add: stop_client_eq [OF t(1)])
  show "b \<noteq> a \<Longrightarrow> alive_at (stop_client cfg s a) b = alive_at s b"
    by (simp add: stop_client_eq [OF t(1)] alive_at_def deref_def)
qed

lemma room_inv_stop_finish [wf_intros]:
  assumes inv: "room_inv cfg s"
  shows "room_inv cfg (stopRoom_finish cfg s b)"
proof -
  let ?s1 = "s\<lparr>rs_clients := [], rs_sessionTokens := [], rs_stopping := None\<rparr>"
  let ?s2 = "foldl (stop_client cfg) ?s1 (clients_all s)"
  have "room_inv cfg ?s1"
  proof (rule room_invI)
    fix a t assume "jm_get (rs_heap ?s1) a = Some t"
    then show "object_ok cfg ?s1 a t"
      using room_invD(1) [OF inv, of a t] by (simp add: object_ok_def leaves_def)
  qed (simp_all add: leaves_def, (rule room_invD [OF inv, unfolded leaves_def]; assumption)+)
  moreover have "\<forall>a \<in> set (clients_all s). alive_at ?s1 a"
    using clients_alive [OF inv] by (simp add: alive_at_def deref_def)
  ultimately have "room_inv cfg ?s2 \<and> rs_clients ?s2 = [] \<and> rs_sessionTokens ?s2 = []"
    by (intro clients_fold [where P = "\<lambda>s. room_inv cfg s \<and> rs_clients s = [] \<and> rs_sessionTokens s = []"])
       (simp_all add: stop_client_step distinct_clients [OF inv])
  then have "room_inv cfg (act ?s2 as\<lparr>rs_server := False\<rparr>)" if "quiet as" for as
    by (rule room_inv_cong [OF conjunct1]) (use that in \<open>simp_all add: leaves_def act_def\<close>)
  then show ?thesis
    by (simp add: stopRoom_finish_def Let_def clients_all_def [symmetric] room_inv_act)
qed

lemma room_inv_stop [wf_intros]:
  assumes inv: "room_inv cfg s"
  shows "room_inv cfg (stopRoom_begin cfg s b)" "room_inv cfg (shutdown_settled cfg s b)"
proof -
  let ?s1 = "s\<lparr>rs_alive := False, rs_startWarnTimer := False, rs_sigtermHandler := False, rs_heartbeatInterval := False\<rparr>"
  have s1: "room_inv cfg ?s1" by (rule room_inv_cong [OF inv]) (simp_all add: leaves_def)
  have "room_inv cfg (act ?s1 [Call OnShutdown]\<lparr>rs_stopping := x\<rparr>)" for x
    by (rule room_inv_cong [OF s1]) (simp_all add: leaves_def act_def)
  then show "room_inv cfg (stopRoom_begin cfg s b)"
    using inv room_inv_stop_finish [OF s1] by (simp add: stopRoom_begin_def Let_def)
  have "room_inv cfg (s\<lparr>rs_stopping := None\<rparr>)"
    by (rule room_inv_cong [OF inv]) (simp_all add: leaves_def)
  then show "room_inv cfg (shutdown_settled cfg s b)"
    using inv room_inv_stop_finish [OF inv] by (auto simp: shutdown_settled_def split: option.splits)
qed

lemma room_inv_step: "room_inv cfg s \<Longrightarrow> room_ok s e \<Longrightarrow> room_inv cfg (room_step cfg s e)"
  by (cases e) (auto intro: wf_intros)

interpretation rm: step_invariant "room_step cfg" room_ok "room_inv cfg" for cfg
  by unfold_locales (rule room_inv_step)

lemma room_inv_initial: "room_inv cfg (initial_state r ty v sec n)"
  by (rule room_invI) (simp_all add: initial_state_def leaves_def)

lemma room_inv_reachable: "run_ok room_ok (room_step cfg) (initial_state r ty v sec n) es \<Longrightarrow>
    room_inv cfg (run (room_step cfg) (initial_state r ty v sec n) es)"
  by (rule rm.I_run [OF room_inv_initial])

end
