(* ===== verification/Room_Properties.thy ===== *)
theory Room_Properties
  imports Room_Engine_Correct
begin

text \<open>
  The properties of the room engine: consistency of every reachable state, the life cycle of a
  handle, buffering across a reconnection window, broadcasts, seats and sessions, shutdown.
\<close>

section \<open>A concrete room\<close>

definition demo_cfg :: room_config where
  "demo_cfg = \<lparr>pack = (\<lambda>m. if m = Leave then [9] else [7]), unpack = (\<lambda>b. if b = [9] then Some Leave else None),
     jwtVerify = (\<lambda>_ _. None), maxBufferBytes = 8, has_onJoin = True, has_onMessage = True, has_onLeave = True,
     has_onDrop = True, has_onReconnect = True, has_onShutdown = False\<rparr>"

text \<open>Two clients have joined; the second has dropped and holds a reconnection window.\<close>

definition demo_events :: "room_event list" where
  "demo_events =
     [EvStart, EvListening (Some 9001), EvOpen ''c1'' 1 ''{}'' [] None, EvOpen ''c2'' 2 ''{}'' [] None,
      EvAuthSettled 0 (AuthOk ''d1'') ''t1'', EvAuthSettled 1 (AuthOk ''d2'') ''t2'',
      EvClose ''c2'' 1006, EvAllowReconnection 3, EvDropSettled 4 True]"

definition demo_initial :: room_state where
  "demo_initial = initial_state ''r1'' ''game'' None (Some ''secret'') (Some NotifierObject)"

definition demo_room :: room_state where
  "demo_room = run (room_step demo_cfg) demo_initial demo_events"

lemma demo_room_eq:
  "demo_room =
     \<lparr>rs_roomId = ''r1'', rs_roomType = ''game'', rs_serverId = None, rs_roomSecret = Some ''secret'',
      rs_clients = [(''c1'', 2), (''c2'', 3)], rs_sessionTokens = [(''t1'', ''c1''), (''t2'', ''c2'')],
      rs_notifySource = Some NotifierObject, rs_ipc = True, rs_heartbeatInterval = True, rs_started = True,
      rs_alive = True, rs_server = True, rs_sigtermHandler = True, rs_startWarnTimer = False,
      rs_phase = NotStarting, rs_stopping = None,
      rs_heap = [(2, \<lparr>tc_id = ''c1'', tc_data = ''d1'', tc_socket = Some 1, tc_sessionToken = ''t1'',
                      tc_reliableBuffer = [], tc_reliableBufferBytes = 0, tc_disconnectTimer = None, tc_tags = [],
                      tc_alive = True\<rparr>),
                 (3, \<lparr>tc_id = ''c2'', tc_data = ''d2'', tc_socket = None, tc_sessionToken = ''t2'',
                      tc_reliableBuffer = [], tc_reliableBufferBytes = 0, tc_disconnectTimer = Some 5, tc_tags = [],
                      tc_alive = True\<rparr>)],
      rs_timers = [(5, 3)], rs_auths = [], rs_drops = [], rs_next = 6,
      rs_log = [Ipc (Ready 9001), Call (OnAuth ''c1'' ''{}''), Call (OnAuth ''c2'' ''{}''),
        Subscribe 1 ''room'', Send 1 [0, 7], Ipc (ClientConnected ''c1'' ''r1'' []), Call (OnJoin 2),
        Subscribe 2 ''room'', Send 2 [0, 7], Ipc (ClientConnected ''c2'' ''r1'' []), Call (OnJoin 3),
        Call (OnDrop 3 1006)]\<rparr>"
  by code_simp

lemma demo_room_ok: "run_ok room_ok (room_step demo_cfg) demo_initial demo_events"
  by code_simp

lemma demo_room_inv: "room_inv demo_cfg demo_room"
  unfolding demo_room_def demo_initial_def
  by (rule room_inv_reachable) (rule demo_room_ok [unfolded demo_initial_def])

lemma demo_create:
  "create (\<lambda>k. if k = ''GATHO_ROOM_ID'' then Some ''r1'' else if k = ''GATHO_ROOM_TYPE'' then Some ''game''
      else if k = ''GATHO_ROOM_SECRET'' then Some ''secret'' else None)
    \<lparr>co_server = Some \<lparr>sc_notify = Some NotifierObject, sc_room = None, sc_type = None, sc_secret = None, sc_server = None\<rparr>,
     co_standalone = False\<rparr> ''u'' = Inr demo_initial"
  by (simp add: create_def demo_initial_def or_else_def notify_truthy_def)

section \<open>Reachable states\<close>

text \<open>
  C1: whatever happens to a room after \<open>create\<close> (opens, messages, closes, reconnects, timers,
  user callbacks using handles in any order, start and stop), with fresh random tokens, its
  state stays consistent: every entry of the client map is a live tracked client under its own
  id whose session token resolves to it, every session token belongs to a live client, buffers
  belong to disconnected live clients and stay within the cap, and every client's reconnection
  timer is pending.
\<close>

theorem room_always_consistent:
  assumes "create env opts uuid = Inr s0" and "run_ok room_ok (room_step cfg) s0 es"
  shows "room_inv cfg (run (room_step cfg) s0 es)"
proof -
  obtain r ty v sec n where "s0 = initial_state r ty v sec n"
    using assms(1) by (auto simp: create_def Let_def split: if_splits)
  then show ?thesis using assms(2) room_inv_reachable by blast
qed

theorem room_always_consistent_witness: "room_inv demo_cfg (run (room_step demo_cfg) demo_initial demo_events)"
  by (rule room_always_consistent [OF demo_create demo_room_ok])

text \<open>
  C3: \<open>onLeave\<close> is scheduled exactly once per client that left and never for one that is still
  tracked as alive, over every run: eviction by timer, overflow, consented close, drop,
  \<open>disconnect()\<close> and shutdown never double up.
\<close>

theorem onLeave_exactly_once:
  assumes "create env opts uuid = Inr s0" and "run_ok room_ok (room_step cfg) s0 es"
    and "deref (run (room_step cfg) s0 es) a = Some t" and "has_onLeave cfg"
  shows "count_list (rs_log (run (room_step cfg) s0 es)) (Call (OnLeave a)) = (if tc_alive t then 0 else 1)"
proof -
  have "room_inv cfg (run (room_step cfg) s0 es)"
    using assms(1,2) room_inv_reachable by (auto simp: create_def Let_def split: if_splits)
  then show ?thesis
    using assms(3,4) room_invD(1) by (fastforce simp: deref_def object_ok_def leaves_def)
qed

theorem onLeave_exactly_once_witness:
  "count_list (rs_log (run (room_step demo_cfg) demo_initial (demo_events @ [EvTimer 5, EvDisconnect 3, EvTimer 5])))
     (Call (OnLeave 3)) = 1"
proof -
  let ?es = "demo_events @ [EvTimer 5, EvDisconnect 3, EvTimer 5]"
  have ok: "run_ok room_ok (room_step demo_cfg) demo_initial ?es" by code_simp
  have "deref (run (room_step demo_cfg) demo_initial ?es) 3 =
      Some \<lparr>tc_id = ''c2'', tc_data = ''d2'', tc_socket = None, tc_sessionToken = ''t2'', tc_reliableBuffer = [],
        tc_reliableBufferBytes = 0, tc_disconnectTimer = None, tc_tags = [], tc_alive = False\<rparr>"
    by code_simp
  from onLeave_exactly_once [OF demo_create ok this] show ?thesis by (simp add: demo_cfg_def)
qed

section \<open>Dead handles\<close>

lemma deref_buffer_other: "alive_at s b \<Longrightarrow> a \<noteq> b \<Longrightarrow> deref (bufferForClient cfg s b p) a = deref s a"
  by (auto simp: alive_at_def bufferForClient_alive deref_evict split: option.splits)

lemma fold_deref_dead:
  assumes inv: "room_inv cfg s" and dead: "deref s a = Some t" "\<not> tc_alive t"
    and step: "\<And>s b. room_inv cfg s \<Longrightarrow> alive_at s b \<Longrightarrow> room_inv cfg (f s b)"
      "\<And>s b c. room_inv cfg s \<Longrightarrow> alive_at s b \<Longrightarrow> c \<noteq> b \<Longrightarrow> alive_at (f s b) c = alive_at s c"
      "\<And>s b. alive_at s b \<Longrightarrow> a \<noteq> b \<Longrightarrow> deref (f s b) a = deref s a"
  shows "deref (foldl f s (clients_all s)) a = Some t"
proof -
  let ?P = "\<lambda>s. room_inv cfg s \<and> deref s a = Some t"
  have "b \<noteq> a" if "?P s" "alive_at s b" for s b
    using that dead(2) by (auto simp: alive_at_def)
  then have "?P (f s b)" if "?P s" "alive_at s b" for s b
    using that step(1,3) by (metis (no_types, lifting))
  then have "?P (foldl f s (clients_all s))"
    using step(2) by (intro clients_fold [where P = ?P])
      (auto simp: inv dead(1) distinct_clients [OF inv] clients_alive [OF inv])
  then show ?thesis ..
qed

lemma deref_broadcast_dead:
  assumes inv: "room_inv cfg s" and dead: "deref s a = Some t" "\<not> tc_alive t"
  shows "deref (snd (broadcast cfg s m r ex)) a = Some t"
proof -
  have buffers: "deref (foldl (broadcast_buffer cfg p) s' (clients_all s')) a = Some t"
    if "room_inv cfg s'" "deref s' a = Some t" for p s'
    by (rule fold_deref_dead [OF that(1,2) dead(2)])
       (auto simp: broadcast_buffer_step, simp add: broadcast_buffer_def deref_buffer_other split: option.splits)
  have one: "deref (foldl (broadcast_one cfg p r ids) s (clients_all s)) a = Some t" for p ids
    by (rule fold_deref_dead [OF inv dead])
       (auto simp: broadcast_one_step, simp add: broadcast_one_def deref_buffer_other split: option.splits)
  have "room_inv cfg (act s [Publish BROADCAST_TOPIC p])" for p
    using inv by (intro room_inv_act) simp_all
  then show ?thesis
    using one buffers dead by (auto simp: broadcast_def Let_def split: sum.splits option.splits)
qed

lemma deref_stop_dead:
  assumes inv: "room_inv cfg s" and dead: "deref s a = Some t" "\<not> tc_alive t"
  shows "deref (stopRoom_finish cfg s b) a = Some t"
proof -
  let ?s1 = "s\<lparr>rs_clients := [], rs_sessionTokens := [], rs_stopping := None\<rparr>"
  have other: "deref (stop_client cfg x b) a = deref x a" if "a \<noteq> b" for x b
  proof (cases "deref x b")
    case (Some u)
    then show ?thesis using that by (simp add: stop_client_eq [OF Some] deref_def)
  qed (simp add: stop_client_def)
  have "deref (foldl (stop_client cfg) x as) a = deref x a" if "a \<notin> set as" for as x
    using that by (induction as arbitrary: x) (simp_all add: other)
  moreover have "a \<notin> set (clients_all s)"
    using clients_alive [OF inv, of a] dead by (auto simp: alive_at_def)
  ultimately have "deref (foldl (stop_client cfg) ?s1 (clients_all s)) a = Some t"
    using dead(1) by (simp add: deref_def)
  then show ?thesis
    by (simp add: stopRoom_finish_def Let_def deref_def clients_all_def)
qed

lemma dead_step:
  assumes inv: "room_inv cfg s" and dead: "deref s a = Some t" "\<not> tc_alive t"
  shows "deref (room_step cfg s e) a = Some t"
proof (cases e)
  case (EvAuthSettled i r tok)
  have "a \<noteq> rs_next s" using room_invD(1) [OF inv] dead by (auto simp: deref_def object_ok_def)
  then show ?thesis
    using dead EvAuthSettled
    by (auto simp: auth_settled_def Let_def deref_def put_def split: option.splits auth_result.splits)
next
  case (EvReconnect c k vm tok)
  then show ?thesis
    using dead room_invD(5) [OF inv, of c]
    by (auto simp: reconnect_def Let_def deref_def put_def clear_timer_def act_def split: option.splits)
next
  case (EvClose c code)
  then show ?thesis
    using dead room_invD(5) [OF inv, of c]
    by (auto simp: close_def deref_evict split: option.splits) (auto simp: deref_def put_def act_def)
next
  case (EvTimer i)
  have "t\<lparr>tc_disconnectTimer := None\<rparr> = t"
    using room_invD(1) [OF inv] dead by (cases "tc_disconnectTimer t") (auto simp: deref_def object_ok_def)
  then show ?thesis
    using dead EvTimer by (auto simp: timer_fire_def Let_def deref_evict split: option.splits) (auto simp: deref_def)
next
  case (EvSend b m r)
  then show ?thesis
    using dead by (cases "a = b")
      (auto simp: handle_send_def deref_buffer_other alive_at_def split: option.splits sum.splits)
next
  case (EvAllowReconnection b)
  then show ?thesis
    using dead by (auto simp: handle_allowReconnection_def deref_def put_def split: option.splits)
next
  case (EvStop b)
  have "room_inv cfg (s\<lparr>rs_alive := False, rs_startWarnTimer := False, rs_sigtermHandler := False, rs_heartbeatInterval := False\<rparr>)"
    by (rule room_inv_cong [OF inv]) (simp_all add: leaves_def)
  from deref_stop_dead [OF this, of a t b] show ?thesis
    using dead EvStop by (auto simp: stopRoom_begin_def Let_def deref_def act_def)
next
  case (EvShutdownSettled b)
  then show ?thesis
    using dead deref_stop_dead [OF inv dead] by (auto simp: shutdown_settled_def split: option.splits) (simp add: deref_def)
next
  case (EvBroadcast m r ex)
  then show ?thesis using deref_broadcast_dead [OF inv dead] by simp
qed (use dead in \<open>auto simp: open_conn_def message_def drop_settled_def handle_disconnect_def heartbeat_tick_def Let_def
    startRoom_begin_def startRoom_dialed_def startRoom_listening_def deref_evict
    split: option.splits sum.splits frame.splits notify_source.splits\<close>,
  auto simp: deref_def act_def)

text \<open>
  Once a client has left, its handle is dead for good. No later event of any kind touches
  the tracked client again, and the verbs of the handle (\<open>send\<close>, \<open>allowReconnection\<close>,
  \<open>disconnect\<close>, a late timer) change nothing at all.
\<close>

theorem dead_handles_stay_dead:
  assumes "room_inv cfg s" and "deref s a = Some t" and "\<not> tc_alive t" and "run_ok room_ok (room_step cfg) s es"
  shows "deref (run (room_step cfg) s es) a = Some t \<and>
    handle_send cfg s a m r = (Inr (), s) \<and> handle_allowReconnection s a = s \<and> handle_disconnect cfg s a = s \<and>
    handle_bufferedAmount depth s a = 0"
proof
  show "deref (run (room_step cfg) s es) a = Some t"
    using assms(1,2,4)
  proof (induction es arbitrary: s)
    case (Cons e es)
    then show ?case using dead_step [OF _ _ assms(3)] room_inv_step by simp
  qed simp
qed (use assms in \<open>simp add: handle_send_def handle_allowReconnection_def handle_disconnect_def handle_bufferedAmount_def\<close>)

theorem dead_handles_stay_dead_witness:
  "handle_disconnect demo_cfg (timer_fire demo_cfg demo_room 5) 3 = timer_fire demo_cfg demo_room 5 \<and>
   (\<exists>t. deref (run (room_step demo_cfg) (timer_fire demo_cfg demo_room 5) [EvAllowReconnection 3, EvStop True]) 3 = Some t \<and>
      tc_id t = ''c2'' \<and> \<not> tc_alive t)"
proof -
  let ?s = "timer_fire demo_cfg demo_room 5"
  let ?t = "\<lparr>tc_id = ''c2'', tc_data = ''d2'', tc_socket = None, tc_sessionToken = ''t2'', tc_reliableBuffer = [],
        tc_reliableBufferBytes = 0, tc_disconnectTimer = None, tc_tags = [], tc_alive = False\<rparr>"
  have "deref ?s 3 = Some ?t" unfolding demo_room_eq by code_simp
  moreover have "run_ok room_ok (room_step demo_cfg) ?s [EvAllowReconnection 3, EvStop True]"
    by simp
  ultimately have d: "deref (run (room_step demo_cfg) ?s [EvAllowReconnection 3, EvStop True]) 3 = Some ?t \<and>
      handle_disconnect demo_cfg ?s 3 = ?s"
    using dead_handles_stay_dead [OF room_inv_timer [OF demo_room_inv, of 5], of 3 ?t "[EvAllowReconnection 3, EvStop True]"]
    by (simp del: run.simps)
  show ?thesis by (rule conjI [OF conjunct2 [OF d]], rule exI [of _ ?t]) (simp add: d del: run.simps)
qed

section \<open>The reconnection window\<close>

lemma send_buffers:
  assumes "deref s a = Some t" and "tc_alive t" "tc_socket t = None" "rs_alive s"
    and "frameUserMessage m = Inr f" "int (tc_reliableBufferBytes t + length f) \<le> maxBufferBytes cfg"
  shows "handle_send cfg s a m True = (Inr (), put s a (pushed t f))"
  using assms by (simp add: handle_send_def bufferForClient_alive)

definition pushed_all :: "tracked_client \<Rightarrow> byte list list \<Rightarrow> tracked_client" where
  "pushed_all t fs = foldl pushed t fs"

lemma pushed_fields [simp]:
  "tc_reliableBuffer (pushed t f) = tc_reliableBuffer t @ [\<lparr>bm_payload = f, bm_byteSize = length f\<rparr>]"
  "tc_reliableBufferBytes (pushed t f) = tc_reliableBufferBytes t + length f"
  "tc_id (pushed t f) = tc_id t" "tc_alive (pushed t f) = tc_alive t" "tc_socket (pushed t f) = tc_socket t"
  "tc_sessionToken (pushed t f) = tc_sessionToken t" "tc_tags (pushed t f) = tc_tags t" "tc_data (pushed t f) = tc_data t"
  "tc_disconnectTimer (pushed t f) = tc_disconnectTimer t"
  by (simp_all add: pushed_def)

lemma pushed_all_fields:
  "tc_reliableBuffer (pushed_all t fs) =
     tc_reliableBuffer t @ map (\<lambda>f. \<lparr>bm_payload = f, bm_byteSize = length f\<rparr>) fs"
  "tc_id (pushed_all t fs) = tc_id t" "tc_alive (pushed_all t fs) = tc_alive t" "tc_socket (pushed_all t fs) = tc_socket t"
  "tc_sessionToken (pushed_all t fs) = tc_sessionToken t" "tc_tags (pushed_all t fs) = tc_tags t"
  "tc_data (pushed_all t fs) = tc_data t"
  "tc_disconnectTimer (pushed_all t fs) = tc_disconnectTimer t"
  by (induction fs arbitrary: t) (simp_all add: pushed_all_def)

lemma put_fields [simp]:
  "rs_log (put s a t) = rs_log s" "rs_clients (put s a t) = rs_clients s" "rs_alive (put s a t) = rs_alive s"
  "rs_sessionTokens (put s a t) = rs_sessionTokens s" "rs_ipc (put s a t) = rs_ipc s" "rs_roomId (put s a t) = rs_roomId s"
  "rs_timers (put s a t) = rs_timers s" "rs_drops (put s a t) = rs_drops s" "rs_next (put s a t) = rs_next s"
  by (simp_all add: put_def)

lemma sends_buffer:
  assumes "deref s a = Some t" and "tc_alive t" "tc_socket t = None" "rs_alive s"
    and "map frameUserMessage ms = map Inr fs"
    and "int (tc_reliableBufferBytes t + sum_list (map length fs)) \<le> maxBufferBytes cfg"
  shows "let s' = foldl (\<lambda>s m. snd (handle_send cfg s a m True)) s ms in
    deref s' a = Some (pushed_all t fs) \<and> rs_log s' = rs_log s \<and> rs_clients s' = rs_clients s \<and>
    rs_sessionTokens s' = rs_sessionTokens s \<and> rs_ipc s' = rs_ipc s \<and> rs_roomId s' = rs_roomId s \<and> rs_drops s' = rs_drops s"
  using assms
proof (induction ms arbitrary: s t fs)
  case Nil
  then show ?case by (simp add: pushed_all_def)
next
  case (Cons m ms)
  obtain f fs' where fs: "fs = f # fs'" "frameUserMessage m = Inr f" "map frameUserMessage ms = map Inr fs'"
    using Cons.prems(5) by (cases fs) auto
  have "handle_send cfg s a m True = (Inr (), put s a (pushed t f))"
    using Cons.prems fs by (intro send_buffers) simp_all
  moreover have "pushed_all (pushed t f) fs' = pushed_all t fs"
    by (simp add: pushed_all_def fs)
  ultimately show ?case
    using Cons.IH [of "put s a (pushed t f)" "pushed t f" fs'] Cons.prems fs by (simp add: Let_def algebra_simps)
qed

text \<open>
  C9: nothing sent reliably while a client is away is lost or reordered. A connected client
  drops, the room holds its seat with \<open>allowReconnection\<close> and sends it messages that fit the
  buffer cap; when it reconnects, its new socket is subscribed, receives exactly those messages
  in order and only then the new session token, which replaces the old one; the drop handler
  settling afterwards does not evict it.
\<close>

theorem reconnect_delivers_in_order:
  assumes "room_inv cfg s" and "jm_get (rs_clients s) c = Some a" and "deref s a = Some t"
    and "tc_socket t = Some k0" and "rs_alive s" and "has_onDrop cfg" and "code \<noteq> 4000"
    and "map frameUserMessage ms = map Inr fs" and "int (sum_list (map length fs)) \<le> maxBufferBytes cfg"
    and "tok \<noteq> tc_sessionToken t"
  shows "let s1 = handle_allowReconnection (close cfg s c code) a;
      s2 = foldl (\<lambda>s m. snd (handle_send cfg s a m True)) s1 ms;
      s3 = reconnect cfg s2 c k None tok;
      s4 = drop_settled cfg s3 (rs_next s) True
    in rs_log s4 = rs_log s @ [Call (OnDrop a code), Subscribe k BROADCAST_TOPIC] @ map (Send k) fs @
         [Send k (packProtocol (pack cfg) (Session tok c))] @ call (has_onReconnect cfg) (OnReconnect a) @
         ipc_send s (ClientConnected c (rs_roomId s) (tc_tags t)) \<and>
       jm_get (rs_sessionTokens s4) tok = Some c \<and> jm_get (rs_sessionTokens s4) (tc_sessionToken t) = None \<and>
       jm_get (rs_clients s4) c = Some a \<and>
       (\<exists>t'. deref s4 a = Some t' \<and> tc_alive t' \<and> tc_socket t' = Some k \<and> tc_reliableBuffer t' = [])"
proof -
  have t: "tc_alive t" "tc_id t = c" using room_invD(5) [OF assms(1,2)] assms(3) by (auto simp: deref_def)
  have "object_ok cfg s a t" using room_invD(1) [OF assms(1)] assms(3) by (simp add: deref_def)
  then have empty: "tc_reliableBuffer t = []" "tc_reliableBufferBytes t = 0"
    using assms(4) by (auto simp: object_ok_def)
  define t1 where "t1 = t\<lparr>tc_socket := None, tc_disconnectTimer := Some (Suc (rs_next s))\<rparr>"
  define s1 where "s1 = handle_allowReconnection (close cfg s c code) a"
  have c1: "close cfg s c code = act (put s a (t\<lparr>tc_socket := None\<rparr>)) [Call (OnDrop a code)]
     \<lparr>rs_drops := jm_set (rs_drops s) (rs_next s) a, rs_next := Suc (rs_next s)\<rparr>"
    using assms by (simp add: close_def)
  have s1: "deref s1 a = Some t1" "rs_log s1 = rs_log s @ [Call (OnDrop a code)]" "rs_clients s1 = rs_clients s"
      "rs_sessionTokens s1 = rs_sessionTokens s" "rs_ipc s1 = rs_ipc s" "rs_roomId s1 = rs_roomId s" "rs_alive s1"
      "rs_drops s1 = jm_set (rs_drops s) (rs_next s) a"
    using t assms(5) by (simp_all add: s1_def c1 handle_allowReconnection_def t1_def deref_def put_def)
  have t1: "tc_alive t1" "tc_socket t1 = None" "tc_reliableBuffer t1 = []" "tc_reliableBufferBytes t1 = 0"
      "tc_sessionToken t1 = tc_sessionToken t" "tc_tags t1 = tc_tags t"
    using t empty by (simp_all add: t1_def)
  define s2 where "s2 = foldl (\<lambda>s m. snd (handle_send cfg s a m True)) s1 ms"
  have s2: "deref s2 a = Some (pushed_all t1 fs)" "rs_log s2 = rs_log s1" "rs_clients s2 = rs_clients s1"
      "rs_sessionTokens s2 = rs_sessionTokens s1" "rs_ipc s2 = rs_ipc s1" "rs_roomId s2 = rs_roomId s1"
      "rs_drops s2 = rs_drops s1"
    using sends_buffer [OF s1(1) t1(1,2) s1(7) assms(8), of cfg] assms(9) t1 by (simp_all add: s2_def Let_def)
  define s3 where "s3 = reconnect cfg s2 c k None tok"
  define t3 where "t3 = (pushed_all t1 fs)\<lparr>tc_disconnectTimer := None, tc_socket := Some k, tc_sessionToken := tok,
                                        tc_reliableBuffer := [], tc_reliableBufferBytes := 0\<rparr>"
  have s3: "deref s3 a = Some t3" "rs_clients s3 = rs_clients s" "rs_drops s3 = jm_set (rs_drops s) (rs_next s) a"
      "rs_sessionTokens s3 = jm_set (jm_del (rs_sessionTokens s) (tc_sessionToken t)) tok c"
      "rs_log s3 = rs_log s @ [Call (OnDrop a code), Subscribe k BROADCAST_TOPIC] @ map (Send k) fs @
         [Send k (packProtocol (pack cfg) (Session tok c))] @ call (has_onReconnect cfg) (OnReconnect a) @
         ipc_send s (ClientConnected c (rs_roomId s) (tc_tags t))"
    using assms(2) s1 s2 t1
    by (simp_all add: s3_def reconnect_def Let_def truthy_def pushed_all_fields clear_timer_def t3_def ipc_send_def comp_def
        split: option.splits)
  have t3: "tc_alive t3" "tc_socket t3 = Some k" "tc_reliableBuffer t3 = []"
    using t1 by (simp_all add: t3_def pushed_all_fields)
  have "drop_settled cfg s3 (rs_next s) True = s3\<lparr>rs_drops := jm_del (rs_drops s3) (rs_next s)\<rparr>"
    using s3 t3 by (simp add: drop_settled_def Let_def deref_def)
  then show ?thesis
    using s3 t3 assms(2,10)
    unfolding s1_def [symmetric] s2_def [symmetric] s3_def [symmetric] Let_def by (simp add: deref_def)
qed

theorem reconnect_delivers_in_order_witness:
  "let s1 = handle_allowReconnection (close demo_cfg demo_room ''c1'' 1001) 2;
      s2 = foldl (\<lambda>s m. snd (handle_send demo_cfg s 2 m True)) s1 [BufferMsg [5, 6], TextMsg [65]];
      s3 = reconnect demo_cfg s2 ''c1'' 8 None ''t3'';
      s4 = drop_settled demo_cfg s3 6 True
    in drop 12 (rs_log s4) = [Call (OnDrop 2 1001), Subscribe 8 ''room'', Send 8 [2, 5, 6], Send 8 [1, 65], Send 8 [0, 7],
      Call (OnReconnect 2), Ipc (ClientConnected ''c1'' ''r1'' [])]"
proof -
  have c: "jm_get (rs_clients demo_room) ''c1'' = Some 2" by (simp add: demo_room_eq jm_get_Cons)
  have d: "deref demo_room 2 = Some \<lparr>tc_id = ''c1'', tc_data = ''d1'', tc_socket = Some 1, tc_sessionToken = ''t1'',
      tc_reliableBuffer = [], tc_reliableBufferBytes = 0, tc_disconnectTimer = None, tc_tags = [], tc_alive = True\<rparr>"
    by (simp add: demo_room_eq jm_get_Cons deref_def)
  have f: "map frameUserMessage [BufferMsg [5, 6], TextMsg [65]] = map Inr [[2, 5, 6], [1, 65]]"
    by code_simp
  have *: "rs_next demo_room = 6" "rs_ipc demo_room" "rs_alive demo_room" "rs_roomId demo_room = ''r1''" "length (rs_log demo_room) = 12"
    by (simp_all add: demo_room_eq)
  show ?thesis
    using reconnect_delivers_in_order [OF demo_room_inv c d _ _ _ _ f, of 1 1001 "''t3''" 8]
    by (simp add: Let_def * demo_cfg_def ipc_send_def call_def packProtocol_def FRAME_PROTOCOL_def BROADCAST_TOPIC_def)
qed

section \<open>Loops over the clients\<close>

text \<open>
  A loop whose body, for a live client, appends actions that depend only on that client and
  replaces only that client: its log and heap afterwards.
\<close>

lemma clients_loop:
  assumes body: "\<And>s a t. deref s a = Some t \<Longrightarrow> tc_alive t \<Longrightarrow> rs_ipc s = ipc \<Longrightarrow>
      rs_log (f s a) = rs_log s @ g a t \<and> rs_ipc (f s a) = ipc \<and> (\<forall>b. deref (f s a) b = (if b = a then Some (h t) else deref s b))"
  shows "rs_ipc s = ipc \<Longrightarrow> distinct as \<Longrightarrow> \<forall>a \<in> set as. \<exists>t. deref s a = Some t \<and> tc_alive t \<Longrightarrow>
    rs_log (foldl f s as) = rs_log s @ concat (map (\<lambda>a. g a (the (deref s a))) as) \<and>
    (\<forall>b. deref (foldl f s as) b = (if b \<in> set as then Some (h (the (deref s b))) else deref s b))"
proof (induction as arbitrary: s)
  case (Cons a as)
  obtain t where t: "deref s a = Some t" "tc_alive t" using Cons.prems by auto
  note b = body [OF t Cons.prems(1)]
  have eq: "deref (f s a) b = deref s b" if "b \<in> set as" for b
    using b that Cons.prems(2) by auto
  then have m: "map (\<lambda>b. g b (the (deref (f s a) b))) as = map (\<lambda>b. g b (the (deref s b))) as" by simp
  have live: "\<forall>b \<in> set as. \<exists>t. deref (f s a) b = Some t \<and> tc_alive t" using eq Cons.prems(3) by simp
  have ipc: "rs_ipc (f s a) = ipc" and log: "rs_log (f s a) = rs_log s @ g a t" using b by simp_all
  have "distinct as" "a \<notin> set as" using Cons.prems(2) by simp_all
  from Cons.IH [OF ipc this(1) live]
  have IH: "rs_log (foldl f (f s a) as) = rs_log s @ g a t @ concat (map (\<lambda>b. g b (the (deref s b))) as)"
      "\<forall>b. deref (foldl f (f s a) as) b = (if b \<in> set as then Some (h (the (deref (f s a) b))) else deref (f s a) b)"
    unfolding m log by simp_all
  have "deref (foldl f (f s a) as) c = (if c \<in> set (a # as) then Some (h (the (deref s c))) else deref s c)" for c
    using IH(2) b eq [of c] \<open>a \<notin> set as\<close> t(1) by (cases "c = a") simp_all
  then show ?case using IH(1) t(1) by simp
qed simp

lemma clients_alive': "room_inv cfg s \<Longrightarrow> \<forall>a \<in> set (clients_all s). \<exists>t. deref s a = Some t \<and> tc_alive t"
  using clients_alive by (fastforce simp: alive_at_def)

section \<open>Broadcast\<close>

text \<open>
  What one client gets of a broadcast: nothing when excluded, the frame when connected, a
  buffered copy when it is away, and eviction when that copy exceeds the cap.
\<close>

definition overflows :: "room_config \<Rightarrow> tracked_client \<Rightarrow> byte list \<Rightarrow> bool" where
  "overflows cfg t framed = (int (tc_reliableBufferBytes t + length framed) > maxBufferBytes cfg)"

definition left_actions :: "room_config \<Rightarrow> bool \<Rightarrow> addr \<Rightarrow> string \<Rightarrow> action list" where
  "left_actions cfg ipc a c =
     call (has_onLeave cfg) (OnLeave a) @ (if ipc then [Ipc (ClientDisconnected c)] else [])"

definition share :: "room_config \<Rightarrow> byte list \<Rightarrow> bool \<Rightarrow> string list \<Rightarrow> bool \<Rightarrow> addr \<Rightarrow> tracked_client \<Rightarrow> action list" where
  "share cfg framed reliable ids ipc a t =
     (if tc_id t \<in> set ids then []
      else case tc_socket t of Some k \<Rightarrow> [Send k framed]
        | None \<Rightarrow> if reliable \<and> overflows cfg t framed then left_actions cfg ipc a (tc_id t) else [])"

definition after_share :: "room_config \<Rightarrow> byte list \<Rightarrow> bool \<Rightarrow> string list \<Rightarrow> tracked_client \<Rightarrow> tracked_client" where
  "after_share cfg framed reliable ids t =
     (if tc_id t \<in> set ids \<or> tc_socket t \<noteq> None \<or> \<not> reliable then t
      else if overflows cfg t framed then retired t else pushed t framed)"

lemma evict_more:
  assumes "deref s a = Some t" and "tc_alive t"
  shows "rs_log (evictClient cfg s a) = rs_log s @ (case tc_socket t of Some k \<Rightarrow> [CloseSocket k 4000 ''evicted''] | None \<Rightarrow> [])
         @ call (has_onLeave cfg) (OnLeave a) @ ipc_send s (ClientDisconnected (tc_id t)) \<and>
    rs_ipc (evictClient cfg s a) = rs_ipc s"
  by (simp add: evict_alive [OF assms])

lemma broadcast_one_body:
  assumes "deref s a = Some t" and "tc_alive t" and "rs_ipc s = ipc"
  shows "rs_log (broadcast_one cfg p r ids s a) = rs_log s @ share cfg p r ids ipc a t \<and>
    rs_ipc (broadcast_one cfg p r ids s a) = ipc \<and>
    (\<forall>b. deref (broadcast_one cfg p r ids s a) b = (if b = a then Some (after_share cfg p r ids t) else deref s b))"
  using assms evict_more [OF assms(1,2), of cfg]
  by (auto simp: broadcast_one_def bufferForClient_alive share_def after_share_def overflows_def left_actions_def deref_evict
      ipc_send_def split: option.splits)

text \<open>
  C12: a broadcast with exclusions sends, in the order of the client map, the frame to every
  connected client that is not excluded; a reliable one is also buffered for every client that
  is away, evicting exactly those whose buffer it overflows; an excluded client gets neither a
  frame nor a buffered copy, and nothing else in the room changes.
\<close>

theorem broadcast_except_contract:
  assumes "room_inv cfg s" and "rs_started s" and "rs_alive s" and "rs_server s"
    and "frameUserMessage m = Inr framed"
  shows "let s' = snd (broadcast cfg s m r (Some ids)) in
    fst (broadcast cfg s m r (Some ids)) = Inr () \<and>
    rs_log s' = rs_log s @ concat (map (\<lambda>a. share cfg framed r ids (rs_ipc s) a (the (deref s a))) (clients_all s)) \<and>
    (\<forall>a. deref s' a = (if a \<in> set (clients_all s) then Some (after_share cfg framed r ids (the (deref s a))) else deref s a))"
  using assms clients_loop [where f = "broadcast_one cfg framed r ids" and as = "clients_all s" and ipc = "rs_ipc s",
      OF broadcast_one_body refl distinct_clients [OF assms(1)] clients_alive' [OF assms(1)]]
  by (simp add: broadcast_def)

theorem broadcast_except_contract_witness:
  "let s' = snd (broadcast demo_cfg demo_room (BufferMsg [5]) True (Some [''c1''])) in
   rs_log s' = rs_log demo_room \<and> (\<exists>t. deref s' 3 = Some t \<and> map bm_payload (tc_reliableBuffer t) = [[2, 5]])"
proof -
  have f: "frameUserMessage (BufferMsg [5]) = Inr [2, 5]" by code_simp
  have *: "rs_started demo_room" "rs_alive demo_room" "rs_server demo_room" by (simp_all add: demo_room_eq)
  have "clients_all demo_room = [2, 3]" by (simp add: demo_room_eq clients_all_def jm_values_def)
  moreover have "share demo_cfg [2, 5] True [''c1''] True 2 (the (deref demo_room 2)) = []"
      "share demo_cfg [2, 5] True [''c1''] True 3 (the (deref demo_room 3)) = []"
    unfolding demo_room_eq by code_simp+
  moreover have "map bm_payload (tc_reliableBuffer (after_share demo_cfg [2, 5] True [''c1''] (the (deref demo_room 3)))) = [[2, 5]]"
    unfolding demo_room_eq by code_simp
  moreover have "rs_ipc demo_room" by (simp add: demo_room_eq)
  ultimately show ?thesis
    using broadcast_except_contract [OF demo_room_inv * f, of True "[''c1'']"] by (simp add: Let_def)
qed

section \<open>Shutdown\<close>

lemma stop_client_body:
  assumes "deref s a = Some t" and "tc_alive t" and "rs_ipc s = ipc"
  shows "rs_log (stop_client cfg s a) = rs_log s @ left_actions cfg ipc a (tc_id t) @
      (case tc_socket t of Some k \<Rightarrow> [CloseSocket k 1001 ''room shutting down''] | None \<Rightarrow> []) \<and>
    rs_ipc (stop_client cfg s a) = ipc \<and>
    (\<forall>b. deref (stop_client cfg s a) b = (if b = a then Some (retired t) else deref s b))"
  using assms by (auto simp: stop_client_eq left_actions_def ipc_send_def) (simp_all add: deref_def)

lemma deref_server: "deref (s\<lparr>rs_server := x\<rparr>) a = deref s a"
  by (simp add: deref_def)

lemma stop_loop_fields:
  "rs_clients (foldl (stop_client cfg) s as) = rs_clients s \<and> rs_sessionTokens (foldl (stop_client cfg) s as) = rs_sessionTokens s \<and>
   rs_server (foldl (stop_client cfg) s as) = rs_server s \<and> rs_ipc (foldl (stop_client cfg) s as) = rs_ipc s"
  by (induction as arbitrary: s) (auto simp: stop_client_def Let_def clear_timer_def put_def split: option.splits)

text \<open>
  Stopping a room that has no \<open>onShutdown\<close>, or whose \<open>onShutdown\<close> completed, leaves no
  client, no session and no server: for every tracked client, in order, \<open>onLeave\<close> is scheduled,
  the server is told it disconnected and its socket is closed with 1001; then the transport
  is closed, \<open>stopped\<close> is sent when the room stopped itself, and the notify link is closed.
\<close>

theorem stop_closes_everything:
  assumes "room_inv cfg s" and "(rs_alive s \<and> \<not> has_onShutdown cfg \<and> e = EvStop self) \<or>
      (rs_stopping s = Some self \<and> e = EvShutdownSettled True)"
  shows "let s' = room_step cfg s e in
    rs_clients s' = [] \<and> rs_sessionTokens s' = [] \<and> \<not> rs_server s' \<and>
    (\<forall>a \<in> set (clients_all s). deref s' a = Some (retired (the (deref s a)))) \<and>
    rs_log s' = rs_log s @
      concat (map (\<lambda>a. let t = the (deref s a) in left_actions cfg (rs_ipc s) a (tc_id t) @
        (case tc_socket t of Some k \<Rightarrow> [CloseSocket k 1001 ''room shutting down''] | None \<Rightarrow> [])) (clients_all s)) @
      (if rs_server s then [ServerClose] else []) @ (if self then ipc_send s Stopped else []) @
      (if rs_ipc s then [IpcClose] else [])"
proof -
  have fin: "let s' = stopRoom_finish cfg s1 self in
    rs_clients s' = [] \<and> rs_sessionTokens s' = [] \<and> \<not> rs_server s' \<and>
    (\<forall>a \<in> set (clients_all s). deref s' a = Some (retired (the (deref s a)))) \<and>
    rs_log s' = rs_log s @
      concat (map (\<lambda>a. let t = the (deref s a) in left_actions cfg (rs_ipc s) a (tc_id t) @
        (case tc_socket t of Some k \<Rightarrow> [CloseSocket k 1001 ''room shutting down''] | None \<Rightarrow> [])) (clients_all s)) @
      (if rs_server s then [ServerClose] else []) @ (if self then ipc_send s Stopped else []) @
      (if rs_ipc s then [IpcClose] else [])"
    if s1: "rs_heap s1 = rs_heap s" "rs_clients s1 = rs_clients s" "rs_ipc s1 = rs_ipc s" "rs_server s1 = rs_server s"
      "rs_log s1 = rs_log s" for s1
  proof -
    let ?s = "s1\<lparr>rs_clients := [], rs_sessionTokens := [], rs_stopping := None\<rparr>"
    have d: "deref ?s = deref s" using s1 by (simp add: deref_def fun_eq_iff)
    have all: "jm_values (rs_clients s) = clients_all s" by (simp add: clients_all_def)
    have loop: "rs_log (foldl (stop_client cfg) ?s (clients_all s)) = rs_log ?s @ concat (map (\<lambda>a. left_actions cfg (rs_ipc s) a
          (tc_id (the (deref ?s a))) @ (case tc_socket (the (deref ?s a)) of Some k \<Rightarrow> [CloseSocket k 1001 ''room shutting down'']
            | None \<Rightarrow> [])) (clients_all s)) \<and>
        (\<forall>b. deref (foldl (stop_client cfg) ?s (clients_all s)) b =
          (if b \<in> set (clients_all s) then Some (retired (the (deref ?s b))) else deref ?s b))"
      by (rule clients_loop [where ipc = "rs_ipc s", OF stop_client_body])
         (use s1 d distinct_clients [OF assms(1)] clients_alive' [OF assms(1)] in simp_all)
    show ?thesis
      using loop [unfolded d] stop_loop_fields [of cfg ?s "clients_all s"] s1
      by (simp add: stopRoom_finish_def Let_def all ipc_send_def deref_server)
  qed
  from assms(2) show ?thesis
  proof
    assume "rs_alive s \<and> \<not> has_onShutdown cfg \<and> e = EvStop self"
    then show ?thesis
      using fin [of "s\<lparr>rs_alive := False, rs_startWarnTimer := False, rs_sigtermHandler := False, rs_heartbeatInterval := False\<rparr>"]
      by (simp add: stopRoom_begin_def Let_def)
  next
    assume "rs_stopping s = Some self \<and> e = EvShutdownSettled True"
    then show ?thesis using fin [of s] by (simp add: shutdown_settled_def)
  qed
qed

theorem stop_closes_everything_witness:
  "let s' = room_step demo_cfg demo_room (EvStop True) in
   rs_clients s' = [] \<and> drop 12 (rs_log s') = [Call (OnLeave 2), Ipc (ClientDisconnected ''c1''),
     CloseSocket 1 1001 ''room shutting down'', Call (OnLeave 3), Ipc (ClientDisconnected ''c2''), ServerClose, Ipc Stopped, IpcClose]"
proof -
  have *: "clients_all demo_room = [2, 3]" "rs_server demo_room" "rs_ipc demo_room" "length (rs_log demo_room) = 12"
    "the (deref demo_room 2) = \<lparr>tc_id = ''c1'', tc_data = ''d1'', tc_socket = Some 1, tc_sessionToken = ''t1'',
        tc_reliableBuffer = [], tc_reliableBufferBytes = 0, tc_disconnectTimer = None, tc_tags = [], tc_alive = True\<rparr>"
    "the (deref demo_room 3) = \<lparr>tc_id = ''c2'', tc_data = ''d2'', tc_socket = None, tc_sessionToken = ''t2'',
        tc_reliableBuffer = [], tc_reliableBufferBytes = 0, tc_disconnectTimer = Some 5, tc_tags = [], tc_alive = True\<rparr>"
    by (simp_all add: demo_room_eq clients_all_def jm_values_def deref_def jm_get_Cons)
  have "(rs_alive demo_room \<and> \<not> has_onShutdown demo_cfg \<and> EvStop True = EvStop True) \<or>
      (rs_stopping demo_room = Some True \<and> EvStop True = EvShutdownSettled True)"
    by (simp add: demo_room_eq demo_cfg_def)
  from stop_closes_everything [OF demo_room_inv this] show ?thesis
    by (simp add: Let_def * left_actions_def call_def ipc_send_def demo_cfg_def del: room_step.simps)
qed

section \<open>Admission\<close>

text \<open>
  Creation fails closed and decides admission. Without the standalone opt-in, \<open>create\<close>
  throws exactly when neither a notify channel nor a secret is configured (empty strings
  count as absent). A created room demands a seat token exactly when it holds a secret: then
  a fresh connection of the right protocol version is accepted only with a token that verifies
  under this secret and names this room; a room without one admits any connection, which
  includes a managed room given only a notify channel.
\<close>

theorem create_decides_admission:
  assumes "map_of params ''gv'' = Some ''1''" and "\<not> truthy (map_of params ''session'')"
  shows "case create env opts uuid of
     Inl e \<Rightarrow> e = NoManagedContext \<and> \<not> co_standalone opts \<and>
       \<not> truthy (or_else (Option.bind (co_server opts) sc_secret) (env ''GATHO_ROOM_SECRET'')) \<and>
       \<not> notify_truthy (or_else (Option.bind (co_server opts) sc_notify) (map_option NotifyUri (env ''GATHO_NOTIFY_SOCKET'')))
   | Inr s \<Rightarrow>
       (\<not> co_standalone opts \<longrightarrow> notify_truthy (rs_notifySource s) \<or> truthy (rs_roomSecret s)) \<and>
       (if truthy (rs_roomSecret s) then
          (\<forall>u. upgrade cfg s params fresh = Some u \<longrightarrow>
             (\<exists>tok c. map_of params ''token'' = Some tok \<and> jwtVerify cfg tok (the (rs_roomSecret s)) = Some c \<and>
                sc_roomId c = rs_roomId s \<and> ur_clientId u = sc_clientId c \<and> \<not> ur_reconnecting u))
        else upgrade cfg s params fresh = Some (accepted fresh False None))"
proof (cases "create env opts uuid")
  case (Inl e)
  then show ?thesis
    by (simp add: create_def Let_def split: if_splits)
next
  case (Inr s)
  have v: "js_String_nat PROTOCOL_VERSION = ''1''" by code_simp
  have managed: "\<not> co_standalone opts \<longrightarrow> notify_truthy (rs_notifySource s) \<or> truthy (rs_roomSecret s)"
    using Inr by (auto simp: create_def Let_def initial_state_def split: if_splits)
  have "upgrade cfg s params fresh = Some (accepted fresh False None)" if "\<not> truthy (rs_roomSecret s)"
    using that assms v by (simp add: upgrade_def Let_def)
  moreover have "\<exists>tok c. map_of params ''token'' = Some tok \<and> jwtVerify cfg tok (the (rs_roomSecret s)) = Some c \<and>
                sc_roomId c = rs_roomId s \<and> ur_clientId u = sc_clientId c \<and> \<not> ur_reconnecting u"
    if "truthy (rs_roomSecret s)" "upgrade cfg s params fresh = Some u" for u
    using that assms v by (auto simp: upgrade_def Let_def truthy_def split: if_splits option.splits)
  ultimately show ?thesis using Inr managed by simp
qed

theorem create_decides_admission_witness:
  "(case create (\<lambda>_. None) \<lparr>co_server = Some \<lparr>sc_notify = Some (NotifyUri ''uds:/tmp/x''), sc_room = Some ''r'', sc_type = None,
       sc_secret = Some [], sc_server = None\<rparr>, co_standalone = False\<rparr> ''u'' of
     Inl _ \<Rightarrow> False | Inr s \<Rightarrow> upgrade demo_cfg s [(''gv'', ''1'')] ''x'' = Some (accepted ''x'' False None))"
proof -
  let ?o = "\<lparr>co_server = Some \<lparr>sc_notify = Some (NotifyUri ''uds:/tmp/x''), sc_room = Some ''r'', sc_type = None,
       sc_secret = Some [], sc_server = None\<rparr>, co_standalone = False\<rparr>"
  have "create (\<lambda>_. None) ?o ''u'' = Inr (initial_state ''r'' ''room'' None (Some []) (Some (NotifyUri ''uds:/tmp/x'')))"
    by (simp add: create_def Let_def or_else_def notify_truthy_def)
  moreover have "map_of [(''gv'', ''1'')] ''gv'' = Some ''1''" "\<not> truthy (map_of [(''gv'', ''1'')] ''session'')"
    by (simp_all add: truthy_def)
  note create_decides_admission [OF this, where env = "\<lambda>_. None" and opts = ?o and uuid = "''u''" and cfg = demo_cfg and fresh = "''x''"]
  ultimately show ?thesis by (simp add: initial_state_def truthy_def)
qed

text \<open>
  C27: a client id works as a session token. For a client that dropped and whose seat is held,
  an upgrade with its client id as the \<open>session\<close> parameter is accepted as a reconnection of
  that client, and the reconnect that follows hands the seat, the buffered messages and a new
  session token to the new socket, with no secret presented.
\<close>

theorem clientId_resumes_a_dropped_seat:
  assumes "room_inv cfg s" and "jm_get (rs_clients s) c = Some a" and "deref s a = Some t" and "tc_socket t = None"
    and "c \<noteq> []" and "jm_get (rs_sessionTokens s) c = None"
    and "map_of params ''gv'' = Some ''1''" and "map_of params ''session'' = Some c"
  shows "upgrade cfg s params uuid = Some (accepted c True None) \<and>
    (\<exists>t'. deref (reconnect cfg s c k None tok) a = Some t' \<and> tc_alive t' \<and> tc_socket t' = Some k \<and> tc_sessionToken t' = tok) \<and>
    Send k (packProtocol (pack cfg) (Session tok c)) \<in> set (rs_log (reconnect cfg s c k None tok)) \<and>
    (\<forall>b \<in> set (tc_reliableBuffer t). Send k (bm_payload b) \<in> set (rs_log (reconnect cfg s c k None tok)))"
proof -
  have v: "js_String_nat PROTOCOL_VERSION = ''1''" by code_simp
  have "tc_alive t" using room_invD(5) [OF assms(1,2)] assms(3) by (auto simp: deref_def)
  then show ?thesis
    using assms v
    by (simp add: upgrade_def truthy_def reconnect_def Let_def clear_timer_def split: option.splits)
qed

theorem clientId_resumes_a_dropped_seat_witness:
  "upgrade demo_cfg demo_room [(''gv'', ''1''), (''session'', ''c2'')] ''u'' = Some (accepted ''c2'' True None) \<and>
   Send 66 [0, 7] \<in> set (rs_log (reconnect demo_cfg demo_room ''c2'' 66 None ''stolen''))"
proof -
  have "jm_get (rs_clients demo_room) ''c2'' = Some 3"
    "deref demo_room 3 = Some \<lparr>tc_id = ''c2'', tc_data = ''d2'', tc_socket = None, tc_sessionToken = ''t2'',
        tc_reliableBuffer = [], tc_reliableBufferBytes = 0, tc_disconnectTimer = Some 5, tc_tags = [], tc_alive = True\<rparr>"
    "jm_get (rs_sessionTokens demo_room) ''c2'' = None"
    by (simp_all add: demo_room_eq jm_get_Cons deref_def)
  from clientId_resumes_a_dropped_seat [OF demo_room_inv this(1,2) _ _ this(3),
      of "[(''gv'', ''1''), (''session'', ''c2'')]" "''u''" 66 "''stolen''"]
  show ?thesis by (simp add: demo_cfg_def packProtocol_def FRAME_PROTOCOL_def)
qed

text \<open>
  A seat is not exclusive while authentication is pending. Two connections with the same
  untracked client id both pass the check of \<open>open\<close>; when both authentications succeed, both
  sockets get a session of that client and are subscribed, the map holds the second, and the
  first stays a live tracked client outside the map whose token still names the seat.
\<close>

theorem concurrent_opens_share_a_seat:
  assumes "room_inv cfg s" and "jm_get (rs_clients s) c = None" and "tok1 \<noteq> tok2"
  shows "let s1 = open_conn cfg (open_conn cfg s c k1 d tg None) c k2 d tg None;
      s2 = auth_settled cfg (auth_settled cfg s1 (rs_next s) (AuthOk x) tok1) (Suc (rs_next s)) (AuthOk y) tok2;
      a = Suc (Suc (rs_next s)); b = Suc a
    in jm_get (rs_clients s2) c = Some b \<and>
       (\<exists>t u. deref s2 a = Some t \<and> tc_alive t \<and> tc_id t = c \<and> tc_socket t = Some k1 \<and>
              deref s2 b = Some u \<and> tc_alive u \<and> tc_id u = c \<and> tc_socket u = Some k2) \<and>
       jm_get (rs_sessionTokens s2) tok1 = Some c \<and> jm_get (rs_sessionTokens s2) tok2 = Some c \<and>
       Subscribe k1 BROADCAST_TOPIC \<in> set (rs_log s2) \<and> Subscribe k2 BROADCAST_TOPIC \<in> set (rs_log s2)"
  using assms by (simp add: open_conn_def auth_settled_def Let_def truthy_def deref_def put_def)

theorem concurrent_opens_share_a_seat_witness:
  "let s1 = open_conn demo_cfg (open_conn demo_cfg demo_room ''c9'' 7 ''j'' [] None) ''c9'' 8 ''j'' [] None;
       s2 = auth_settled demo_cfg (auth_settled demo_cfg s1 6 (AuthOk ''d'') ''x'') 7 (AuthOk ''d'') ''y''
   in jm_get (rs_sessionTokens s2) ''x'' = Some ''c9'' \<and> jm_get (rs_clients s2) ''c9'' = Some 9"
proof -
  have "jm_get (rs_clients demo_room) ''c9'' = None" "rs_next demo_room = 6"
    by (simp_all add: demo_room_eq jm_get_Cons)
  then show ?thesis
    using concurrent_opens_share_a_seat [OF demo_room_inv, of "''c9''" "''x''" "''y''" 7 "''j''" "[]" 8 "''d''" "''d''"]
    by (simp add: Let_def eval_nat_numeral)
qed

text \<open>
  When the drop handler settles, a client that is still away and got no reconnection
  window is evicted; but when the handler throws, the seat is kept although no timer will ever
  end it.
\<close>

theorem drop_settles_seat:
  assumes "room_inv cfg s" and "jm_get (rs_clients s) c = Some a" and "deref s a = Some t"
    and "tc_disconnectTimer t = None" and "\<forall>i. jm_get (rs_timers s) i \<noteq> Some a"
    and "has_onDrop cfg" and "code \<noteq> 4000"
  shows "let s1 = close cfg s c code; s2 = drop_settled cfg s1 (rs_next s) ok in
    (if ok then jm_get (rs_clients s2) c = None \<and> deref s2 a = Some (retired (t\<lparr>tc_socket := None\<rparr>))
     else jm_get (rs_clients s2) c = Some a \<and> deref s2 a = Some (t\<lparr>tc_socket := None\<rparr>) \<and>
          (\<forall>i. jm_get (rs_timers s2) i \<noteq> Some a))"
proof -
  have t: "tc_alive t" "tc_id t = c" using room_invD(5) [OF assms(1,2)] assms(3) by (auto simp: deref_def)
  define s1 where "s1 = close cfg s c code"
  have s1: "deref s1 a = Some (t\<lparr>tc_socket := None\<rparr>)" "rs_clients s1 = rs_clients s" "rs_timers s1 = rs_timers s"
      "jm_get (rs_drops s1) (rs_next s) = Some a"
    using assms by (simp_all add: s1_def close_def) (simp add: deref_def put_def)
  define s2 where "s2 = s1\<lparr>rs_drops := jm_del (rs_drops s1) (rs_next s)\<rparr>"
  have s2: "deref s2 a = Some (t\<lparr>tc_socket := None\<rparr>)" "rs_clients s2 = rs_clients s" "rs_timers s2 = rs_timers s"
    using s1 by (simp_all add: s2_def deref_def)
  then have e: "rs_clients (evictClient cfg s2 a) = jm_del (rs_clients s) c"
      "deref (evictClient cfg s2 a) a = Some (retired (t\<lparr>tc_socket := None\<rparr>))"
    using t evict_fields(4) [OF s2(1)] deref_evict [of cfg s2 a a] by simp_all
  have "drop_settled cfg s1 (rs_next s) ok = (if ok then evictClient cfg s2 a else s2)"
    using s1 s2 assms(2,4) t by (simp add: drop_settled_def Let_def s2_def [symmetric])
  then show ?thesis
    using e s2 assms(2,5) unfolding s1_def [symmetric] by (cases ok) (simp_all add: Let_def)
qed

theorem drop_settles_seat_witness:
  "jm_get (rs_clients (drop_settled demo_cfg (close demo_cfg demo_room ''c1'' 1006) 6 False)) ''c1'' = Some 2"
proof -
  have "jm_get (rs_clients demo_room) ''c1'' = Some 2"
    "deref demo_room 2 = Some \<lparr>tc_id = ''c1'', tc_data = ''d1'', tc_socket = Some 1, tc_sessionToken = ''t1'',
      tc_reliableBuffer = [], tc_reliableBufferBytes = 0, tc_disconnectTimer = None, tc_tags = [], tc_alive = True\<rparr>"
    "\<forall>i. jm_get (rs_timers demo_room) i \<noteq> Some 2" "rs_next demo_room = 6"
    by (simp_all add: demo_room_eq jm_get_Cons deref_def)
  then show ?thesis
    using drop_settles_seat [OF demo_room_inv, of "''c1''" 2 _ 1006 False] by (simp add: Let_def demo_cfg_def)
qed

text \<open>
  Asking twice for a reconnection window arms two timers, and a reconnect cancels only the
  second: the first later evicts the client although it is connected again.
\<close>

theorem second_window_evicts_reconnected:
  assumes "room_inv cfg s" and "jm_get (rs_clients s) c = Some a" and "deref s a = Some t" and "tc_socket t = None"
  shows "let s1 = handle_allowReconnection (handle_allowReconnection s a) a;
      s2 = reconnect cfg s1 c k None tok;
      s3 = timer_fire cfg s2 (rs_next s)
    in (\<exists>u. deref s2 a = Some u \<and> tc_alive u \<and> tc_socket u = Some k) \<and>
       jm_get (rs_clients s3) c = None \<and> CloseSocket k 4000 ''evicted'' \<in> set (rs_log s3)"
proof -
  have t: "tc_alive t" "tc_id t = c" using room_invD(5) [OF assms(1,2)] assms(3) by (auto simp: deref_def)
  define s1 where "s1 = handle_allowReconnection (handle_allowReconnection s a) a"
  define t1 where "t1 = t\<lparr>tc_disconnectTimer := Some (Suc (rs_next s))\<rparr>"
  have s1: "deref s1 a = Some t1" "rs_clients s1 = rs_clients s"
      "rs_timers s1 = jm_set (jm_set (rs_timers s) (rs_next s) a) (Suc (rs_next s)) a"
    using t assms(3,4) by (simp_all add: s1_def t1_def handle_allowReconnection_def deref_def put_def)
  define s2 where "s2 = reconnect cfg s1 c k None tok"
  define u where "u = t1\<lparr>tc_disconnectTimer := None, tc_socket := Some k, tc_sessionToken := tok,
                                        tc_reliableBuffer := [], tc_reliableBufferBytes := 0\<rparr>"
  have s2: "deref s2 a = Some u" "rs_clients s2 = rs_clients s" "jm_get (rs_timers s2) (rs_next s) = Some a"
    using s1 assms(2,4) t
    by (simp_all add: s2_def reconnect_def Let_def truthy_def clear_timer_def u_def t1_def)
  have u: "tc_alive u" "tc_socket u = Some k" "tc_id u = c" "tc_disconnectTimer u = None"
    using t by (simp_all add: u_def t1_def)
  then have uu: "u\<lparr>tc_disconnectTimer := None\<rparr> = u" by simp
  define s3 where "s3 = put (s2\<lparr>rs_timers := jm_del (rs_timers s2) (rs_next s)\<rparr>) a u"
  have "timer_fire cfg s2 (rs_next s) = evictClient cfg s3 a"
    using s2 uu by (simp add: timer_fire_def Let_def deref_def s3_def)
  moreover have "deref s3 a = Some u" by (simp add: s3_def)
  then have "rs_clients (evictClient cfg s3 a) = jm_del (rs_clients s) c"
      "CloseSocket k 4000 ''evicted'' \<in> set (rs_log (evictClient cfg s3 a))"
    using evict_fields(4) [of s3 a u cfg] evict_more [of s3 a u cfg] u s2 by (simp_all add: s3_def)
  ultimately show ?thesis
    using s2 u unfolding s1_def [symmetric] s2_def [symmetric] Let_def by simp
qed

theorem second_window_evicts_reconnected_witness:
  "jm_get (rs_clients (timer_fire demo_cfg (reconnect demo_cfg (handle_allowReconnection
     (handle_allowReconnection demo_room 3) 3) ''c2'' 9 None ''t9'') 6)) ''c2'' = None"
proof -
  have "jm_get (rs_clients demo_room) ''c2'' = Some 3"
    "deref demo_room 3 = Some \<lparr>tc_id = ''c2'', tc_data = ''d2'', tc_socket = None, tc_sessionToken = ''t2'',
        tc_reliableBuffer = [], tc_reliableBufferBytes = 0, tc_disconnectTimer = Some 5, tc_tags = [], tc_alive = True\<rparr>"
    "rs_next demo_room = 6"
    by (simp_all add: demo_room_eq jm_get_Cons deref_def)
  then show ?thesis
    using second_window_evicts_reconnected [OF demo_room_inv, of "''c2''" 3 _ 9 "''t9''"] by (simp add: Let_def)
qed

end
