(* ===== verification/Ws_Transport.thy ===== *)
theory Ws_Transport
  imports Room_Properties
begin

text \<open>
  \<open>src/room/transport/ws.ts\<close>: the websocket transport, and the room running on it. The \<open>ws\<close>
  and \<open>http\<close> packages are not modelled: a socket is a number, \<open>readyState === OPEN\<close> a list of
  open sockets, and what the transport writes to the network is a log. The \<open>ConnectionState\<close>
  of a socket is kept by address because closures hold it after it left \<open>connections\<close>.
\<close>

section \<open>State\<close>

record connection_state =
  cs_clientId :: string
  cs_topics :: "string list"

datatype net_action = NetSend sock "byte list" | NetClose sock nat | Http401 | ServersClosed

record ws_state =
  ws_states :: "(sock, connection_state) jsmap"
  ws_connections :: "sock list"
  ws_clientSockets :: "(string, sock) jsmap"
  ws_topics :: "(string, sock list) jsmap"
  ws_open :: "sock list"
  ws_net :: "net_action list"

definition set_add :: "'a list \<Rightarrow> 'a \<Rightarrow> 'a list" where
  "set_add xs x = (if x \<in> set xs then xs else xs @ [x])"

definition net :: "ws_state \<Rightarrow> net_action list \<Rightarrow> ws_state" where
  "net w as = w\<lparr>ws_net := ws_net w @ as\<rparr>"

definition empty_ws :: ws_state where
  "empty_ws = \<lparr>ws_states = [], ws_connections = [], ws_clientSockets = [], ws_topics = [], ws_open = [], ws_net = []\<rparr>"

section \<open>Topics\<close>

text \<open>Removing a socket from the subscribers of each of its topics; an empty set is dropped.\<close>

definition unsubscribe :: "sock \<Rightarrow> (string, sock list) jsmap \<Rightarrow> string \<Rightarrow> (string, sock list) jsmap" where
  "unsubscribe k tops topic =
     (case jm_get tops topic of None \<Rightarrow> tops
      | Some subs \<Rightarrow>
          let subs' = removeAll k subs
          in if subs' = [] then jm_del tops topic else jm_set tops topic subs')"

definition unsubscribe_all :: "sock \<Rightarrow> string list \<Rightarrow> (string, sock list) jsmap \<Rightarrow> (string, sock list) jsmap" where
  "unsubscribe_all k ts tops = foldl (unsubscribe k) tops ts"

definition subscribers :: "ws_state \<Rightarrow> string \<Rightarrow> sock list" where
  "subscribers w topic = (case jm_get (ws_topics w) topic of Some subs \<Rightarrow> subs | None \<Rightarrow> [])"

section \<open>The socket handle\<close>

definition ws_send :: "ws_state \<Rightarrow> sock \<Rightarrow> byte list \<Rightarrow> ws_state" where
  "ws_send w k data = (if k \<in> set (ws_open w) then net w [NetSend k data] else w)"

text \<open>\<open>ws.close\<close> starts the closing handshake: the socket is no longer open.\<close>

definition ws_close :: "ws_state \<Rightarrow> sock \<Rightarrow> nat \<Rightarrow> ws_state" where
  "ws_close w k code =
     (if k \<in> set (ws_open w) then (net w [NetClose k code])\<lparr>ws_open := removeAll k (ws_open w)\<rparr> else w)"

definition ws_subscribe :: "ws_state \<Rightarrow> sock \<Rightarrow> string \<Rightarrow> ws_state" where
  "ws_subscribe w k topic =
     (let st = (case jm_get (ws_states w) k of Some c \<Rightarrow> c | None \<Rightarrow> \<lparr>cs_clientId = [], cs_topics = []\<rparr>)
      in w\<lparr>ws_states := jm_set (ws_states w) k (st\<lparr>cs_topics := set_add (cs_topics st) topic\<rparr>),
           ws_topics := jm_set (ws_topics w) topic (set_add (subscribers w topic) k)\<rparr>)"

section \<open>The server\<close>

definition publish :: "ws_state \<Rightarrow> string \<Rightarrow> byte list \<Rightarrow> ws_state" where
  "publish w topic data = foldl (\<lambda>w k. ws_send w k data) w (subscribers w topic)"

definition server_close :: "ws_state \<Rightarrow> ws_state" where
  "server_close w = net (foldl (\<lambda>w k. ws_close w k 1001) w (ws_connections w)) [ServersClosed]"

section \<open>Connections\<close>

text \<open>
  \<open>completeUpgrade\<close> up to the call of the room's handler: the previous socket of this client
  id, whatever became of it, loses its subscriptions and its connection entry.
\<close>

definition drop_old :: "ws_state \<Rightarrow> string \<Rightarrow> ws_state" where
  "drop_old w clientId =
     (case jm_get (ws_clientSockets w) clientId of None \<Rightarrow> w
      | Some oldWs \<Rightarrow>
          (if oldWs \<in> set (ws_connections w) then
             (case jm_get (ws_states w) oldWs of None \<Rightarrow> w
              | Some oldState \<Rightarrow> w\<lparr>ws_topics := unsubscribe_all oldWs (cs_topics oldState) (ws_topics w)\<rparr>)
           else w)\<lparr>ws_connections := removeAll oldWs (ws_connections w)\<rparr>)"

definition completeUpgrade :: "ws_state \<Rightarrow> sock \<Rightarrow> string \<Rightarrow> ws_state" where
  "completeUpgrade w k clientId =
     (let w1 = drop_old w clientId
      in w1\<lparr>ws_states := jm_set (ws_states w1) k \<lparr>cs_clientId = clientId, cs_topics = []\<rparr>,
            ws_connections := set_add (ws_connections w1) k,
            ws_clientSockets := jm_set (ws_clientSockets w1) clientId k,
            ws_open := set_add (ws_open w1) k\<rparr>)"

text \<open>The generation guard of both listeners: is this socket the current one of its client id?\<close>

definition is_current :: "ws_state \<Rightarrow> sock \<Rightarrow> bool" where
  "is_current w k =
     (case jm_get (ws_states w) k of None \<Rightarrow> False
      | Some st \<Rightarrow> jm_get (ws_clientSockets w) (cs_clientId st) = Some k)"

definition ws_on_close :: "ws_state \<Rightarrow> sock \<Rightarrow> ws_state" where
  "ws_on_close w k =
     (case jm_get (ws_states w) k of None \<Rightarrow> w
      | Some st \<Rightarrow>
          let w1 = w\<lparr>ws_topics := unsubscribe_all k (cs_topics st) (ws_topics w),
                     ws_connections := removeAll k (ws_connections w), ws_open := removeAll k (ws_open w)\<rparr>
          in if is_current w k then w1\<lparr>ws_clientSockets := jm_del (ws_clientSockets w1) (cs_clientId st)\<rparr> else w1)"

section \<open>A room on the transport\<close>

record world =
  w_room :: room_state
  w_ws :: ws_state
  w_uncaught :: "room_error list"

definition apply_action :: "ws_state \<Rightarrow> action \<Rightarrow> ws_state" where
  "apply_action w a =
     (case a of
        Send k data \<Rightarrow> ws_send w k data
      | CloseSocket k code _ \<Rightarrow> ws_close w k code
      | Subscribe k topic \<Rightarrow> ws_subscribe w k topic
      | Publish topic data \<Rightarrow> publish w topic data
      | ServerClose \<Rightarrow> server_close w
      | _ \<Rightarrow> w)"

text \<open>A room handler ran: what it asked of the transport happens, in order.\<close>

definition after_room :: "world \<Rightarrow> ws_state \<Rightarrow> room_state \<Rightarrow> world" where
  "after_room w t r =
     w\<lparr>w_room := r, w_ws := foldl apply_action t (drop (length (rs_log (w_room w))) (rs_log r))\<rparr>"

text \<open>The \<open>upgrade\<close> listener: a rejected upgrade is answered with 401; a destroyed socket with nothing.\<close>

definition net_upgrade ::
    "room_config \<Rightarrow> world \<Rightarrow> sock \<Rightarrow> upgrade_result option \<Rightarrow> bool \<Rightarrow> string \<Rightarrow> world" where
  "net_upgrade cfg w k result destroyed tok =
     (if destroyed then w
      else case result of None \<Rightarrow> w\<lparr>w_ws := net (w_ws w) [Http401]\<rparr>
        | Some u \<Rightarrow>
            let t = completeUpgrade (w_ws w) k (ur_clientId u) in
            if ur_reconnecting u then
              after_room w t (reconnect cfg (w_room w) (ur_clientId u) k (ur_versionMismatch u) tok)
            else
              after_room w t (open_conn cfg (w_room w) (ur_clientId u) k (ur_joinData u) (ur_tags u) (ur_versionMismatch u)))"

definition net_message :: "room_config \<Rightarrow> world \<Rightarrow> sock \<Rightarrow> byte list \<Rightarrow> world" where
  "net_message cfg w k data =
     (if \<not> is_current (w_ws w) k then w
      else case jm_get (ws_states (w_ws w)) k of None \<Rightarrow> w
        | Some st \<Rightarrow>
            (case message cfg (w_room w) (cs_clientId st) data of
               (Inl e, r) \<Rightarrow> (after_room w (w_ws w) r)\<lparr>w_uncaught := w_uncaught w @ [e]\<rparr>
             | (Inr _, r) \<Rightarrow> after_room w (w_ws w) r))"

definition net_closed :: "room_config \<Rightarrow> world \<Rightarrow> sock \<Rightarrow> nat \<Rightarrow> world" where
  "net_closed cfg w k code =
     (case jm_get (ws_states (w_ws w)) k of None \<Rightarrow> w
      | Some st \<Rightarrow>
          let t = ws_on_close (w_ws w) k in
          if is_current (w_ws w) k then after_room w t (close cfg (w_room w) (cs_clientId st) code)
          else w\<lparr>w_ws := t\<rparr>)"

text \<open>Everything else that happens to the room: settled callbacks, timers, handles, start, stop.\<close>

definition room_event_in :: "room_config \<Rightarrow> world \<Rightarrow> room_event \<Rightarrow> world" where
  "room_event_in cfg w e = after_room w (w_ws w) (room_step cfg (w_room w) e)"

section \<open>Lemmas\<close>

lemma net_fields [simp]:
  "ws_topics (net w as) = ws_topics w" "ws_open (net w as) = ws_open w" "ws_net (net w as) = ws_net w @ as"
  "ws_states (net w as) = ws_states w" "ws_connections (net w as) = ws_connections w"
  "ws_clientSockets (net w as) = ws_clientSockets w"
  by (simp_all add: net_def)

lemma ws_send_fields [simp]:
  "ws_topics (ws_send w k d) = ws_topics w" "ws_open (ws_send w k d) = ws_open w"
  "ws_states (ws_send w k d) = ws_states w" "ws_connections (ws_send w k d) = ws_connections w"
  "ws_clientSockets (ws_send w k d) = ws_clientSockets w"
  by (simp_all add: ws_send_def)

lemma ws_net_send: "ws_net (ws_send w k d) = ws_net w @ (if k \<in> set (ws_open w) then [NetSend k d] else [])"
  by (simp add: ws_send_def)

lemma fold_ws_send:
  "ws_net (foldl (\<lambda>w k. ws_send w k d) w ks) = ws_net w @ map (\<lambda>k. NetSend k d) (filter (\<lambda>k. k \<in> set (ws_open w)) ks)"
proof (induction ks arbitrary: w)
  case (Cons k ks)
  then show ?case by (simp add: ws_net_send)
qed simp

definition subs_of :: "(string, sock list) jsmap \<Rightarrow> string \<Rightarrow> sock set" where
  "subs_of tops topic = (case jm_get tops topic of Some subs \<Rightarrow> set subs | None \<Rightarrow> {})"

lemma subscribers_subs_of: "set (subscribers w topic) = subs_of (ws_topics w) topic"
  by (simp add: subscribers_def subs_of_def split: option.splits)

lemma subs_of_unsubscribe: "subs_of (unsubscribe k tops t) topic = subs_of tops topic - (if topic = t then {k} else {})"
proof (cases "jm_get tops t")
  case (Some subs)
  show ?thesis
  proof (cases "topic = t")
    case True
    then show ?thesis
      using Some by (auto simp: unsubscribe_def subs_of_def Let_def) (metis empty_iff empty_set insert_iff set_removeAll Diff_iff)
  qed (use Some in \<open>simp add: unsubscribe_def subs_of_def Let_def\<close>)
qed (auto simp: unsubscribe_def subs_of_def)

lemma subs_of_unsubscribe_all:
  "subs_of (unsubscribe_all k ts tops) topic = subs_of tops topic - (if topic \<in> set ts then {k} else {})"
  unfolding unsubscribe_all_def
  by (induction ts arbitrary: tops) (auto simp: subs_of_unsubscribe)

section \<open>A concrete world\<close>

definition demo_ws :: ws_state where
  "demo_ws = ws_subscribe (completeUpgrade empty_ws 1 ''c1'') 1 ''room''"

definition demo_world :: world where
  "demo_world = \<lparr>w_room = demo_room, w_ws = demo_ws, w_uncaught = []\<rparr>"

lemma demo_ws_eq:
  "demo_ws = \<lparr>ws_states = [(1, \<lparr>cs_clientId = ''c1'', cs_topics = [''room'']\<rparr>)], ws_connections = [1],
     ws_clientSockets = [(''c1'', 1)], ws_topics = [(''room'', [1])], ws_open = [1], ws_net = []\<rparr>"
  by code_simp

section \<open>Properties\<close>

lemma after_room_w [simp]: "w_room (after_room w t r) = r" "w_uncaught (after_room w t r) = w_uncaught w"
  by (simp_all add: after_room_def)

text \<open>
  Frames and closes of a socket that is no longer the current one of its client id never
  reach the room: a frame is dropped, a close only removes the socket's own subscriptions and
  connection entry and leaves the mapping of the newer socket.
\<close>

theorem stale_sockets_are_ignored:
  assumes "\<not> is_current (w_ws w) k"
  shows "net_message cfg w k data = w \<and>
    w_room (net_closed cfg w k code) = w_room w \<and>
    ws_clientSockets (w_ws (net_closed cfg w k code)) = ws_clientSockets (w_ws w) \<and>
    (\<forall>topic k'. k' \<noteq> k \<longrightarrow> (k' \<in> set (subscribers (w_ws (net_closed cfg w k code)) topic)) = (k' \<in> set (subscribers (w_ws w) topic)))"
  using assms
  by (simp add: net_message_def net_closed_def ws_on_close_def Let_def subscribers_subs_of subs_of_unsubscribe_all
      split: option.splits)

theorem stale_sockets_are_ignored_witness:
  "let w = demo_world\<lparr>w_ws := completeUpgrade demo_ws 2 ''c1''\<rparr> in
   w_room (net_closed demo_cfg w 1 1006) = demo_room \<and> net_message demo_cfg w 1 [0, 9] = w"
proof -
  have "\<not> is_current (w_ws (demo_world\<lparr>w_ws := completeUpgrade demo_ws 2 ''c1''\<rparr>)) 1"
    unfolding demo_ws_eq by code_simp
  from stale_sockets_are_ignored [OF this] show ?thesis by (simp add: Let_def demo_world_def)
qed

text \<open>
  C28: a second connection with the seat token of a connected client ends the first one's
  session. The room rejects the second socket and leaves the client alone, but the transport has
  already made the second socket the current one and dropped the first one's subscriptions, so
  from then on the client misses broadcasts, and the close of the rejected socket evicts the
  client and closes its own socket.
\<close>

theorem duplicate_connection_evicts_live_client:
  assumes "room_inv cfg (w_room w)" and "jm_get (rs_clients (w_room w)) c = Some a" and "deref (w_room w) a = Some t"
    and "tc_socket t = Some k0"
    and "jm_get (ws_clientSockets (w_ws w)) c = Some k0" and "k0 \<in> set (ws_connections (w_ws w))"
    and "jm_get (ws_states (w_ws w)) k0 = Some st" and "BROADCAST_TOPIC \<in> set (cs_topics st)" and "k \<noteq> k0"
    and "ur_clientId u = c" and "\<not> ur_reconnecting u" and "\<not> truthy (ur_versionMismatch u)"
  shows "let w1 = net_upgrade cfg w k (Some u) False tok; w2 = net_closed cfg w1 k 4000 in
    rs_log (w_room w1) = rs_log (w_room w) @ reject_socket cfg k ''seat already in use'' 4000 ''seat already in use'' \<and>
    rs_clients (w_room w1) = rs_clients (w_room w) \<and>
    k0 \<notin> set (subscribers (w_ws w1) BROADCAST_TOPIC) \<and>
    jm_get (rs_clients (w_room w2)) c = None \<and> \<not> alive_at (w_room w2) a \<and>
    CloseSocket k0 4000 ''evicted'' \<in> set (rs_log (w_room w2))"
proof -
  have t: "tc_alive t" "tc_id t = c" using room_invD(5) [OF assms(1,2)] assms(3) by (auto simp: deref_def)
  define w1 where "w1 = net_upgrade cfg w k (Some u) False tok"
  define rej where "rej = reject_socket cfg k ''seat already in use'' 4000 ''seat already in use''"
  have r1: "w_room w1 = act (w_room w) rej"
    using assms by (simp add: w1_def rej_def net_upgrade_def Let_def open_conn_def)
  let ?t = "completeUpgrade (w_ws w) k c"
  have "w_ws w1 = foldl apply_action ?t rej"
    using assms(2,10-12)
    by (simp add: w1_def rej_def net_upgrade_def Let_def open_conn_def after_room_def)
  moreover have "ws_states (foldl apply_action ?t rej) = ws_states ?t \<and> ws_topics (foldl apply_action ?t rej) = ws_topics ?t \<and>
      ws_clientSockets (foldl apply_action ?t rej) = ws_clientSockets ?t"
    by (simp add: rej_def reject_socket_def apply_action_def ws_close_def)
  ultimately have ws: "ws_states (w_ws w1) = ws_states ?t" "ws_topics (w_ws w1) = ws_topics ?t"
      "ws_clientSockets (w_ws w1) = ws_clientSockets ?t"
    by simp_all
  have "k0 \<notin> set (subscribers (w_ws w1) BROADCAST_TOPIC)"
    using assms(5-8) ws by (simp add: subscribers_subs_of completeUpgrade_def drop_old_def Let_def subs_of_unsubscribe_all)
  moreover have "is_current (w_ws w1) k" "jm_get (ws_states (w_ws w1)) k = Some \<lparr>cs_clientId = c, cs_topics = []\<rparr>"
    using ws by (simp_all add: is_current_def completeUpgrade_def Let_def)
  then have "w_room (net_closed cfg w1 k 4000) = evictClient cfg (act (w_room w) rej) a"
    using assms(2) r1 by (simp add: net_closed_def Let_def close_def)
  moreover have "deref (act (w_room w) rej) a = Some t" using assms(3) by simp
  note evict_fields(4) [OF this t(1), of cfg] evict_more [OF this t(1), of cfg] deref_evict [of cfg "act (w_room w) rej" a a]
  ultimately show ?thesis
    using r1 assms(3,4) t unfolding w1_def [symmetric] rej_def [symmetric]
    by (simp add: Let_def alive_at_def)
qed

theorem duplicate_connection_evicts_live_client_witness:
  "jm_get (rs_clients (w_room (net_closed demo_cfg (net_upgrade demo_cfg demo_world 2 (Some (accepted ''c1'' False None)) False ''x'')
     2 4000))) ''c1'' = None"
proof -
  have "jm_get (rs_clients demo_room) ''c1'' = Some 2"
    "deref demo_room 2 = Some \<lparr>tc_id = ''c1'', tc_data = ''d1'', tc_socket = Some 1, tc_sessionToken = ''t1'',
      tc_reliableBuffer = [], tc_reliableBufferBytes = 0, tc_disconnectTimer = None, tc_tags = [], tc_alive = True\<rparr>"
    by (simp_all add: demo_room_eq jm_get_Cons deref_def)
  then show ?thesis
    using duplicate_connection_evicts_live_client [of demo_cfg demo_world "''c1''" 2 _ 1 _ 2 "accepted ''c1'' False None" "''x''"]
    by (simp add: demo_world_def demo_ws_eq demo_room_inv jm_get_Cons Let_def accepted_def truthy_def BROADCAST_TOPIC_def)
qed

lemma apply_silent:
  "\<forall>x \<in> set as. (\<exists>m. x = Ipc m) \<or> (\<exists>c. x = Call c) \<Longrightarrow> foldl apply_action w as = w"
  by (induction as arbitrary: w) (auto simp: apply_action_def)

lemma broadcast_buffer_body:
  assumes "deref s a = Some t" and "tc_alive t" and "rs_ipc s = ipc"
  shows "rs_log (broadcast_buffer cfg p s a) = rs_log s @
      (if tc_socket t = None \<and> overflows cfg t p then left_actions cfg ipc a (tc_id t) else []) \<and>
    rs_ipc (broadcast_buffer cfg p s a) = ipc \<and>
    (\<forall>b. deref (broadcast_buffer cfg p s a) b = (if b = a then Some (after_share cfg p True [] t) else deref s b))"
  using assms evict_more [OF assms(1,2), of cfg]
  by (auto simp: broadcast_buffer_def bufferForClient_alive after_share_def overflows_def left_actions_def deref_evict
      ipc_send_def split: option.splits)

text \<open>
  C29: a broadcast without exclusions goes to exactly the open subscribed sockets, each once, as
  one publish; a reliable one is also buffered for every client that is away (which is
  evicted when its buffer overflows), and connected clients are left as they are.
\<close>

theorem broadcast_reaches_subscribers:
  assumes "room_inv cfg (w_room w)" and "rs_started (w_room w)" "rs_alive (w_room w)" "rs_server (w_room w)"
    and "frameUserMessage m = Inr framed"
  shows "let w' = room_event_in cfg w (EvBroadcast m r None) in
    ws_net (w_ws w') = ws_net (w_ws w) @
      map (\<lambda>k. NetSend k framed) (filter (\<lambda>k. k \<in> set (ws_open (w_ws w))) (subscribers (w_ws w) BROADCAST_TOPIC)) \<and>
    (\<forall>a \<in> set (clients_all (w_room w)).
       deref (w_room w') a = Some (after_share cfg framed r [] (the (deref (w_room w) a))))"
proof -
  let ?s = "w_room w" and ?p = "Publish BROADCAST_TOPIC framed"
  let ?s1 = "act ?s [?p]"
  have inv1: "room_inv cfg ?s1" using assms(1) by (intro room_inv_act) simp_all
  have c: "clients_all ?s1 = clients_all ?s" by (simp add: clients_all_def)
  let ?quiet = "concat (map (\<lambda>a. if tc_socket (the (deref ?s a)) = None \<and> overflows cfg (the (deref ?s a)) framed
        then left_actions cfg (rs_ipc ?s) a (tc_id (the (deref ?s a))) else []) (clients_all ?s))"
  have loop: "rs_log (foldl (broadcast_buffer cfg framed) ?s1 (clients_all ?s)) = rs_log ?s1 @ ?quiet \<and>
      (\<forall>b. deref (foldl (broadcast_buffer cfg framed) ?s1 (clients_all ?s)) b =
         (if b \<in> set (clients_all ?s) then Some (after_share cfg framed True [] (the (deref ?s b))) else deref ?s b))"
  proof -
    have "rs_ipc ?s1 = rs_ipc ?s" "\<forall>a \<in> set (clients_all ?s). \<exists>t. deref ?s1 a = Some t \<and> tc_alive t"
      using clients_alive' [OF assms(1)] by simp_all
    from clients_loop [where f = "broadcast_buffer cfg framed" and
        g = "\<lambda>a t. if tc_socket t = None \<and> overflows cfg t framed then left_actions cfg (rs_ipc ?s) a (tc_id t) else []" and
        h = "after_share cfg framed True []", OF broadcast_buffer_body this(1) distinct_clients [OF assms(1)] this(2)]
    show ?thesis unfolding deref_act by blast
  qed
  have pub: "ws_net (publish t BROADCAST_TOPIC framed) = ws_net t @
      map (\<lambda>k. NetSend k framed) (filter (\<lambda>k. k \<in> set (ws_open t)) (subscribers t BROADCAST_TOPIC))" for t
    by (simp add: publish_def fold_ws_send)
  have quiet: "foldl apply_action t ?quiet = t" for t
    by (rule apply_silent) (auto simp: left_actions_def call_def split: if_splits)
  have step: "room_step cfg ?s (EvBroadcast m r None) =
      (if r then foldl (broadcast_buffer cfg framed) ?s1 (clients_all ?s) else ?s1)"
    using assms(2-5) c by (simp add: broadcast_def Let_def)
  show ?thesis
  proof (cases r)
    case True
    then show ?thesis
      using loop quiet pub step by (simp add: Let_def room_event_in_def after_room_def apply_action_def del: room_step.simps)
  next
    case False
    have "deref ?s a = Some (the (deref ?s a))" if "a \<in> set (clients_all ?s)" for a
      using clients_alive' [OF assms(1)] that by fastforce
    then show ?thesis
      using pub step False
      by (simp add: Let_def room_event_in_def after_room_def apply_action_def after_share_def del: room_step.simps)
  qed
qed

theorem broadcast_reaches_subscribers_witness:
  "ws_net (w_ws (room_event_in demo_cfg demo_world (EvBroadcast (BufferMsg [5]) True None))) = [NetSend 1 [2, 5]]"
proof -
  have f: "frameUserMessage (BufferMsg [5]) = Inr [2, 5]" by code_simp
  have "room_inv demo_cfg (w_room demo_world)" "rs_started (w_room demo_world)" "rs_alive (w_room demo_world)"
      "rs_server (w_room demo_world)" "ws_net (w_ws demo_world) = []" "ws_open (w_ws demo_world) = [1]"
      "subscribers (w_ws demo_world) BROADCAST_TOPIC = [1]"
    by (simp_all add: demo_world_def demo_room_inv, simp_all add: demo_room_eq demo_ws_eq subscribers_def jm_get_Cons BROADCAST_TOPIC_def)
  with broadcast_reaches_subscribers [OF this(1-4) f, of True] show ?thesis
    by (simp add: Let_def del: room_step.simps)
qed

text \<open>
  A frame from the current socket of a connected client that does not unpack (empty, of an
  unknown type, or an undecodable protocol payload) makes the room's handler throw inside the
  transport's event listener, where nothing catches it.
\<close>

theorem malformed_frame_is_uncaught:
  assumes "is_current (w_ws w) k" and "jm_get (ws_states (w_ws w)) k = Some st"
    and "jm_get (rs_clients (w_room w)) (cs_clientId st) = Some a" and "deref (w_room w) a = Some t"
    and "tc_socket t \<noteq> None" and "unpackFrame (unpack cfg) data = Inl e"
  shows "w_uncaught (net_message cfg w k data) = w_uncaught w @ [Framing e] \<and> w_room (net_message cfg w k data) = w_room w"
  using assms by (auto simp: net_message_def message_def split: option.splits)

theorem malformed_frame_is_uncaught_witness:
  "w_uncaught (net_message demo_cfg demo_world 1 []) = [Framing EmptyFrame] \<and>
   w_uncaught (net_message demo_cfg demo_world 1 [3]) = [Framing (UnknownFrameType 3)]"
proof -
  have *: "is_current (w_ws demo_world) 1" "jm_get (ws_states (w_ws demo_world)) 1 = Some \<lparr>cs_clientId = ''c1'', cs_topics = [''room'']\<rparr>"
    "jm_get (rs_clients (w_room demo_world)) ''c1'' = Some 2"
    "deref (w_room demo_world) 2 = Some \<lparr>tc_id = ''c1'', tc_data = ''d1'', tc_socket = Some 1, tc_sessionToken = ''t1'',
      tc_reliableBuffer = [], tc_reliableBufferBytes = 0, tc_disconnectTimer = None, tc_tags = [], tc_alive = True\<rparr>"
    "w_uncaught demo_world = []"
    by (simp_all add: demo_world_def demo_ws_eq is_current_def, simp_all add: demo_room_eq jm_get_Cons deref_def)
  show ?thesis
    using malformed_frame_is_uncaught [OF *(1,2) _ *(4), of demo_cfg "[]" EmptyFrame]
      malformed_frame_is_uncaught [OF *(1,2) _ *(4), of demo_cfg "[3]" "UnknownFrameType 3"] *(3,5)
    by (simp add: unpackFrame_def FRAME_PROTOCOL_def FRAME_USER_TEXT_def FRAME_USER_BINARY_def)
qed

end
