(* ===== verification/Workerd_Adapter.thy ===== *)
theory Workerd_Adapter
  imports Ws_Transport
begin

text \<open>
  \<open>examples/workerd/adapter/index.ts\<close>: a room in a v8 isolate, on a transport in which a socket may
  only be used by the request that accepted it. Every connection has an outbox and a drain loop of
  its own; the room only fills outboxes and resolves the promise the loop waits for. A connection is
  an object in a heap, by its socket. The calls of \<open>ws.send\<close> and \<open>ws.close\<close> are logged; whether the
  socket is still there is the platform's business, and what they throw is swallowed. The room is the
  one of \<open>Room_Engine\<close>, online, with the adapter's notifier object.
\<close>

section \<open>State\<close>

text \<open>The promise of \<open>handlers.upgrade\<close> is pending, refused, or wired into the engine.\<close>

datatype wiring = UpgradePending | Refused | Wired

record workerd_conn =
  wc_clientId :: string
  wc_topics :: "string list"
  wc_tags :: tags
  wc_outbox :: "byte list list"
  wc_closeRequest :: "(nat \<times> string) option"
  wc_closed :: bool
  wc_woken :: bool
  wc_looping :: bool
  wc_wiring :: wiring

datatype workerd_action = WsSend sock "byte list" | WsClose sock nat string

record workerd_room =
  wk_objects :: "(sock, workerd_conn) jsmap"
  wk_conns :: "(string, sock) jsmap"
  wk_topics :: "(string, string list) jsmap"
  wk_outbox :: "notify_message list"
  wk_flushes :: "(nat, notify_message list) jsmap"
  wk_next :: nat
  wk_relayed :: "notify_message list"
  wk_net :: "workerd_action list"

definition empty_workerd :: workerd_room where
  "empty_workerd =
     \<lparr>wk_objects = [], wk_conns = [], wk_topics = [], wk_outbox = [], wk_flushes = [], wk_next = 0, wk_relayed = [], wk_net = []\<rparr>"

definition with_conn :: "sock \<Rightarrow> (workerd_conn \<Rightarrow> workerd_conn) \<Rightarrow> workerd_room \<Rightarrow> workerd_room" where
  "with_conn k f v =
     (case jm_get (wk_objects v) k of None \<Rightarrow> v
      | Some c \<Rightarrow> v\<lparr>wk_objects := jm_set (wk_objects v) k (f c)\<rparr>)"

text \<open>\<open>signal\<close> resolves the promise \<open>wake\<close>, \<open>armConn\<close> makes a new one.\<close>

definition conn_signal :: "workerd_conn \<Rightarrow> workerd_conn" where
  "conn_signal c = c\<lparr>wc_woken := True\<rparr>"

definition armConn :: "workerd_conn \<Rightarrow> workerd_conn" where
  "armConn c = c\<lparr>wc_woken := False\<rparr>"

section \<open>Routing\<close>

definition enqueueSend :: "string \<Rightarrow> byte list \<Rightarrow> workerd_room \<Rightarrow> workerd_room" where
  "enqueueSend clientId data v =
     (case jm_get (wk_conns v) clientId of None \<Rightarrow> v
      | Some k \<Rightarrow> with_conn k (\<lambda>c. conn_signal (c\<lparr>wc_outbox := wc_outbox c @ [data]\<rparr>)) v)"

definition enqueueClose :: "string \<Rightarrow> nat \<Rightarrow> string \<Rightarrow> workerd_room \<Rightarrow> workerd_room" where
  "enqueueClose clientId code reason v =
     (case jm_get (wk_conns v) clientId of None \<Rightarrow> v
      | Some k \<Rightarrow> with_conn k (\<lambda>c. conn_signal (c\<lparr>wc_closeRequest := Some (code, reason)\<rparr>)) v)"

definition workerd_subscribers :: "workerd_room \<Rightarrow> string \<Rightarrow> string list" where
  "workerd_subscribers v topic = (case jm_get (wk_topics v) topic of Some subs \<Rightarrow> subs | None \<Rightarrow> [])"

definition workerd_publish :: "string \<Rightarrow> byte list \<Rightarrow> workerd_room \<Rightarrow> workerd_room" where
  "workerd_publish topic data v = fold (\<lambda>clientId. enqueueSend clientId data) (workerd_subscribers v topic) v"

definition conn_clientId :: "workerd_room \<Rightarrow> sock \<Rightarrow> string" where
  "conn_clientId v k = (case jm_get (wk_objects v) k of Some c \<Rightarrow> wc_clientId c | None \<Rightarrow> [])"

definition workerd_close :: "workerd_room \<Rightarrow> workerd_room" where
  "workerd_close v =
     fold (\<lambda>k v. enqueueClose (conn_clientId v k) 1001 ''room shutting down'' v) (jm_values (wk_conns v)) v"

text \<open>The handle the room gets for a connection; its client id is the one of the connection.\<close>

definition workerd_subscribe :: "sock \<Rightarrow> string \<Rightarrow> workerd_room \<Rightarrow> workerd_room" where
  "workerd_subscribe k topic v =
     (let v1 = with_conn k (\<lambda>c. c\<lparr>wc_topics := set_add (wc_topics c) topic\<rparr>) v
      in v1\<lparr>wk_topics := jm_set (wk_topics v1) topic (set_add (workerd_subscribers v1 topic) (conn_clientId v1 k))\<rparr>)"

definition workerd_action_of :: "workerd_room \<Rightarrow> action \<Rightarrow> workerd_room" where
  "workerd_action_of v a =
     (case a of
        Send k data \<Rightarrow> enqueueSend (conn_clientId v k) data v
      | CloseSocket k code reason \<Rightarrow> enqueueClose (conn_clientId v k) code reason v
      | Subscribe k topic \<Rightarrow> workerd_subscribe k topic v
      | Publish topic data \<Rightarrow> workerd_publish topic data v
      | ServerClose \<Rightarrow> workerd_close v
      | Ipc m \<Rightarrow> v\<lparr>wk_outbox := wk_outbox v @ [m]\<rparr>
      | _ \<Rightarrow> v)"

section \<open>The drain loop\<close>

text \<open>One round of \<open>connLoop\<close>, from its top to the next \<open>await\<close> or its end.\<close>

definition connLoop_round :: "sock \<Rightarrow> workerd_room \<Rightarrow> workerd_room" where
  "connLoop_round k v =
     (case jm_get (wk_objects v) k of None \<Rightarrow> v
      | Some c \<Rightarrow>
          v\<lparr>wk_net := wk_net v @ map (WsSend k) (wc_outbox c) @
              (case wc_closeRequest c of Some (code, reason) \<Rightarrow> [WsClose k code reason] | None \<Rightarrow> []),
            wk_objects := jm_set (wk_objects v) k
              (c\<lparr>wc_outbox := [], wc_closeRequest := None, wc_looping := \<not> wc_closed c\<rparr>)\<rparr>)"

text \<open>The loop goes on when the promise it waits for is resolved; it arms a new one first.\<close>

definition connLoop_resume :: "sock \<Rightarrow> workerd_room \<Rightarrow> workerd_room" where
  "connLoop_resume k v =
     (case jm_get (wk_objects v) k of None \<Rightarrow> v
      | Some c \<Rightarrow> if wc_looping c \<and> wc_woken c then connLoop_round k (with_conn k armConn v) else v)"

section \<open>Notify messages\<close>

text \<open>\<open>enqueueHeartbeat\<close> reports the clients whose sockets are open.\<close>

definition enqueueHeartbeat :: "ms \<Rightarrow> workerd_room \<Rightarrow> workerd_room" where
  "enqueueHeartbeat now v =
     (let clients = map (\<lambda>c. \<lparr>hc_clientId = wc_clientId c, hc_tags = wc_tags c\<rparr>)
            (filter (\<lambda>c. wc_clientId c \<noteq> [] \<and> \<not> wc_closed c)
              (List.map_filter (\<lambda>k. jm_get (wk_objects v) k) (jm_values (wk_conns v))))
      in v\<lparr>wk_outbox := wk_outbox v @ [Heartbeat now None clients]\<rparr>)"

text \<open>
  \<open>flush\<close> takes the outbox over and calls \<open>binding.notify\<close> for one message after another; flushes of
  different requests run side by side. A call is logged when it is made.
\<close>

definition notify_next :: "nat \<Rightarrow> notify_message list \<Rightarrow> workerd_room \<Rightarrow> workerd_room" where
  "notify_next i pending v =
     (case pending of [] \<Rightarrow> v\<lparr>wk_flushes := jm_del (wk_flushes v) i\<rparr>
      | m # ms \<Rightarrow> v\<lparr>wk_flushes := jm_set (wk_flushes v) i ms, wk_relayed := wk_relayed v @ [m]\<rparr>)"

definition flush :: "workerd_room \<Rightarrow> workerd_room" where
  "flush v =
     (if wk_outbox v = [] then v
      else notify_next (wk_next v) (wk_outbox v) (v\<lparr>wk_outbox := [], wk_next := Suc (wk_next v)\<rparr>))"

text \<open>The promise of a call settled, either way.\<close>

definition notify_settled :: "nat \<Rightarrow> workerd_room \<Rightarrow> workerd_room" where
  "notify_settled i v = (case jm_get (wk_flushes v) i of None \<Rightarrow> v | Some pending \<Rightarrow> notify_next i pending v)"

section \<open>Connections\<close>

record workerd_world =
  ww_room :: room_state
  ww_net :: workerd_room
  ww_uncaught :: "room_error list"

text \<open>A room handler ran: what it asked of the transport and of the notifier happens, in order.\<close>

definition after_handler :: "workerd_world \<Rightarrow> workerd_room \<Rightarrow> room_state \<Rightarrow> workerd_world" where
  "after_handler w v r =
     w\<lparr>ww_room := r, ww_net := foldl workerd_action_of v (drop (length (rs_log (ww_room w))) (rs_log r))\<rparr>"

text \<open>\<open>handleUpgrade\<close>: the connection, the first round of its loop, and the call of \<open>handlers.upgrade\<close>.\<close>

definition new_conn :: workerd_conn where
  "new_conn = \<lparr>wc_clientId = [], wc_topics = [], wc_tags = [], wc_outbox = [], wc_closeRequest = None, wc_closed = False,
     wc_woken = False, wc_looping = True, wc_wiring = UpgradePending\<rparr>"

definition handleUpgrade :: "sock \<Rightarrow> workerd_world \<Rightarrow> workerd_world" where
  "handleUpgrade k w =
     (if jm_has (wk_objects (ww_net w)) k then w
      else w\<lparr>ww_net := connLoop_round k ((ww_net w)\<lparr>wk_objects := jm_set (wk_objects (ww_net w)) k new_conn\<rparr>)\<rparr>)"

definition conn_wiring :: "workerd_room \<Rightarrow> sock \<Rightarrow> wiring option" where
  "conn_wiring v k = map_option wc_wiring (jm_get (wk_objects v) k)"

definition refuse :: "sock \<Rightarrow> nat \<Rightarrow> string \<Rightarrow> workerd_room \<Rightarrow> workerd_room" where
  "refuse k code reason v =
     with_conn k (\<lambda>c. conn_signal (c\<lparr>wc_closeRequest := Some (code, reason), wc_wiring := Refused\<rparr>)) v"

definition leave_topics :: "string \<Rightarrow> string list \<Rightarrow> (string, string list) jsmap \<Rightarrow> (string, string list) jsmap" where
  "leave_topics clientId ts tops =
     fold (\<lambda>t tops. case jm_get tops t of None \<Rightarrow> tops | Some subs \<Rightarrow> jm_set tops t (removeAll clientId subs)) ts tops"

text \<open>\<open>wireSocket\<close> up to the call of the room's handler.\<close>

definition wire_conn :: "sock \<Rightarrow> string \<Rightarrow> tags \<Rightarrow> workerd_room \<Rightarrow> workerd_room" where
  "wire_conn k clientId tags v =
     (let v1 = with_conn k (\<lambda>c. c\<lparr>wc_clientId := clientId, wc_tags := tags, wc_wiring := Wired\<rparr>) v;
          v2 = (case Option.bind (jm_get (wk_conns v1) clientId) (\<lambda>old. if old = k then None else jm_get (wk_objects v1) old) of
                  None \<Rightarrow> v1
                | Some oldConn \<Rightarrow> v1\<lparr>wk_topics := leave_topics clientId (wc_topics oldConn) (wk_topics v1)\<rparr>)
      in v2\<lparr>wk_conns := jm_set (wk_conns v2) clientId k\<rparr>)"

definition wireSocket :: "room_config \<Rightarrow> sock \<Rightarrow> upgrade_result \<Rightarrow> string \<Rightarrow> workerd_world \<Rightarrow> workerd_world" where
  "wireSocket cfg k u tok w =
     (let v = wire_conn k (ur_clientId u) (ur_tags u) (ww_net w) in
      if ur_reconnecting u
      then after_handler w v (reconnect cfg (ww_room w) (ur_clientId u) k (ur_versionMismatch u) tok)
      else after_handler w v (open_conn cfg (ww_room w) (ur_clientId u) k (ur_joinData u) (ur_tags u) (ur_versionMismatch u)))"

text \<open>The promise of \<open>handlers.upgrade\<close> settled; \<open>None\<close> is a rejection of it.\<close>

definition upgrade_settled ::
    "room_config \<Rightarrow> sock \<Rightarrow> upgrade_result option option \<Rightarrow> string \<Rightarrow> workerd_world \<Rightarrow> workerd_world" where
  "upgrade_settled cfg k outcome tok w =
     (if conn_wiring (ww_net w) k \<noteq> Some UpgradePending then w
      else case outcome of
        None \<Rightarrow> w\<lparr>ww_net := refuse k 1011 ''internal error'' (ww_net w)\<rparr>
      | Some None \<Rightarrow> w\<lparr>ww_net := refuse k 4401 ''unauthorized'' (ww_net w)\<rparr>
      | Some (Some u) \<Rightarrow> wireSocket cfg k u tok w)"

text \<open>The generation guard of the three listeners, which only a wired connection has.\<close>

definition conn_current :: "workerd_room \<Rightarrow> sock \<Rightarrow> bool" where
  "conn_current v k = (jm_get (wk_conns v) (conn_clientId v k) = Some k)"

text \<open>A frame of the platform, as the bytes the room gets.\<close>

datatype platform_frame = TextData js_string | BinaryData "byte list"

fun toArrayBuffer :: "platform_frame \<Rightarrow> byte list" where
  "toArrayBuffer (TextData s) = textEncoder_encode s"
| "toArrayBuffer (BinaryData data) = data"

definition conn_message :: "room_config \<Rightarrow> sock \<Rightarrow> platform_frame \<Rightarrow> workerd_world \<Rightarrow> workerd_world" where
  "conn_message cfg k frame w =
     (if conn_wiring (ww_net w) k \<noteq> Some Wired \<or> \<not> conn_current (ww_net w) k then w
      else case message cfg (ww_room w) (conn_clientId (ww_net w) k) (toArrayBuffer frame) of
             (Inl e, r) \<Rightarrow> (after_handler w (ww_net w) r)\<lparr>ww_uncaught := ww_uncaught w @ [e]\<rparr>
           | (Inr _, r) \<Rightarrow> after_handler w (ww_net w) r)"

definition drop_conn :: "sock \<Rightarrow> workerd_room \<Rightarrow> workerd_room" where
  "drop_conn k v =
     (case jm_get (wk_objects v) k of None \<Rightarrow> v
      | Some c \<Rightarrow>
          v\<lparr>wk_topics := leave_topics (wc_clientId c) (wc_topics c) (wk_topics v),
            wk_conns := jm_del (wk_conns v) (wc_clientId c)\<rparr>)"

definition conn_ended :: "room_config \<Rightarrow> sock \<Rightarrow> nat \<Rightarrow> workerd_world \<Rightarrow> workerd_world" where
  "conn_ended cfg k code w =
     (if conn_wiring (ww_net w) k \<noteq> Some Wired then w
      else
        let v = with_conn k (\<lambda>c. conn_signal (c\<lparr>wc_closed := True\<rparr>)) (ww_net w) in
        if \<not> conn_current v k then w\<lparr>ww_net := v\<rparr>
        else after_handler w (drop_conn k v) (close cfg (ww_room w) (conn_clientId v k) code))"

section \<open>The isolate as a machine\<close>

datatype workerd_event =
    WkUpgrade sock
  | WkUpgradeSettled sock "upgrade_result option option" string
  | WkMessage sock platform_frame
  | WkClosed sock nat
  | WkError sock
  | WkWake sock
  | WkRoom room_event
  | WkTick ms
  | WkFlush
  | WkNotifySettled nat

fun workerd_step :: "room_config \<Rightarrow> workerd_world \<Rightarrow> workerd_event \<Rightarrow> workerd_world" where
  "workerd_step cfg w (WkUpgrade k) = handleUpgrade k w"
| "workerd_step cfg w (WkUpgradeSettled k outcome tok) = upgrade_settled cfg k outcome tok w"
| "workerd_step cfg w (WkMessage k frame) = conn_message cfg k frame w"
| "workerd_step cfg w (WkClosed k code) = conn_ended cfg k (if code = 0 then 1006 else code) w"
| "workerd_step cfg w (WkError k) = conn_ended cfg k 1006 w"
| "workerd_step cfg w (WkWake k) = w\<lparr>ww_net := connLoop_resume k (ww_net w)\<rparr>"
| "workerd_step cfg w (WkRoom e) = after_handler w (ww_net w) (room_step cfg (ww_room w) e)"
| "workerd_step cfg w (WkTick now) = w\<lparr>ww_net := enqueueHeartbeat now (ww_net w)\<rparr>"
| "workerd_step cfg w WkFlush = w\<lparr>ww_net := flush (ww_net w)\<rparr>"
| "workerd_step cfg w (WkNotifySettled i) = w\<lparr>ww_net := notify_settled i (ww_net w)\<rparr>"

definition start_workerd :: "room_state \<Rightarrow> workerd_world" where
  "start_workerd r = \<lparr>ww_room = r, ww_net = empty_workerd, ww_uncaught = []\<rparr>"

text \<open>What \<open>ensureStarted\<close> creates the room with.\<close>

record room_env =
  re_roomId :: string
  re_roomType :: string
  re_roomSecret :: string
  re_serverId :: string

definition adapter_options :: "room_env \<Rightarrow> create_options" where
  "adapter_options env =
     \<lparr>co_server = Some \<lparr>sc_notify = Some NotifierObject, sc_room = Some (re_roomId env), sc_type = Some (re_roomType env),
        sc_secret = Some (re_roomSecret env), sc_server = Some (re_serverId env)\<rparr>, co_standalone = False\<rparr>"

lemma adapter_room_is_managed:
  "create env0 (adapter_options env) uuid = Inr (initial_state (re_roomId env) (re_roomType env) (Some (re_serverId env))
     (Some (re_roomSecret env)) (Some NotifierObject))"
  by (simp add: create_def adapter_options_def or_else_def notify_truthy_def)

end
