(* ===== verification/Workerd_Correct.thy ===== *)
theory Workerd_Correct
  imports Workerd_Adapter "HOL-Library.Sublist"
begin

text \<open>
  The workerd adapter does what the websocket transport does, as far as the room can tell, and its
  drain loops neither lose a message nor sleep over one.
\<close>

section \<open>What routing leaves alone\<close>

lemma with_conn_fields [simp]:
  "wk_conns (with_conn k f v) = wk_conns v" "wk_topics (with_conn k f v) = wk_topics v"
  "wk_net (with_conn k f v) = wk_net v" "wk_outbox (with_conn k f v) = wk_outbox v"
  "jm_get (wk_objects (with_conn k f v)) k' =
     (if k' = k then map_option f (jm_get (wk_objects v) k) else jm_get (wk_objects v) k')"
  by (auto simp: with_conn_def split: option.split)

text \<open>Who is who: the part of the state that only the wiring and the end of a connection change.\<close>

definition same_wiring :: "workerd_room \<Rightarrow> workerd_room \<Rightarrow> bool" where
  "same_wiring v v' \<longleftrightarrow> wk_conns v' = wk_conns v \<and>
     (\<forall>k. conn_wiring v' k = conn_wiring v k \<and> conn_clientId v' k = conn_clientId v k)"

lemma same_wiring_refl [simp]: "same_wiring v v"
  by (simp add: same_wiring_def)

lemma same_wiring_trans: "same_wiring u v \<Longrightarrow> same_wiring v w \<Longrightarrow> same_wiring u w"
  by (simp add: same_wiring_def)

lemma same_wiring_with_conn:
  "(\<And>c. wc_wiring (f c) = wc_wiring c \<and> wc_clientId (f c) = wc_clientId c) \<Longrightarrow> same_wiring v (with_conn k f v)"
  by (auto simp: same_wiring_def conn_wiring_def conn_clientId_def split: option.split)

lemma same_wiring_fold: "(\<And>x v. same_wiring v (f x v)) \<Longrightarrow> same_wiring v (fold f xs v)"
proof (induction xs arbitrary: v)
  case (Cons x xs)
  from same_wiring_trans [OF Cons.prems Cons.IH [OF Cons.prems]] show ?case by simp
qed simp

lemma same_wiring_update:
  "wk_conns v' = wk_conns v \<Longrightarrow> wk_objects v' = wk_objects v \<Longrightarrow> same_wiring v v'"
  by (simp add: same_wiring_def conn_wiring_def conn_clientId_def)

lemma same_wiring_enqueue:
  "same_wiring v (enqueueSend clientId data v)" "same_wiring v (enqueueClose clientId code reason v)"
  by (auto simp: enqueueSend_def enqueueClose_def conn_signal_def intro!: same_wiring_with_conn split: option.split)

lemma same_wiring_subscribe: "same_wiring v (workerd_subscribe k topic v)"
proof -
  have "same_wiring v (with_conn k (\<lambda>c. c\<lparr>wc_topics := set_add (wc_topics c) topic\<rparr>) v)"
    by (rule same_wiring_with_conn) simp
  then show ?thesis
    unfolding workerd_subscribe_def Let_def by (rule same_wiring_trans) (rule same_wiring_update; simp)
qed

lemma same_wiring_action: "same_wiring v (workerd_action_of v a)"
  by (auto simp: workerd_action_of_def workerd_publish_def workerd_close_def split: action.split
      intro: same_wiring_enqueue same_wiring_subscribe same_wiring_fold same_wiring_update)

lemma same_wiring_actions: "same_wiring v (foldl workerd_action_of v as)"
proof (induction as arbitrary: v)
  case (Cons a as)
  from same_wiring_trans [OF same_wiring_action Cons.IH] show ?case by simp
qed simp

section \<open>The same events on the websocket transport\<close>

text \<open>
  What a socket does, at the transport's own listeners. An upgrade carries what \<open>handlers.upgrade\<close>
  answered and \<open>socket.destroyed\<close> at that moment.
\<close>

datatype net_event =
    NetUpgrade sock "upgrade_result option" bool string
  | NetMessage sock "byte list"
  | NetClosed sock nat
  | NetRoom room_event

fun net_step :: "room_config \<Rightarrow> world \<Rightarrow> net_event \<Rightarrow> world" where
  "net_step cfg w (NetUpgrade k result destroyed tok) = net_upgrade cfg w k result destroyed tok"
| "net_step cfg w (NetMessage k data) = net_message cfg w k data"
| "net_step cfg w (NetClosed k code) = net_closed cfg w k code"
| "net_step cfg w (NetRoom e) = room_event_in cfg w e"

text \<open>
  The same happenings on the websocket transport. Every frame, every end of a socket and every room event is an
  event there, whatever the adapter does with it; an error is the close of the socket with 1006. The
  answer to a pending upgrade, accepted or not, is its upgrade, with \<open>destroyed\<close> saying whether the socket
  has ended before. The promise of an upgrade settles once, so a second answer is no event; one that
  rejects wires nothing on either side; wakes of drain loops, ticks and flushes have no counterpart.
\<close>

fun ended_socket :: "workerd_event \<Rightarrow> sock list" where
  "ended_socket (WkClosed k code) = [k]"
| "ended_socket (WkError k) = [k]"
| "ended_socket _ = []"

fun ws_view :: "sock list \<Rightarrow> workerd_world \<Rightarrow> workerd_event \<Rightarrow> net_event list" where
  "ws_view ended w (WkUpgradeSettled k (Some result) tok) =
     (if conn_wiring (ww_net w) k = Some UpgradePending then [NetUpgrade k result (k \<in> set ended) tok] else [])"
| "ws_view ended w (WkMessage k frame) = [NetMessage k (toArrayBuffer frame)]"
| "ws_view ended w (WkClosed k code) = [NetClosed k (if code = 0 then 1006 else code)]"
| "ws_view ended w (WkError k) = [NetClosed k 1006]"
| "ws_view ended w (WkRoom e) = [NetRoom e]"
| "ws_view ended w _ = []"

fun ws_trace :: "room_config \<Rightarrow> sock list \<Rightarrow> workerd_world \<Rightarrow> workerd_event list \<Rightarrow> net_event list" where
  "ws_trace cfg ended w [] = []"
| "ws_trace cfg ended w (e # es) = ws_view ended w e @ ws_trace cfg (ended_socket e @ ended) (workerd_step cfg w e) es"

text \<open>An upgrade accepted after the end of its socket, which the websocket transport drops.\<close>

fun accepts_destroyed :: "net_event \<Rightarrow> bool" where
  "accepts_destroyed (NetUpgrade k (Some u) destroyed tok) = destroyed"
| "accepts_destroyed _ = False"

definition start_ws :: "room_state \<Rightarrow> world" where
  "start_ws r = \<lparr>w_room = r, w_ws = empty_ws, w_uncaught = []\<rparr>"

text \<open>The simulation relation.\<close>

definition transports_agree :: "ws_state \<Rightarrow> workerd_room \<Rightarrow> bool" where
  "transports_agree t v \<longleftrightarrow>
     (\<forall>c. jm_get (ws_clientSockets t) c = jm_get (wk_conns v) c) \<and>
     (\<forall>c k. jm_get (wk_conns v) c = Some k \<longrightarrow> conn_wiring v k = Some Wired \<and> conn_clientId v k = c) \<and>
     (\<forall>k. conn_wiring v k = Some Wired \<longrightarrow> map_option cs_clientId (jm_get (ws_states t) k) = Some (conn_clientId v k))"

definition worlds_agree :: "world \<Rightarrow> workerd_world \<Rightarrow> bool" where
  "worlds_agree w x \<longleftrightarrow> w_room w = ww_room x \<and> w_uncaught w = ww_uncaught x \<and> transports_agree (w_ws w) (ww_net x)"

lemma agree_same_wiring: "transports_agree t v \<Longrightarrow> same_wiring v v' \<Longrightarrow> transports_agree t v'"
  by (simp add: transports_agree_def same_wiring_def)

definition same_sockets :: "ws_state \<Rightarrow> ws_state \<Rightarrow> bool" where
  "same_sockets t t' \<longleftrightarrow> ws_clientSockets t' = ws_clientSockets t \<and>
     (\<forall>k. jm_get (ws_states t) k \<noteq> None \<longrightarrow>
        map_option cs_clientId (jm_get (ws_states t') k) = map_option cs_clientId (jm_get (ws_states t) k))"

lemma same_sockets_refl [simp]: "same_sockets t t"
  by (simp add: same_sockets_def)

lemma same_sockets_trans: "same_sockets t u \<Longrightarrow> same_sockets u w \<Longrightarrow> same_sockets t w"
  unfolding same_sockets_def by (metis option.map_disc_iff)

lemma agree_same_sockets: "transports_agree t v \<Longrightarrow> same_sockets t t' \<Longrightarrow> transports_agree t' v"
  unfolding transports_agree_def same_sockets_def by (metis option.map_disc_iff option.distinct(1))

lemma same_sockets_fields: "ws_clientSockets t' = ws_clientSockets t \<Longrightarrow> ws_states t' = ws_states t \<Longrightarrow> same_sockets t t'"
  by (simp add: same_sockets_def)

lemma same_sockets_foldl: "(\<And>x t. same_sockets t (f t x)) \<Longrightarrow> same_sockets t (foldl f t xs)"
proof (induction xs arbitrary: t)
  case (Cons x xs)
  from same_sockets_trans [OF Cons.prems Cons.IH [OF Cons.prems]] show ?case by simp
qed simp

lemma same_sockets_close: "same_sockets t (ws_close t k code)"
  by (rule same_sockets_fields) (simp_all add: ws_close_def)

lemma same_sockets_action: "same_sockets t (apply_action t a)"
proof -
  have "same_sockets t (ws_subscribe t k topic)" for k topic
    by (auto simp: same_sockets_def ws_subscribe_def Let_def)
  moreover have "same_sockets t (publish t topic data)" for topic data
    unfolding publish_def by (rule same_sockets_foldl) (rule same_sockets_fields; simp)
  moreover have "same_sockets t (server_close t)"
    unfolding server_close_def
    by (rule same_sockets_trans [OF same_sockets_foldl]) (auto intro: same_sockets_close same_sockets_fields)
  ultimately show ?thesis
    by (auto simp: apply_action_def split: action.split intro: same_sockets_close same_sockets_fields)
qed

lemma same_sockets_actions: "same_sockets t (foldl apply_action t as)"
  by (rule same_sockets_foldl) (rule same_sockets_action)

text \<open>A handler of the room runs on both sides.\<close>

lemma agree_handler:
  assumes "worlds_agree w x" and "transports_agree t v"
  shows "worlds_agree (after_room w t r) (after_handler x v r)"
  using assms agree_same_sockets [OF agree_same_wiring [OF assms(2) same_wiring_actions] same_sockets_actions]
  by (simp add: worlds_agree_def after_room_def after_handler_def)

lemma agreeD:
  assumes "transports_agree t v"
  shows "jm_get (ws_clientSockets t) c = jm_get (wk_conns v) c"
    and "conn_wiring v k = Some Wired \<Longrightarrow> \<exists>st. jm_get (ws_states t) k = Some st \<and> cs_clientId st = conn_clientId v k"
  using assms by (auto simp: transports_agree_def)

lemma agree_conn_current:
  assumes agree: "transports_agree t v" and wired: "conn_wiring v k = Some Wired"
  shows "is_current t k = conn_current v k \<and> (\<exists>st. jm_get (ws_states t) k = Some st \<and> cs_clientId st = conn_clientId v k)"
proof -
  obtain st where st: "jm_get (ws_states t) k = Some st" "cs_clientId st = conn_clientId v k"
    using agreeD(2) [OF agree wired] by blast
  then show ?thesis by (simp add: is_current_def conn_current_def agreeD(1) [OF agree])
qed

lemma agree_upgrade:
  assumes agree: "transports_agree t v" and pending: "conn_wiring v k = Some UpgradePending"
  shows "transports_agree (completeUpgrade t k c) (wire_conn k c tags v)"
proof -
  obtain c0 where c0: "jm_get (wk_objects v) k = Some c0" using pending by (auto simp: conn_wiring_def)
  have t: "ws_clientSockets (completeUpgrade t k c) = jm_set (ws_clientSockets t) c k"
    "ws_states (completeUpgrade t k c) = jm_set (ws_states t) k \<lparr>cs_clientId = c, cs_topics = []\<rparr>"
    by (simp_all add: completeUpgrade_def drop_old_def Let_def split: option.split)
  have v: "wk_conns (wire_conn k c tags v) = jm_set (wk_conns v) c k"
    "jm_get (wk_objects (wire_conn k c tags v)) k' =
       (if k' = k then Some (c0\<lparr>wc_clientId := c, wc_tags := tags, wc_wiring := Wired\<rparr>) else jm_get (wk_objects v) k')" for k'
    using c0 by (simp_all add: wire_conn_def Let_def split: option.split)
  have fresh: "jm_get (wk_conns v) c' \<noteq> Some k" for c'
    using agree pending by (auto simp: transports_agree_def)
  show ?thesis
    using agree fresh
    by (auto simp: transports_agree_def t v conn_wiring_def conn_clientId_def)
qed

lemma drop_conn_fields:
  assumes "conn_wiring v k \<noteq> None"
  shows "wk_conns (drop_conn k v) = jm_del (wk_conns v) (conn_clientId v k)"
    and "conn_wiring (drop_conn k v) = conn_wiring v" "conn_clientId (drop_conn k v) = conn_clientId v"
  using assms by (auto simp: drop_conn_def conn_wiring_def conn_clientId_def fun_eq_iff split: option.split)

lemma agree_dropped:
  assumes agree: "transports_agree t v" and wired: "conn_wiring v k = Some Wired"
  shows "transports_agree (ws_on_close t k) (if conn_current v k then drop_conn k v else v)"
proof -
  obtain st where st: "jm_get (ws_states t) k = Some st" "cs_clientId st = conn_clientId v k"
    and cur: "is_current t k = conn_current v k"
    using agree_conn_current [OF agree wired] by blast
  have t: "ws_states (ws_on_close t k) = ws_states t" "ws_clientSockets (ws_on_close t k) =
      (if conn_current v k then jm_del (ws_clientSockets t) (conn_clientId v k) else ws_clientSockets t)"
    using st cur by (simp_all add: ws_on_close_def Let_def)
  have v: "wk_conns (drop_conn k v) = jm_del (wk_conns v) (conn_clientId v k)" "conn_wiring (drop_conn k v) = conn_wiring v"
    "conn_clientId (drop_conn k v) = conn_clientId v"
    using wired by (simp_all add: drop_conn_fields)
  show ?thesis
    using agree by (cases "conn_current v k") (simp_all add: transports_agree_def t v)
qed

lemma agree_quiet:
  "worlds_agree w x \<Longrightarrow> same_wiring (ww_net x) v \<Longrightarrow> worlds_agree w (x\<lparr>ww_net := v\<rparr>)"
  by (auto simp: worlds_agree_def intro: agree_same_wiring)

text \<open>A connection that is not wired may change as it likes.\<close>

lemma agree_unwired:
  assumes agree: "transports_agree t v" and conns: "wk_conns v' = wk_conns v"
    and others: "\<And>k'. k' \<noteq> k \<Longrightarrow> conn_wiring v' k' = conn_wiring v k' \<and> conn_clientId v' k' = conn_clientId v k'"
    and unwired: "conn_wiring v k \<noteq> Some Wired" "conn_wiring v' k \<noteq> Some Wired"
  shows "transports_agree t v'"
proof -
  have "jm_get (wk_conns v) c = Some k' \<Longrightarrow> k' \<noteq> k" for c k'
    using agree unwired(1) by (auto simp: transports_agree_def)
  then show ?thesis
    using agree others unwired unfolding transports_agree_def conns by (metis)
qed

lemma agree_refuse:
  assumes "transports_agree t v" and "conn_wiring v k = Some UpgradePending"
  shows "transports_agree t (refuse k code reason v)"
  by (rule agree_unwired [OF assms(1), where k = k])
    (use assms(2) in \<open>auto simp: refuse_def conn_wiring_def conn_clientId_def conn_signal_def\<close>)

lemma agree_new_conn:
  assumes "worlds_agree w x"
  shows "worlds_agree w (handleUpgrade k x)"
proof (cases "jm_has (wk_objects (ww_net x)) k")
  case False
  have "transports_agree (w_ws w) (connLoop_round k ((ww_net x)\<lparr>wk_objects := jm_set (wk_objects (ww_net x)) k new_conn\<rparr>))"
    by (rule agree_unwired [of _ "ww_net x" _ k])
      (use assms False in \<open>auto simp: worlds_agree_def connLoop_round_def new_conn_def conn_wiring_def conn_clientId_def\<close>)
  then show ?thesis using assms False by (simp add: handleUpgrade_def worlds_agree_def)
qed (use assms in \<open>simp add: handleUpgrade_def\<close>)

lemma same_wiring_resume: "same_wiring v (connLoop_resume k v)"
  by (auto simp: same_wiring_def connLoop_resume_def connLoop_round_def conn_wiring_def conn_clientId_def armConn_def
      split: option.split)

lemma same_wiring_notify:
  "same_wiring v (enqueueHeartbeat now v)" "same_wiring v (flush v)" "same_wiring v (notify_settled i v)"
  by (auto simp: enqueueHeartbeat_def flush_def notify_settled_def notify_next_def Let_def
      intro: same_wiring_update split: list.split option.split)

text \<open>A socket that is not wired has no say on either side.\<close>

lemma unwired_no_current:
  assumes "transports_agree t v" and "conn_wiring v k \<noteq> Some Wired"
  shows "\<not> is_current t k"
  using assms by (auto simp: is_current_def transports_agree_def split: option.split)

lemma agree_unwired_end:
  assumes "worlds_agree w x" and "conn_wiring (ww_net x) k \<noteq> Some Wired"
  shows "worlds_agree (net_closed cfg w k code) x"
proof -
  have agree: "transports_agree (w_ws w) (ww_net x)" using assms(1) by (simp add: worlds_agree_def)
  note stale = unwired_no_current [OF agree assms(2)]
  have "same_sockets (w_ws w) (ws_on_close (w_ws w) k)"
    using stale by (intro same_sockets_fields) (simp_all add: ws_on_close_def Let_def split: option.split)
  from agree_same_sockets [OF agree this] show ?thesis
    using assms(1) stale by (simp add: net_closed_def Let_def worlds_agree_def split: option.split)
qed

lemma agree_refused_upgrade:
  assumes "worlds_agree w x"
  shows "worlds_agree (net_upgrade cfg w k None destroyed tok) x"
proof -
  have "same_sockets (w_ws w) (net (w_ws w) [Http401])" by (rule same_sockets_fields) simp_all
  with assms show ?thesis by (auto simp: net_upgrade_def worlds_agree_def intro: agree_same_sockets)
qed

lemma agree_step:
  assumes "worlds_agree w x" and alive: "\<forall>n \<in> set (ws_view dead x e). \<not> accepts_destroyed n"
  shows "worlds_agree (run (net_step cfg) w (ws_view dead x e)) (workerd_step cfg x e)"
proof -
  have w: "w_room w = ww_room x" "w_uncaught w = ww_uncaught x" and agree: "transports_agree (w_ws w) (ww_net x)"
    using assms by (simp_all add: worlds_agree_def)
  have ended: "worlds_agree (net_closed cfg w k code) (conn_ended cfg k code x)" for k code
  proof (cases "conn_wiring (ww_net x) k = Some Wired")
    case True
    let ?v = "with_conn k (\<lambda>c. conn_signal (c\<lparr>wc_closed := True\<rparr>)) (ww_net x)"
    have same: "same_wiring (ww_net x) ?v" by (rule same_wiring_with_conn) (simp add: conn_signal_def)
    have wired: "conn_wiring ?v k = Some Wired" using same True by (simp add: same_wiring_def)
    note agree' = agree_same_wiring [OF agree same]
    obtain st where st: "jm_get (ws_states (w_ws w)) k = Some st" "cs_clientId st = conn_clientId ?v k"
      and cur: "is_current (w_ws w) k = conn_current ?v k"
      using agree_conn_current [OF agree' wired] by blast
    note d = agree_dropped [OF agree' wired]
    show ?thesis
    proof (cases "conn_current ?v k")
      case True
      then show ?thesis
        using agree_handler [OF assms(1), of "ws_on_close (w_ws w) k" "drop_conn k ?v"] d st cur w \<open>conn_wiring (ww_net x) k = _\<close>
        by (simp add: net_closed_def conn_ended_def Let_def)
    next
      case False
      then show ?thesis
        using d st cur w \<open>conn_wiring (ww_net x) k = _\<close>
        by (simp add: net_closed_def conn_ended_def Let_def worlds_agree_def)
    qed
  next
    case False
    from agree_unwired_end [OF assms(1) False] False show ?thesis by (simp add: conn_ended_def)
  qed
  show ?thesis
  proof (cases e)
    case (WkUpgradeSettled k outcome tok)
    show ?thesis
    proof (cases "conn_wiring (ww_net x) k = Some UpgradePending")
      case True
      have refused: "worlds_agree w (x\<lparr>ww_net := refuse k code reason (ww_net x)\<rparr>)" for code reason
        using agree_refuse [OF agree True] w by (simp add: worlds_agree_def)
      show ?thesis
      proof (cases outcome)
        case None
        with True refused show ?thesis by (simp add: WkUpgradeSettled upgrade_settled_def)
      next
        case (Some result)
        show ?thesis
        proof (cases result)
          case None
          with True Some agree_refused_upgrade [OF refused] show ?thesis
            by (simp add: WkUpgradeSettled upgrade_settled_def)
        next
          case accepted: (Some u)
          with True Some alive have "k \<notin> set dead" by (simp add: WkUpgradeSettled)
          with True Some accepted agree_handler [OF assms(1) agree_upgrade [OF agree True]] w show ?thesis
            by (simp add: WkUpgradeSettled upgrade_settled_def wireSocket_def net_upgrade_def Let_def)
        qed
      qed
    next
      case False
      then have "ws_view dead x e = []" by (cases outcome) (simp_all add: WkUpgradeSettled)
      then show ?thesis using assms False by (simp add: WkUpgradeSettled upgrade_settled_def)
    qed
  next
    case (WkMessage k frame)
    show ?thesis
    proof (cases "conn_wiring (ww_net x) k = Some Wired")
      case True
      then obtain st where "jm_get (ws_states (w_ws w)) k = Some st" "cs_clientId st = conn_clientId (ww_net x) k"
        and "is_current (w_ws w) k = conn_current (ww_net x) k"
        using agree_conn_current [OF agree] by blast
      then show ?thesis
        using True assms(1) w agree_handler [OF assms(1) agree]
        by (auto simp: WkMessage conn_message_def net_message_def worlds_agree_def split: prod.split sum.split)
    next
      case False
      with unwired_no_current [OF agree False] assms(1) show ?thesis
        by (simp add: WkMessage conn_message_def net_message_def)
    qed
  next
    case (WkRoom re)
    then show ?thesis using agree_handler [OF assms(1) agree] w by (simp add: room_event_in_def)
  qed (use assms(1) ended agree_new_conn [OF assms(1)] agree_quiet [OF assms(1) same_wiring_resume]
      agree_quiet [OF assms(1) same_wiring_notify(1)] agree_quiet [OF assms(1) same_wiring_notify(2)]
      agree_quiet [OF assms(1) same_wiring_notify(3)] in simp_all)
qed

lemma agree_run:
  "worlds_agree w x \<Longrightarrow> \<forall>n \<in> set (ws_trace cfg dead x es). \<not> accepts_destroyed n \<Longrightarrow>
     worlds_agree (run (net_step cfg) w (ws_trace cfg dead x es)) (run (workerd_step cfg) x es)"
proof (induction es arbitrary: w x dead)
  case (Cons e es)
  from Cons.prems(2) have "\<forall>n \<in> set (ws_view dead x e). \<not> accepts_destroyed n"
    and rest: "\<forall>n \<in> set (ws_trace cfg (ended_socket e @ dead) (workerd_step cfg x e) es). \<not> accepts_destroyed n" by simp_all
  from Cons.IH [OF agree_step [OF Cons.prems(1) this(1)] rest] show ?case by (simp add: run_append)
qed simp

lemma agree_start: "worlds_agree (start_ws r) (start_workerd r)"
  by (simp add: worlds_agree_def start_ws_def start_workerd_def transports_agree_def empty_ws_def empty_workerd_def conn_wiring_def)

text \<open>
  C37: As long as no upgrade is accepted for a socket that has ended while it was pending, the workerd
  adapter is a transport like the websocket one. After any such sequence of connections, settled
  upgrades, frames, ends of sockets (current, replaced, refused or pending ones), room events, wakes
  of drain loops, ticks and flushes, the room is in the very state, with the very history, that the same
  upgrades, frames, ends and room events lead to on the websocket transport, the same connection is the current
  one of every client, and the same errors went uncaught. The condition is needed: the websocket
  transport drops an upgrade whose socket is destroyed, the adapter does not look
  (\<open>ended_while_pending_becomes_current\<close>).
\<close>

theorem workerd_refines_ws:
  assumes "\<forall>n \<in> set (ws_trace cfg [] (start_workerd r) es). \<not> accepts_destroyed n"
  shows "let x = run (workerd_step cfg) (start_workerd r) es;
       w = run (net_step cfg) (start_ws r) (ws_trace cfg [] (start_workerd r) es)
   in ww_room x = w_room w \<and> ww_uncaught x = w_uncaught w \<and>
      (\<forall>c. jm_get (wk_conns (ww_net x)) c = jm_get (ws_clientSockets (w_ws w)) c)"
proof -
  from agree_run [OF agree_start assms] show ?thesis by (auto simp: Let_def worlds_agree_def agreeD(1))
qed

text \<open>A client that joins, speaks and leaves, and a socket that ends before its upgrade is refused.\<close>

definition workerd_demo_run :: "workerd_event list" where
  "workerd_demo_run =
     [WkUpgrade 1, WkMessage 1 (BinaryData [2]), WkUpgradeSettled 1 (Some (Some (accepted ''c1'' False None))) ''t'', WkWake 1,
      WkUpgrade 2, WkClosed 2 1005, WkUpgradeSettled 2 (Some None) [], WkMessage 1 (BinaryData [2, 7]), WkClosed 1 0]"

lemma workerd_refines_ws_witness:
  "let x = run (workerd_step demo_cfg) (start_workerd demo_room) workerd_demo_run;
       w = run (net_step demo_cfg) (start_ws demo_room) (ws_trace demo_cfg [] (start_workerd demo_room) workerd_demo_run)
   in ww_room x = w_room w \<and> jm_get (wk_conns (ww_net x)) ''c1'' = jm_get (ws_clientSockets (w_ws w)) ''c1''"
proof -
  have "\<forall>n \<in> set (ws_trace demo_cfg [] (start_workerd demo_room) workerd_demo_run). \<not> accepts_destroyed n"
    by (auto simp: workerd_demo_run_def accepted_def simp del: workerd_step.simps)
  from workerd_refines_ws [OF this] show ?thesis by (simp add: Let_def)
qed

section \<open>The drain loops\<close>

text \<open>What was handed to the socket \<open>k\<close> so far, and what is still queued behind it.\<close>

definition sent_on :: "sock \<Rightarrow> workerd_action list \<Rightarrow> byte list list" where
  "sent_on k as = List.map_filter (\<lambda>a. case a of WsSend k' data \<Rightarrow> if k' = k then Some data else None | _ \<Rightarrow> None) as"

definition queued_on :: "sock \<Rightarrow> workerd_room \<Rightarrow> byte list list" where
  "queued_on k v = (case jm_get (wk_objects v) k of Some c \<Rightarrow> wc_outbox c | None \<Rightarrow> [])"

definition stream_of :: "sock \<Rightarrow> workerd_room \<Rightarrow> byte list list" where
  "stream_of k v = sent_on k (wk_net v) @ queued_on k v"

lemma sent_on_append [simp]: "sent_on k (as @ bs) = sent_on k as @ sent_on k bs"
  by (simp add: sent_on_def List.map_filter_def)

lemma sent_on_sends [simp]: "sent_on k (map (WsSend k') ds) = (if k' = k then ds else [])"
  by (induction ds) (auto simp: sent_on_def List.map_filter_def)

lemma sent_on_simps [simp]: "sent_on k [] = []" "sent_on k [WsClose k' code reason] = []"
  by (simp_all add: sent_on_def List.map_filter_def)

text \<open>
  A loop that has something to do is awake; a loop that returned did so after the end of its
  connection; the current connection of a client is wired and open, so what is routed to it is sent.
\<close>

definition loop_ok :: "workerd_conn \<Rightarrow> bool" where
  "loop_ok c \<longleftrightarrow>
     (wc_looping c \<and> (wc_outbox c \<noteq> [] \<or> wc_closeRequest c \<noteq> None \<or> wc_closed c) \<longrightarrow> wc_woken c) \<and>
     (\<not> wc_looping c \<longrightarrow> wc_closed c) \<and> (wc_closed c \<longrightarrow> wc_wiring c = Wired)"

definition loops_inv :: "workerd_room \<Rightarrow> bool" where
  "loops_inv v \<longleftrightarrow>
     (\<forall>k c. jm_get (wk_objects v) k = Some c \<longrightarrow> loop_ok c) \<and>
     (\<forall>clientId k. jm_get (wk_conns v) clientId = Some k \<longrightarrow>
        (\<exists>c. jm_get (wk_objects v) k = Some c \<and> wc_clientId c = clientId \<and> wc_wiring c = Wired \<and> \<not> wc_closed c))"

lemma loops_invD:
  assumes "loops_inv v"
  shows "jm_get (wk_objects v) k = Some c \<Longrightarrow> loop_ok c"
    and "jm_get (wk_conns v) clientId = Some k \<Longrightarrow>
      \<exists>c. jm_get (wk_objects v) k = Some c \<and> wc_clientId c = clientId \<and> wc_wiring c = Wired \<and> \<not> wc_closed c"
  using assms by (auto simp: loops_inv_def)

lemma loops_inv_with_conn:
  assumes "loops_inv v" and "\<And>c. loop_ok c \<Longrightarrow> loop_ok (f c)"
    and "\<And>c. wc_clientId (f c) = wc_clientId c \<and> (wc_wiring c = Wired \<longrightarrow> wc_wiring (f c) = Wired) \<and> wc_closed (f c) = wc_closed c"
  shows "loops_inv (with_conn k f v)"
  unfolding loops_inv_def with_conn_fields
proof (intro conjI allI impI)
  fix k' c assume "(if k' = k then map_option f (jm_get (wk_objects v) k) else jm_get (wk_objects v) k') = Some c"
  then show "loop_ok c" using loops_invD(1) [OF assms(1)] assms(2) by (auto split: if_splits)
next
  fix clientId k' assume "jm_get (wk_conns v) clientId = Some k'"
  from loops_invD(2) [OF assms(1) this] assms(3)
  show "\<exists>c. (if k' = k then map_option f (jm_get (wk_objects v) k) else jm_get (wk_objects v) k') = Some c \<and>
      wc_clientId c = clientId \<and> wc_wiring c = Wired \<and> \<not> wc_closed c"
    by auto
qed

lemma loops_inv_fields:
  "loops_inv v \<Longrightarrow> wk_objects v' = wk_objects v \<Longrightarrow> wk_conns v' = wk_conns v \<Longrightarrow> loops_inv v'"
  by (simp add: loops_inv_def)

lemma loops_inv_fold: "(\<And>x v. loops_inv v \<Longrightarrow> loops_inv (f x v)) \<Longrightarrow> loops_inv v \<Longrightarrow> loops_inv (fold f xs v)"
  by (induction xs arbitrary: v) auto

lemma loops_inv_enqueue:
  "loops_inv v \<Longrightarrow> loops_inv (enqueueSend clientId data v)"
  "loops_inv v \<Longrightarrow> loops_inv (enqueueClose clientId code reason v)"
  by (auto simp: enqueueSend_def enqueueClose_def loop_ok_def conn_signal_def split: option.split intro!: loops_inv_with_conn)

lemma loops_inv_subscribe: "loops_inv v \<Longrightarrow> loops_inv (workerd_subscribe k topic v)"
  unfolding workerd_subscribe_def Let_def
  by (rule loops_inv_fields [OF loops_inv_with_conn [where f = "\<lambda>c. c\<lparr>wc_topics := set_add (wc_topics c) topic\<rparr>"]])
    (auto simp: loop_ok_def)

lemma loops_inv_action: "loops_inv v \<Longrightarrow> loops_inv (workerd_action_of v a)"
  by (cases a) (auto simp: workerd_action_of_def workerd_publish_def workerd_close_def
      intro: loops_inv_enqueue loops_inv_subscribe loops_inv_fold loops_inv_fields)

lemma loops_inv_handler: "loops_inv v \<Longrightarrow> loops_inv (ww_net (after_handler x v r))"
proof -
  have "loops_inv v \<Longrightarrow> loops_inv (foldl workerd_action_of v as)" for as
    by (induction as arbitrary: v) (auto intro: loops_inv_action)
  then show "loops_inv v \<Longrightarrow> loops_inv (ww_net (after_handler x v r))" by (simp add: after_handler_def)
qed

lemma loops_inv_update:
  assumes inv: "loops_inv v" and conns: "wk_conns v' = wk_conns v"
    and others: "\<And>k'. k' \<noteq> k \<Longrightarrow> jm_get (wk_objects v') k' = jm_get (wk_objects v) k'"
    and own: "\<And>c. jm_get (wk_objects v') k = Some c \<Longrightarrow> loop_ok c"
    and kept: "\<And>clientId. jm_get (wk_conns v) clientId = Some k \<Longrightarrow>
      \<exists>c. jm_get (wk_objects v') k = Some c \<and> wc_clientId c = clientId \<and> wc_wiring c = Wired \<and> \<not> wc_closed c"
  shows "loops_inv v'"
  unfolding loops_inv_def conns
proof (intro conjI allI impI)
  fix k' c assume "jm_get (wk_objects v') k' = Some c"
  then show "loop_ok c" using own others loops_invD(1) [OF inv] by (cases "k' = k") auto
next
  fix clientId k' assume "jm_get (wk_conns v) clientId = Some k'"
  then show "\<exists>c. jm_get (wk_objects v') k' = Some c \<and> wc_clientId c = clientId \<and> wc_wiring c = Wired \<and> \<not> wc_closed c"
    using kept others loops_invD(2) [OF inv] by (cases "k' = k") auto
qed

lemma unwired_not_current: "loops_inv v \<Longrightarrow> conn_wiring v k \<noteq> Some Wired \<Longrightarrow> jm_get (wk_conns v) c \<noteq> Some k"
  by (auto simp: conn_wiring_def dest: loops_invD(2))

lemma loops_inv_upgrade: "loops_inv (ww_net x) \<Longrightarrow> loops_inv (ww_net (handleUpgrade k x))"
  unfolding handleUpgrade_def
  by (auto intro!: loops_inv_update [of "ww_net x" _ k] dest: loops_invD(2) unwired_not_current
      simp: connLoop_round_def new_conn_def loop_ok_def conn_wiring_def)

lemma loops_inv_refuse:
  assumes "loops_inv v" and "conn_wiring v k = Some UpgradePending"
  shows "loops_inv (refuse k code reason v)"
proof -
  obtain c where c: "jm_get (wk_objects v) k = Some c" "wc_wiring c = UpgradePending" using assms(2) by (auto simp: conn_wiring_def)
  then have "loop_ok (conn_signal (c\<lparr>wc_closeRequest := Some (code, reason), wc_wiring := Refused\<rparr>))"
    using loops_invD(1) [OF assms(1) c(1)] by (auto simp: loop_ok_def conn_signal_def)
  then show ?thesis
    unfolding refuse_def
    by (intro loops_inv_update [OF assms(1), of _ k]) (use c assms unwired_not_current [OF assms(1), of k] in auto)
qed

lemma loops_inv_wire:
  assumes inv: "loops_inv v" and pending: "conn_wiring v k = Some UpgradePending"
  shows "loops_inv (wire_conn k clientId tags v)"
proof -
  obtain c where c: "jm_get (wk_objects v) k = Some c" "wc_wiring c = UpgradePending" using pending by (auto simp: conn_wiring_def)
  let ?c = "c\<lparr>wc_clientId := clientId, wc_tags := tags, wc_wiring := Wired\<rparr>"
  have w: "wk_conns (wire_conn k clientId tags v) = jm_set (wk_conns v) clientId k"
    "jm_get (wk_objects (wire_conn k clientId tags v)) k' = (if k' = k then Some ?c else jm_get (wk_objects v) k')" for k'
    using c by (simp_all add: wire_conn_def Let_def split: option.split)
  have ok: "loop_ok ?c" "\<not> wc_closed ?c" using loops_invD(1) [OF inv c(1)] c(2) by (auto simp: loop_ok_def)
  show ?thesis
    using ok loops_invD [OF inv] unwired_not_current [OF inv, of k] pending
    by (simp add: loops_inv_def w)
qed

lemma loops_inv_resume: "loops_inv v \<Longrightarrow> loops_inv (connLoop_resume k v)"
proof (cases "jm_get (wk_objects v) k")
  case (Some c)
  assume inv: "loops_inv v"
  show ?thesis
  proof (cases "wc_looping c \<and> wc_woken c")
    case True
    let ?c = "(armConn c)\<lparr>wc_outbox := [], wc_closeRequest := None, wc_looping := \<not> wc_closed c\<rparr>"
    have "jm_get (wk_objects (connLoop_resume k v)) k' = (if k' = k then Some ?c else jm_get (wk_objects v) k')"
      "wk_conns (connLoop_resume k v) = wk_conns v" for k'
      using Some True by (simp_all add: connLoop_resume_def connLoop_round_def armConn_def)
    moreover have "loop_ok ?c" using loops_invD(1) [OF inv Some] by (auto simp: loop_ok_def armConn_def)
    ultimately show ?thesis
      using Some by (intro loops_inv_update [OF inv, of _ k]) (auto simp: armConn_def dest!: loops_invD(2) [OF inv])
  qed (use inv Some in \<open>auto simp: connLoop_resume_def\<close>)
qed (simp add: connLoop_resume_def)

lemma loops_inv_ended:
  assumes inv: "loops_inv (ww_net x)"
  shows "loops_inv (ww_net (conn_ended cfg k code x))"
proof (cases "conn_wiring (ww_net x) k = Some Wired")
  case True
  then obtain c where c: "jm_get (wk_objects (ww_net x)) k = Some c" "wc_wiring c = Wired" by (auto simp: conn_wiring_def)
  let ?c = "conn_signal (c\<lparr>wc_closed := True\<rparr>)"
  let ?v = "with_conn k (\<lambda>c. conn_signal (c\<lparr>wc_closed := True\<rparr>)) (ww_net x)"
  have ok: "loop_ok ?c" using loops_invD(1) [OF inv c(1)] c(2) by (auto simp: loop_ok_def conn_signal_def)
  have id: "conn_clientId ?v k = wc_clientId c" using c by (simp add: conn_clientId_def conn_signal_def)
  have own: "clientId = wc_clientId c" if "jm_get (wk_conns (ww_net x)) clientId = Some k" for clientId
    using loops_invD(2) [OF inv that] c by auto
  have gone: "loops_inv (drop_conn k ?v)"
    using ok own loops_invD [OF inv] c unfolding loops_inv_def
    by (auto simp: drop_conn_def conn_signal_def split: if_splits)
  have stale: "loops_inv ?v" if "\<not> conn_current ?v k"
    using that ok own by (intro loops_inv_update [OF inv, of _ k]) (auto simp: c conn_current_def id)
  show ?thesis
    using True loops_inv_handler [OF gone] stale by (simp add: conn_ended_def Let_def)
qed (use inv in \<open>simp add: conn_ended_def\<close>)

lemma loops_inv_step: "loops_inv (ww_net x) \<Longrightarrow> loops_inv (ww_net (workerd_step cfg x e))"
  by (cases e)
    (auto simp: upgrade_settled_def wireSocket_def conn_message_def enqueueHeartbeat_def flush_def notify_settled_def notify_next_def
      Let_def loops_inv_upgrade loops_inv_ended loops_inv_resume
      intro!: loops_inv_handler loops_inv_wire loops_inv_refuse split: option.split sum.split prod.split list.split
      intro: loops_inv_fields)

interpretation wk: step_invariant "workerd_step cfg" "\<lambda>_ _. True" "\<lambda>x. loops_inv (ww_net x)" for cfg
  by unfold_locales (rule loops_inv_step)

text \<open>A stream only grows at its end.\<close>

definition grows :: "workerd_room \<Rightarrow> workerd_room \<Rightarrow> bool" where
  "grows v v' \<longleftrightarrow> (\<forall>k. prefix (stream_of k v) (stream_of k v'))"

lemma grows_refl [simp]: "grows v v"
  by (simp add: grows_def)

lemma grows_trans: "grows u v \<Longrightarrow> grows v w \<Longrightarrow> grows u w"
  unfolding grows_def by (meson prefix_order.trans)

lemma grows_fold: "(\<And>x v. grows v (f x v)) \<Longrightarrow> grows v (fold f xs v)"
proof (induction xs arbitrary: v)
  case (Cons x xs)
  from grows_trans [OF Cons.prems Cons.IH [OF Cons.prems]] show ?case by simp
qed simp

lemma grows_fields: "wk_objects v' = wk_objects v \<Longrightarrow> wk_net v' = wk_net v \<Longrightarrow> grows v v'"
  by (simp add: grows_def stream_of_def queued_on_def)

lemma grows_with_conn: "(\<And>c. prefix (wc_outbox c) (wc_outbox (f c))) \<Longrightarrow> grows v (with_conn k f v)"
  by (auto simp: grows_def stream_of_def queued_on_def split: option.split)

lemma grows_enqueue: "grows v (enqueueSend clientId data v)" "grows v (enqueueClose clientId code reason v)"
  by (auto simp: enqueueSend_def enqueueClose_def conn_signal_def split: option.split intro!: grows_with_conn)

lemma grows_subscribe: "grows v (workerd_subscribe k topic v)"
  unfolding workerd_subscribe_def Let_def
  by (rule grows_trans [OF grows_with_conn [where f = "\<lambda>c. c\<lparr>wc_topics := set_add (wc_topics c) topic\<rparr>"] grows_fields]) simp_all

lemma grows_action: "grows v (workerd_action_of v a)"
  by (cases a) (auto simp: workerd_action_of_def workerd_publish_def workerd_close_def
      intro: grows_enqueue grows_subscribe grows_fold grows_fields)

lemma grows_handler: "grows u v \<Longrightarrow> grows u (ww_net (after_handler x v r))"
proof -
  have "grows v (foldl workerd_action_of v as)" for as v
  proof (induction as arbitrary: v)
    case (Cons a as)
    from grows_trans [OF grows_action Cons.IH] show ?case by simp
  qed simp
  then show "grows u v \<Longrightarrow> grows u (ww_net (after_handler x v r))"
    by (auto simp: after_handler_def intro: grows_trans)
qed

text \<open>A round of the loop hands everything over.\<close>

lemma resume_stream:
  assumes "jm_get (wk_objects v) k = Some c" and "wc_looping c" and "wc_woken c"
  shows "wk_net (connLoop_resume k v) = wk_net v @ map (WsSend k) (wc_outbox c) @
      (case wc_closeRequest c of Some (code, reason) \<Rightarrow> [WsClose k code reason] | None \<Rightarrow> [])"
    and "stream_of k' (connLoop_resume k v) = stream_of k' v"
    and "queued_on k (connLoop_resume k v) = []"
  using assms
  by (auto simp: connLoop_resume_def connLoop_round_def stream_of_def queued_on_def armConn_def split: option.split)

lemma grows_resume: "grows v (connLoop_resume k v)"
proof (cases "\<exists>c. jm_get (wk_objects v) k = Some c \<and> wc_looping c \<and> wc_woken c")
  case True
  then show ?thesis by (auto simp: grows_def resume_stream(2))
next
  case False
  then have "connLoop_resume k v = v" by (auto simp: connLoop_resume_def split: option.split)
  then show ?thesis by simp
qed

lemma grows_upgrade: "grows (ww_net x) (ww_net (handleUpgrade k x))"
  by (auto simp: handleUpgrade_def grows_def stream_of_def queued_on_def connLoop_round_def new_conn_def split: option.split)

lemma grows_wire: "grows v (wire_conn k clientId tags v)"
  unfolding wire_conn_def Let_def
  by (rule grows_trans [OF grows_with_conn [where k = k and f = "\<lambda>c. c\<lparr>wc_clientId := clientId, wc_tags := tags, wc_wiring := Wired\<rparr>"] grows_fields])
    (simp_all split: option.split)

lemma grows_refuse: "grows v (refuse k code reason v)"
  unfolding refuse_def by (rule grows_with_conn) (simp add: conn_signal_def)

lemma grows_ended: "grows (ww_net x) (ww_net (conn_ended cfg k code x))"
proof -
  let ?v = "with_conn k (\<lambda>c. conn_signal (c\<lparr>wc_closed := True\<rparr>)) (ww_net x)"
  have v: "grows (ww_net x) ?v" by (rule grows_with_conn) (simp add: conn_signal_def)
  have "grows ?v (drop_conn k ?v)" by (rule grows_fields) (simp_all add: drop_conn_def split: option.split)
  then show ?thesis using v by (auto simp: conn_ended_def Let_def intro: grows_handler grows_trans)
qed

lemma grows_step: "grows (ww_net x) (ww_net (workerd_step cfg x e))"
  by (cases e)
    (auto simp: upgrade_settled_def wireSocket_def conn_message_def enqueueHeartbeat_def flush_def notify_settled_def notify_next_def
      Let_def grows_upgrade grows_ended grows_resume grows_refuse grows_wire
      intro!: grows_handler split: option.split sum.split prod.split list.split intro: grows_fields)

lemma grows_run: "grows (ww_net x) (ww_net (run (workerd_step cfg) x es))"
proof (induction es arbitrary: x)
  case (Cons e es)
  from grows_trans [OF grows_step Cons.IH] show ?case by simp
qed simp

lemma loops_inv_start: "loops_inv (ww_net (start_workerd r))"
  by (simp add: start_workerd_def empty_workerd_def loops_inv_def)

text \<open>
  C38: The drain loops lose nothing and never sleep over work. In every reachable state, what the room
  sends to the current connection of a client is put at the end of what was and will be written on
  its socket, and no later event takes anything out of that sequence or changes its order; the loop
  of that connection is then awake, and its next round writes everything that is queued and, after
  it, the close the room asked for, so nothing stays queued.
\<close>

theorem workerd_loops_deliver:
  assumes "v = ww_net (run (workerd_step cfg) (start_workerd r) es)" and "jm_get (wk_conns v) clientId = Some k"
  shows "stream_of k (enqueueSend clientId data v) = stream_of k v @ [data] \<and>
    prefix (stream_of k v) (stream_of k (ww_net (run (workerd_step cfg) (start_workerd r) (es @ es')))) \<and>
    (\<exists>c. jm_get (wk_objects (enqueueSend clientId data v)) k = Some c \<and>
       wk_net (connLoop_resume k (enqueueSend clientId data v)) = wk_net v @ map (WsSend k) (queued_on k v @ [data]) @
         (case wc_closeRequest c of Some (code, reason) \<Rightarrow> [WsClose k code reason] | None \<Rightarrow> []) \<and>
       queued_on k (connLoop_resume k (enqueueSend clientId data v)) = [])"
proof -
  have inv: "loops_inv v" unfolding assms(1) by (rule wk.I_run [OF loops_inv_start run_ok_True])
  let ?v = "enqueueSend clientId data v"
  obtain c where c: "jm_get (wk_objects v) k = Some c" "\<not> wc_closed c" using loops_invD(2) [OF inv assms(2)] by blast
  let ?c = "conn_signal (c\<lparr>wc_outbox := wc_outbox c @ [data]\<rparr>)"
  have sent: "jm_get (wk_objects ?v) k = Some ?c" "wk_net ?v = wk_net v" using c assms(2) by (simp_all add: enqueueSend_def)
  have "wc_looping ?c" "wc_woken ?c" using loops_invD(1) [OF inv c(1)] c(2) by (simp_all add: loop_ok_def conn_signal_def)
  note round = resume_stream [OF sent(1) this]
  have "prefix (stream_of k v) (stream_of k (ww_net (run (workerd_step cfg) (start_workerd r) (es @ es'))))"
    using grows_run [of "run (workerd_step cfg) (start_workerd r) es" cfg es'] by (simp add: assms(1) run_append grows_def)
  then show ?thesis
    using sent round(1,3) c by (simp add: stream_of_def queued_on_def conn_signal_def)
qed

text \<open>A room with one client whose first socket is current.\<close>

definition workerd_demo_events :: "workerd_event list" where
  "workerd_demo_events = [WkUpgrade 1, WkUpgradeSettled 1 (Some (Some (accepted ''c1'' False None))) ''t'', WkWake 1]"

lemma workerd_demo: "jm_get (wk_conns (ww_net (run (workerd_step demo_cfg) (start_workerd r) workerd_demo_events))) ''c1'' = Some 1"
proof -
  have conns: "wk_conns (ww_net (after_handler x v r')) = wk_conns v" for x v r'
    using same_wiring_actions [of v] by (simp add: after_handler_def same_wiring_def)
  show ?thesis
    by (simp add: workerd_demo_events_def start_workerd_def empty_workerd_def handleUpgrade_def upgrade_settled_def wireSocket_def
        conn_wiring_def connLoop_round_def new_conn_def wire_conn_def accepted_def Let_def connLoop_resume_def conns
        split: option.split)
qed

lemma workerd_loops_deliver_witness:
  "let v = ww_net (run (workerd_step demo_cfg) (start_workerd demo_room) workerd_demo_events) in
   stream_of 1 (enqueueSend ''c1'' [2, 7] v) = stream_of 1 v @ [[2, 7]]"
  using workerd_loops_deliver [OF refl workerd_demo, where r = demo_room and data = "[2, 7]" and es' = "[]"] by (simp add: Let_def)

section \<open>What a reader might not expect\<close>

text \<open>
  The loop of a refused connection never returns: only the listeners of a wired connection set
  \<open>closed\<close>, so the request it keeps alive never ends by itself.
\<close>

lemma refused_loop_never_returns:
  assumes "jm_get (wk_objects (ww_net (run (workerd_step cfg) (start_workerd r) es))) k = Some c" and "wc_wiring c = Refused"
  shows "wc_looping c \<and> \<not> wc_closed c"
  using loops_invD(1) [OF wk.I_run [OF loops_inv_start run_ok_True] assms(1)] assms(2) by (auto simp: loop_ok_def)

text \<open>
  A handle sends to whatever connection is the current one of its client id: once a second
  connection of the same client is wired, what the room sends to the client on its old handle is
  queued for the new one.
\<close>

lemma old_handle_reaches_new_connection:
  assumes "conn_clientId v k = clientId" and "jm_get (wk_conns v) clientId = Some k'" and "k' \<noteq> k"
    and "jm_get (wk_objects v) k' = Some c"
  shows "queued_on k' (workerd_action_of v (Send k data)) = queued_on k' v @ [data] \<and>
    queued_on k (workerd_action_of v (Send k data)) = queued_on k v"
  using assms by (simp add: workerd_action_of_def enqueueSend_def queued_on_def conn_signal_def)

text \<open>
  The adapter does not look whether a socket is still there when its upgrade is accepted: one that
  ended before becomes the current connection of its client, where the websocket transport does nothing.
\<close>

lemma conns_after_handler [simp]: "wk_conns (ww_net (after_handler x v r)) = wk_conns v"
  using same_wiring_actions [of v] by (simp add: after_handler_def same_wiring_def)

lemma ended_while_pending_becomes_current:
  assumes "conn_wiring (ww_net x) k = Some UpgradePending"
  shows "jm_get (wk_conns (ww_net (run (workerd_step cfg) x [WkClosed k code, WkUpgradeSettled k (Some (Some u)) tok]))) (ur_clientId u) =
      Some k \<and>
    run (net_step cfg) w (ws_trace cfg dead x [WkClosed k code, WkUpgradeSettled k (Some (Some u)) tok]) =
      net_closed cfg w k (if code = 0 then 1006 else code)"
  using assms by (simp add: conn_ended_def upgrade_settled_def wireSocket_def wire_conn_def net_upgrade_def Let_def)

text \<open>
  It stays the current one: its listeners were added too late to hear the end, and short of
  that only another connection of the same client replaces it.
\<close>

lemma current_stays:
  assumes cur: "jm_get (wk_conns (ww_net x)) clientId = Some k"
    and "k \<notin> set (ended_socket e)" and "\<forall>k' u tok. e = WkUpgradeSettled k' (Some (Some u)) tok \<longrightarrow> ur_clientId u \<noteq> clientId"
  shows "jm_get (wk_conns (ww_net (workerd_step cfg x e))) clientId = Some k"
proof -
  have ended: "jm_get (wk_conns (ww_net (conn_ended cfg k' code x))) clientId = Some k" if "k' \<noteq> k" for k' code
  proof -
    let ?v = "with_conn k' (\<lambda>c. conn_signal (c\<lparr>wc_closed := True\<rparr>)) (ww_net x)"
    have "wk_conns (drop_conn k' ?v) = wk_conns ?v \<or> wk_conns (drop_conn k' ?v) = jm_del (wk_conns ?v) (conn_clientId ?v k')"
      by (simp add: drop_conn_def conn_clientId_def split: option.split)
    moreover have "conn_clientId ?v k' \<noteq> clientId" if "conn_current ?v k'"
      using that cur \<open>k' \<noteq> k\<close> by (auto simp: conn_current_def)
    ultimately show ?thesis using cur by (auto simp: conn_ended_def Let_def)
  qed
  show ?thesis
    using assms ended
    by (cases e)
      (auto simp: handleUpgrade_def upgrade_settled_def wireSocket_def conn_message_def refuse_def connLoop_round_def
        connLoop_resume_def enqueueHeartbeat_def flush_def notify_settled_def notify_next_def wire_conn_def Let_def
        split: option.split sum.split prod.split list.split)
qed

text \<open>Flushes run side by side, so a later message can overtake an earlier one.\<close>

lemma flushes_overtake:
  "wk_relayed (notify_settled 0 (flush (workerd_action_of (flush (empty_workerd\<lparr>wk_outbox := [Ready 1, ClientDisconnected ''a'']\<rparr>))
     (Ipc Stopped)))) = [Ready 1, Stopped, ClientDisconnected ''a'']"
  by (simp add: flush_def notify_next_def notify_settled_def workerd_action_of_def empty_workerd_def)

end
