(* ===== verification/Notify_Channels.thy ===== *)
theory Notify_Channels
  imports Notify_Protocol Protocol
begin

text \<open>
  \<open>src/server/runner/notify.ts\<close>: the server-side ends of the notify channels. Sockets are
  numbered by the connection that makes them. \<open>destroy\<close> stops the \<open>data\<close> events of a socket and
  makes its \<open>close\<close> event follow later, but it does not stop a chunk that is being parsed. Every
  call of \<open>ctx.onMessage\<close> is logged with its socket. The packcat codec and the random bytes of
  the token are arguments; files and node's net servers are the environment.
\<close>

section \<open>State\<close>

record channel_socket =
  cs_buffer :: "byte list"
  cs_authed :: bool
  cs_destroyed :: bool
  cs_open :: bool
  cs_seen :: "byte list"

record listener =
  ls_active :: "nat option"
  ls_closed :: bool
  ls_listening :: bool
  ls_sockets :: "(nat, channel_socket) jsmap"
  ls_next :: nat
  ls_delivered :: "(nat \<times> notify_message) list"

definition new_listener :: listener where
  "new_listener = \<lparr>ls_active = None, ls_closed = False, ls_listening = True, ls_sockets = [], ls_next = 0, ls_delivered = []\<rparr>"

definition set_socket :: "nat \<Rightarrow> (channel_socket \<Rightarrow> channel_socket) \<Rightarrow> listener \<Rightarrow> listener" where
  "set_socket i f s =
     (case jm_get (ls_sockets s) i of None \<Rightarrow> s
      | Some k \<Rightarrow> s\<lparr>ls_sockets := jm_set (ls_sockets s) i (f k)\<rparr>)"

definition destroy_socket :: "nat \<Rightarrow> listener \<Rightarrow> listener" where
  "destroy_socket i s = set_socket i (\<lambda>k. k\<lparr>cs_destroyed := True\<rparr>) s"

section \<open>The listener core\<close>

definition adopt :: "nat \<Rightarrow> listener \<Rightarrow> bool \<times> listener" where
  "adopt i s = (if ls_active s \<noteq> None \<or> ls_closed s then (False, s) else (True, s\<lparr>ls_active := Some i\<rparr>))"

text \<open>
  \<open>createServer\<close>'s callback: the new socket, and whether its handlers are attached. A listener
  that stopped listening accepts no connection.
\<close>

definition listener_accept :: "listener \<Rightarrow> bool \<times> nat \<times> listener" where
  "listener_accept s =
     (let i = ls_next s;
          s1 = s\<lparr>ls_sockets := jm_set (ls_sockets s) i
                   \<lparr>cs_buffer = [], cs_authed = False, cs_destroyed = ls_closed s, cs_open = True, cs_seen = []\<rparr>,
                 ls_next := Suc i\<rparr>
      in (\<not> ls_closed s, i, s1))"

definition channel_socket_closed :: "nat \<Rightarrow> listener \<Rightarrow> listener" where
  "channel_socket_closed i s =
     (let s1 = set_socket i (\<lambda>k. k\<lparr>cs_open := False, cs_destroyed := True\<rparr>) s
      in if ls_active s1 = Some i then s1\<lparr>ls_active := None\<rparr> else s1)"

definition listener_close :: "listener \<Rightarrow> listener" where
  "listener_close s =
     (if ls_closed s then s
      else
        let s1 = s\<lparr>ls_closed := True\<rparr>;
            s2 = (case ls_active s1 of Some i \<Rightarrow> destroy_socket i s1 | None \<Rightarrow> s1)
        in s2\<lparr>ls_listening := False\<rparr>)"

definition deliver :: "(byte list \<Rightarrow> notify_message option) \<Rightarrow> nat \<Rightarrow> byte list \<Rightarrow> listener \<Rightarrow> listener" where
  "deliver unpack i payload s =
     (case unpack payload of Some msg \<Rightarrow> s\<lparr>ls_delivered := ls_delivered s @ [(i, msg)]\<rparr> | None \<Rightarrow> s)"

text \<open>A data event: the chunk goes through the parser and each payload to the channel's callback.\<close>

definition socket_data ::
    "(nat \<Rightarrow> byte list \<Rightarrow> listener \<Rightarrow> listener) \<Rightarrow> nat \<Rightarrow> byte list \<Rightarrow> listener \<Rightarrow> listener" where
  "socket_data onFrame i chunk s =
     (case jm_get (ls_sockets s) i of None \<Rightarrow> s
      | Some k \<Rightarrow>
          if cs_destroyed k then s
          else
            let (payloads, rest) = frame_parser_push (cs_buffer k) chunk
            in fold (onFrame i) payloads
                 (set_socket i (\<lambda>k. k\<lparr>cs_buffer := rest, cs_seen := cs_seen k @ chunk\<rparr>) s))"

section \<open>The unix socket channel\<close>

definition uds_connect :: "listener \<Rightarrow> listener" where
  "uds_connect s =
     (let (accepted, i, s1) = listener_accept s in
      if \<not> accepted then s1
      else
        let (adopted, s2) = adopt i s1
        in if adopted then s2 else destroy_socket i s2)"

definition uds_data :: "(byte list \<Rightarrow> notify_message option) \<Rightarrow> nat \<Rightarrow> byte list \<Rightarrow> listener \<Rightarrow> listener" where
  "uds_data unpack = socket_data (deliver unpack)"

section \<open>The tcp channel\<close>

definition hex_digit :: "nat \<Rightarrow> nat" where
  "hex_digit n = (if n < 10 then 48 + n else 87 + n)"

text \<open>\<open>randomBytes(16).toString('hex')\<close> of the bytes drawn.\<close>

definition tcp_token :: "byte list \<Rightarrow> js_string" where
  "tcp_token bytes = concat (map (\<lambda>b. [hex_digit (unat b div 16), hex_digit (unat b mod 16)]) bytes)"

definition tcp_connect :: "listener \<Rightarrow> listener" where
  "tcp_connect s = (let (accepted, i, s1) = listener_accept s in s1)"

definition is_authed :: "nat \<Rightarrow> listener \<Rightarrow> bool" where
  "is_authed i s = (case jm_get (ls_sockets s) i of Some k \<Rightarrow> cs_authed k | None \<Rightarrow> False)"

definition tcp_frame ::
    "(byte list \<Rightarrow> notify_message option) \<Rightarrow> js_string \<Rightarrow> nat \<Rightarrow> byte list \<Rightarrow> listener \<Rightarrow> listener" where
  "tcp_frame unpack token i payload s =
     (if \<not> is_authed i s then
        if textDecoder_decode payload \<noteq> token then destroy_socket i s
        else
          let (adopted, s1) = adopt i s
          in if \<not> adopted then destroy_socket i s1
             else set_socket i (\<lambda>k. k\<lparr>cs_authed := True\<rparr>) s1
      else deliver unpack i payload s)"

definition tcp_data ::
    "(byte list \<Rightarrow> notify_message option) \<Rightarrow> js_string \<Rightarrow> nat \<Rightarrow> byte list \<Rightarrow> listener \<Rightarrow> listener" where
  "tcp_data unpack token = socket_data (tcp_frame unpack token)"

section \<open>The direct channel\<close>

record direct_channel =
  dc_closed :: bool
  dc_delivered :: "notify_message list"

definition direct :: direct_channel where
  "direct = \<lparr>dc_closed = False, dc_delivered = []\<rparr>"

definition direct_send :: "notify_message \<Rightarrow> direct_channel \<Rightarrow> direct_channel" where
  "direct_send msg s = (if \<not> dc_closed s then s\<lparr>dc_delivered := dc_delivered s @ [msg]\<rparr> else s)"

definition direct_close :: "direct_channel \<Rightarrow> direct_channel" where
  "direct_close s = s\<lparr>dc_closed := True\<rparr>"

section \<open>The machines\<close>

datatype channel_event =
    ChConnect
  | ChData nat "byte list"
  | ChSocketClosed nat
  | ChClose

text \<open>The events of the net module: no connection once the server stopped listening.\<close>

fun tcp_step :: "(byte list \<Rightarrow> notify_message option) \<Rightarrow> js_string \<Rightarrow> listener \<Rightarrow> channel_event \<Rightarrow> listener" where
  "tcp_step unpack token s ChConnect = (if ls_listening s then tcp_connect s else s)"
| "tcp_step unpack token s (ChData i chunk) = tcp_data unpack token i chunk s"
| "tcp_step unpack token s (ChSocketClosed i) = channel_socket_closed i s"
| "tcp_step unpack token s ChClose = listener_close s"

fun uds_step :: "(byte list \<Rightarrow> notify_message option) \<Rightarrow> listener \<Rightarrow> channel_event \<Rightarrow> listener" where
  "uds_step unpack s ChConnect = (if ls_listening s then uds_connect s else s)"
| "uds_step unpack s (ChData i chunk) = uds_data unpack i chunk s"
| "uds_step unpack s (ChSocketClosed i) = channel_socket_closed i s"
| "uds_step unpack s ChClose = listener_close s"

text \<open>What a socket delivered, and the frames of all it sent.\<close>

definition delivered_by :: "nat \<Rightarrow> listener \<Rightarrow> notify_message list" where
  "delivered_by i s = map snd (filter (\<lambda>x. fst x = i) (ls_delivered s))"

definition seen_frames :: "channel_socket \<Rightarrow> byte list list" where
  "seen_frames k = fst (frame_loop (cs_seen k))"

definition accepted_messages :: "(byte list \<Rightarrow> notify_message option) \<Rightarrow> byte list list \<Rightarrow> notify_message list" where
  "accepted_messages unpack payloads = List.map_filter unpack payloads"

section \<open>Basic facts\<close>

lemma set_socket_fields [simp]:
  "ls_active (set_socket i f s) = ls_active s" "ls_closed (set_socket i f s) = ls_closed s"
  "ls_listening (set_socket i f s) = ls_listening s" "ls_next (set_socket i f s) = ls_next s"
  "ls_delivered (set_socket i f s) = ls_delivered s" "delivered_by j (set_socket i f s) = delivered_by j s"
  "jm_get (ls_sockets (set_socket i f s)) j =
     (if j = i then map_option f (jm_get (ls_sockets s) i) else jm_get (ls_sockets s) j)"
  by (simp_all add: set_socket_def delivered_by_def split: option.split)

lemma deliver_fields [simp]:
  "ls_active (deliver unpack i p s) = ls_active s" "ls_closed (deliver unpack i p s) = ls_closed s"
  "ls_listening (deliver unpack i p s) = ls_listening s" "ls_next (deliver unpack i p s) = ls_next s"
  "ls_sockets (deliver unpack i p s) = ls_sockets s"
  "delivered_by j (deliver unpack i p s) = delivered_by j s @ (if j = i then accepted_messages unpack [p] else [])"
  by (simp_all add: deliver_def delivered_by_def accepted_messages_def map_filter_def split: option.split)

lemma accepted_messages_append [simp]:
  "accepted_messages unpack (xs @ ys) = accepted_messages unpack xs @ accepted_messages unpack ys"
  "accepted_messages unpack [] = []"
  by (simp_all add: accepted_messages_def map_filter_def)

lemma seen_frames_append:
  assumes "cs_buffer k = snd (frame_loop (cs_seen k))"
  shows "fst (frame_loop (cs_seen k @ chunk)) = seen_frames k @ fst (frame_parser_push (cs_buffer k) chunk)"
    and "snd (frame_loop (cs_seen k @ chunk)) = snd (frame_parser_push (cs_buffer k) chunk)"
  using frame_loop_append [of "cs_seen k" chunk] assms by (simp_all add: frame_parser_push_eq seen_frames_def)

text \<open>An invariant of single frames carries over to a chunk.\<close>

lemma fold_frames:
  assumes "P done s" and "\<And>d p s. P d s \<Longrightarrow> p \<in> set ps \<Longrightarrow> P (d @ [p]) (f p s)"
  shows "P (done @ ps) (fold f ps s)"
  using assms
proof (induction ps arbitrary: "done" s)
  case (Cons p ps)
  have "P (done @ [p]) (f p s)" using Cons.prems by simp
  from Cons.IH [OF this] Cons.prems(2) show ?case by simp
qed simp

section \<open>The token gate\<close>

definition gated ::
    "(byte list \<Rightarrow> notify_message option) \<Rightarrow> js_string \<Rightarrow> nat \<Rightarrow> byte list list \<Rightarrow> listener \<Rightarrow> bool" where
  "gated unpack token i frames s \<longleftrightarrow>
     (if is_authed i s
      then \<exists>before f after. frames = before @ f # after \<and> textDecoder_decode f = token \<and>
             delivered_by i s = accepted_messages unpack after
      else delivered_by i s = [])"

definition exclusive :: "listener \<Rightarrow> bool" where
  "exclusive s \<longleftrightarrow>
     (\<forall>i k. jm_get (ls_sockets s) i = Some k \<and> cs_authed k \<and> cs_open k \<longrightarrow> ls_active s = Some i)"

definition sockets_ok :: "listener \<Rightarrow> bool" where
  "sockets_ok s \<longleftrightarrow>
     (\<forall>i k. jm_get (ls_sockets s) i = Some k \<longrightarrow> i < ls_next s \<and> (cs_destroyed k \<or> cs_open k)) \<and>
     (\<forall>x \<in> set (ls_delivered s). fst x < ls_next s)"

definition streams_gated :: "(byte list \<Rightarrow> notify_message option) \<Rightarrow> js_string \<Rightarrow> listener \<Rightarrow> bool" where
  "streams_gated unpack token s \<longleftrightarrow>
     (\<forall>i k. jm_get (ls_sockets s) i = Some k \<longrightarrow>
        cs_buffer k = snd (frame_loop (cs_seen k)) \<and> gated unpack token i (seen_frames k) s)"

definition tcp_inv :: "(byte list \<Rightarrow> notify_message option) \<Rightarrow> js_string \<Rightarrow> listener \<Rightarrow> bool" where
  "tcp_inv unpack token s \<longleftrightarrow> sockets_ok s \<and> exclusive s \<and> streams_gated unpack token s"

lemma gated_snoc:
  assumes "gated unpack token i frames s"
  shows "gated unpack token i (frames @ [p]) (tcp_frame unpack token i p s)"
proof (cases "is_authed i s")
  case True
  with assms obtain before f after where h: "frames = before @ f # after" "textDecoder_decode f = token"
    "delivered_by i s = accepted_messages unpack after" by (auto simp: gated_def)
  have "frames @ [p] = before @ f # (after @ [p])" using h(1) by simp
  moreover have "delivered_by i (deliver unpack i p s) = accepted_messages unpack (after @ [p])" using h(3) by simp
  moreover have "is_authed i (deliver unpack i p s)" using True by (simp add: is_authed_def)
  ultimately have "gated unpack token i (frames @ [p]) (deliver unpack i p s)"
    using h(2) unfolding gated_def by metis
  then show ?thesis using True by (simp add: tcp_frame_def)
next
  case False
  then have none: "delivered_by i s = []" using assms by (simp add: gated_def)
  have kept: "delivered_by i (tcp_frame unpack token i p s) = []"
    using False none by (simp add: tcp_frame_def destroy_socket_def adopt_def delivered_by_def)
  have "textDecoder_decode p = token" if "is_authed i (tcp_frame unpack token i p s)"
    using that False by (auto simp: tcp_frame_def destroy_socket_def is_authed_def split: option.splits if_splits)
  moreover have "[] = accepted_messages unpack []" by simp
  ultimately show ?thesis using kept unfolding gated_def by metis
qed

lemma tcp_frame_others:
  assumes "j \<noteq> i"
  shows "jm_get (ls_sockets (tcp_frame unpack token i p s)) j = jm_get (ls_sockets s) j"
    and "delivered_by j (tcp_frame unpack token i p s) = delivered_by j s"
  using assms by (simp_all add: tcp_frame_def destroy_socket_def adopt_def delivered_by_def)
    (simp_all add: set_socket_def deliver_def split: option.split)

lemma tcp_frame_socket:
  "jm_get (ls_sockets s) i = Some k \<Longrightarrow>
     \<exists>k'. jm_get (ls_sockets (tcp_frame unpack token i p s)) i = Some k' \<and> cs_seen k' = cs_seen k \<and>
       cs_buffer k' = cs_buffer k \<and> cs_open k' = cs_open k"
  by (auto simp: tcp_frame_def destroy_socket_def adopt_def)

lemma tcp_frame_next [simp]: "ls_next (tcp_frame unpack token i p s) = ls_next s"
  by (simp add: tcp_frame_def destroy_socket_def adopt_def)

lemma tcp_frame_ok:
  assumes ok: "sockets_ok s" and ex: "exclusive s" and k: "jm_get (ls_sockets s) i = Some k" and "cs_open k"
  shows "sockets_ok (tcp_frame unpack token i p s) \<and> exclusive (tcp_frame unpack token i p s)"
proof (intro conjI)
  show "sockets_ok (tcp_frame unpack token i p s)"
    using ok k by (auto simp: sockets_ok_def tcp_frame_def destroy_socket_def adopt_def deliver_def split: option.splits)
  show "exclusive (tcp_frame unpack token i p s)"
    using ex k by (auto simp: exclusive_def tcp_frame_def destroy_socket_def adopt_def is_authed_def)
qed

lemma tcp_frames:
  assumes "sockets_ok s" "exclusive s" "jm_get (ls_sockets s) i = Some k" "cs_open k" "gated unpack token i done s"
    and s': "s' = fold (tcp_frame unpack token i) ps s"
  shows "sockets_ok s' \<and> exclusive s' \<and> gated unpack token i (done @ ps) s' \<and>
    (\<exists>k'. jm_get (ls_sockets s') i = Some k' \<and> cs_seen k' = cs_seen k \<and> cs_buffer k' = cs_buffer k) \<and>
    (\<forall>j. j \<noteq> i \<longrightarrow> jm_get (ls_sockets s') j = jm_get (ls_sockets s) j \<and> delivered_by j s' = delivered_by j s)"
  using assms(1-5) unfolding s'
proof (induction ps arbitrary: "done" s k)
  case (Cons p ps)
  obtain k' where k': "jm_get (ls_sockets (tcp_frame unpack token i p s)) i = Some k'" "cs_seen k' = cs_seen k"
    "cs_buffer k' = cs_buffer k" "cs_open k' = cs_open k"
    using tcp_frame_socket [OF Cons.prems(3)] by blast
  have ok: "sockets_ok (tcp_frame unpack token i p s)" "exclusive (tcp_frame unpack token i p s)"
    using tcp_frame_ok [OF Cons.prems(1-4)] by auto
  have "cs_open k'" using k'(4) Cons.prems(4) by simp
  from Cons.IH [OF ok k'(1) this gated_snoc [OF Cons.prems(5)]] show ?case
    using k'(2,3) by (auto simp: tcp_frame_others)
qed auto

lemma gated_others:
  "jm_get (ls_sockets s') j = jm_get (ls_sockets s) j \<Longrightarrow> delivered_by j s' = delivered_by j s \<Longrightarrow>
     gated unpack token j frames s' = gated unpack token j frames s"
  by (simp add: gated_def is_authed_def)

lemma tcp_data_inv:
  assumes inv: "tcp_inv unpack token s"
  shows "tcp_inv unpack token (tcp_data unpack token i chunk s)"
proof (cases "\<exists>k. jm_get (ls_sockets s) i = Some k \<and> \<not> cs_destroyed k")
  case False
  then show ?thesis using inv by (auto simp: tcp_data_def socket_data_def split: option.split)
next
  case True
  then obtain k where k: "jm_get (ls_sockets s) i = Some k" "\<not> cs_destroyed k" by blast
  have ok: "sockets_ok s" "exclusive s" and st: "streams_gated unpack token s" using inv by (auto simp: tcp_inv_def)
  have buf: "cs_buffer k = snd (frame_loop (cs_seen k))" and g: "gated unpack token i (seen_frames k) s"
    using st k(1) by (auto simp: streams_gated_def)
  let ?ps = "fst (frame_parser_push (cs_buffer k) chunk)" and ?rest = "snd (frame_parser_push (cs_buffer k) chunk)"
  let ?k = "k\<lparr>cs_buffer := ?rest, cs_seen := cs_seen k @ chunk\<rparr>"
  let ?s = "set_socket i (\<lambda>k. k\<lparr>cs_buffer := ?rest, cs_seen := cs_seen k @ chunk\<rparr>) s"
  have eq: "tcp_data unpack token i chunk s = fold (tcp_frame unpack token i) ?ps ?s"
    using k by (simp add: tcp_data_def socket_data_def case_prod_unfold Let_def)
  have "cs_open k" using ok(1) k by (auto simp: sockets_ok_def)
  moreover have "sockets_ok ?s" "exclusive ?s" using ok k by (auto simp: sockets_ok_def exclusive_def)
  moreover have "gated unpack token i (seen_frames k) ?s" using g k by (simp add: gated_def is_authed_def)
  ultimately have run: "sockets_ok (tcp_data unpack token i chunk s) \<and> exclusive (tcp_data unpack token i chunk s) \<and>
      gated unpack token i (seen_frames k @ ?ps) (tcp_data unpack token i chunk s) \<and>
      (\<exists>k'. jm_get (ls_sockets (tcp_data unpack token i chunk s)) i = Some k' \<and> cs_seen k' = cs_seen k @ chunk \<and> cs_buffer k' = ?rest) \<and>
      (\<forall>j. j \<noteq> i \<longrightarrow> jm_get (ls_sockets (tcp_data unpack token i chunk s)) j = jm_get (ls_sockets s) j \<and>
         delivered_by j (tcp_data unpack token i chunk s) = delivered_by j s)"
    unfolding eq using tcp_frames [of ?s i ?k unpack token "seen_frames k", OF _ _ _ _ _ refl] k by simp
  have "streams_gated unpack token (tcp_data unpack token i chunk s)"
    unfolding streams_gated_def
  proof (intro allI impI)
    fix j k' assume j: "jm_get (ls_sockets (tcp_data unpack token i chunk s)) j = Some k'"
    show "cs_buffer k' = snd (frame_loop (cs_seen k')) \<and> gated unpack token j (seen_frames k') (tcp_data unpack token i chunk s)"
    proof (cases "j = i")
      case True
      with j run have "cs_seen k' = cs_seen k @ chunk" "cs_buffer k' = ?rest" by auto
      then show ?thesis
        using run True seen_frames_append [OF buf, of chunk] by (simp add: seen_frames_def)
    next
      case False
      let ?t = "tcp_data unpack token i chunk s"
      from False run have same: "jm_get (ls_sockets ?t) j = jm_get (ls_sockets s) j" "delivered_by j ?t = delivered_by j s"
        by blast+
      have "jm_get (ls_sockets s) j = Some k'" using j same(1) by metis
      then have "cs_buffer k' = snd (frame_loop (cs_seen k')) \<and> gated unpack token j (seen_frames k') s"
        using st unfolding streams_gated_def by blast
      then show ?thesis unfolding gated_others [OF same] .
    qed
  qed
  with run show ?thesis by (simp add: tcp_inv_def)
qed

text \<open>Steps that keep what the sockets sent and delivered.\<close>

lemma tcp_inv_same_streams:
  assumes inv: "tcp_inv unpack token s" and same: "ls_delivered s' = ls_delivered s" "ls_next s' = ls_next s"
    and old: "\<And>i k'. jm_get (ls_sockets s') i = Some k' \<Longrightarrow> \<exists>k. jm_get (ls_sockets s) i = Some k \<and>
      cs_seen k' = cs_seen k \<and> cs_buffer k' = cs_buffer k \<and> cs_authed k' = cs_authed k \<and>
      (cs_destroyed k' \<or> cs_open k') \<and> (cs_open k' \<longrightarrow> cs_open k \<and> (ls_active s = Some i \<longrightarrow> ls_active s' = Some i))"
  shows "tcp_inv unpack token s'"
proof -
  have ok: "sockets_ok s" "exclusive s" using inv by (simp_all add: tcp_inv_def)
  have "i < ls_next s' \<and> (cs_destroyed k' \<or> cs_open k')" if "jm_get (ls_sockets s') i = Some k'" for i k'
    using old [OF that] ok(1) same(2) by (auto simp: sockets_ok_def)
  then have "sockets_ok s'" using ok(1) same by (simp add: sockets_ok_def)
  moreover have "ls_active s' = Some i"
    if "jm_get (ls_sockets s') i = Some k'" "cs_authed k'" "cs_open k'" for i k'
    using old [OF that(1)] ok(2) that(2,3) by (auto simp: exclusive_def)
  then have "exclusive s'" by (simp add: exclusive_def)
  moreover have "streams_gated unpack token s'"
    unfolding streams_gated_def
  proof (intro allI impI)
    fix i k' assume k': "jm_get (ls_sockets s') i = Some k'"
    then obtain k where k: "jm_get (ls_sockets s) i = Some k" "cs_seen k' = cs_seen k" "cs_buffer k' = cs_buffer k"
      "cs_authed k' = cs_authed k" using old by blast
    moreover have "is_authed i s' = is_authed i s" using k' k by (simp add: is_authed_def)
    moreover have "delivered_by i s' = delivered_by i s" using same by (simp add: delivered_by_def)
    ultimately show "cs_buffer k' = snd (frame_loop (cs_seen k')) \<and> gated unpack token i (seen_frames k') s'"
      using inv by (simp add: tcp_inv_def streams_gated_def gated_def seen_frames_def)
  qed
  ultimately show ?thesis by (simp add: tcp_inv_def)
qed

lemma tcp_connect_inv:
  assumes inv: "tcp_inv unpack token s"
  shows "tcp_inv unpack token (tcp_connect s)"
proof -
  let ?i = "ls_next s"
  let ?k = "\<lparr>cs_buffer = [], cs_authed = False, cs_destroyed = ls_closed s, cs_open = True, cs_seen = []\<rparr>"
  let ?s = "tcp_connect s"
  have get: "jm_get (ls_sockets ?s) j = (if j = ?i then Some ?k else jm_get (ls_sockets s) j)" for j
    by (simp add: tcp_connect_def listener_accept_def Let_def)
  have same: "ls_delivered ?s = ls_delivered s" "ls_active ?s = ls_active s" "ls_next ?s = Suc ?i"
    by (simp_all add: tcp_connect_def listener_accept_def Let_def)
  have ok: "sockets_ok s" "exclusive s" "streams_gated unpack token s" using inv by (simp_all add: tcp_inv_def)
  have "fst x \<noteq> ?i" if "x \<in> set (ls_delivered s)" for x using ok(1) that by (auto simp: sockets_ok_def)
  then have none: "delivered_by ?i ?s = []" by (auto simp: delivered_by_def same filter_empty_conv)
  have "sockets_ok ?s" using ok(1) by (auto simp: sockets_ok_def get same less_Suc_eq)
  moreover have "exclusive ?s" using ok(2) by (auto simp: exclusive_def get same)
  moreover have "streams_gated unpack token ?s"
    unfolding streams_gated_def
  proof (intro allI impI)
    fix j k assume k: "jm_get (ls_sockets ?s) j = Some k"
    show "cs_buffer k = snd (frame_loop (cs_seen k)) \<and> gated unpack token j (seen_frames k) ?s"
    proof (cases "j = ?i")
      case True
      with k have "k = ?k" by (simp add: get)
      then show ?thesis using True none by (simp add: get gated_def is_authed_def)
    next
      case False
      then show ?thesis
        using k ok(3) gated_others [of ?s j s] by (simp add: get streams_gated_def same delivered_by_def)
    qed
  qed
  ultimately show ?thesis by (simp add: tcp_inv_def)
qed

lemma channel_socket_closed_fields [simp]:
  "ls_delivered (channel_socket_closed i s) = ls_delivered s" "ls_next (channel_socket_closed i s) = ls_next s"
  "ls_active (channel_socket_closed i s) = (if ls_active s = Some i then None else ls_active s)"
  "jm_get (ls_sockets (channel_socket_closed i s)) j =
     (if j = i then map_option (\<lambda>k. k\<lparr>cs_open := False, cs_destroyed := True\<rparr>) (jm_get (ls_sockets s) i)
      else jm_get (ls_sockets s) j)"
  by (simp_all add: channel_socket_closed_def Let_def)

lemma listener_close_fields [simp]:
  "ls_delivered (listener_close s) = ls_delivered s" "ls_next (listener_close s) = ls_next s"
  "ls_active (listener_close s) = ls_active s"
  "jm_get (ls_sockets (listener_close s)) j =
     (if \<not> ls_closed s \<and> ls_active s = Some j then map_option (\<lambda>k. k\<lparr>cs_destroyed := True\<rparr>) (jm_get (ls_sockets s) j)
      else jm_get (ls_sockets s) j)"
  by (auto simp: listener_close_def Let_def destroy_socket_def split: option.split)

lemma sockets_okD:
  "sockets_ok s \<Longrightarrow> jm_get (ls_sockets s) i = Some k \<Longrightarrow> cs_destroyed k \<or> cs_open k"
  by (auto simp: sockets_ok_def)

lemma tcp_step_inv:
  assumes inv: "tcp_inv unpack token s"
  shows "tcp_inv unpack token (tcp_step unpack token s e)"
proof (cases e)
  case (ChSocketClosed i)
  show ?thesis unfolding ChSocketClosed tcp_step.simps
    by (rule tcp_inv_same_streams [OF inv])
      (use inv in \<open>auto simp: tcp_inv_def dest: sockets_okD split: if_splits\<close>)
next
  case ChClose
  show ?thesis unfolding ChClose tcp_step.simps
    by (rule tcp_inv_same_streams [OF inv])
      (use inv in \<open>auto simp: tcp_inv_def dest: sockets_okD split: if_splits\<close>)
qed (simp_all add: inv tcp_data_inv tcp_connect_inv)

interpretation tcp: step_invariant "tcp_step unpack token" "\<lambda>_ _. True" "tcp_inv unpack token" for unpack token
  by unfold_locales (rule tcp_step_inv)

lemma tcp_inv_initial: "tcp_inv unpack token new_listener"
  by (simp add: tcp_inv_def new_listener_def sockets_ok_def exclusive_def streams_gated_def)

text \<open>A first frame that is not the token destroys its socket, but the rest of its chunk is still parsed.\<close>

definition one_socket :: "channel_socket \<Rightarrow> listener" where
  "one_socket k =
     \<lparr>ls_active = None, ls_closed = False, ls_listening = True, ls_sockets = [(0, k)], ls_next = 1, ls_delivered = []\<rparr>"

lemma first_chunk:
  assumes "frame_loop chunk = (ps, rest)"
  shows "run (tcp_step unpack token) new_listener [ChConnect, ChData 0 chunk] =
    fold (tcp_frame unpack token 0) ps (one_socket
      \<lparr>cs_buffer = rest, cs_authed = False, cs_destroyed = False, cs_open = True, cs_seen = chunk\<rparr>)"
  using assms
  by (simp add: new_listener_def tcp_connect_def listener_accept_def tcp_data_def socket_data_def frame_parser_push_eq
      set_socket_def one_socket_def jm_get_def jm_set_def)

lemma decode_letters: "textDecoder_decode [65] = [65]" "textDecoder_decode [66] = [66]"
  by (simp_all add: textDecoder_decode_def strip_bom_def scalar_units_def)

lemmas channel_unfold = one_socket_def tcp_frame_def is_authed_def destroy_socket_def adopt_def deliver_def
  set_socket_def jm_get_def jm_set_def decode_letters

lemma destroyed_socket_can_still_authenticate:
  assumes "s = run (tcp_step (\<lambda>_. Some Stopped) [65]) new_listener
      [ChConnect, ChData 0 (encodeRawFrame [66] @ encodeRawFrame [65] @ encodeRawFrame [1])]"
  shows "map_option cs_destroyed (jm_get (ls_sockets s) 0) = Some True \<and> ls_delivered s = [(0, Stopped)]"
proof -
  have "frame_loop (encodeRawFrame [66] @ encodeRawFrame [65] @ encodeRawFrame [1]) = ([[66], [65], [1]], [])"
    using frame_loop_encode_all [of "[[66], [65], [1]]" "[]"] by simp
  note s = assms [unfolded first_chunk [OF this]]
  have "let s = fold (tcp_frame (\<lambda>_. Some Stopped) [65] 0) [[66], [65], [1]] (one_socket
      \<lparr>cs_buffer = [], cs_authed = False, cs_destroyed = False, cs_open = True, cs_seen = seen\<rparr>)
    in map_option cs_destroyed (jm_get (ls_sockets s) 0) = Some True \<and> ls_delivered s = [(0, Stopped)]" for seen
    by (simp add: channel_unfold)
  then show ?thesis unfolding s Let_def .
qed

text \<open>
  C20: The token gate. Whatever connections, chunks, drops and closes happen, what a connection
  delivered to \<open>onMessage\<close> is exactly the accepted messages of the frames after some frame of its
  own stream that is the token, in order, and nothing before one; and of the connections that
  presented the token at most one is open.
\<close>

theorem tcp_token_gate:
  "let s = run (tcp_step unpack token) new_listener evs in
     (\<forall>i k. jm_get (ls_sockets s) i = Some k \<longrightarrow>
        (if cs_authed k
         then \<exists>before f after. seen_frames k = before @ f # after \<and> textDecoder_decode f = token \<and>
                delivered_by i s = accepted_messages unpack after
         else delivered_by i s = [])) \<and>
     (\<forall>i j k l. jm_get (ls_sockets s) i = Some k \<and> jm_get (ls_sockets s) j = Some l \<and>
        cs_authed k \<and> cs_open k \<and> cs_authed l \<and> cs_open l \<longrightarrow> i = j)"
proof -
  define s where "s = run (tcp_step unpack token) new_listener evs"
  have inv: "tcp_inv unpack token s"
    unfolding s_def by (rule tcp.I_run [OF tcp_inv_initial]) simp
  have "gated unpack token i (seen_frames k) s \<and> is_authed i s = cs_authed k"
    if "jm_get (ls_sockets s) i = Some k" for i k
    using inv that by (simp add: tcp_inv_def streams_gated_def is_authed_def)
  moreover have "i = j" if "jm_get (ls_sockets s) i = Some k" "jm_get (ls_sockets s) j = Some l"
    "cs_authed k" "cs_open k" "cs_authed l" "cs_open l" for i j k l
  proof -
    have "exclusive s" using inv by (simp add: tcp_inv_def)
    with that have "ls_active s = Some i" "ls_active s = Some j" unfolding exclusive_def by blast+
    then show ?thesis by simp
  qed
  ultimately show ?thesis unfolding s_def [symmetric] Let_def gated_def by (metis (full_types))
qed

lemma tcp_token_gate_witness:
  "delivered_by 0 (run (tcp_step (\<lambda>_. Some Stopped) [65]) new_listener [ChConnect, ChData 0 (encodeRawFrame [66])]) = []"
proof -
  let ?s = "run (tcp_step (\<lambda>_. Some Stopped) [65]) new_listener [ChConnect, ChData 0 (encodeRawFrame [66])]"
  have "frame_loop (encodeRawFrame [66]) = ([[66]], [])" using frame_loop_encode [of "[66]" "[]"] by simp
  note chunk = first_chunk [OF this]
  have "map_option cs_authed (jm_get (ls_sockets (fold (tcp_frame (\<lambda>_. Some Stopped) [65] 0) [[66]] (one_socket
      \<lparr>cs_buffer = [], cs_authed = False, cs_destroyed = False, cs_open = True, cs_seen = seen\<rparr>))) 0) = Some False" for seen
    by (simp add: channel_unfold)
  then have "map_option cs_authed (jm_get (ls_sockets ?s) 0) = Some False" unfolding chunk .
  then obtain k where k: "jm_get (ls_sockets ?s) 0 = Some k" "\<not> cs_authed k"
    by (cases "jm_get (ls_sockets ?s) 0") (simp_all del: run.simps)
  from conjunct1 [OF tcp_token_gate [unfolded Let_def], rule_format, OF k(1)] k(2) show ?thesis
    by (simp del: run.simps)
qed

section \<open>A room that dials in\<close>

lemma hex_digit_ascii: "n < 16 \<Longrightarrow> hex_digit n < 128"
  by (simp add: hex_digit_def)

lemma hex_token_ascii: "u \<in> set (tcp_token bytes) \<Longrightarrow> u < 128"
proof -
  have "unat b div 16 < 16" for b :: byte using unsigned_less [of b] by (simp add: div_less_iff_less_mult)
  then show "u \<in> set (tcp_token bytes) \<Longrightarrow> u < 128"
    by (auto simp: tcp_token_def hex_digit_ascii)
qed

lemma length_tcp_token: "length (tcp_token bytes) = 2 * length bytes"
  by (induction bytes) (simp_all add: tcp_token_def)

lemma ascii_scalars: "\<forall>u \<in> set t. u < 128 \<Longrightarrow> utf16_scalars t = t"
  by (induction t rule: utf16_scalars.induct) auto

lemma ascii_encode: "\<forall>u \<in> set t. u < 128 \<Longrightarrow> textEncoder_encode t = map word_of_nat t"
proof -
  assume ascii: "\<forall>u \<in> set t. u < 128"
  then have "concat (map utf8_scalar t) = t" by (induction t) (simp_all add: utf8_scalar_def)
  with ascii show ?thesis by (simp add: textEncoder_encode_def ascii_scalars)
qed

lemma ascii_well_formed: "\<forall>u \<in> set t. u < 128 \<Longrightarrow> well_formed_utf16 t"
  by (induction t rule: well_formed_utf16.induct) auto

lemma token_roundtrip: "textDecoder_decode (textEncoder_encode (tcp_token bytes)) = tcp_token bytes"
proof -
  have ascii: "\<forall>u \<in> set (tcp_token bytes). u < 128" using hex_token_ascii by blast
  then have "take 1 (tcp_token bytes) \<noteq> [0xFEFF]" by (cases "tcp_token bytes") auto
  then show ?thesis using text_roundtrip [OF ascii_well_formed [OF ascii]] by simp
qed

definition token_ready :: "(byte list \<Rightarrow> notify_message option) \<Rightarrow> byte list list \<Rightarrow> listener \<Rightarrow> bool" where
  "token_ready unpack done s \<longleftrightarrow>
     (case jm_get (ls_sockets s) 0 of None \<Rightarrow> False
      | Some k \<Rightarrow> \<not> cs_destroyed k \<and>
          (if done = [] then \<not> cs_authed k \<and> ls_active s = None \<and> \<not> ls_closed s \<and> delivered_by 0 s = []
           else cs_authed k \<and> delivered_by 0 s = accepted_messages unpack (tl done)))"

lemma token_ready_frame:
  assumes "token_ready unpack done s" and "textDecoder_decode (hd (done @ [p])) = token"
  shows "token_ready unpack (done @ [p]) (tcp_frame unpack token 0 p s)"
proof (cases "done")
  case Nil
  then show ?thesis using assms
    by (auto simp: token_ready_def tcp_frame_def is_authed_def adopt_def delivered_by_def split: option.splits)
next
  case (Cons d ds)
  then show ?thesis using assms
    by (auto simp: token_ready_def tcp_frame_def is_authed_def split: option.splits)
qed

lemma token_ready_frames:
  assumes "token_ready unpack done s" and "done @ ps \<noteq> [] \<Longrightarrow> textDecoder_decode (hd (done @ ps)) = token"
  shows "token_ready unpack (done @ ps) (fold (tcp_frame unpack token 0) ps s)"
  using assms
proof (induction ps arbitrary: "done" s)
  case (Cons p ps)
  have "textDecoder_decode (hd (done @ [p])) = token" using Cons.prems(2) by (cases "done") simp_all
  from Cons.IH [OF token_ready_frame [OF Cons.prems(1) this]] Cons.prems(2) show ?case by simp
qed simp

lemma tcp_frame_buffer: "map_option cs_buffer (jm_get (ls_sockets (tcp_frame unpack token i p s)) j) = map_option cs_buffer (jm_get (ls_sockets s) j)"
  by (cases "jm_get (ls_sockets s) i") (simp_all add: tcp_frame_def destroy_socket_def adopt_def)

lemma tcp_frames_buffer:
  "map_option cs_buffer (jm_get (ls_sockets (fold (tcp_frame unpack token i) ps s)) j) = map_option cs_buffer (jm_get (ls_sockets s) j)"
  by (induction ps arbitrary: s) (simp_all add: tcp_frame_buffer)

lemma stream_ready_chunk:
  assumes ready: "token_ready unpack (fst (frame_loop seen)) s"
    and buffer: "map_option cs_buffer (jm_get (ls_sockets s) 0) = Some (snd (frame_loop seen))"
    and hd: "fst (frame_loop (seen @ chunk)) \<noteq> [] \<Longrightarrow> textDecoder_decode (hd (fst (frame_loop (seen @ chunk)))) = token"
  shows "token_ready unpack (fst (frame_loop (seen @ chunk))) (tcp_data unpack token 0 chunk s) \<and>
    map_option cs_buffer (jm_get (ls_sockets (tcp_data unpack token 0 chunk s)) 0) = Some (snd (frame_loop (seen @ chunk)))"
proof -
  obtain k where k: "jm_get (ls_sockets s) 0 = Some k" "\<not> cs_destroyed k" and buf: "cs_buffer k = snd (frame_loop seen)"
    using ready buffer by (auto simp: token_ready_def split: option.splits)
  let ?ps = "fst (frame_parser_push (cs_buffer k) chunk)" and ?rest = "snd (frame_parser_push (cs_buffer k) chunk)"
  let ?s = "set_socket 0 (\<lambda>k. k\<lparr>cs_buffer := ?rest, cs_seen := cs_seen k @ chunk\<rparr>) s"
  have split: "frame_loop (seen @ chunk) = (fst (frame_loop seen) @ ?ps, ?rest)"
    unfolding frame_parser_push_eq buf by (rule frame_loop_append)
  have eq: "tcp_data unpack token 0 chunk s = fold (tcp_frame unpack token 0) ?ps ?s"
    using k by (simp add: tcp_data_def socket_data_def case_prod_unfold Let_def)
  have "token_ready unpack (fst (frame_loop seen)) ?s"
    using ready k by (simp add: token_ready_def)
  from token_ready_frames [OF this] hd show ?thesis
    by (simp add: eq split tcp_frames_buffer k)
qed

lemma stream_ready_chunks:
  assumes "token_ready unpack (fst (frame_loop seen)) s"
    and "map_option cs_buffer (jm_get (ls_sockets s) 0) = Some (snd (frame_loop seen))"
    and "frame_loop (seen @ concat chunks) = (f # fs, rest)" and "textDecoder_decode f = token"
  shows "token_ready unpack (f # fs) (run (tcp_step unpack token) s (map (ChData 0) chunks))"
  using assms(1-3)
proof (induction chunks arbitrary: seen s)
  case (Cons c cs)
  have all: "frame_loop ((seen @ c) @ concat cs) = (f # fs, rest)" using Cons.prems(3) by simp
  have "hd (fst (frame_loop (seen @ c))) = f" if "fst (frame_loop (seen @ c)) \<noteq> []"
    using frame_loop_append [of "seen @ c" "concat cs"] all that by (cases "fst (frame_loop (seen @ c))") auto
  with assms(4) have "fst (frame_loop (seen @ c)) \<noteq> [] \<Longrightarrow> textDecoder_decode (hd (fst (frame_loop (seen @ c)))) = token"
    by simp
  from stream_ready_chunk [OF Cons.prems(1,2) this] Cons.IH [of "seen @ c" "tcp_data unpack token 0 c s"] all
  show ?case by simp
qed simp

text \<open>A dialled stream: the token frame, then one frame per message.\<close>

lemma tcp_stream_delivers:
  assumes token: "textDecoder_decode f = token" and len: "length f < 2 ^ 32"
    and codec: "\<And>m. m \<in> set msgs \<Longrightarrow> unpack (pack m) = Some m \<and> length (pack m) < 2 ^ 32"
    and chunks: "concat chunks = encodeRawFrame f @ concat (map (encodeNotifyFrame pack) msgs)"
  shows "delivered_by 0 (run (tcp_step unpack token) new_listener (ChConnect # map (ChData 0) chunks)) = msgs"
proof -
  have "concat (map (encodeNotifyFrame pack) msgs) = concat (map encodeRawFrame (map pack msgs))"
    by (simp add: comp_def encodeNotifyFrame_def [abs_def])
  then have all: "frame_loop ([] @ concat chunks) = (f # map pack msgs, [])"
    using frame_loop_encode_all [of "f # map pack msgs" "[]"] len codec chunks by auto
  have s: "tcp_step unpack token new_listener ChConnect = one_socket
      \<lparr>cs_buffer = [], cs_authed = False, cs_destroyed = False, cs_open = True, cs_seen = []\<rparr>"
    by (simp add: new_listener_def tcp_connect_def listener_accept_def one_socket_def jm_set_def)
  have "token_ready unpack (f # map pack msgs)
      (run (tcp_step unpack token) (tcp_step unpack token new_listener ChConnect) (map (ChData 0) chunks))"
    by (rule stream_ready_chunks [OF _ _ all token])
      (unfold s, simp_all add: one_socket_def token_ready_def jm_get_def delivered_by_def)
  moreover have "accepted_messages unpack (map pack msgs) = msgs"
    using codec by (induction msgs) (simp_all add: accepted_messages_def map_filter_def)
  ultimately show ?thesis by (simp add: token_ready_def del: tcp_step.simps split: option.splits)
qed

end
