(* ===== verification/Runner.thy ===== *)
theory Runner
  imports Notify_Channels
begin

text \<open>
  \<open>src/server/runner/runner.ts\<close>, the adapter from a spawn function to a room runner, and the
  socket paths and environment entries of \<open>src/server/runner/notify.ts\<close>. Paths are those of
  \<open>node:path\<close> on a POSIX system. The spawn function is an argument: it returns a destructor or a
  promise, and what it does to the context is left to its caller.
\<close>

section \<open>Socket paths\<close>

fun split_slash :: "string \<Rightarrow> string list" where
  "split_slash [] = [[]]"
| "split_slash (c # cs) =
     (if c = CHR ''/'' then [] # split_slash cs
      else case split_slash cs of p # ps \<Rightarrow> (c # p) # ps | [] \<Rightarrow> [[c]])"

text \<open>
  \<open>path.normalize\<close>, segment by segment: empty segments and \<open>.\<close> go, \<open>..\<close> takes a segment back,
  above the root of an absolute path it goes as well.
\<close>

definition normal_segment :: "bool \<Rightarrow> string \<Rightarrow> string list \<Rightarrow> string list" where
  "normal_segment absolute seg acc =
     (if seg = [] \<or> seg = ''.'' then acc
      else if seg = ''..'' then
        (if acc \<noteq> [] \<and> last acc \<noteq> ''..'' then butlast acc else if absolute then acc else acc @ [''..''])
      else acc @ [seg])"

definition normal_segments :: "bool \<Rightarrow> string list \<Rightarrow> string list" where
  "normal_segments absolute segs = fold (normal_segment absolute) segs []"

fun join_slash :: "string list \<Rightarrow> string" where
  "join_slash [] = []"
| "join_slash [s] = s"
| "join_slash (s # ss) = s @ ''/'' @ join_slash ss"

text \<open>\<open>path.normalize\<close> of a path that does not end in a slash and has a segment left.\<close>

definition path_normalize :: "string \<Rightarrow> string" where
  "path_normalize path =
     (let absolute = (take 1 path = ''/'')
      in (if absolute then ''/'' else []) @ join_slash (normal_segments absolute (split_slash path)))"

definition path_join :: "string list \<Rightarrow> string" where
  "path_join parts = path_normalize (join_slash (filter (\<lambda>p. p \<noteq> []) parts))"

definition roomSocketPath :: "string \<Rightarrow> string \<Rightarrow> string + string" where
  "roomSocketPath socketDir roomId =
     (if CHR ''/'' \<in> set roomId \<or> CHR 0x5C \<in> set roomId \<or> roomId = ''.'' \<or> roomId = ''..'' then Inl roomId
      else Inr (path_join [socketDir, roomId, ''sock'']))"

definition uds_env :: "string \<Rightarrow> string \<times> string" where
  "uds_env socketPath = (''GATHO_NOTIFY_SOCKET'', ''uds:'' @ socketPath)"

text \<open>Ports in decimal; the token as characters.\<close>

fun decimal :: "nat \<Rightarrow> string" where
  "decimal n = (if n < 10 then [char_of (48 + n)] else decimal (n div 10) @ [char_of (48 + n mod 10)])"

declare decimal.simps [simp del]

definition tcp_env :: "string \<Rightarrow> nat \<Rightarrow> js_string \<Rightarrow> string \<times> string" where
  "tcp_env advertisedHost port token =
     (''GATHO_NOTIFY_SOCKET'',
      ''tcp://'' @ advertisedHost @ '':'' @ decimal port @ ''?token='' @ map char_of token)"

section \<open>Runners\<close>

record runner_context =
  rx_roomId :: string
  rx_roomType :: string
  rx_serverId :: string
  rx_roomSecret :: string

definition runner_env :: "runner_context \<Rightarrow> (string \<times> string) list" where
  "runner_env ctx =
     [(''GATHO_ROOM_ID'', rx_roomId ctx), (''GATHO_ROOM_TYPE'', rx_roomType ctx),
      (''GATHO_SERVER_ID'', rx_serverId ctx), (''GATHO_ROOM_SECRET'', rx_roomSecret ctx)]"

text \<open>
  One spawned room: whether its destructor is known, and what has been called since. A destructor
  may throw when it is called.
\<close>

datatype runner_call = CallDestructor | CallOnMessage notify_message | CallStopped "int option"

record runner =
  rn_destructor :: bool
  rn_pending :: bool
  rn_queuedKill :: bool
  rn_calls :: "runner_call list"

definition rlog :: "runner_call list \<Rightarrow> runner \<Rightarrow> runner" where
  "rlog cs s = s\<lparr>rn_calls := rn_calls s @ cs\<rparr>"

text \<open>\<open>spawn\<close>: \<open>async\<close> says that the function returned a promise.\<close>

definition runner_spawn :: "bool \<Rightarrow> runner" where
  "runner_spawn async = \<lparr>rn_destructor = \<not> async, rn_pending = async, rn_queuedKill = False, rn_calls = []\<rparr>"

text \<open>
  The two ways the promise settles. The rejection handler also catches what a destructor throws
  when the queued kill calls it.
\<close>

definition spawn_rejected :: "string \<Rightarrow> runner \<Rightarrow> runner" where
  "spawn_rejected err s =
     (if \<not> rn_pending s then s
      else rlog [CallOnMessage (ErrorMsg err), CallStopped None] (s\<lparr>rn_pending := False\<rparr>))"

definition spawn_resolved :: "string option \<Rightarrow> runner \<Rightarrow> runner" where
  "spawn_resolved throws s =
     (if \<not> rn_pending s then s
      else
        let s1 = s\<lparr>rn_destructor := True\<rparr> in
        if rn_queuedKill s1 then
          (case throws of
             None \<Rightarrow> rlog [CallDestructor] (s1\<lparr>rn_pending := False\<rparr>)
           | Some err \<Rightarrow> spawn_rejected err (rlog [CallDestructor] s1))
        else s1\<lparr>rn_pending := False\<rparr>)"

definition runner_kill :: "runner \<Rightarrow> runner" where
  "runner_kill s = (if rn_destructor s then rlog [CallDestructor] s else s\<lparr>rn_queuedKill := True\<rparr>)"

datatype runner_event = RnResolved "string option" | RnRejected string | RnKill

fun runner_step :: "runner \<Rightarrow> runner_event \<Rightarrow> runner" where
  "runner_step s (RnResolved throws) = spawn_resolved throws s"
| "runner_step s (RnRejected err) = spawn_rejected err s"
| "runner_step s RnKill = runner_kill s"

section \<open>Lemmas on paths\<close>

lemma split_slash_ne [simp]: "split_slash s \<noteq> []"
  by (cases s) (auto split: list.split)

lemma split_slash_plain: "CHR ''/'' \<notin> set s \<Longrightarrow> split_slash s = [s]"
  by (induction s) auto

lemma split_slash_join: "split_slash (a @ CHR ''/'' # b) = split_slash a @ split_slash b"
  by (induction a) (auto split: list.split)

lemma normal_segments_append:
  "normal_segments absolute (xs @ ys) = fold (normal_segment absolute) ys (normal_segments absolute xs)"
  by (simp add: normal_segments_def)

lemma join_slash_snoc: "xs \<noteq> [] \<Longrightarrow> join_slash (xs @ [y]) = join_slash xs @ ''/'' @ y"
proof (induction xs rule: join_slash.induct)
  case (3 s v va)
  then show ?case by simp
qed simp_all

text \<open>The directory part of a socket path depends on the socket directory alone.\<close>

definition socket_dir_segments :: "string \<Rightarrow> string list" where
  "socket_dir_segments dir = normal_segments (take 1 dir = ''/'') (split_slash dir)"

lemma roomSocketPath_segments:
  assumes "roomSocketPath dir roomId = Inr path" and "dir \<noteq> []" "roomId \<noteq> []"
  shows "path = (if take 1 dir = ''/'' then ''/'' else []) @ join_slash (socket_dir_segments dir @ [roomId, ''sock''])"
proof -
  have id: "CHR ''/'' \<notin> set roomId" "roomId \<noteq> ''.''" "roomId \<noteq> ''..''"
    and p: "path = path_join [dir, roomId, ''sock'']"
    using assms(1) by (auto simp: roomSocketPath_def split: if_splits)
  have join: "join_slash (filter (\<lambda>p. p \<noteq> []) [dir, roomId, ''sock'']) = dir @ CHR ''/'' # roomId @ CHR ''/'' # ''sock''"
    using assms(2,3) by simp
  have "split_slash (dir @ CHR ''/'' # roomId @ CHR ''/'' # ''sock'') = split_slash dir @ [roomId, ''sock'']"
    unfolding split_slash_join split_slash_plain [OF id(1)] by (simp add: split_slash_plain)
  moreover have "take 1 (dir @ CHR ''/'' # roomId @ CHR ''/'' # ''sock'') = take 1 dir" using assms(2) by (cases dir) simp_all
  ultimately show ?thesis
    using id assms(2,3)
    by (simp add: p path_join_def join path_normalize_def Let_def normal_segments_append socket_dir_segments_def normal_segment_def)
qed

lemma roomSocketPath_form:
  assumes "roomSocketPath dir roomId = Inr path" and "dir \<noteq> []" "roomId \<noteq> []"
  shows "\<exists>base. path = base @ roomId @ ''/sock'' \<and> (base = [] \<or> last base = CHR ''/'') \<and>
    base = (if take 1 dir = ''/'' then ''/'' else []) @ (if socket_dir_segments dir = [] then [] else join_slash (socket_dir_segments dir) @ ''/'')"
proof -
  have "join_slash (socket_dir_segments dir @ [roomId, ''sock'']) =
      (if socket_dir_segments dir = [] then [] else join_slash (socket_dir_segments dir) @ ''/'') @ roomId @ ''/sock''"
    using join_slash_snoc [of "socket_dir_segments dir @ [roomId]" "''sock''"]
      join_slash_snoc [of "socket_dir_segments dir" roomId] by (cases "socket_dir_segments dir") simp_all
  with roomSocketPath_segments [OF assms] show ?thesis by simp
qed

lemma rooms_have_own_sockets:
  assumes "roomSocketPath dir r = Inr p" "roomSocketPath dir r' = Inr p" and "dir \<noteq> []" "r \<noteq> []" "r' \<noteq> []"
  shows "r = r'"
  using roomSocketPath_form [OF assms(1,3,4)] roomSocketPath_form [OF assms(2,3,5)] by auto

section \<open>Kills reach the destructor\<close>

definition runner_inv :: "bool \<Rightarrow> runner \<Rightarrow> bool" where
  "runner_inv killed s \<longleftrightarrow>
     (CallDestructor \<in> set (rn_calls s) \<longleftrightarrow> killed \<and> rn_destructor s) \<and>
     (rn_queuedKill s \<longrightarrow> killed) \<and> (killed \<and> \<not> rn_destructor s \<longrightarrow> rn_queuedKill s) \<and>
     (rn_pending s \<longrightarrow> \<not> rn_destructor s \<and> rn_calls s = []) \<and>
     length (filter (\<lambda>c. c = CallStopped None) (rn_calls s)) \<le> 1 \<and>
     (CallStopped None \<in> set (rn_calls s) \<longrightarrow> \<not> rn_pending s)"

lemma rlog_fields [simp]:
  "rn_destructor (rlog cs s) = rn_destructor s" "rn_pending (rlog cs s) = rn_pending s"
  "rn_queuedKill (rlog cs s) = rn_queuedKill s" "rn_calls (rlog cs s) = rn_calls s @ cs"
  by (simp_all add: rlog_def)

lemma runner_inv_step: "runner_inv killed s \<Longrightarrow> runner_inv (killed \<or> e = RnKill) (runner_step s e)"
  by (cases e)
    (auto simp: runner_inv_def spawn_rejected_def spawn_resolved_def runner_kill_def Let_def split: option.split)

lemma runner_inv_run: "runner_inv killed s \<Longrightarrow> runner_inv (killed \<or> RnKill \<in> set evs) (run runner_step s evs)"
proof (induction evs arbitrary: s killed)
  case (Cons e es)
  from Cons.IH [OF runner_inv_step [OF Cons.prems, of e]] show ?case by (simp add: disj_assoc eq_commute)
qed simp

lemma runner_inv_spawn: "runner_inv False (runner_spawn async)"
  by (simp add: runner_inv_def runner_spawn_def)

lemma kill_reaches_destructor:
  "let s = run runner_step (runner_spawn async) evs in
     (CallDestructor \<in> set (rn_calls s) \<longleftrightarrow> RnKill \<in> set evs \<and> rn_destructor s) \<and>
     length (filter (\<lambda>c. c = CallStopped None) (rn_calls s)) \<le> 1"
  using runner_inv_run [OF runner_inv_spawn, of evs async] by (simp add: runner_inv_def Let_def)

end
