(* ===== verification/Workerd_Relay.thy ===== *)
theory Workerd_Relay
  imports Notify_Channels Runner
begin

text \<open>
  \<open>examples/workerd/harness/harness.ts\<close>, which routes requests to the room isolates of one \<open>workerd\<close>
  process and relays their notify messages, and \<open>jsonNotifyListener\<close> of
  \<open>examples/workerd/host/host.ts\<close>, which receives them. A room's entry is an object with a number: its
  relay loop outlives its place in \<open>rooms\<close>. A message is the JSON text the isolate made of it, as UTF-16
  units; \<open>JSON.parse\<close> is an argument. The loader of isolates and the sockets are the environment.
\<close>

section \<open>The relay loop\<close>

datatype relay_phase = RelayWriting | RelayWaiting | RelayDone

record relay =
  rl_queue :: "js_string list"
  rl_closed :: bool
  rl_woken :: bool
  rl_phase :: relay_phase
  rl_written :: "byte list list"

definition newline :: nat where "newline = 10"

definition line_bytes :: "js_string \<Rightarrow> byte list" where
  "line_bytes text = textEncoder_encode (text @ [newline])"

definition relay_write :: "js_string \<Rightarrow> relay \<Rightarrow> relay" where
  "relay_write text r = r\<lparr>rl_written := rl_written r @ [line_bytes text], rl_phase := RelayWriting\<rparr>"

text \<open>The loop starts by writing the token; after each write it goes on here.\<close>

definition relay_start :: "js_string \<Rightarrow> relay" where
  "relay_start token =
     relay_write token \<lparr>rl_queue = [], rl_closed = False, rl_woken = False, rl_phase = RelayWriting, rl_written = []\<rparr>"

definition relay_advance :: "relay \<Rightarrow> relay" where
  "relay_advance r =
     (case rl_queue r of
        json # queue \<Rightarrow> relay_write json (r\<lparr>rl_queue := queue\<rparr>)
      | [] \<Rightarrow> if rl_closed r then r\<lparr>rl_phase := RelayDone\<rparr> else r\<lparr>rl_phase := RelayWaiting\<rparr>)"

definition relay_write_settled :: "bool \<Rightarrow> relay \<Rightarrow> relay" where
  "relay_write_settled ok r =
     (if rl_phase r \<noteq> RelayWriting then r else if ok then relay_advance r else r\<lparr>rl_phase := RelayDone\<rparr>)"

definition relay_resume :: "relay \<Rightarrow> relay" where
  "relay_resume r = (if rl_phase r = RelayWaiting \<and> rl_woken r then relay_advance (r\<lparr>rl_woken := False\<rparr>) else r)"

text \<open>\<open>NotifierRelay.notify\<close> on the entry, and what a \<open>DELETE\<close> does to it.\<close>

definition relay_notify :: "js_string \<Rightarrow> relay \<Rightarrow> relay" where
  "relay_notify json r = (if rl_closed r then r else r\<lparr>rl_queue := rl_queue r @ [json], rl_woken := True\<rparr>)"

definition relay_close :: "relay \<Rightarrow> relay" where
  "relay_close r = r\<lparr>rl_closed := True, rl_woken := True\<rparr>"

section \<open>Admission and routing\<close>

record harness =
  hn_entries :: "(nat, relay) jsmap"
  hn_rooms :: "(string, nat) jsmap"
  hn_next :: nat

definition with_entry :: "nat \<Rightarrow> (relay \<Rightarrow> relay) \<Rightarrow> harness \<Rightarrow> harness" where
  "with_entry n f s =
     (case jm_get (hn_entries s) n of None \<Rightarrow> s | Some r \<Rightarrow> s\<lparr>hn_entries := jm_set (hn_entries s) n (f r)\<rparr>)"

definition admit :: "string \<Rightarrow> js_string \<Rightarrow> harness \<Rightarrow> harness" where
  "admit roomId token s =
     s\<lparr>hn_entries := jm_set (hn_entries s) (hn_next s) (relay_start token), hn_rooms := jm_set (hn_rooms s) roomId (hn_next s),
       hn_next := Suc (hn_next s)\<rparr>"

definition delete_room :: "string \<Rightarrow> harness \<Rightarrow> harness" where
  "delete_room roomId s =
     (case jm_get (hn_rooms s) roomId of None \<Rightarrow> s
      | Some n \<Rightarrow> (with_entry n relay_close s)\<lparr>hn_rooms := jm_del (hn_rooms s) roomId\<rparr>)"

definition notifier_relay :: "string \<Rightarrow> js_string \<Rightarrow> harness \<Rightarrow> harness" where
  "notifier_relay roomId json s =
     (if roomId = [] then s
      else case jm_get (hn_rooms s) roomId of None \<Rightarrow> s | Some n \<Rightarrow> with_entry n (relay_notify json) s)"

datatype http_answer = Http nat | ToIsolate string string

text \<open>The client socket: the first path segment names the room, the rest goes to its isolate.\<close>

definition client_fetch :: "string \<Rightarrow> harness \<Rightarrow> http_answer" where
  "client_fetch pathname s =
     (case filter (\<lambda>p. p \<noteq> []) (split_slash pathname) of
        [] \<Rightarrow> Http 404
      | roomId # rest \<Rightarrow> if jm_has (hn_rooms s) roomId then ToIsolate roomId (join_slash rest) else Http 404)"

text \<open>
  The admin socket: the bearer token, the tick (to which rooms it goes), admission and deletion.
  \<open>decode\<close> is \<open>decodeURIComponent\<close>, \<open>token\<close> the one of the notify uri in an admission's body.
\<close>

definition room_path :: "string \<Rightarrow> string option" where
  "room_path pathname =
     (case split_slash pathname of
        [root, rooms, name] \<Rightarrow> if root = [] \<and> rooms = ''rooms'' \<and> name \<noteq> [] then Some name else None
      | _ \<Rightarrow> None)"

definition admin_fetch ::
    "string \<Rightarrow> (string \<Rightarrow> string) \<Rightarrow> string option \<Rightarrow> string \<Rightarrow> string \<Rightarrow> js_string \<Rightarrow> harness \<Rightarrow> nat \<times> string list \<times> harness" where
  "admin_fetch adminToken decode auth verb pathname token s =
     (if adminToken \<noteq> [] \<and> (case auth of Some a \<Rightarrow> a | None \<Rightarrow> []) \<noteq> ''Bearer '' @ adminToken then (401, [], s)
      else if verb = ''POST'' \<and> pathname = ''/__gatho/tick'' then (200, jm_keys (hn_rooms s), s)
      else case room_path pathname of
        None \<Rightarrow> (404, [], s)
      | Some name \<Rightarrow>
          if verb = ''POST'' then (200, [decode name], admit (decode name) token s)
          else if verb = ''DELETE'' then (200, [], delete_room (decode name) s)
          else (405, [], s))"

section \<open>The listener\<close>

record json_socket =
  jk_authed :: bool
  jk_buf :: js_string
  jk_destroyed :: bool
  jk_messages :: "notify_message list"

definition new_json_socket :: json_socket where
  "new_json_socket = \<lparr>jk_authed = False, jk_buf = [], jk_destroyed = False, jk_messages = []\<rparr>"

text \<open>\<open>indexOf\<close> and the two slices.\<close>

fun split_line :: "js_string \<Rightarrow> (js_string \<times> js_string) option" where
  "split_line [] = None"
| "split_line (c # cs) = (if c = newline then Some ([], cs) else map_option (\<lambda>(l, r). (c # l, r)) (split_line cs))"

lemma split_line_length: "split_line s = Some (l, r) \<Longrightarrow> length r < length s"
  by (induction s arbitrary: l) (auto split: if_splits)

definition json_message :: "(js_string \<Rightarrow> notify_message option) \<Rightarrow> js_string \<Rightarrow> json_socket \<Rightarrow> json_socket" where
  "json_message parse line k = (case parse line of Some m \<Rightarrow> k\<lparr>jk_messages := jk_messages k @ [m]\<rparr> | None \<Rightarrow> k)"

function json_loop :: "(js_string \<Rightarrow> notify_message option) \<Rightarrow> js_string \<Rightarrow> json_socket \<Rightarrow> json_socket" where
  "json_loop parse token k =
     (case split_line (jk_buf k) of None \<Rightarrow> k
      | Some (line, rest) \<Rightarrow>
          let k1 = k\<lparr>jk_buf := rest\<rparr> in
          if line = [] then json_loop parse token k1
          else if \<not> jk_authed k1 then
            (if line \<noteq> token then k1\<lparr>jk_destroyed := True\<rparr> else json_loop parse token (k1\<lparr>jk_authed := True\<rparr>))
          else json_loop parse token (json_message parse line k1))"
  by pat_completeness auto
termination
  by (relation "measure (\<lambda>(parse, token, k). length (jk_buf k))")
    (auto simp: split_line_length json_message_def split: option.split)

declare json_loop.simps [simp del]

text \<open>\<open>chunk.toString('utf8')\<close>: each chunk is decoded by itself.\<close>

definition chunk_text :: "byte list \<Rightarrow> js_string" where
  "chunk_text chunk = concat (map scalar_units (utf8_scalars (map unat chunk)))"

definition json_data :: "(js_string \<Rightarrow> notify_message option) \<Rightarrow> js_string \<Rightarrow> json_socket \<Rightarrow> byte list \<Rightarrow> json_socket" where
  "json_data parse token k chunk =
     (if jk_destroyed k then k else json_loop parse token (k\<lparr>jk_buf := jk_buf k @ chunk_text chunk\<rparr>))"

section \<open>Gates of the harness\<close>

lemma admin_gate: "adminToken \<noteq> [] \<Longrightarrow> auth \<noteq> Some (''Bearer '' @ adminToken) \<Longrightarrow>
    admin_fetch adminToken decode auth verb pathname token s = (401, [], s)"
  by (auto simp: admin_fetch_def split: option.split)

lemma deleted_room_is_gone:
  assumes "pathname = ''/'' @ roomId @ rest" and "roomId \<noteq> []" "CHR ''/'' \<notin> set roomId" and "rest = [] \<or> hd rest = CHR ''/''"
  shows "client_fetch pathname (delete_room roomId s) = Http 404 \<and> notifier_relay roomId json (delete_room roomId s) = delete_room roomId s"
proof -
  have gone: "jm_get (hn_rooms (delete_room roomId s)) roomId = None"
    by (simp add: delete_room_def with_entry_def split: option.split)
  have "\<exists>more. split_slash pathname = [] # roomId # more"
  proof (cases rest)
    case Nil
    then show ?thesis using assms(1,3) split_slash_join [of "[]" roomId] by (simp add: split_slash_plain)
  next
    case (Cons c cs)
    then show ?thesis using assms split_slash_join [of "[]" "roomId @ CHR ''/'' # cs"] split_slash_join [of roomId cs]
      by (simp add: split_slash_plain)
  qed
  then show ?thesis using gone assms(2) by (auto simp: client_fetch_def notifier_relay_def)
qed

section \<open>Nothing is lost in the relay\<close>

datatype relay_event = RlNotify js_string | RlClose | RlWritten bool | RlWake

fun relay_step :: "relay \<Rightarrow> relay_event \<Rightarrow> relay" where
  "relay_step r (RlNotify json) = relay_notify json r"
| "relay_step r RlClose = relay_close r"
| "relay_step r (RlWritten ok) = relay_write_settled ok r"
| "relay_step r RlWake = relay_resume r"

text \<open>The messages that came before the entry was closed.\<close>

fun accepted_by :: "bool \<Rightarrow> relay_event list \<Rightarrow> js_string list" where
  "accepted_by closed [] = []"
| "accepted_by closed (RlNotify json # es) = (if closed then accepted_by closed es else json # accepted_by closed es)"
| "accepted_by closed (RlClose # es) = accepted_by True es"
| "accepted_by closed (RlWritten ok # es) = accepted_by closed es"
| "accepted_by closed (RlWake # es) = accepted_by closed es"

text \<open>A loop that waits with work to do has been woken; a finished one had none left.\<close>

definition relay_ok :: "relay \<Rightarrow> bool" where
  "relay_ok r \<longleftrightarrow>
     (rl_phase r = RelayWaiting \<and> (rl_queue r \<noteq> [] \<or> rl_closed r) \<longrightarrow> rl_woken r) \<and>
     (rl_phase r = RelayDone \<longrightarrow> rl_queue r = [] \<and> rl_closed r)"

definition relay_stream :: "relay \<Rightarrow> byte list list" where
  "relay_stream r = rl_written r @ map line_bytes (rl_queue r)"

lemma relay_advance_ok: "relay_ok (relay_advance r) \<or> rl_queue r = [] \<and> \<not> rl_closed r"
  by (cases "rl_queue r") (simp_all add: relay_ok_def relay_advance_def relay_write_def)

lemma relay_advance_fields: "relay_stream (relay_advance r) = relay_stream r" "rl_closed (relay_advance r) = rl_closed r"
  by (simp_all add: relay_stream_def relay_advance_def relay_write_def split: list.split)

lemma relay_step_ok:
  assumes "relay_ok r" and "e \<noteq> RlWritten False"
  shows "relay_ok (relay_step r e)"
  using assms
  by (cases e)
    (auto simp: relay_ok_def relay_notify_def relay_close_def relay_write_settled_def relay_resume_def relay_advance_def relay_write_def
      split: list.splits)

lemma relay_run:
  assumes "relay_ok r" and "RlWritten False \<notin> set evs"
  shows "relay_ok (run relay_step r evs) \<and>
    relay_stream (run relay_step r evs) = relay_stream r @ map line_bytes (accepted_by (rl_closed r) evs)"
  using assms
proof (induction evs arbitrary: r)
  case (Cons e es)
  have "relay_ok (relay_step r e)" using Cons.prems by (intro relay_step_ok) auto
  from Cons.IH [OF this] Cons.prems(2)
  have "relay_ok (run relay_step (relay_step r e) es) \<and> relay_stream (run relay_step (relay_step r e) es) =
      relay_stream (relay_step r e) @ map line_bytes (accepted_by (rl_closed (relay_step r e)) es)" by simp
  then show ?case
    using Cons.prems(2)
    by (cases e) (auto simp: relay_notify_def relay_close_def relay_write_settled_def relay_resume_def relay_advance_fields
        relay_stream_def [of "r\<lparr>rl_queue := q, rl_woken := w\<rparr>" for q w] relay_stream_def [of "r\<lparr>rl_woken := w\<rparr>" for w]
        relay_stream_def [of "r\<lparr>rl_closed := c, rl_woken := w\<rparr>" for c w] relay_stream_def [of r])
qed simp

lemma relay_start_ok: "relay_ok (relay_start token)" "relay_stream (relay_start token) = [line_bytes token]" "\<not> rl_closed (relay_start token)"
  by (simp_all add: relay_start_def relay_write_def relay_ok_def relay_stream_def)

section \<open>The listener on a cut stream\<close>

lemma split_line_append: "split_line xs = Some (l, r) \<Longrightarrow> split_line (xs @ ys) = Some (l, r @ ys)"
  by (induction xs arbitrary: l) (auto split: if_splits)

lemma split_line_plain: "newline \<notin> set l \<Longrightarrow> split_line (l @ newline # r) = Some (l, r)"
  by (induction l) auto

lemma json_message_fields [simp]:
  "jk_buf (json_message parse l k) = jk_buf k" "jk_authed (json_message parse l k) = jk_authed k"
  "jk_destroyed (json_message parse l k) = jk_destroyed k"
  "json_message parse l (k\<lparr>jk_buf := b\<rparr>) = (json_message parse l k)\<lparr>jk_buf := b\<rparr>"
  by (simp_all add: json_message_def split: option.split)

text \<open>What came in one chunk might as well have come in two.\<close>

lemma json_loop_append:
  assumes "\<not> jk_destroyed k"
  shows "(jk_destroyed (json_loop parse token k) \<longrightarrow> jk_destroyed (json_loop parse token (k\<lparr>jk_buf := jk_buf k @ ys\<rparr>))) \<and>
    (\<not> jk_destroyed (json_loop parse token k) \<longrightarrow>
       json_loop parse token ((json_loop parse token k)\<lparr>jk_buf := jk_buf (json_loop parse token k) @ ys\<rparr>) =
         json_loop parse token (k\<lparr>jk_buf := jk_buf k @ ys\<rparr>))"
  using assms
proof (induction parse token k rule: json_loop.induct)
  case (1 parse token k)
  show ?case
  proof (cases "split_line (jk_buf k)")
    case None
    then have "json_loop parse token k = k" by (simp add: json_loop.simps)
    then show ?thesis using 1(4) by simp
  next
    case (Some p)
    obtain l r where p: "p = (l, r)" by (rule prod.exhaust)
    note s = Some [unfolded p] split_line_append [OF Some [unfolded p], of ys]
    have step: "json_loop parse token k = (let k1 = k\<lparr>jk_buf := r\<rparr> in
        if l = [] then json_loop parse token k1 else if \<not> jk_authed k then
          (if l \<noteq> token then k1\<lparr>jk_destroyed := True\<rparr> else json_loop parse token (k1\<lparr>jk_authed := True\<rparr>))
        else json_loop parse token (json_message parse l k1))"
      by (subst json_loop.simps) (simp add: s Let_def)
    have step': "json_loop parse token (k\<lparr>jk_buf := jk_buf k @ ys\<rparr>) = (let k1 = k\<lparr>jk_buf := r @ ys\<rparr> in
        if l = [] then json_loop parse token k1 else if \<not> jk_authed k then
          (if l \<noteq> token then k1\<lparr>jk_destroyed := True\<rparr> else json_loop parse token (k1\<lparr>jk_authed := True\<rparr>))
        else json_loop parse token (json_message parse l k1))"
      by (subst json_loop.simps) (simp add: s Let_def)
    consider "l = []" | "l \<noteq> []" "\<not> jk_authed k" "l \<noteq> token" | "l \<noteq> []" "\<not> jk_authed k" "l = token" | "l \<noteq> []" "jk_authed k" by blast
    then show ?thesis
    proof cases
      case 1
      then show ?thesis using "1.IH"(1) [OF Some p [symmetric] refl] "1.prems" unfolding step step' by (simp add: Let_def)
    next
      case 2
      then show ?thesis unfolding step step' by (simp add: Let_def)
    next
      case 3
      have swap: "k\<lparr>jk_authed := True, jk_buf := b\<rparr> = k\<lparr>jk_buf := b, jk_authed := True\<rparr>" for b by simp
      from 3 show ?thesis using "1.IH"(2) [OF Some p [symmetric] refl] "1.prems" unfolding step step' by (simp add: Let_def swap)
    next
      case 4
      then show ?thesis using "1.IH"(3) [OF Some p [symmetric] refl] "1.prems" unfolding step step' by (simp add: Let_def)
    qed
  qed
qed

lemma json_chunks:
  assumes "\<not> jk_destroyed k"
    and "\<not> jk_destroyed (json_loop parse token (k\<lparr>jk_buf := jk_buf k @ concat (map chunk_text chunks)\<rparr>))"
    and "json_loop parse token k = k"
  shows "run (json_data parse token) k chunks = json_loop parse token (k\<lparr>jk_buf := jk_buf k @ concat (map chunk_text chunks)\<rparr>)"
  using assms
proof (induction chunks arbitrary: k)
  case (Cons c cs)
  let ?more = "concat (map chunk_text cs)"
  let ?k = "k\<lparr>jk_buf := jk_buf k @ chunk_text c\<rparr>"
  let ?k1 = "json_loop parse token ?k"
  have first: "json_data parse token k c = ?k1" using Cons.prems(1) by (simp add: json_data_def)
  have k: "\<not> jk_destroyed ?k" using Cons.prems(1) by simp
  note app = json_loop_append [OF k, of parse token ?more]
  have all: "?k\<lparr>jk_buf := jk_buf ?k @ ?more\<rparr> = k\<lparr>jk_buf := jk_buf k @ concat (map chunk_text (c # cs))\<rparr>" by simp
  have alive: "\<not> jk_destroyed ?k1" using app Cons.prems(2) unfolding all by blast
  then have eq: "json_loop parse token (?k1\<lparr>jk_buf := jk_buf ?k1 @ ?more\<rparr>) =
      json_loop parse token (k\<lparr>jk_buf := jk_buf k @ concat (map chunk_text (c # cs))\<rparr>)"
    using app unfolding all by blast
  have idem: "json_loop parse token ?k1 = ?k1" using json_loop_append [OF k, of parse token "[]"] alive by simp
  have "run (json_data parse token) ?k1 cs = json_loop parse token (?k1\<lparr>jk_buf := jk_buf ?k1 @ ?more\<rparr>)"
    by (rule Cons.IH [OF alive _ idem]) (use Cons.prems(2) eq in simp_all)
  then show ?case by (simp add: first eq)
qed simp

section \<open>Whole characters\<close>

lemma well_formed_append: "well_formed_utf16 s \<Longrightarrow> well_formed_utf16 t \<Longrightarrow> well_formed_utf16 (s @ t)"
proof (induction s rule: well_formed_utf16.induct)
  case (2 u)
  then show ?case by (cases t) auto
next
  case (3 u v us)
  then show ?case by (auto split: if_splits)
qed simp

lemma scalars_append: "well_formed_utf16 s \<Longrightarrow> utf16_scalars (s @ t) = utf16_scalars s @ utf16_scalars t"
proof (induction s rule: well_formed_utf16.induct)
  case (2 u)
  then show ?case by (cases t) auto
next
  case (3 u v us)
  then show ?case by (auto split: if_splits)
qed simp

lemma encode_append: "well_formed_utf16 s \<Longrightarrow> textEncoder_encode (s @ t) = textEncoder_encode s @ textEncoder_encode t"
  by (simp add: textEncoder_encode_def scalars_append)

lemma encode_concat:
  "\<forall>t \<in> set ts. well_formed_utf16 t \<Longrightarrow>
     well_formed_utf16 (concat ts) \<and> textEncoder_encode (concat ts) = concat (map textEncoder_encode ts)"
proof (induction ts)
  case Nil
  show ?case by (simp add: textEncoder_encode_def)
qed (simp add: well_formed_append encode_append)

text \<open>Decoding a chunk that holds whole characters is exact, a byte order mark included.\<close>

lemma chunk_text_encode:
  assumes "well_formed_utf16 t"
  shows "chunk_text (textEncoder_encode t) = t"
proof -
  have all: "\<forall>c \<in> set (utf16_scalars t). scalar c" using utf16_scalars_scalar [OF assms] by blast
  then have "b < 256" if "b \<in> set (concat (map utf8_scalar (utf16_scalars t)))" for b
    using that utf8_scalar_bytes by auto
  then have "map unat (textEncoder_encode t) = concat (map utf8_scalar (utf16_scalars t))"
    unfolding textEncoder_encode_def map_map by (intro map_idI) (simp add: unat_of_nat)
  then show ?thesis using utf8_scalars_all [OF all] utf16_scalars_units [OF assms] by (simp add: chunk_text_def)
qed

definition whole_characters :: "byte list \<Rightarrow> bool" where
  "whole_characters chunk \<longleftrightarrow> (\<exists>t. well_formed_utf16 t \<and> chunk = textEncoder_encode t)"

lemma whole_charactersI: "well_formed_utf16 t \<Longrightarrow> whole_characters (textEncoder_encode t)"
  by (auto simp: whole_characters_def)

lemma whole_chunk_text: "whole_characters chunk \<Longrightarrow> well_formed_utf16 (chunk_text chunk) \<and> textEncoder_encode (chunk_text chunk) = chunk"
  by (auto simp: whole_characters_def chunk_text_encode)

text \<open>The same bytes in other chunks are the same text.\<close>

lemma whole_chunks_text:
  assumes "\<forall>c \<in> set chunks. whole_characters c" and "well_formed_utf16 t" and "concat chunks = textEncoder_encode t"
  shows "concat (map chunk_text chunks) = t"
proof -
  have "\<forall>s \<in> set (map chunk_text chunks). well_formed_utf16 s" using assms(1) whole_chunk_text by auto
  moreover have "map textEncoder_encode (map chunk_text chunks) = chunks"
    unfolding map_map by (rule map_idI) (use assms(1) whole_chunk_text in auto)
  ultimately have "well_formed_utf16 (concat (map chunk_text chunks))"
    "textEncoder_encode (concat (map chunk_text chunks)) = concat chunks"
    using encode_concat [of "map chunk_text chunks"] by simp_all
  then have "concat (map chunk_text chunks) = chunk_text (textEncoder_encode t)"
    using chunk_text_encode assms(3) by metis
  then show ?thesis using assms(2) by (simp add: chunk_text_encode)
qed

text \<open>Of a stream of ASCII every chunk is one, wherever the cuts are.\<close>

lemma ascii_chunk_whole:
  assumes "\<forall>b \<in> set chunk. unat b < 128"
  shows "whole_characters chunk"
proof -
  have "textEncoder_encode (map unat chunk) = map word_of_nat (map unat chunk)" using assms by (intro ascii_encode) simp
  also have "\<dots> = chunk" unfolding map_map by (rule map_idI) simp
  finally show ?thesis unfolding whole_characters_def using ascii_well_formed [of "map unat chunk"] assms by (metis ascii_encode imageE set_map)
qed

text \<open>
  Lines, as \<open>JSON.stringify\<close> makes them: not empty, without a raw line break and without a lone
  surrogate (both are escaped).
\<close>

definition plain_line :: "js_string \<Rightarrow> bool" where
  "plain_line l \<longleftrightarrow> l \<noteq> [] \<and> newline \<notin> set l \<and> well_formed_utf16 l"

lemma json_loop_lines:
  assumes "\<forall>l \<in> set ls. plain_line l" and "jk_authed k" and "jk_buf k = concat (map (\<lambda>l. l @ [newline]) ls)"
  shows "json_loop parse token k = k\<lparr>jk_buf := [], jk_messages := jk_messages k @ List.map_filter parse ls\<rparr>"
  using assms
proof (induction ls arbitrary: k)
  case Nil
  then show ?case by (subst json_loop.simps) (simp add: List.map_filter_def)
next
  case (Cons l ls)
  let ?rest = "concat (map (\<lambda>l. l @ [newline]) ls)"
  have l: "l \<noteq> []" "newline \<notin> set l" using Cons.prems(1) by (auto simp: plain_line_def)
  have "split_line (jk_buf k) = Some (l, ?rest)" using split_line_plain [OF l(2)] Cons.prems(3) by simp
  then have "json_loop parse token k = json_loop parse token (json_message parse l (k\<lparr>jk_buf := ?rest\<rparr>))"
    using Cons.prems(2) l by (subst json_loop.simps) (simp add: Let_def)
  also have "\<dots> = (json_message parse l (k\<lparr>jk_buf := ?rest\<rparr>))\<lparr>jk_buf := [],
      jk_messages := jk_messages (json_message parse l (k\<lparr>jk_buf := ?rest\<rparr>)) @ List.map_filter parse ls\<rparr>"
    by (rule Cons.IH) (use Cons.prems in simp_all)
  finally show ?case by (simp add: json_message_def List.map_filter_def split: option.split)
qed

lemma plain_line_terminated: "plain_line l \<Longrightarrow> well_formed_utf16 (l @ [newline])"
  by (simp add: plain_line_def well_formed_append newline_def)

lemma lines_bytes:
  assumes "\<forall>l \<in> set ls. plain_line l"
  shows "well_formed_utf16 (concat (map (\<lambda>l. l @ [newline]) ls))"
    and "concat (map line_bytes ls) = textEncoder_encode (concat (map (\<lambda>l. l @ [newline]) ls))"
proof -
  have "\<forall>t \<in> set (map (\<lambda>l. l @ [newline]) ls). well_formed_utf16 t" using assms plain_line_terminated by auto
  note all = encode_concat [OF this]
  show "well_formed_utf16 (concat (map (\<lambda>l. l @ [newline]) ls))" using all by blast
  show "concat (map line_bytes ls) = textEncoder_encode (concat (map (\<lambda>l. l @ [newline]) ls))"
    using all unfolding line_bytes_def [abs_def] by (simp add: comp_def)
qed

lemma token_plain: "bytes \<noteq> [] \<Longrightarrow> plain_line (tcp_token bytes)"
proof -
  assume "bytes \<noteq> []"
  then have "tcp_token bytes \<noteq> []" by (cases bytes) (simp_all add: tcp_token_def)
  moreover have "48 \<le> hex_digit n" for n by (simp add: hex_digit_def)
  then have "\<forall>u \<in> set (tcp_token bytes). 48 \<le> u" by (auto simp: tcp_token_def)
  moreover have "well_formed_utf16 (tcp_token bytes)" using hex_token_ascii by (intro ascii_well_formed) blast
  ultimately show ?thesis by (force simp: plain_line_def newline_def)
qed

text \<open>
  C40: As long as no write to the socket fails and no chunk of the stream begins or ends inside a
  character, the notify messages of an isolate all arrive. Whatever the interleaving of messages,
  finished writes, wakes and the deletion of the room, a relay loop that has come to rest (it waits and was
  not woken, or it returned) has then written the token and every message that came before the deletion, each
  as a line, in order; and however the network cuts these bytes between characters, the server's
  listener lets the connection in and hands on exactly the messages the lines parse to, in order. The
  messages are what \<open>JSON.stringify\<close> gives: texts of well-formed UTF-16 without a raw line break.
  Both conditions are needed: a failed write ends the loop and what is still queued is
  never written (\<open>failed_write_loses_the_rest\<close>), a character cut in two is lost
  (\<open>split_character_is_lost\<close>); a stream of ASCII may be cut anywhere (\<open>ascii_chunk_whole\<close>).
\<close>

theorem workerd_relay_end_to_end:
  assumes relay: "r = run relay_step (relay_start token) evs" and writes: "RlWritten False \<notin> set evs"
    and rest: "rl_phase r = RelayWaiting \<and> \<not> rl_woken r \<or> rl_phase r = RelayDone"
    and token: "token = tcp_token bytes" "bytes \<noteq> []"
    and lines: "\<forall>json \<in> set (accepted_by False evs). plain_line json"
    and stream: "concat chunks = concat (rl_written r)" and whole: "\<forall>chunk \<in> set chunks. whole_characters chunk"
  shows "rl_written r = map line_bytes (token # accepted_by False evs) \<and>
    run (json_data parse token) new_json_socket chunks =
      \<lparr>jk_authed = True, jk_buf = [], jk_destroyed = False, jk_messages = List.map_filter parse (accepted_by False evs)\<rparr>"
proof -
  let ?ls = "accepted_by False evs" and ?text = "\<lambda>ls. concat (map (\<lambda>l. l @ [newline]) ls)"
  have ok: "relay_ok r" and str: "relay_stream r = map line_bytes (token # ?ls)"
    using relay_run [OF relay_start_ok(1) writes, of token] relay_start_ok(2,3) by (simp_all add: relay)
  have "rl_queue r = []" using ok rest by (auto simp: relay_ok_def)
  then have written: "rl_written r = map line_bytes (token # ?ls)" using str by (simp add: relay_stream_def)
  have tok: "plain_line token" using token_plain token by simp
  then have plain: "\<forall>l \<in> set (token # ?ls). plain_line l" using lines by simp
  have decoded: "concat (map chunk_text chunks) = ?text (token # ?ls)"
    by (rule whole_chunks_text [OF whole lines_bytes(1) [OF plain]]) (simp only: stream written lines_bytes(2) [OF plain])
  let ?k = "new_json_socket\<lparr>jk_buf := ?text (token # ?ls)\<rparr>"
  have t: "token \<noteq> []" "newline \<notin> set token" using tok by (auto simp: plain_line_def)
  have "split_line (jk_buf ?k) = Some (token, ?text ?ls)" using split_line_plain [OF t(2)] by simp
  then have "json_loop parse token ?k = json_loop parse token (new_json_socket\<lparr>jk_buf := ?text ?ls, jk_authed := True\<rparr>)"
    using t by (subst json_loop.simps) (simp add: Let_def new_json_socket_def)
  also have "\<dots> = new_json_socket\<lparr>jk_authed := True, jk_messages := List.map_filter parse ?ls\<rparr>"
    by (subst json_loop_lines [OF lines]) (simp_all add: new_json_socket_def)
  finally have all: "json_loop parse token ?k = new_json_socket\<lparr>jk_authed := True, jk_messages := List.map_filter parse ?ls\<rparr>" .
  have idle: "json_loop parse token new_json_socket = new_json_socket"
    by (subst json_loop.simps) (simp add: new_json_socket_def)
  have cut: "run (json_data parse token) new_json_socket chunks = json_loop parse token ?k"
    using json_chunks [OF _ _ idle] all decoded by (simp add: new_json_socket_def)
  show ?thesis unfolding cut all using written by (simp add: new_json_socket_def)
qed

lemma workerd_relay_end_to_end_witness:
  "let token = tcp_token [1];
       r = run relay_step (relay_start token) [RlNotify [123, 233, 125], RlWritten True, RlWritten True, RlWake, RlNotify [91, 93], RlWake,
         RlWritten True]
   in run (json_data (\<lambda>l. Some (if l = [91, 93] then Stopped else Ready (length l))) token) new_json_socket (map textEncoder_encode [[48], [49, 10, 123, 233], [125, 10, 91], [93, 10]]) =
        \<lparr>jk_authed = True, jk_buf = [], jk_destroyed = False, jk_messages = [Ready 3, Stopped]\<rparr>"
proof -
  let ?evs = "[RlNotify [123, 233, 125], RlWritten True, RlWritten True, RlWake, RlNotify [91, 93], RlWake, RlWritten True]"
  let ?r = "run relay_step (relay_start (tcp_token [1])) ?evs"
  let ?chunks = "map textEncoder_encode [[48], [49, 10, 123, 233], [125, 10, 91], [93, 10]]"
  have phase: "rl_phase ?r = RelayWaiting \<and> \<not> rl_woken ?r \<or> rl_phase ?r = RelayDone"
    by (simp add: relay_start_def relay_write_def relay_notify_def relay_write_settled_def relay_advance_def relay_resume_def)
  have lines: "\<forall>json \<in> set (accepted_by False ?evs). plain_line json" by (simp add: plain_line_def newline_def)
  have "tcp_token [1] = [48, 49]" by code_simp
  then have stream: "concat ?chunks = concat (rl_written ?r)"
    by (simp add: relay_start_def relay_write_def relay_notify_def relay_write_settled_def relay_advance_def relay_resume_def
        line_bytes_def textEncoder_encode_def utf8_scalar_def newline_def)
  have whole: "\<forall>chunk \<in> set ?chunks. whole_characters chunk" by (simp add: whole_charactersI)
  show ?thesis
    using workerd_relay_end_to_end [OF refl _ phase refl _ lines stream whole, of "\<lambda>l. Some (if l = [91, 93] then Stopped else Ready (length l))"]
    by (simp add: Let_def List.map_filter_def)
qed

section \<open>Outside the conditions\<close>

text \<open>A write that fails ends the loop: nothing is written after it, whatever was or will be queued.\<close>

lemma failed_write_loses_the_rest:
  assumes "rl_phase r = RelayWriting"
  shows "rl_written (run relay_step (relay_step r (RlWritten False)) evs) = rl_written r"
proof -
  have "rl_phase r = RelayDone \<Longrightarrow> rl_written (run relay_step r evs) = rl_written r" for r
  proof (induction evs arbitrary: r)
    case (Cons e es)
    have "rl_phase (relay_step r e) = RelayDone" "rl_written (relay_step r e) = rl_written r"
      using Cons.prems by (cases e; simp add: relay_notify_def relay_close_def relay_write_settled_def relay_resume_def)+
    with Cons.IH show ?case by simp
  qed simp
  from this [of "r\<lparr>rl_phase := RelayDone\<rparr>"] assms show ?thesis by (simp add: relay_write_settled_def)
qed

text \<open>
  The listener decodes each chunk by itself: a character whose bytes come in two chunks is lost, and
  the text of a message (a tag, an error) arrives with replacement characters.
\<close>

lemma split_character_is_lost:
  "chunk_text (line_bytes [233]) = [233, newline]"
  "concat (map chunk_text [take 1 (line_bytes [233]), drop 1 (line_bytes [233])]) = [65533, 65533, newline]"
proof -
  have bytes: "line_bytes [233] = [195, 169, 10]"
    by (simp add: line_bytes_def textEncoder_encode_def utf8_scalar_def newline_def)
  show "chunk_text (line_bytes [233]) = [233, newline]"
    "concat (map chunk_text [take 1 (line_bytes [233]), drop 1 (line_bytes [233])]) = [65533, 65533, newline]"
    unfolding bytes by (simp_all add: chunk_text_def cont_def scalar_units_def newline_def)
qed

end
