(* ===== verification/Driver_Types.thy ===== *)
theory Driver_Types
  imports Prelude Notify_Protocol Complex_Main
begin

text \<open>
  \<open>src/driver/types.ts\<close> and \<open>src/driver/errors.ts\<close>: the data the drivers exchange with the sdk
  and the server, the typed errors, and the validators both drivers call. Tag records are
  objects in JavaScript; they are kept as maps here. Error messages are kept as the data they
  are built from.
\<close>

section \<open>Errors\<close>

datatype payload_field = FieldData | FieldTags

datatype tag_problem = InvalidTagKey string | ReservedTagKey string | InvalidTagValue string

datatype js_number = Fin rat | NotFinite

datatype gatho_error =
    ServerNotFoundError string
  | RoomNotFoundError string
  | RoomNotRunningError string
  | RoomTimeoutError string js_number
  | RoomFailedError string string
  | RoomStartError string
  | InvalidTagError tag_problem
  | DriverConfigError string
  | PayloadTooLargeError payload_field nat nat
  | RangeError js_number
  | OtherError string

text \<open>The \<open>code\<close> each class passes to \<open>GathoError\<close>; \<open>RangeError\<close> and foreign errors have none.\<close>

fun error_code :: "gatho_error \<Rightarrow> string option" where
  "error_code (ServerNotFoundError _) = Some ''server-not-found''"
| "error_code (RoomNotFoundError _) = Some ''room-not-found''"
| "error_code (RoomNotRunningError _) = Some ''room-not-running''"
| "error_code (RoomTimeoutError _ _) = Some ''room-timeout''"
| "error_code (RoomFailedError _ _) = Some ''room-failed''"
| "error_code (RoomStartError _) = Some ''room-start-failed''"
| "error_code (InvalidTagError _) = Some ''invalid-tag''"
| "error_code (DriverConfigError _) = Some ''driver-config''"
| "error_code (PayloadTooLargeError _ _ _) = Some ''payload-too-large''"
| "error_code (RangeError _) = None"
| "error_code (OtherError _) = None"

section \<open>Data\<close>

datatype data_value = DStr string | DNum js_number | DBool bool
type_synonym room_data = "(string, data_value) jsmap"

datatype room_status = Requested | Running
datatype client_status = Reserved | Connected

record tag_filter =
  tf_eq :: tags
  tf_neq :: tags

record list_rooms_filter =
  lf_tags :: tag_filter
  lf_type :: "string option"
  lf_status :: "room_status option"
  lf_serverId :: "string option"

record list_servers_filter =
  sf_tags :: tag_filter
  sf_roomTypes :: "string list option"

record client_info =
  ci_clientId :: string
  ci_status :: client_status
  ci_tags :: tags
  ci_connectedAt :: ms

record room_info =
  ri_roomId :: string
  ri_roomType :: string
  ri_serverId :: string
  ri_status :: room_status
  ri_endpoint :: "string option"
  ri_clients :: "client_info list"
  ri_data :: room_data
  ri_tags :: tags
  ri_createdAt :: ms

record client_reservation =
  cr_clientId :: string
  cr_url :: string
  cr_roomId :: string
  cr_expiresAt :: ms

record server_info =
  si_serverId :: string
  si_endpoint :: string
  si_lastHeartbeat :: ms
  si_rooms :: "room_info list"
  si_tags :: tags
  si_roomTypes :: "string list"

record heartbeat_options =
  ho_serverId :: string
  ho_endpoint :: string
  ho_tags :: tags
  ho_roomTypes :: "string list"

record desired_room =
  dr_roomId :: string
  dr_roomType :: string
  dr_data :: room_data
  dr_status :: room_status

record heartbeat_result =
  hr_tags :: tags
  hr_desiredRooms :: "desired_room list"
  hr_registered :: bool

section \<open>Tag validation\<close>

definition tag_char :: "char \<Rightarrow> bool" where
  "tag_char c =
     (let n = of_char c :: nat
      in (97 \<le> n \<and> n \<le> 122) \<or> (65 \<le> n \<and> n \<le> 90) \<or> (48 \<le> n \<and> n \<le> 57) \<or> n = 95 \<or> n = 45)"

text \<open>\<open>VALID_TAG_RE = /^[a-zA-Z0-9_-]+$/\<close>.\<close>

definition valid_tag_re :: "string \<Rightarrow> bool" where
  "valid_tag_re s = (s \<noteq> [] \<and> list_all tag_char s)"

definition validateTagKey :: "string \<Rightarrow> gatho_error + unit" where
  "validateTagKey key =
     (if \<not> valid_tag_re key then Inl (InvalidTagError (InvalidTagKey key))
      else if take 1 key = ''_'' then Inl (InvalidTagError (ReservedTagKey key))
      else Inr ())"

definition validateTagValue :: "string \<Rightarrow> gatho_error + unit" where
  "validateTagValue v =
     (if \<not> valid_tag_re v then Inl (InvalidTagError (InvalidTagValue v)) else Inr ())"

fun validateTags :: "tags \<Rightarrow> gatho_error + unit" where
  "validateTags [] = Inr ()"
| "validateTags ((key, v) # rest) =
     (case validateTagKey key of Inl e \<Rightarrow> Inl e
      | Inr _ \<Rightarrow> (case validateTagValue v of Inl e \<Rightarrow> Inl e | Inr _ \<Rightarrow> validateTags rest))"

definition tags_ok :: "tags \<Rightarrow> bool" where
  "tags_ok tags = (\<forall>(k, v) \<in> set tags. valid_tag_re k \<and> take 1 k \<noteq> ''_'' \<and> valid_tag_re v)"

lemma validateTags_ok: "validateTags tags = Inr () \<longleftrightarrow> tags_ok tags"
  by (induction tags rule: validateTags.induct)
     (auto simp: tags_ok_def validateTagKey_def validateTagValue_def split: sum.splits if_splits)

lemma validateTags_cases: "validateTags tags = Inr u \<longleftrightarrow> tags_ok tags"
  using validateTags_ok [of tags] by (cases u) auto

lemma tags_ok_get: "tags_ok tags \<Longrightarrow> jm_get tags k = Some v \<Longrightarrow> valid_tag_re k \<and> take 1 k \<noteq> ''_'' \<and> valid_tag_re v"
  using jm_get_mem [of tags k v] by (auto simp: tags_ok_def)

lemma tags_ok_set: "tags_ok m \<Longrightarrow> tags_ok [(k, v)] \<Longrightarrow> tags_ok (jm_set m k v)"
  using set_jm_set [of m k v] by (fastforce simp: tags_ok_def)

lemma tags_ok_merge: "tags_ok m \<Longrightarrow> tags_ok n \<Longrightarrow> tags_ok (jm_merge m n)"
proof (induction n arbitrary: m)
  case Nil
  then show ?case by (simp add: jm_merge_def)
next
  case (Cons a n)
  have "tags_ok [(fst a, snd a)]" and n: "tags_ok n"
    using Cons.prems(2) by (auto simp: tags_ok_def)
  then have "tags_ok (jm_set m (fst a) (snd a))"
    using Cons.prems(1) tags_ok_set by blast
  moreover have "jm_merge m (a # n) = jm_merge (jm_set m (fst a) (snd a)) n"
    by (simp add: jm_merge_def case_prod_unfold)
  ultimately show ?case using Cons.IH n by simp
qed

lemma tags_ok_del: "tags_ok m \<Longrightarrow> tags_ok (jm_del m k)"
  by (auto simp: tags_ok_def jm_del_def AList.delete_eq)

lemma tags_ok_del_all: "tags_ok m \<Longrightarrow> tags_ok (jm_del_all m ks)"
  unfolding jm_del_all_def by (induction ks arbitrary: m) (auto simp: tags_ok_del)

section \<open>Payload sizes\<close>

text \<open>
  \<open>Buffer.byteLength(JSON.stringify(tags))\<close> for a record of strings. \<open>JSON.stringify\<close>
  writes a quotation mark, a backslash and the five short escapes with two characters, the
  other control characters with six; strings are ASCII here, one byte a character.
\<close>

definition json_char_size :: "char \<Rightarrow> nat" where
  "json_char_size c =
     (let n = of_char c :: nat
      in if n = 34 \<or> n = 92 then 2
         else if n \<in> {8, 9, 10, 12, 13} then 2
         else if n < 32 then 6 else 1)"

definition json_string_size :: "string \<Rightarrow> nat" where
  "json_string_size s = 2 + sum_list (map json_char_size s)"

definition json_tags_size :: "tags \<Rightarrow> nat" where
  "json_tags_size tags =
     2 + (length tags - 1) + sum_list (map (\<lambda>(k, v). json_string_size k + 1 + json_string_size v) tags)"

definition RESERVE_DATA_MAX_BYTES :: nat where
  "RESERVE_DATA_MAX_BYTES = 2048"

definition RESERVE_TAGS_MAX_BYTES :: nat where
  "RESERVE_TAGS_MAX_BYTES = 512"

text \<open>
  The reservation's \<open>data\<close> is an arbitrary JSON value of the application: it is taken as
  the text \<open>JSON.stringify(data ?? {})\<close> it serializes to, which is all the code looks at.
\<close>

definition validateReserveData :: "string \<Rightarrow> gatho_error + unit" where
  "validateReserveData data =
     (let size = length data
      in if RESERVE_DATA_MAX_BYTES < size
         then Inl (PayloadTooLargeError FieldData size RESERVE_DATA_MAX_BYTES) else Inr ())"

definition validateReserveTagsSize :: "tags \<Rightarrow> gatho_error + unit" where
  "validateReserveTagsSize tags =
     (let size = json_tags_size tags
      in if RESERVE_TAGS_MAX_BYTES < size
         then Inl (PayloadTooLargeError FieldTags size RESERVE_TAGS_MAX_BYTES) else Inr ())"

definition MAX_SAFE_INTEGER :: int where
  "MAX_SAFE_INTEGER = 2 ^ 53 - 1"

fun isSafeInteger :: "js_number \<Rightarrow> bool" where
  "isSafeInteger (Fin q) = (of_int \<lfloor>q\<rfloor> = q \<and> \<bar>\<lfloor>q\<rfloor>\<bar> \<le> MAX_SAFE_INTEGER)"
| "isSafeInteger NotFinite = False"

fun js_nonpos :: "js_number \<Rightarrow> bool" where
  "js_nonpos (Fin q) = (q \<le> 0)"
| "js_nonpos NotFinite = False"

definition validateRequestedRoomTtl :: "js_number \<Rightarrow> gatho_error + unit" where
  "validateRequestedRoomTtl ttlMs =
     (if \<not> isSafeInteger ttlMs \<or> js_nonpos ttlMs then Inl (RangeError ttlMs) else Inr ())"

text \<open>The integer a valid ttl denotes.\<close>

fun ttl_ms :: "js_number \<Rightarrow> ms" where
  "ttl_ms (Fin q) = \<lfloor>q\<rfloor>"
| "ttl_ms NotFinite = 0"

lemma validateRequestedRoomTtl_ok:
  "validateRequestedRoomTtl t = Inr () \<longleftrightarrow> (\<exists>n. t = Fin (of_int n) \<and> 0 < n \<and> n \<le> MAX_SAFE_INTEGER)"
proof (cases t)
  case (Fin q)
  show ?thesis
  proof
    assume "validateRequestedRoomTtl t = Inr ()"
    then have q: "of_int \<lfloor>q\<rfloor> = q" "\<bar>\<lfloor>q\<rfloor>\<bar> \<le> MAX_SAFE_INTEGER" "0 < q"
      using Fin by (auto simp del: of_int_floor_cancel simp: validateRequestedRoomTtl_def split: if_splits)
    then have "0 < (of_int \<lfloor>q\<rfloor> :: rat)"
      by (simp only:)
    then have "0 < \<lfloor>q\<rfloor>"
      by (simp only: of_int_0_less_iff)
    moreover have "t = Fin (of_int \<lfloor>q\<rfloor>)"
      using Fin q(1) by (simp only:)
    ultimately show "\<exists>n. t = Fin (of_int n) \<and> 0 < n \<and> n \<le> MAX_SAFE_INTEGER"
      using q(2) by (intro exI [of _ "\<lfloor>q\<rfloor>"]) (simp only: abs_of_pos simp_thms)
  qed (auto simp: validateRequestedRoomTtl_def)
qed (auto simp: validateRequestedRoomTtl_def)

lemma ttl_ms_positive: "validateRequestedRoomTtl t = Inr u \<Longrightarrow> 0 < ttl_ms t"
  using validateRequestedRoomTtl_ok [of t] by (cases u) auto

section \<open>Properties\<close>

text \<open>
  The tag validator accepts exactly the records whose keys and values are nonempty strings
  over letters, digits, hyphen and underscore and whose keys do not start with an underscore,
  and accepted records stay acceptable under the merge that \<open>addRoomTags\<close> and
  \<open>addServerTags\<close> perform and under removal of keys.
\<close>

theorem validated_tags_closed:
  assumes "validateTags existing = Inr ()" and "validateTags new = Inr ()"
  shows "validateTags (jm_del_all (jm_merge existing new) ks) = Inr () \<and>
    (\<forall>k v. jm_get (jm_merge existing new) k = Some v \<longrightarrow>
       k \<noteq> [] \<and> hd k \<noteq> CHR ''_'' \<and> v \<noteq> [] \<and> list_all tag_char k \<and> list_all tag_char v)"
proof (intro conjI allI impI)
  have ok: "tags_ok (jm_merge existing new)"
    using assms by (simp add: validateTags_ok tags_ok_merge)
  then show "validateTags (jm_del_all (jm_merge existing new) ks) = Inr ()"
    by (simp add: validateTags_ok tags_ok_del_all)
  fix k v
  assume "jm_get (jm_merge existing new) k = Some v"
  from tags_ok_get [OF ok this]
  show "k \<noteq> []" "hd k \<noteq> CHR ''_''" "v \<noteq> []" "list_all tag_char k" "list_all tag_char v"
    by (cases k; auto simp: valid_tag_re_def)+
qed

theorem validated_tags_closed_witness:
  "validateTags (jm_del_all (jm_merge [(''region'', ''eu-west'')] [(''tier'', ''1'')]) [''region'']) = Inr ()"
proof -
  have "validateTags [(''region'', ''eu-west'')] = Inr ()" and "validateTags [(''tier'', ''1'')] = Inr ()"
    by code_simp+
  then show ?thesis using validated_tags_closed by blast
qed

end
