(* ===== verification/Subprocess.thy ===== *)
theory Subprocess
  imports Runner Driver_Types
begin

text \<open>
  \<open>src/server/subprocess.ts\<close>: the runner that starts a child process. It is the asynchronous spawn
  function of a \<open>runner()\<close> of theory \<open>Runner\<close>, whose state it holds: the promise settles when the
  notify channel is up and the child was started, and the destructor is what a kill calls. The
  child process and the timers are the environment: its signals are logged, its end is an event.
\<close>

section \<open>State\<close>

datatype child_signal = SIGTERM | SIGKILL

datatype subprocess_action =
    SpawnChild "string list" "(string, string) jsmap"
  | SignalChild child_signal
  | CloseChannel
  | ToServer runner_call

datatype subprocess_phase = AwaitChannel | ChildStarted | NotStarted

text \<open>The \<open>env\<close> option: absent, a record, or a function of the context, which may throw.\<close>

datatype env_option =
    NoEnv
  | FixedEnv "(string, string) jsmap"
  | EnvOf "runner_context \<Rightarrow> room_data \<Rightarrow> string + (string, string) jsmap"

record subprocess =
  sp_runner :: runner
  sp_phase :: subprocess_phase
  sp_reported :: bool
  sp_killed :: bool
  sp_killTimer :: bool
  sp_log :: "subprocess_action list"

definition sp_say :: "subprocess_action list \<Rightarrow> subprocess \<Rightarrow> subprocess" where
  "sp_say as s = s\<lparr>sp_log := sp_log s @ as\<rparr>"

definition SIGKILL_DELAY_MS :: ms where "SIGKILL_DELAY_MS = 5000"

definition kill_timeout :: "ms option \<Rightarrow> ms" where
  "kill_timeout killTimeoutMs = (case killTimeoutMs of Some t \<Rightarrow> t | None \<Rightarrow> SIGKILL_DELAY_MS)"

section \<open>Operations\<close>

definition new_subprocess :: subprocess where
  "new_subprocess =
     \<lparr>sp_runner = runner_spawn True, sp_phase = AwaitChannel, sp_reported = False, sp_killed = False,
      sp_killTimer = False, sp_log = []\<rparr>"

text \<open>The environment of the child: later entries win.\<close>

definition user_env :: "env_option \<Rightarrow> runner_context \<Rightarrow> room_data \<Rightarrow> string + (string, string) jsmap" where
  "user_env opt ctx data = (case opt of NoEnv \<Rightarrow> Inr [] | FixedEnv e \<Rightarrow> Inr e | EnvOf f \<Rightarrow> f ctx data)"

definition child_env ::
    "(string, string) jsmap \<Rightarrow> (string, string) jsmap \<Rightarrow> runner_context \<Rightarrow> string \<times> string \<Rightarrow> (string, string) jsmap" where
  "child_env processEnv userEnv ctx channel = jm_merge (jm_merge (jm_merge processEnv userEnv) (runner_env ctx)) [channel]"

text \<open>The destructor; \<open>killed\<close> makes it work once.\<close>

definition sp_destructor :: "subprocess \<Rightarrow> subprocess" where
  "sp_destructor s =
     (if sp_killed s then s else sp_say [SignalChild SIGTERM] (s\<lparr>sp_killed := True, sp_killTimer := True\<rparr>))"

text \<open>What the runner did in a step of its own happens here: a call of the destructor runs it.\<close>

definition runner_did :: "runner_call \<Rightarrow> subprocess \<Rightarrow> subprocess" where
  "runner_did c s = (if c = CallDestructor then sp_destructor s else sp_say [ToServer c] s)"

definition with_runner :: "(runner \<Rightarrow> runner) \<Rightarrow> subprocess \<Rightarrow> subprocess" where
  "with_runner f s =
     (let r = f (sp_runner s)
      in fold runner_did (drop (length (rn_calls (sp_runner s))) (rn_calls r)) (s\<lparr>sp_runner := r\<rparr>))"

text \<open>
  The channel is up: the environment is put together and the child is started. Either may throw
  (\<open>spawnThrows\<close>: what \<open>spawn\<close> throws at once, on an empty command for instance); the promise of
  the spawn function is then rejected.
\<close>

definition channel_up ::
    "string list \<Rightarrow> env_option \<Rightarrow> (string, string) jsmap \<Rightarrow> runner_context \<Rightarrow> room_data \<Rightarrow> string option \<Rightarrow> string \<times> string \<Rightarrow>
     subprocess \<Rightarrow> subprocess" where
  "channel_up command env processEnv ctx data spawnThrows channel s =
     (if sp_phase s \<noteq> AwaitChannel then s
      else case user_env env ctx data of
        Inl err \<Rightarrow> with_runner (spawn_rejected err) (s\<lparr>sp_phase := NotStarted\<rparr>)
      | Inr userEnv \<Rightarrow>
          (case spawnThrows of
             Some err \<Rightarrow> with_runner (spawn_rejected err) (s\<lparr>sp_phase := NotStarted\<rparr>)
           | None \<Rightarrow>
               with_runner (spawn_resolved None)
                 (sp_say [SpawnChild command (child_env processEnv userEnv ctx channel)] (s\<lparr>sp_phase := ChildStarted\<rparr>))))"

definition channel_failed :: "string \<Rightarrow> subprocess \<Rightarrow> subprocess" where
  "channel_failed err s =
     (if sp_phase s \<noteq> AwaitChannel then s else with_runner (spawn_rejected err) (s\<lparr>sp_phase := NotStarted\<rparr>))"

definition report :: "int option \<Rightarrow> subprocess \<Rightarrow> subprocess" where
  "report code s =
     (if sp_reported s then s else sp_say [CloseChannel, ToServer (CallStopped code)] (s\<lparr>sp_reported := True\<rparr>))"

text \<open>The child's \<open>exit\<close> and \<open>error\<close> events, which only a started child has.\<close>

definition child_exit :: "int option \<Rightarrow> subprocess \<Rightarrow> subprocess" where
  "child_exit code s = (if sp_phase s = ChildStarted then report code s else s)"

definition child_error :: "string \<Rightarrow> subprocess \<Rightarrow> subprocess" where
  "child_error message s =
     (if sp_phase s = ChildStarted
      then report (Some (-1)) (sp_say [ToServer (CallOnMessage (ErrorMsg (''subprocess spawn failed: '' @ message)))] s)
      else s)"

definition subprocess_kill :: "subprocess \<Rightarrow> subprocess" where
  "subprocess_kill s = with_runner runner_kill s"

definition kill_timeout_fires :: "subprocess \<Rightarrow> subprocess" where
  "kill_timeout_fires s = (if sp_killTimer s then sp_say [SignalChild SIGKILL] (s\<lparr>sp_killTimer := False\<rparr>) else s)"

section \<open>The machine\<close>

datatype subprocess_event =
    SpChannelUp "string option" "string \<times> string"
  | SpChannelFailed string
  | SpExit "int option"
  | SpError string
  | SpKill
  | SpKillTimeout

fun subprocess_step ::
    "string list \<Rightarrow> env_option \<Rightarrow> (string, string) jsmap \<Rightarrow> runner_context \<Rightarrow> room_data \<Rightarrow> subprocess \<Rightarrow> subprocess_event \<Rightarrow>
     subprocess" where
  "subprocess_step command env penv ctx data s (SpChannelUp throws channel) = channel_up command env penv ctx data throws channel s"
| "subprocess_step command env penv ctx data s (SpChannelFailed err) = channel_failed err s"
| "subprocess_step command env penv ctx data s (SpExit code) = child_exit code s"
| "subprocess_step command env penv ctx data s (SpError message) = child_error message s"
| "subprocess_step command env penv ctx data s SpKill = subprocess_kill s"
| "subprocess_step command env penv ctx data s SpKillTimeout = kill_timeout_fires s"

section \<open>The invariant\<close>

definition is_stopped :: "subprocess_action \<Rightarrow> bool" where
  "is_stopped a = (case a of ToServer (CallStopped _) \<Rightarrow> True | _ \<Rightarrow> False)"

definition is_spawn :: "subprocess_action \<Rightarrow> bool" where
  "is_spawn a = (case a of SpawnChild _ _ \<Rightarrow> True | _ \<Rightarrow> False)"

definition happened :: "(subprocess_action \<Rightarrow> bool) \<Rightarrow> subprocess \<Rightarrow> nat" where
  "happened P s = length (filter P (sp_log s))"

text \<open>How far the runner's promise is, by the phase; \<open>killed\<close>: a kill was called.\<close>

definition runner_ok :: "bool \<Rightarrow> subprocess \<Rightarrow> bool" where
  "runner_ok killed s \<longleftrightarrow>
     (let r = sp_runner s in
      (case sp_phase s of
         AwaitChannel \<Rightarrow> rn_pending r \<and> \<not> rn_destructor r \<and> (rn_queuedKill r \<longleftrightarrow> killed) \<and> \<not> sp_killed s
       | ChildStarted \<Rightarrow> \<not> rn_pending r \<and> rn_destructor r \<and> (sp_killed s \<longleftrightarrow> killed)
       | NotStarted \<Rightarrow> \<not> rn_pending r \<and> \<not> rn_destructor r \<and> \<not> sp_killed s))"

definition counts_ok :: "subprocess \<Rightarrow> bool" where
  "counts_ok s \<longleftrightarrow>
     happened is_spawn s = (if sp_phase s = ChildStarted then 1 else 0) \<and>
     happened (\<lambda>a. a = SignalChild SIGTERM) s = (if sp_killed s then 1 else 0) \<and>
     happened (\<lambda>a. a = SignalChild SIGKILL) s = (if sp_killed s \<and> \<not> sp_killTimer s then 1 else 0) \<and>
     happened (\<lambda>a. a = CloseChannel) s = (if sp_reported s then 1 else 0) \<and>
     happened is_stopped s = (if sp_reported s \<or> sp_phase s = NotStarted then 1 else 0) \<and>
     (sp_reported s \<longrightarrow> sp_phase s = ChildStarted) \<and> (sp_killTimer s \<longrightarrow> sp_killed s)"

definition subprocess_inv :: "bool \<Rightarrow> subprocess \<Rightarrow> bool" where
  "subprocess_inv killed s \<longleftrightarrow> runner_ok killed s \<and> counts_ok s"

lemma sp_say_fields [simp]:
  "sp_runner (sp_say as s) = sp_runner s" "sp_phase (sp_say as s) = sp_phase s" "sp_reported (sp_say as s) = sp_reported s"
  "sp_killed (sp_say as s) = sp_killed s" "sp_killTimer (sp_say as s) = sp_killTimer s" "sp_log (sp_say as s) = sp_log s @ as"
  by (simp_all add: sp_say_def)

lemma happened_simps [simp]:
  "happened P (sp_say as s) = happened P s + length (filter P as)"
  "happened P (s\<lparr>sp_runner := r\<rparr>) = happened P s" "happened P (s\<lparr>sp_phase := p\<rparr>) = happened P s"
  "happened P (s\<lparr>sp_reported := b\<rparr>) = happened P s" "happened P (s\<lparr>sp_killed := b\<rparr>) = happened P s"
  "happened P (s\<lparr>sp_killTimer := b\<rparr>) = happened P s"
  by (simp_all add: happened_def)

lemma is_simps [simp]:
  "is_stopped (ToServer (CallStopped c))" "\<not> is_stopped (ToServer (CallOnMessage m))" "\<not> is_stopped (SignalChild g)"
  "\<not> is_stopped CloseChannel" "\<not> is_stopped (SpawnChild w e)" "is_spawn (SpawnChild w e)" "\<not> is_spawn (SignalChild g)"
  "\<not> is_spawn CloseChannel" "\<not> is_spawn (ToServer t)"
  by (simp_all add: is_stopped_def is_spawn_def)

text \<open>The three things a step of the runner comes to.\<close>

lemma with_runner_rejected:
  "rn_pending (sp_runner s) \<Longrightarrow> with_runner (spawn_rejected err) s =
     sp_say [ToServer (CallOnMessage (ErrorMsg err)), ToServer (CallStopped None)]
       (s\<lparr>sp_runner := spawn_rejected err (sp_runner s)\<rparr>)"
  by (simp add: with_runner_def Let_def spawn_rejected_def runner_did_def sp_say_def)

lemma with_runner_resolved:
  "rn_pending (sp_runner s) \<Longrightarrow> with_runner (spawn_resolved None) s =
     (let s1 = s\<lparr>sp_runner := spawn_resolved None (sp_runner s)\<rparr>
      in if rn_queuedKill (sp_runner s) then sp_destructor s1 else s1)"
  by (simp add: with_runner_def Let_def spawn_resolved_def runner_did_def)

lemma with_runner_kill:
  "with_runner runner_kill s =
     (let s1 = s\<lparr>sp_runner := runner_kill (sp_runner s)\<rparr>
      in if rn_destructor (sp_runner s) then sp_destructor s1 else s1)"
  by (simp add: with_runner_def Let_def runner_kill_def runner_did_def)

lemmas subprocess_defs = runner_ok_def counts_ok_def subprocess_inv_def Let_def

lemma inv_rejected:
  "subprocess_inv killed s \<Longrightarrow> sp_phase s = AwaitChannel \<Longrightarrow>
     subprocess_inv killed (with_runner (spawn_rejected err) (s\<lparr>sp_phase := NotStarted\<rparr>))"
  by (auto simp: subprocess_defs with_runner_rejected spawn_rejected_def)

lemma inv_started:
  assumes inv: "subprocess_inv killed s" and phase: "sp_phase s = AwaitChannel"
  shows "subprocess_inv killed (with_runner (spawn_resolved None) (sp_say [SpawnChild w e] (s\<lparr>sp_phase := ChildStarted\<rparr>)))"
proof -
  have run: "rn_pending (sp_runner s)" "rn_queuedKill (sp_runner s) = killed" "\<not> sp_killed s" and counts: "counts_ok s"
    using inv phase by (simp_all add: subprocess_inv_def runner_ok_def Let_def)
  show ?thesis
    using run counts phase
    by (cases killed) (auto simp: with_runner_resolved subprocess_defs spawn_resolved_def sp_destructor_def)
qed

lemma inv_channel_up:
  assumes "subprocess_inv killed s"
  shows "subprocess_inv killed (channel_up command env penv ctx data throws channel s)"
  using assms inv_rejected [OF assms] inv_started [OF assms]
  by (simp add: channel_up_def split: sum.split option.split)

lemma inv_channel_failed: "subprocess_inv killed s \<Longrightarrow> subprocess_inv killed (channel_failed err s)"
  using inv_rejected by (simp add: channel_failed_def)

lemma inv_report: "subprocess_inv killed s \<Longrightarrow> sp_phase s = ChildStarted \<Longrightarrow> subprocess_inv killed (report code s)"
  by (cases "sp_reported s") (auto simp: subprocess_defs report_def)

lemma inv_message: "subprocess_inv killed s \<Longrightarrow> subprocess_inv killed (sp_say [ToServer (CallOnMessage m)] s)"
  unfolding subprocess_defs by (auto split: subprocess_phase.splits)

lemma inv_kill: "subprocess_inv killed s \<Longrightarrow> subprocess_inv True (subprocess_kill s)"
  by (auto simp: subprocess_kill_def with_runner_kill subprocess_defs runner_kill_def sp_destructor_def
      split: subprocess_phase.splits)

lemma inv_kill_timeout: "subprocess_inv killed s \<Longrightarrow> subprocess_inv killed (kill_timeout_fires s)"
  by (auto simp: kill_timeout_fires_def subprocess_defs split: subprocess_phase.splits)

lemma subprocess_inv_step:
  "subprocess_inv killed s \<Longrightarrow> subprocess_inv (killed \<or> e = SpKill) (subprocess_step command env penv ctx data s e)"
  by (cases e)
    (auto simp: child_exit_def child_error_def inv_channel_up inv_channel_failed inv_report inv_message inv_kill_timeout inv_kill)

lemma subprocess_inv_run:
  "subprocess_inv killed s \<Longrightarrow> subprocess_inv (killed \<or> SpKill \<in> set evs) (run (subprocess_step command env penv ctx data) s evs)"
proof (induction evs arbitrary: s killed)
  case (Cons e es)
  from Cons.IH [OF subprocess_inv_step [OF Cons.prems, of e]] show ?case by (simp add: disj_assoc eq_commute)
qed simp

lemma subprocess_inv_new: "subprocess_inv False new_subprocess"
  by (simp add: subprocess_defs new_subprocess_def runner_spawn_def happened_def)

section \<open>The life of a child, by its events\<close>

text \<open>
  What the contract of the runner says, of the events alone: the child is waited for, could not be
  started, runs, or has ended with a code. The first of its \<open>exit\<close> and \<open>error\<close> events ends it.
\<close>

datatype child_life = LifeWaiting | LifeFailed | LifeStarted | LifeEnded "int option"

definition start_throws :: "env_option \<Rightarrow> runner_context \<Rightarrow> room_data \<Rightarrow> string option \<Rightarrow> bool" where
  "start_throws env ctx data spawnThrows \<longleftrightarrow> isl (user_env env ctx data) \<or> spawnThrows \<noteq> None"

fun life_step :: "env_option \<Rightarrow> runner_context \<Rightarrow> room_data \<Rightarrow> child_life \<Rightarrow> subprocess_event \<Rightarrow> child_life" where
  "life_step env ctx data LifeWaiting (SpChannelFailed err) = LifeFailed"
| "life_step env ctx data LifeWaiting (SpChannelUp throws channel) =
     (if start_throws env ctx data throws then LifeFailed else LifeStarted)"
| "life_step env ctx data LifeStarted (SpExit code) = LifeEnded code"
| "life_step env ctx data LifeStarted (SpError message) = LifeEnded (Some (-1))"
| "life_step env ctx data l e = l"

definition child_life :: "env_option \<Rightarrow> runner_context \<Rightarrow> room_data \<Rightarrow> subprocess_event list \<Rightarrow> child_life" where
  "child_life env ctx data evs = foldl (life_step env ctx data) LifeWaiting evs"

definition was_started :: "child_life \<Rightarrow> bool" where
  "was_started l \<longleftrightarrow> l \<noteq> LifeWaiting \<and> l \<noteq> LifeFailed"

definition has_ended :: "child_life \<Rightarrow> bool" where
  "has_ended l \<longleftrightarrow> was_started l \<and> l \<noteq> LifeStarted"

text \<open>The exit reports a life calls for, with their codes; \<open>None\<close> is the \<open>null\<close> of the source.\<close>

definition due_reports :: "child_life \<Rightarrow> int option list" where
  "due_reports l = (case l of LifeWaiting \<Rightarrow> [] | LifeStarted \<Rightarrow> [] | LifeFailed \<Rightarrow> [None] | LifeEnded code \<Rightarrow> [code])"

text \<open>The reports of the log.\<close>

definition stop_code :: "subprocess_action \<Rightarrow> int option option" where
  "stop_code a = (case a of ToServer (CallStopped code) \<Rightarrow> Some code | _ \<Rightarrow> None)"

definition stop_reports :: "subprocess \<Rightarrow> int option list" where
  "stop_reports s = List.map_filter stop_code (sp_log s)"

text \<open>The kill timeout fired on a child that was started and killed before.\<close>

definition kill_overdue :: "env_option \<Rightarrow> runner_context \<Rightarrow> room_data \<Rightarrow> subprocess_event list \<Rightarrow> bool" where
  "kill_overdue env ctx data evs \<longleftrightarrow>
     (\<exists>before later. evs = before @ SpKillTimeout # later \<and> SpKill \<in> set before \<and>
        was_started (child_life env ctx data before))"

lemma child_life_simps [simp]:
  "child_life env ctx data [] = LifeWaiting"
  "child_life env ctx data (evs @ [e]) = life_step env ctx data (child_life env ctx data evs) e"
  by (simp_all add: child_life_def)

lemma stop_reports_simps [simp]:
  "stop_reports (sp_say as s) = stop_reports s @ List.map_filter stop_code as"
  "stop_reports (s\<lparr>sp_runner := r\<rparr>) = stop_reports s" "stop_reports (s\<lparr>sp_phase := p\<rparr>) = stop_reports s"
  "stop_reports (s\<lparr>sp_reported := b\<rparr>) = stop_reports s" "stop_reports (s\<lparr>sp_killed := b\<rparr>) = stop_reports s"
  "stop_reports (s\<lparr>sp_killTimer := b\<rparr>) = stop_reports s"
  by (simp_all add: stop_reports_def List.map_filter_def)

lemma stop_code_simps [simp]:
  "stop_code (SignalChild g) = None" "stop_code CloseChannel = None" "stop_code (SpawnChild w e) = None"
  "stop_code (ToServer (CallOnMessage m)) = None" "stop_code (ToServer (CallStopped c)) = Some c"
  by (simp_all add: stop_code_def)

text \<open>The machine is where the events put the child, and has reported what they call for.\<close>

definition life_ok :: "child_life \<Rightarrow> subprocess \<Rightarrow> bool" where
  "life_ok l s \<longleftrightarrow>
     sp_phase s = (if l = LifeWaiting then AwaitChannel else if l = LifeFailed then NotStarted else ChildStarted) \<and>
     (sp_reported s \<longleftrightarrow> has_ended l) \<and> stop_reports s = due_reports l"

lemmas life_defs = life_ok_def has_ended_def was_started_def due_reports_def

lemma sp_destructor_life [simp]:
  "sp_phase (sp_destructor s) = sp_phase s" "sp_reported (sp_destructor s) = sp_reported s"
  "stop_reports (sp_destructor s) = stop_reports s"
  by (simp_all add: sp_destructor_def)

lemma awaiting_pending: "subprocess_inv killed s \<Longrightarrow> sp_phase s = AwaitChannel \<Longrightarrow> rn_pending (sp_runner s)"
  by (simp add: subprocess_inv_def runner_ok_def Let_def)

lemma life_rejected:
  "life_ok LifeWaiting s \<Longrightarrow> rn_pending (sp_runner s) \<Longrightarrow>
     life_ok LifeFailed (with_runner (spawn_rejected err) (s\<lparr>sp_phase := NotStarted\<rparr>))"
  by (simp add: life_defs with_runner_rejected)

lemma life_resolved:
  "life_ok LifeWaiting s \<Longrightarrow> rn_pending (sp_runner s) \<Longrightarrow>
     life_ok LifeStarted (with_runner (spawn_resolved None) (sp_say [SpawnChild w e] (s\<lparr>sp_phase := ChildStarted\<rparr>)))"
  by (simp add: life_defs with_runner_resolved Let_def)

lemma life_waiting: "life_ok l s \<Longrightarrow> sp_phase s = AwaitChannel \<longleftrightarrow> l = LifeWaiting"
  by (simp add: life_ok_def)

lemma life_step_else:
  "l \<noteq> LifeWaiting \<Longrightarrow> life_step env ctx data l (SpChannelUp throws channel) = l"
  "l \<noteq> LifeWaiting \<Longrightarrow> life_step env ctx data l (SpChannelFailed err) = l"
  by (cases l; simp)+

lemma life_channel_up:
  assumes life: "life_ok l s" and inv: "subprocess_inv killed s"
  shows "life_ok (life_step env ctx data l (SpChannelUp throws channel)) (channel_up command env penv ctx data throws channel s)"
proof (cases "l = LifeWaiting")
  case True
  with life have phase: "sp_phase s = AwaitChannel" and waiting: "life_ok LifeWaiting s" by (simp_all add: life_waiting)
  note after = life_rejected [OF waiting awaiting_pending [OF inv phase]] life_resolved [OF waiting awaiting_pending [OF inv phase]]
  from True phase show ?thesis
    by (simp add: channel_up_def start_throws_def after split: sum.split option.split)
next
  case False
  with life have "sp_phase s \<noteq> AwaitChannel" by (simp add: life_waiting)
  with False life show ?thesis by (simp add: channel_up_def life_step_else)
qed

lemma life_channel_failed:
  assumes life: "life_ok l s" and inv: "subprocess_inv killed s"
  shows "life_ok (life_step env ctx data l (SpChannelFailed err)) (channel_failed err s)"
proof (cases "l = LifeWaiting")
  case True
  with life have phase: "sp_phase s = AwaitChannel" and waiting: "life_ok LifeWaiting s" by (simp_all add: life_waiting)
  from True phase show ?thesis by (simp add: channel_failed_def life_rejected [OF waiting awaiting_pending [OF inv phase]])
next
  case False
  with life have "sp_phase s \<noteq> AwaitChannel" by (simp add: life_waiting)
  with False life show ?thesis by (simp add: channel_failed_def life_step_else)
qed

lemma life_exit: "life_ok l s \<Longrightarrow> life_ok (life_step env ctx data l (SpExit code)) (child_exit code s)"
  by (cases l) (simp_all add: life_defs child_exit_def report_def)

lemma life_error: "life_ok l s \<Longrightarrow> life_ok (life_step env ctx data l (SpError message)) (child_error message s)"
  by (cases l) (simp_all add: life_defs child_error_def report_def)

lemma life_killed:
  "life_ok l s \<Longrightarrow> life_ok l (subprocess_kill s)"
  "life_ok l s \<Longrightarrow> life_ok l (kill_timeout_fires s)"
  by (simp_all add: life_ok_def subprocess_kill_def with_runner_kill kill_timeout_fires_def Let_def)

lemma life_ok_step:
  "life_ok l s \<Longrightarrow> subprocess_inv killed s \<Longrightarrow>
     life_ok (life_step env ctx data l e) (subprocess_step command env penv ctx data s e)"
  by (cases e) (simp_all add: life_channel_up life_channel_failed life_exit life_error life_killed)

lemma subprocess_inv_reached:
  "subprocess_inv (SpKill \<in> set evs) (run (subprocess_step command env penv ctx data) new_subprocess evs)"
  using subprocess_inv_run [OF subprocess_inv_new, of evs command env penv ctx data] by simp

lemma life_ok_reached:
  "life_ok (child_life env ctx data evs) (run (subprocess_step command env penv ctx data) new_subprocess evs)"
proof (induction evs rule: rev_induct)
  case Nil
  show ?case by (simp add: life_defs new_subprocess_def stop_reports_def)
next
  case (snoc e evs)
  from life_ok_step [OF snoc.IH subprocess_inv_reached] show ?case by (simp add: run_append)
qed

text \<open>Only the timeout uses up the timer of a kill.\<close>

definition timer_spent :: "subprocess \<Rightarrow> bool" where
  "timer_spent s \<longleftrightarrow> sp_killed s \<and> \<not> sp_killTimer s"

lemma timer_spent_simps [simp]:
  "timer_spent (sp_say as s) = timer_spent s" "timer_spent (s\<lparr>sp_runner := r\<rparr>) = timer_spent s"
  "timer_spent (s\<lparr>sp_phase := p\<rparr>) = timer_spent s" "timer_spent (s\<lparr>sp_reported := b\<rparr>) = timer_spent s"
  "timer_spent (sp_destructor s) = timer_spent s" "timer_spent (runner_did c s) = timer_spent s"
  by (simp_all add: timer_spent_def sp_destructor_def runner_did_def)

lemma timer_spent_with_runner [simp]: "timer_spent (with_runner f s) = timer_spent s"
proof -
  have "timer_spent (fold runner_did cs s) = timer_spent s" for cs and s by (induction cs arbitrary: s) simp_all
  then show ?thesis by (simp add: with_runner_def Let_def)
qed

lemma timer_step:
  "e \<noteq> SpKillTimeout \<Longrightarrow> timer_spent (subprocess_step command env penv ctx data s e) = timer_spent s"
  by (cases e)
    (simp_all add: channel_up_def channel_failed_def child_exit_def child_error_def report_def subprocess_kill_def
      split: sum.split option.split)

lemma timer_fires: "timer_spent (kill_timeout_fires s) \<longleftrightarrow> sp_killed s"
  by (auto simp: timer_spent_def kill_timeout_fires_def)

lemma kill_overdueI:
  "evs = before @ SpKillTimeout # later \<Longrightarrow> SpKill \<in> set before \<Longrightarrow> was_started (child_life env ctx data before) \<Longrightarrow>
     kill_overdue env ctx data evs"
  unfolding kill_overdue_def by blast

lemma kill_overdue_snoc:
  "kill_overdue env ctx data (evs @ [e]) \<longleftrightarrow>
     kill_overdue env ctx data evs \<or> e = SpKillTimeout \<and> SpKill \<in> set evs \<and> was_started (child_life env ctx data evs)"
    (is "?L \<longleftrightarrow> ?A \<or> ?B")
proof
  assume ?L
  then obtain before later where evs: "evs @ [e] = before @ SpKillTimeout # later"
    and first: "SpKill \<in> set before" "was_started (child_life env ctx data before)"
    unfolding kill_overdue_def by blast
  show "?A \<or> ?B"
  proof (cases later rule: rev_cases)
    case Nil
    with evs first show ?thesis by simp
  next
    case (snoc l x)
    with evs have "evs = before @ SpKillTimeout # l" by simp
    from kill_overdueI [OF this first] show ?thesis by simp
  qed
next
  assume "?A \<or> ?B"
  then show ?L
  proof
    assume ?A
    then obtain before later where "evs = before @ SpKillTimeout # later" "SpKill \<in> set before"
      "was_started (child_life env ctx data before)" unfolding kill_overdue_def by blast
    then show ?L by (intro kill_overdueI [where later = "later @ [e]"]) simp_all
  next
    assume ?B
    then show ?L by (intro kill_overdueI [where before = evs and later = "[]"]) simp_all
  qed
qed

lemma sp_killed_reached:
  "sp_killed (run (subprocess_step command env penv ctx data) new_subprocess evs) \<longleftrightarrow>
     was_started (child_life env ctx data evs) \<and> SpKill \<in> set evs"
  using subprocess_inv_reached [of evs command env penv ctx data] life_ok_reached [of env ctx data evs command penv]
  by (auto simp: subprocess_inv_def runner_ok_def life_ok_def was_started_def Let_def split: if_splits)

lemma kill_overdue_reached:
  "timer_spent (run (subprocess_step command env penv ctx data) new_subprocess evs) \<longleftrightarrow> kill_overdue env ctx data evs"
proof (induction evs rule: rev_induct)
  case Nil
  show ?case by (simp add: timer_spent_def new_subprocess_def kill_overdue_def)
next
  case (snoc e evs)
  show ?case
  proof (cases "e = SpKillTimeout")
    case True
    have "kill_overdue env ctx data evs \<Longrightarrow> was_started (child_life env ctx data evs) \<and> SpKill \<in> set evs"
      using snoc.IH sp_killed_reached [of command env penv ctx data evs] by (simp add: timer_spent_def)
    with True show ?thesis
      using sp_killed_reached [of command env penv ctx data evs] by (auto simp: run_append kill_overdue_snoc timer_fires)
  next
    case False
    with snoc.IH timer_step [OF False] show ?thesis by (simp add: run_append kill_overdue_snoc)
  qed
qed

section \<open>What a kill and an exit come to\<close>

text \<open>
  C22: Whatever the order of a child's events, what the runner does follows from the events alone.
  A child is started at most once, when the channel is up and neither the environment nor
  \<open>spawn\<close> throws. The first \<open>exit\<close> or \<open>error\<close> event of the started child, and no later one, is reported to
  the server, once, with its code (\<open>-1\<close> for an \<open>error\<close>), and closes the channel once; a child
  that could not be started is reported once with \<open>null\<close> and closes nothing; nothing is reported
  before. One \<open>SIGTERM\<close> is sent exactly if the child was started and a kill was called, however
  early, and one \<open>SIGKILL\<close> exactly if the kill timeout fired after that.
\<close>

theorem subprocess_lifecycle:
  "let s = run (subprocess_step command env penv ctx data) new_subprocess evs;
       l = child_life env ctx data evs
   in happened is_spawn s = (if was_started l then 1 else 0) \<and>
      stop_reports s = due_reports l \<and>
      happened (\<lambda>a. a = CloseChannel) s = (if has_ended l then 1 else 0) \<and>
      happened (\<lambda>a. a = SignalChild SIGTERM) s = (if was_started l \<and> SpKill \<in> set evs then 1 else 0) \<and>
      happened (\<lambda>a. a = SignalChild SIGKILL) s = (if kill_overdue env ctx data evs then 1 else 0)"
proof -
  define s where "s = run (subprocess_step command env penv ctx data) new_subprocess evs"
  have "counts_ok s" using subprocess_inv_reached [of evs command env penv ctx data] by (simp add: s_def subprocess_inv_def)
  moreover have "life_ok (child_life env ctx data evs) s" by (simp add: s_def life_ok_reached)
  moreover have "sp_killed s \<longleftrightarrow> was_started (child_life env ctx data evs) \<and> SpKill \<in> set evs"
    by (simp add: s_def sp_killed_reached)
  moreover have "(sp_killed s \<and> \<not> sp_killTimer s) \<longleftrightarrow> kill_overdue env ctx data evs"
    using kill_overdue_reached [of command env penv ctx data evs] by (simp add: s_def timer_spent_def)
  ultimately show ?thesis
    unfolding s_def [symmetric] Let_def counts_ok_def life_ok_def was_started_def by auto
qed

definition demo_context :: runner_context where
  "demo_context = \<lparr>rx_roomId = ''r1'', rx_roomType = ''game'', rx_serverId = ''v'', rx_roomSecret = ''s''\<rparr>"

lemma subprocess_lifecycle_witness:
  "let s = run (subprocess_step [''bun''] NoEnv [] demo_context []) new_subprocess
       [SpKill, SpChannelUp None (''GATHO_NOTIFY_SOCKET'', ''uds:/x''), SpExit (Some 0), SpError ''late'']
   in happened (\<lambda>a. a = SignalChild SIGTERM) s = 1 \<and> stop_reports s = [Some 0] \<and> happened (\<lambda>a. a = CloseChannel) s = 1"
proof -
  let ?evs = "[SpKill, SpChannelUp None (''GATHO_NOTIFY_SOCKET'', ''uds:/x''), SpExit (Some 0), SpError ''late'']"
  have "child_life NoEnv demo_context [] ?evs = LifeEnded (Some 0)"
    by (simp add: child_life_def start_throws_def user_env_def)
  then show ?thesis
    using subprocess_lifecycle [of "[''bun'']" NoEnv "[]" demo_context "[]" ?evs]
    by (simp add: Let_def was_started_def has_ended_def due_reports_def)
qed

section \<open>The environment of the child\<close>

text \<open>The runner's entries and the channel's win over the host's and the user's.\<close>

lemma child_env_entries:
  "jm_get (child_env penv uenv ctx (''GATHO_NOTIFY_SOCKET'', uri)) ''GATHO_ROOM_ID'' = Some (rx_roomId ctx)"
  "jm_get (child_env penv uenv ctx (''GATHO_NOTIFY_SOCKET'', uri)) ''GATHO_ROOM_TYPE'' = Some (rx_roomType ctx)"
  "jm_get (child_env penv uenv ctx (''GATHO_NOTIFY_SOCKET'', uri)) ''GATHO_SERVER_ID'' = Some (rx_serverId ctx)"
  "jm_get (child_env penv uenv ctx (''GATHO_NOTIFY_SOCKET'', uri)) ''GATHO_ROOM_SECRET'' = Some (rx_roomSecret ctx)"
  "jm_get (child_env penv uenv ctx (''GATHO_NOTIFY_SOCKET'', uri)) ''GATHO_NOTIFY_SOCKET'' = Some uri"
  by (simp_all add: child_env_def jm_get_merge jm_get_Cons runner_env_def)

lemma child_env_user:
  "k \<notin> {''GATHO_ROOM_ID'', ''GATHO_ROOM_TYPE'', ''GATHO_SERVER_ID'', ''GATHO_ROOM_SECRET'', ''GATHO_NOTIFY_SOCKET''} \<Longrightarrow>
     jm_get (child_env penv uenv ctx (''GATHO_NOTIFY_SOCKET'', uri)) k =
       (case jm_get (rev uenv) k of Some v \<Rightarrow> Some v | None \<Rightarrow> jm_get penv k)"
  by (simp add: child_env_def jm_get_merge jm_get_Cons runner_env_def split: option.split)

end
