(* ===== verification/Workerd_Host.thy ===== *)
theory Workerd_Host
  imports Subprocess
begin

text \<open>
  \<open>examples/workerd/host/host.ts\<close>: the runner that puts rooms as isolates into one \<open>workerd\<close> process
  it starts on demand and counts the users of. A bring-up attempt and the host it gives have one
  number; a spawn is a call of the runner's function, cut at its awaits. The operating system, the
  bundler and the harness in the process are the environment: what they answer are events. A kill
  that came before the destructor is known is kept by \<open>Runner\<close>, so it is an event once it is known.
\<close>

section \<open>State\<close>

datatype host_phase = Preparing | Starting | Up | BringUpFailed

record workerd_host =
  wh_phase :: host_phase
  wh_running :: bool
  wh_tick :: bool
  wh_refcount :: int
  wh_resident :: "(string, nat) jsmap"

datatype spawn_phase = AwaitHost | AwaitChannel | AwaitBundle | AwaitAdmission | HasDestructor | SpawnFailed

text \<open>
  The last three fields are history: whether this spawn counts in the host's \<open>refcount\<close>, how often
  its destructor was called and how often it got to its end.
\<close>

record host_spawn =
  sw_roomId :: string
  sw_host :: nat
  sw_phase :: spawn_phase
  sw_counted :: bool
  sw_runs :: nat
  sw_done :: nat

datatype host_action =
    StartProcess nat
  | SignalProcess nat child_signal
  | PostRoom nat string
  | DeleteRoom nat string
  | CloseListener nat
  | SpawnRejects nat
  | StoppedCall nat "int option"

record host_runner =
  hr_slot :: "nat option"
  hr_hosts :: "(nat, workerd_host) jsmap"
  hr_next :: nat
  hr_spawns :: "(nat, host_spawn) jsmap"
  hr_nextSpawn :: nat
  hr_log :: "host_action list"

definition new_host_runner :: host_runner where
  "new_host_runner = \<lparr>hr_slot = None, hr_hosts = [], hr_next = 0, hr_spawns = [], hr_nextSpawn = 0, hr_log = []\<rparr>"

definition hsay :: "host_action list \<Rightarrow> host_runner \<Rightarrow> host_runner" where
  "hsay as s = s\<lparr>hr_log := hr_log s @ as\<rparr>"

definition with_host :: "nat \<Rightarrow> (workerd_host \<Rightarrow> workerd_host) \<Rightarrow> host_runner \<Rightarrow> host_runner" where
  "with_host a f s =
     (case jm_get (hr_hosts s) a of None \<Rightarrow> s | Some h \<Rightarrow> s\<lparr>hr_hosts := jm_set (hr_hosts s) a (f h)\<rparr>)"

definition with_spawn :: "nat \<Rightarrow> (host_spawn \<Rightarrow> host_spawn) \<Rightarrow> host_runner \<Rightarrow> host_runner" where
  "with_spawn i f s =
     (case jm_get (hr_spawns s) i of None \<Rightarrow> s | Some w \<Rightarrow> s\<lparr>hr_spawns := jm_set (hr_spawns s) i (f w)\<rparr>)"

definition phase_of :: "host_runner \<Rightarrow> nat \<Rightarrow> host_phase option" where
  "phase_of s a = map_option wh_phase (jm_get (hr_hosts s) a)"

section \<open>The host singleton\<close>

text \<open>The attempt in flight is cached, not the host.\<close>

definition ensureHost :: "host_runner \<Rightarrow> nat \<times> host_runner" where
  "ensureHost s =
     (case hr_slot s of Some a \<Rightarrow> (a, s)
      | None \<Rightarrow>
          (hr_next s,
           s\<lparr>hr_slot := Some (hr_next s), hr_next := Suc (hr_next s),
             hr_hosts := jm_set (hr_hosts s) (hr_next s)
               \<lparr>wh_phase = Preparing, wh_running = False, wh_tick = False, wh_refcount = 0, wh_resident = []\<rparr>\<rparr>))"

definition markGone :: "nat \<Rightarrow> host_runner \<Rightarrow> host_runner" where
  "markGone a s = (if hr_slot s = Some a then s\<lparr>hr_slot := None\<rparr> else s)"

text \<open>
  \<open>bringUpHost\<close>: ports, harness bundle and configuration are there and the process is started; one of
  them failed; the admin port answers; it did not in time.
\<close>

definition process_started :: "nat \<Rightarrow> host_runner \<Rightarrow> host_runner" where
  "process_started a s =
     (if phase_of s a \<noteq> Some Preparing then s
      else hsay [StartProcess a] (with_host a (\<lambda>h. h\<lparr>wh_phase := Starting, wh_running := True, wh_tick := True\<rparr>) s))"

definition preparation_failed :: "nat \<Rightarrow> host_runner \<Rightarrow> host_runner" where
  "preparation_failed a s =
     (if phase_of s a \<noteq> Some Preparing then s
      else markGone a (with_host a (\<lambda>h. h\<lparr>wh_phase := BringUpFailed\<rparr>) s))"

definition port_settled :: "nat \<Rightarrow> bool \<Rightarrow> host_runner \<Rightarrow> host_runner" where
  "port_settled a ok s =
     (if phase_of s a \<noteq> Some Starting then s
      else if ok then with_host a (\<lambda>h. h\<lparr>wh_phase := Up\<rparr>) s
      else markGone a (hsay [SignalProcess a SIGKILL] (with_host a (\<lambda>h. h\<lparr>wh_phase := BringUpFailed, wh_tick := False\<rparr>) s)))"

text \<open>The \<open>exit\<close> event: every resident room is reported as stopped.\<close>

definition process_exited :: "nat \<Rightarrow> int option \<Rightarrow> host_runner \<Rightarrow> host_runner" where
  "process_exited a code s =
     (case jm_get (hr_hosts s) a of None \<Rightarrow> s
      | Some h \<Rightarrow>
          if \<not> wh_running h then s
          else markGone a (with_host a (\<lambda>h. h\<lparr>wh_resident := [], wh_tick := False, wh_running := False\<rparr>)
                 (hsay (map (\<lambda>i. StoppedCall i code) (jm_values (wh_resident h))) s)))"

definition teardownHost :: "nat \<Rightarrow> host_runner \<Rightarrow> host_runner" where
  "teardownHost a s = hsay [SignalProcess a SIGTERM] (markGone a (with_host a (\<lambda>h. h\<lparr>wh_tick := False\<rparr>) s))"

text \<open>The end both ways out of a host have in common.\<close>

definition release_host :: "nat \<Rightarrow> host_runner \<Rightarrow> host_runner" where
  "release_host a s =
     (let s1 = with_host a (\<lambda>h. h\<lparr>wh_refcount := wh_refcount h - 1\<rparr>) s in
      case jm_get (hr_hosts s1) a of None \<Rightarrow> s1
      | Some h \<Rightarrow> if wh_refcount h \<le> 0 then teardownHost a s1 else s1)"

section \<open>A spawn\<close>

definition spawn_room :: "string \<Rightarrow> host_runner \<Rightarrow> host_runner" where
  "spawn_room roomId s =
     (case ensureHost s of (a, s1) \<Rightarrow>
        s1\<lparr>hr_nextSpawn := Suc (hr_nextSpawn s1),
           hr_spawns := jm_set (hr_spawns s1) (hr_nextSpawn s1)
             \<lparr>sw_roomId = roomId, sw_host = a, sw_phase = AwaitHost, sw_counted = False, sw_runs = 0, sw_done = 0\<rparr>\<rparr>)"

definition spawn_rejects :: "nat \<Rightarrow> host_runner \<Rightarrow> host_runner" where
  "spawn_rejects i s = hsay [SpawnRejects i] (with_spawn i (\<lambda>w. w\<lparr>sw_phase := SpawnFailed\<rparr>) s)"

definition host_settled :: "nat \<Rightarrow> host_runner \<Rightarrow> host_runner" where
  "host_settled i s =
     (case jm_get (hr_spawns s) i of None \<Rightarrow> s
      | Some w \<Rightarrow>
          if sw_phase w \<noteq> AwaitHost then s
          else case phase_of s (sw_host w) of
            Some Up \<Rightarrow>
              with_spawn i (\<lambda>w. w\<lparr>sw_phase := AwaitChannel, sw_counted := True\<rparr>)
                (with_host (sw_host w) (\<lambda>h. h\<lparr>wh_refcount := wh_refcount h + 1\<rparr>) s)
          | Some BringUpFailed \<Rightarrow> spawn_rejects i s
          | _ \<Rightarrow> s)"

definition channel_settled :: "nat \<Rightarrow> bool \<Rightarrow> host_runner \<Rightarrow> host_runner" where
  "channel_settled i ok s =
     (case jm_get (hr_spawns s) i of None \<Rightarrow> s
      | Some w \<Rightarrow>
          if sw_phase w \<noteq> AwaitChannel then s
          else if ok then with_spawn i (\<lambda>w. w\<lparr>sw_phase := AwaitBundle\<rparr>) s else spawn_rejects i s)"

definition bundle_settled :: "nat \<Rightarrow> bool \<Rightarrow> host_runner \<Rightarrow> host_runner" where
  "bundle_settled i ok s =
     (case jm_get (hr_spawns s) i of None \<Rightarrow> s
      | Some w \<Rightarrow>
          if sw_phase w \<noteq> AwaitBundle then s
          else if ok then
            hsay [PostRoom i (sw_roomId w)] (with_spawn i (\<lambda>w. w\<lparr>sw_phase := AwaitAdmission\<rparr>)
              (with_host (sw_host w) (\<lambda>h. h\<lparr>wh_resident := jm_set (wh_resident h) (sw_roomId w) i\<rparr>) s))
          else spawn_rejects i s)"

definition leave_host :: "host_spawn \<Rightarrow> host_runner \<Rightarrow> host_runner" where
  "leave_host w s = with_host (sw_host w) (\<lambda>h. h\<lparr>wh_resident := jm_del (wh_resident h) (sw_roomId w)\<rparr>) s"

text \<open>The answer to the admission request: admitted, refused, or no answer at all.\<close>

definition admission_settled :: "nat \<Rightarrow> bool option \<Rightarrow> host_runner \<Rightarrow> host_runner" where
  "admission_settled i answer s =
     (case jm_get (hr_spawns s) i of None \<Rightarrow> s
      | Some w \<Rightarrow>
          if sw_phase w \<noteq> AwaitAdmission then s
          else case answer of
            Some True \<Rightarrow> with_spawn i (\<lambda>w. w\<lparr>sw_phase := HasDestructor\<rparr>) s
          | Some False \<Rightarrow>
              hsay [SpawnRejects i] (release_host (sw_host w) (hsay [CloseListener i]
                (with_spawn i (\<lambda>w. w\<lparr>sw_counted := False, sw_phase := SpawnFailed\<rparr>) (leave_host w s))))
          | None \<Rightarrow> spawn_rejects i s)"

text \<open>The destructor up to its await, and from there.\<close>

definition host_destructor :: "nat \<Rightarrow> host_runner \<Rightarrow> host_runner" where
  "host_destructor i s =
     (case jm_get (hr_spawns s) i of None \<Rightarrow> s
      | Some w \<Rightarrow>
          if sw_phase w \<noteq> HasDestructor then s
          else hsay [DeleteRoom i (sw_roomId w)] (with_spawn i (\<lambda>w. w\<lparr>sw_runs := Suc (sw_runs w)\<rparr>) (leave_host w s)))"

definition delete_settled :: "nat \<Rightarrow> host_runner \<Rightarrow> host_runner" where
  "delete_settled i s =
     (case jm_get (hr_spawns s) i of None \<Rightarrow> s
      | Some w \<Rightarrow>
          if sw_done w \<ge> sw_runs w then s
          else release_host (sw_host w) (hsay [CloseListener i] (with_spawn i (\<lambda>w. w\<lparr>sw_done := Suc (sw_done w)\<rparr>) s)))"

section \<open>The runner as a machine\<close>

datatype host_event =
    HrSpawn string
  | HrProcessStarted nat
  | HrPreparationFailed nat
  | HrPort nat bool
  | HrExit nat "int option"
  | HrHost nat
  | HrChannel nat bool
  | HrBundle nat bool
  | HrAdmission nat "bool option"
  | HrKill nat
  | HrDeleted nat

fun host_step :: "host_runner \<Rightarrow> host_event \<Rightarrow> host_runner" where
  "host_step s (HrSpawn roomId) = spawn_room roomId s"
| "host_step s (HrProcessStarted a) = process_started a s"
| "host_step s (HrPreparationFailed a) = preparation_failed a s"
| "host_step s (HrPort a ok) = port_settled a ok s"
| "host_step s (HrExit a code) = process_exited a code s"
| "host_step s (HrHost i) = host_settled i s"
| "host_step s (HrChannel i ok) = channel_settled i ok s"
| "host_step s (HrBundle i ok) = bundle_settled i ok s"
| "host_step s (HrAdmission i answer) = admission_settled i answer s"
| "host_step s (HrKill i) = host_destructor i s"
| "host_step s (HrDeleted i) = delete_settled i s"

section \<open>Counting users\<close>

lemma with_host_fields [simp]:
  "hr_slot (with_host a f s) = hr_slot s" "hr_next (with_host a f s) = hr_next s"
  "hr_spawns (with_host a f s) = hr_spawns s" "hr_nextSpawn (with_host a f s) = hr_nextSpawn s" "hr_log (with_host a f s) = hr_log s"
  "jm_get (hr_hosts (with_host a f s)) b = (if b = a then map_option f (jm_get (hr_hosts s) a) else jm_get (hr_hosts s) b)"
  by (auto simp: with_host_def split: option.split)

lemma with_spawn_fields [simp]:
  "hr_slot (with_spawn i f s) = hr_slot s" "hr_next (with_spawn i f s) = hr_next s"
  "hr_hosts (with_spawn i f s) = hr_hosts s" "hr_nextSpawn (with_spawn i f s) = hr_nextSpawn s" "hr_log (with_spawn i f s) = hr_log s"
  "jm_get (hr_spawns (with_spawn i f s)) j = (if j = i then map_option f (jm_get (hr_spawns s) i) else jm_get (hr_spawns s) j)"
  by (auto simp: with_spawn_def split: option.split)

lemma hsay_fields [simp]:
  "hr_slot (hsay as s) = hr_slot s" "hr_next (hsay as s) = hr_next s" "hr_hosts (hsay as s) = hr_hosts s"
  "hr_spawns (hsay as s) = hr_spawns s" "hr_nextSpawn (hsay as s) = hr_nextSpawn s" "hr_log (hsay as s) = hr_log s @ as"
  by (simp_all add: hsay_def)

lemma markGone_fields [simp]:
  "hr_slot (markGone a s) = (if hr_slot s = Some a then None else hr_slot s)" "hr_next (markGone a s) = hr_next s"
  "hr_hosts (markGone a s) = hr_hosts s" "hr_spawns (markGone a s) = hr_spawns s"
  "hr_nextSpawn (markGone a s) = hr_nextSpawn s" "hr_log (markGone a s) = hr_log s"
  by (simp_all add: markGone_def)

text \<open>How often a spawn counts for a host: once while it uses it, and each end of its destructor takes one off.\<close>

definition held :: "nat \<Rightarrow> host_spawn \<Rightarrow> int" where
  "held a w = (if sw_host w = a then (if sw_counted w then 1 else 0) - int (sw_done w) else 0)"

definition held_by :: "nat \<Rightarrow> (nat, host_spawn) jsmap \<Rightarrow> nat \<Rightarrow> int" where
  "held_by a spawns i = (case jm_get spawns i of Some w \<Rightarrow> held a w | None \<Rightarrow> 0)"

definition users :: "nat \<Rightarrow> host_runner \<Rightarrow> int" where
  "users a s = (\<Sum>i<hr_nextSpawn s. held_by a (hr_spawns s) i)"

definition refs :: "host_runner \<Rightarrow> nat \<Rightarrow> int" where
  "refs s a = (case jm_get (hr_hosts s) a of Some h \<Rightarrow> wh_refcount h | None \<Rightarrow> 0)"

lemma sum_change:
  fixes f g :: "nat \<Rightarrow> int"
  assumes "i < n" and "\<And>j. j \<noteq> i \<Longrightarrow> g j = f j"
  shows "(\<Sum>j<n. g j) = (\<Sum>j<n. f j) - f i + g i"
proof -
  have "(\<Sum>j<n. h j) = h i + (\<Sum>j\<in>{..<n} - {i}. h j)" for h :: "nat \<Rightarrow> int"
    using assms(1) by (intro sum.remove) simp_all
  from this [of g] this [of f] show ?thesis
    using sum.cong [of "{..<n} - {i}" "{..<n} - {i}" g f] assms(2) by simp
qed

lemma users_with_spawn:
  "i < hr_nextSpawn s \<Longrightarrow> jm_get (hr_spawns s) i = Some w \<Longrightarrow> users a (with_spawn i f s) = users a s - held a w + held a (f w)"
  unfolding users_def with_spawn_fields
  by (subst sum_change [where i = i and f = "held_by a (hr_spawns s)"]) (simp_all add: held_by_def)

lemma users_fields: "hr_spawns s' = hr_spawns s \<Longrightarrow> hr_nextSpawn s' = hr_nextSpawn s \<Longrightarrow> users a s' = users a s"
  by (simp add: users_def)

lemma users_simps [simp]: "users a (with_host b f s) = users a s" "users a (hsay as s) = users a s" "users a (markGone b s) = users a s"
  by (simp_all add: users_def)

lemma refs_simps [simp]:
  "refs (with_spawn i f' s) a = refs s a" "refs (hsay as s) a = refs s a" "refs (markGone b s) a = refs s a"
  "refs (with_host b f s) a = (if a = b \<and> jm_get (hr_hosts s) b \<noteq> None then wh_refcount (f (the (jm_get (hr_hosts s) b))) else refs s a)"
  by (auto simp: refs_def split: option.split)

text \<open>One spawn, and the whole runner.\<close>

definition in_use :: "host_spawn \<Rightarrow> bool" where
  "in_use w \<longleftrightarrow> sw_phase w \<in> {AwaitChannel, AwaitBundle, AwaitAdmission, HasDestructor}"

definition spawn_ok :: "host_spawn \<Rightarrow> bool" where
  "spawn_ok w \<longleftrightarrow>
     (sw_phase w = AwaitHost \<longrightarrow> \<not> sw_counted w) \<and>
     (in_use w \<longrightarrow> sw_counted w) \<and>
     sw_done w \<le> sw_runs w \<and> (sw_phase w \<noteq> HasDestructor \<longrightarrow> sw_runs w = 0)"

definition usable :: "workerd_host \<Rightarrow> bool" where
  "usable h \<longleftrightarrow> wh_phase h = Preparing \<or> (wh_phase h = Starting \<or> wh_phase h = Up) \<and> wh_tick h"

definition host_ok :: "workerd_host \<Rightarrow> bool" where
  "host_ok h \<longleftrightarrow> (wh_phase h = Preparing \<longrightarrow> \<not> wh_running h)"

definition host_inv :: "host_runner \<Rightarrow> bool" where
  "host_inv s \<longleftrightarrow>
     (\<forall>a. jm_get (hr_hosts s) a \<noteq> None \<longrightarrow> a < hr_next s) \<and>
     (\<forall>a h. jm_get (hr_hosts s) a = Some h \<longrightarrow> host_ok h \<and> (usable h \<longrightarrow> hr_slot s = Some a)) \<and>
     (\<forall>i w. jm_get (hr_spawns s) i = Some w \<longrightarrow> i < hr_nextSpawn s \<and> jm_get (hr_hosts s) (sw_host w) \<noteq> None \<and> spawn_ok w \<and>
        (in_use w \<longrightarrow> phase_of s (sw_host w) = Some Up)) \<and>
     (\<forall>a. hr_slot s = Some a \<longrightarrow> jm_get (hr_hosts s) a \<noteq> None) \<and>
     (\<forall>a. refs s a = users a s)"

lemma host_invI:
  assumes "\<And>a. jm_get (hr_hosts s) a \<noteq> None \<Longrightarrow> a < hr_next s"
    and "\<And>a h. jm_get (hr_hosts s) a = Some h \<Longrightarrow> host_ok h \<and> (usable h \<longrightarrow> hr_slot s = Some a)"
    and "\<And>i w. jm_get (hr_spawns s) i = Some w \<Longrightarrow> i < hr_nextSpawn s \<and> jm_get (hr_hosts s) (sw_host w) \<noteq> None \<and> spawn_ok w \<and>
        (in_use w \<longrightarrow> phase_of s (sw_host w) = Some Up)"
    and "\<And>a. hr_slot s = Some a \<Longrightarrow> jm_get (hr_hosts s) a \<noteq> None"
    and "\<And>a. refs s a = users a s"
  shows "host_inv s"
  using assms by (simp add: host_inv_def)

lemma host_invD:
  assumes "host_inv s"
  shows "jm_get (hr_hosts s) a \<noteq> None \<Longrightarrow> a < hr_next s"
    and "jm_get (hr_hosts s) a = Some h \<Longrightarrow> usable h \<Longrightarrow> hr_slot s = Some a"
    and "jm_get (hr_spawns s) i = Some w \<Longrightarrow> i < hr_nextSpawn s"
    and "jm_get (hr_spawns s) i = Some w \<Longrightarrow> \<exists>h. jm_get (hr_hosts s) (sw_host w) = Some h"
    and "jm_get (hr_spawns s) i = Some w \<Longrightarrow> spawn_ok w"
    and "hr_slot s = Some a \<Longrightarrow> \<exists>h. jm_get (hr_hosts s) a = Some h"
    and "refs s a = users a s"
    and "jm_get (hr_spawns s) i = Some w \<Longrightarrow> in_use w \<Longrightarrow> phase_of s (sw_host w) = Some Up"
    and "jm_get (hr_hosts s) a = Some h \<Longrightarrow> host_ok h"
  using assms by (auto simp: host_inv_def)

text \<open>Steps that change no count.\<close>

lemma phase_of_simps [simp]:
  "phase_of (hsay as s) = phase_of s" "phase_of (markGone a s) = phase_of s" "phase_of (with_spawn i g s) = phase_of s"
  "phase_of (with_host a f s) b = (if b = a then map_option (wh_phase \<circ> f) (jm_get (hr_hosts s) a) else phase_of s b)"
  by (auto simp: phase_of_def fun_eq_iff option.map_comp)

lemma host_inv_hsay: "host_inv s \<Longrightarrow> host_inv (hsay as s)"
  by (simp add: host_inv_def)

lemma host_inv_with_host:
  assumes inv: "host_inv s" and "\<And>h. wh_refcount (f h) = wh_refcount h"
    and "\<And>h. jm_get (hr_hosts s) a = Some h \<Longrightarrow> (usable (f h) \<longrightarrow> usable h) \<and> host_ok (f h) \<and> (wh_phase h = Up \<longrightarrow> wh_phase (f h) = Up)"
  shows "host_inv (with_host a f s)"
proof (rule host_invI)
  fix b
  have "refs (with_host a f s) b = refs s b" using assms(2) by (auto simp: refs_def split: option.split)
  then show "refs (with_host a f s) b = users b (with_host a f s)" by (simp only: host_invD(7) [OF inv] users_simps)
next
  fix i w assume w: "jm_get (hr_spawns (with_host a f s)) i = Some w"
  have "phase_of s b = Some Up \<Longrightarrow> phase_of (with_host a f s) b = Some Up" for b
    using assms(3) by (auto simp: phase_of_def)
  with w show "i < hr_nextSpawn (with_host a f s) \<and> jm_get (hr_hosts (with_host a f s)) (sw_host w) \<noteq> None \<and> spawn_ok w \<and>
      (in_use w \<longrightarrow> phase_of (with_host a f s) (sw_host w) = Some Up)"
    using host_invD(3-5,8) [OF inv, of i w] by (auto simp del: phase_of_simps)
qed (use host_invD(1-6,9) [OF inv] assms(3) in \<open>auto split: if_splits\<close>)

lemma host_inv_gone:
  assumes inv: "host_inv s" and "\<And>h. jm_get (hr_hosts s) a = Some h \<Longrightarrow> \<not> usable h"
  shows "host_inv (markGone a s)"
  by (rule host_invI) (use host_invD [OF inv] assms(2) in \<open>auto split: if_splits\<close>)

lemma host_inv_with_spawn:
  assumes inv: "host_inv s"
    and "\<And>w. jm_get (hr_spawns s) i = Some w \<Longrightarrow> spawn_ok (f w) \<and> sw_host (f w) = sw_host w \<and> held (sw_host w) (f w) = held (sw_host w) w \<and> (in_use (f w) \<longrightarrow> in_use w)"
  shows "host_inv (with_spawn i f s)"
proof (rule host_invI)
  fix a
  show "refs (with_spawn i f s) a = users a (with_spawn i f s)"
  proof (cases "jm_get (hr_spawns s) i")
    case (Some w)
    then show ?thesis
      using users_with_spawn [OF host_invD(3) [OF inv Some] Some, of a f] assms(2) [OF Some] host_invD(7) [OF inv, of a]
      by (auto simp: held_def split: if_splits)
  qed (simp add: with_spawn_def host_invD(7) [OF inv])
qed (use host_invD [OF inv] assms(2) in \<open>auto split: if_splits\<close>)

text \<open>Giving a use back, and the teardown that goes with the last one.\<close>

lemma release_fields:
  "hr_spawns (release_host a s) = hr_spawns s" "hr_nextSpawn (release_host a s) = hr_nextSpawn s" "hr_next (release_host a s) = hr_next s"
  "refs (release_host a s) b = (if b = a \<and> jm_get (hr_hosts s) a \<noteq> None then refs s a - 1 else refs s b)"
  "jm_get (hr_hosts (release_host a s)) b = None \<longleftrightarrow> jm_get (hr_hosts s) b = None"
  by (auto simp: release_host_def teardownHost_def Let_def refs_def split: option.splits if_splits)

lemma release_log:
  "hr_log (release_host a s) = hr_log s @ (if jm_get (hr_hosts s) a \<noteq> None \<and> refs s a \<le> 1 then [SignalProcess a SIGTERM] else [])"
  by (auto simp: release_host_def teardownHost_def Let_def refs_def split: option.splits)

lemma release_slot:
  "hr_slot (release_host a s) =
     (if jm_get (hr_hosts s) a \<noteq> None \<and> refs s a \<le> 1 \<and> hr_slot s = Some a then None else hr_slot s)"
  by (auto simp: release_host_def teardownHost_def Let_def refs_def split: option.splits)

lemma release_phase: "phase_of (release_host a s) = phase_of s"
  by (auto simp: release_host_def teardownHost_def Let_def phase_of_def fun_eq_iff split: option.splits)

lemma release_usable:
  assumes "jm_get (hr_hosts (release_host a s)) b = Some h" and "usable h"
  shows "\<exists>h'. jm_get (hr_hosts s) b = Some h' \<and> usable h' \<and> (b = a \<longrightarrow> wh_phase h' = Preparing \<or> 1 < refs s a)"
  using assms
  by (auto simp: release_host_def teardownHost_def Let_def refs_def usable_def split: option.splits if_splits)

lemma release_ok:
  assumes "jm_get (hr_hosts (release_host a s)) b = Some h"
  shows "\<exists>h'. jm_get (hr_hosts s) b = Some h' \<and> (host_ok h' \<longrightarrow> host_ok h)"
  using assms by (auto simp: release_host_def teardownHost_def Let_def host_ok_def split: option.splits if_splits)

lemma host_inv_release:
  assumes inv: "host_inv s" and w: "jm_get (hr_spawns s) i = Some w" and up: "phase_of s (sw_host w) = Some Up"
    and f: "spawn_ok (f w)" "sw_host (f w) = sw_host w" "held (sw_host w) (f w) = held (sw_host w) w - 1"
  shows "host_inv (release_host (sw_host w) (with_spawn i f s))"
proof (rule host_invI)
  let ?s = "with_spawn i f s" and ?r = "release_host (sw_host w) (with_spawn i f s)"
  obtain h where h: "jm_get (hr_hosts s) (sw_host w) = Some h" using host_invD(4) [OF inv w] by blast
  fix a
  have "users a ?r = users a ?s" by (rule users_fields) (simp_all add: release_fields)
  also have "users a ?s = users a s - held a w + held a (f w)" by (rule users_with_spawn [OF host_invD(3) [OF inv w] w])
  finally show "refs ?r a = users a ?r"
    using f h host_invD(7) [OF inv] by (auto simp: release_fields held_def)
  assume "jm_get (hr_hosts ?r) a \<noteq> None"
  then show "a < hr_next ?r" using host_invD(1) [OF inv] by (simp add: release_fields)
next
  let ?r = "release_host (sw_host w) (with_spawn i f s)"
  fix a h assume h: "jm_get (hr_hosts ?r) a = Some h"
  have "hr_slot ?r = Some a" if "usable h"
  proof -
    from release_usable [OF h that] obtain h' where h': "jm_get (hr_hosts s) a = Some h'" "usable h'"
      and last: "a = sw_host w \<longrightarrow> wh_phase h' = Preparing \<or> 1 < refs s (sw_host w)" by auto
    have "hr_slot s = Some a" by (rule host_invD(2) [OF inv h'])
    then show "hr_slot ?r = Some a" using last up h'(1) by (auto simp: release_slot phase_of_def)
  qed
  moreover have "host_ok h" using release_ok [OF h] host_invD(9) [OF inv] by auto
  ultimately show "host_ok h \<and> (usable h \<longrightarrow> hr_slot ?r = Some a)" by simp
next
  let ?r = "release_host (sw_host w) (with_spawn i f s)"
  fix j v assume "jm_get (hr_spawns ?r) j = Some v"
  then show "j < hr_nextSpawn ?r \<and> jm_get (hr_hosts ?r) (sw_host v) \<noteq> None \<and> spawn_ok v \<and>
      (in_use v \<longrightarrow> phase_of ?r (sw_host v) = Some Up)"
    using host_invD(3-5,8) [OF inv] f w up by (auto simp: release_fields release_phase split: if_splits)
next
  let ?r = "release_host (sw_host w) (with_spawn i f s)"
  fix a assume "hr_slot ?r = Some a"
  then show "jm_get (hr_hosts ?r) a \<noteq> None"
    using host_invD(6) [OF inv, of a] by (auto simp: release_slot release_fields split: if_splits)
qed

text \<open>Taking a use.\<close>

lemma host_inv_acquire:
  assumes inv: "host_inv s" and w: "jm_get (hr_spawns s) i = Some w" and phase: "sw_phase w = AwaitHost"
    and up: "phase_of s (sw_host w) = Some Up"
  shows "host_inv (with_spawn i (\<lambda>w. w\<lparr>sw_phase := AwaitChannel, sw_counted := True\<rparr>)
    (with_host (sw_host w) (\<lambda>h. h\<lparr>wh_refcount := wh_refcount h + 1\<rparr>) s))" (is "host_inv ?t")
proof -
  let ?f = "\<lambda>w. w\<lparr>sw_phase := AwaitChannel, sw_counted := True\<rparr>"
  obtain h where h: "jm_get (hr_hosts s) (sw_host w) = Some h" using host_invD(4) [OF inv w] by blast
  have old: "\<not> sw_counted w" "sw_done w = 0" "sw_runs w = 0"
    using host_invD(5) [OF inv w] phase by (auto simp: spawn_ok_def)
  show ?thesis
  proof (rule host_invI)
    fix a
    have "users a ?t = users a s - held a w + held a (?f w)"
      using users_with_spawn [of i "with_host (sw_host w) (\<lambda>h. h\<lparr>wh_refcount := wh_refcount h + 1\<rparr>) s" w a ?f]
        host_invD(3) [OF inv w] w by simp
    then show "refs ?t a = users a ?t"
      using h old host_invD(7) [OF inv, of a] by (auto simp: held_def refs_def)
  next
    fix j v assume "jm_get (hr_spawns ?t) j = Some v"
    then show "j < hr_nextSpawn ?t \<and> jm_get (hr_hosts ?t) (sw_host v) \<noteq> None \<and> spawn_ok v \<and>
        (in_use v \<longrightarrow> phase_of ?t (sw_host v) = Some Up)"
      using host_invD(3-5,8) [OF inv, of j] up w phase old by (auto simp: spawn_ok_def in_use_def phase_of_def split: if_splits)
  next
    fix a h assume "jm_get (hr_hosts ?t) a = Some h"
    then show "host_ok h \<and> (usable h \<longrightarrow> hr_slot ?t = Some a)"
      using host_invD(2,9) [OF inv, of a] by (auto simp: usable_def host_ok_def split: if_splits)
  qed (use host_invD(1,6) [OF inv] in \<open>auto split: if_splits\<close>)
qed

text \<open>A new spawn, with a new attempt where none is cached.\<close>

lemma ensureHost_inv:
  assumes inv: "host_inv s" and e: "ensureHost s = (a, t)"
  shows "host_inv t \<and> (\<exists>h. jm_get (hr_hosts t) a = Some h)"
proof (cases "hr_slot s")
  case None
  let ?a = "hr_next s"
  have new: "jm_get (hr_hosts s) ?a = None" using host_invD(1) [OF inv, of ?a] by (cases "jm_get (hr_hosts s) ?a") auto
  have t: "a = ?a" "t = s\<lparr>hr_slot := Some ?a, hr_next := Suc ?a,
      hr_hosts := jm_set (hr_hosts s) ?a \<lparr>wh_phase = Preparing, wh_running = False, wh_tick = False, wh_refcount = 0, wh_resident = []\<rparr>\<rparr>"
    using e None by (auto simp: ensureHost_def)
  have "refs s ?a = users ?a s" by (rule host_invD(7) [OF inv])
  then have "users ?a s = 0" using new by (simp add: refs_def)
  moreover have "users b t = users b s" for b by (simp add: users_def t)
  ultimately have refs: "refs t b = users b t" for b
    using host_invD(7) [OF inv, of b] by (cases "b = ?a") (simp_all add: refs_def t)
  have "host_inv t"
  proof (rule host_invI)
    fix b assume "jm_get (hr_hosts t) b \<noteq> None"
    then show "b < hr_next t" using host_invD(1) [OF inv, of b] by (auto simp: t split: if_splits)
  next
    fix b h assume "jm_get (hr_hosts t) b = Some h"
    then show "host_ok h \<and> (usable h \<longrightarrow> hr_slot t = Some b)"
      using host_invD(2,9) [OF inv, of b h] None by (auto simp: t host_ok_def split: if_splits)
  next
    fix i w assume "jm_get (hr_spawns t) i = Some w"
    then show "i < hr_nextSpawn t \<and> jm_get (hr_hosts t) (sw_host w) \<noteq> None \<and> spawn_ok w \<and> (in_use w \<longrightarrow> phase_of t (sw_host w) = Some Up)"
      using host_invD(3-5,8) [OF inv, of i w] new by (auto simp: t phase_of_def split: if_splits)
  qed (use refs in \<open>simp_all add: t\<close>)
  then show ?thesis by (simp add: t)
qed (use assms host_invD(6) [OF inv] in \<open>auto simp: ensureHost_def\<close>)

lemma host_inv_spawn: "host_inv s \<Longrightarrow> host_inv (spawn_room roomId s)"
proof -
  assume inv: "host_inv s"
  obtain a t where e: "ensureHost s = (a, t)" by (cases "ensureHost s") simp
  have t: "host_inv t" "\<exists>h. jm_get (hr_hosts t) a = Some h" using ensureHost_inv [OF inv e] by blast+
  let ?w = "\<lparr>sw_roomId = roomId, sw_host = a, sw_phase = AwaitHost, sw_counted = False, sw_runs = 0, sw_done = 0\<rparr>"
  let ?u = "t\<lparr>hr_nextSpawn := Suc (hr_nextSpawn t), hr_spawns := jm_set (hr_spawns t) (hr_nextSpawn t) ?w\<rparr>"
  have new: "jm_get (hr_spawns t) (hr_nextSpawn t) = None"
    using host_invD(3) [OF t(1), of "hr_nextSpawn t"] by (cases "jm_get (hr_spawns t) (hr_nextSpawn t)") auto
  have users: "users b ?u = users b t" for b
  proof -
    have "held_by b (hr_spawns ?u) i = held_by b (hr_spawns t) i" if "i < hr_nextSpawn t" for i
      using that by (simp add: held_by_def)
    then show ?thesis by (simp add: users_def held_by_def held_def)
  qed
  have "host_inv ?u"
  proof (rule host_invI)
    fix b show "refs ?u b = users b ?u" unfolding users using host_invD(7) [OF t(1), of b] by (simp add: refs_def)
  next
    fix i w assume "jm_get (hr_spawns ?u) i = Some w"
    then show "i < hr_nextSpawn ?u \<and> jm_get (hr_hosts ?u) (sw_host w) \<noteq> None \<and> spawn_ok w \<and> (in_use w \<longrightarrow> phase_of ?u (sw_host w) = Some Up)"
      using host_invD(3-5,8) [OF t(1), of i w] t(2) by (auto simp: spawn_ok_def in_use_def phase_of_def split: if_splits)
  qed (use host_invD(1,2,6,9) [OF t(1)] in simp_all)
  then show ?thesis by (simp add: spawn_room_def e)
qed

text \<open>Every event.\<close>

lemma host_inv_process_started: "host_inv s \<Longrightarrow> host_inv (process_started a s)"
  by (auto simp: process_started_def phase_of_def usable_def host_ok_def intro!: host_inv_hsay host_inv_with_host)

lemma host_inv_preparation_failed: "host_inv s \<Longrightarrow> host_inv (preparation_failed a s)"
  by (auto simp: preparation_failed_def phase_of_def usable_def host_ok_def intro!: host_inv_gone host_inv_with_host)

lemma host_inv_port: "host_inv s \<Longrightarrow> host_inv (port_settled a ok s)"
  by (auto simp: port_settled_def phase_of_def usable_def host_ok_def intro!: host_inv_gone host_inv_hsay host_inv_with_host)

lemma host_inv_exited:
  assumes inv: "host_inv s"
  shows "host_inv (process_exited a code s)"
proof (cases "jm_get (hr_hosts s) a")
  case (Some h)
  then show ?thesis
    using host_invD(9) [OF inv Some] inv
    by (auto simp: process_exited_def usable_def host_ok_def intro!: host_inv_gone host_inv_hsay host_inv_with_host)
qed (use inv in \<open>simp add: process_exited_def\<close>)

lemma host_inv_leave: "host_inv s \<Longrightarrow> host_inv (leave_host w s)"
  unfolding leave_host_def
  by (rule host_inv_with_host) (auto simp: usable_def host_ok_def dest: host_invD(9))

lemma leave_host_fields [simp]: "hr_spawns (leave_host w s) = hr_spawns s" "phase_of (leave_host w s) = phase_of s"
  by (auto simp: leave_host_def fun_eq_iff phase_of_def option.map_comp comp_def)

lemma host_inv_rejects:
  "host_inv s \<Longrightarrow> (\<And>w. jm_get (hr_spawns s) i = Some w \<Longrightarrow> sw_phase w \<noteq> HasDestructor) \<Longrightarrow> host_inv (spawn_rejects i s)"
  unfolding spawn_rejects_def
  by (intro host_inv_hsay host_inv_with_spawn) (auto simp: spawn_ok_def in_use_def held_def dest: host_invD(5))

lemma host_inv_host_settled: "host_inv s \<Longrightarrow> host_inv (host_settled i s)"
  by (auto simp: host_settled_def intro!: host_inv_acquire host_inv_rejects split: option.split host_phase.split)

lemma host_inv_channel: "host_inv s \<Longrightarrow> host_inv (channel_settled i ok s)"
  by (auto simp: channel_settled_def spawn_ok_def in_use_def held_def split: option.split
      intro!: host_inv_with_spawn host_inv_rejects dest: host_invD(5))

lemma host_inv_bundle:
  assumes inv: "host_inv s"
  shows "host_inv (bundle_settled i ok s)"
proof (cases "jm_get (hr_spawns s) i")
  case (Some w)
  have "host_inv (with_host (sw_host w) (\<lambda>h. h\<lparr>wh_resident := jm_set (wh_resident h) (sw_roomId w) i\<rparr>) s)"
    by (rule host_inv_with_host [OF inv]) (auto simp: usable_def host_ok_def dest: host_invD(9) [OF inv])
  then show ?thesis
    using inv Some host_invD(5) [OF inv Some]
    by (auto simp: bundle_settled_def spawn_ok_def in_use_def held_def intro!: host_inv_hsay host_inv_with_spawn host_inv_rejects)
qed (use inv in \<open>simp add: bundle_settled_def\<close>)

lemma hsay_with_spawn: "hsay as (with_spawn i f s) = with_spawn i f (hsay as s)"
  by (simp add: hsay_def with_spawn_def split: option.split)

lemma host_inv_admission:
  assumes inv: "host_inv s"
  shows "host_inv (admission_settled i answer s)"
proof (cases "jm_get (hr_spawns s) i")
  case (Some w)
  let ?s = "hsay [CloseListener i] (leave_host w s)"
  have s: "host_inv ?s" by (intro host_inv_hsay host_inv_leave inv)
  show ?thesis
  proof (cases "sw_phase w = AwaitAdmission")
    case True
    have up: "phase_of ?s (sw_host w) = Some Up" using host_invD(8) [OF inv Some] True by (simp add: in_use_def)
    have old: "sw_counted w" "sw_done w = 0" "sw_runs w = 0" using host_invD(5) [OF inv Some] True by (auto simp: spawn_ok_def in_use_def)
    have "host_inv (release_host (sw_host w) (with_spawn i (\<lambda>w. w\<lparr>sw_counted := False, sw_phase := SpawnFailed\<rparr>) ?s))"
      by (rule host_inv_release [OF s]) (use Some up old in \<open>auto simp: spawn_ok_def in_use_def held_def\<close>)
    then show ?thesis
      using inv Some True old
      by (auto simp: admission_settled_def hsay_with_spawn spawn_ok_def in_use_def held_def
          intro!: host_inv_hsay host_inv_with_spawn host_inv_rejects split: option.split bool.split)
  qed (use inv Some in \<open>simp add: admission_settled_def\<close>)
qed (use inv in \<open>simp add: admission_settled_def\<close>)

lemma host_inv_destructor:
  assumes inv: "host_inv s"
  shows "host_inv (host_destructor i s)"
proof (cases "jm_get (hr_spawns s) i")
  case (Some w)
  then show ?thesis
    using inv host_invD(5) [OF inv Some]
    by (auto simp: host_destructor_def spawn_ok_def in_use_def held_def intro!: host_inv_hsay host_inv_with_spawn host_inv_leave)
qed (use inv in \<open>simp add: host_destructor_def\<close>)

lemma host_inv_deleted:
  assumes inv: "host_inv s"
  shows "host_inv (delete_settled i s)"
proof (cases "jm_get (hr_spawns s) i")
  case (Some w)
  show ?thesis
  proof (cases "sw_done w < sw_runs w")
    case True
    have old: "spawn_ok w" by (rule host_invD(5) [OF inv Some])
    then have use: "in_use w" using True by (auto simp: spawn_ok_def in_use_def)
    let ?s = "hsay [CloseListener i] s"
    have "host_inv (release_host (sw_host w) (with_spawn i (\<lambda>w. w\<lparr>sw_done := Suc (sw_done w)\<rparr>) ?s))"
      by (rule host_inv_release [OF host_inv_hsay [OF inv]])
        (use Some True old use host_invD(8) [OF inv Some] in \<open>auto simp: spawn_ok_def in_use_def held_def\<close>)
    then show ?thesis using Some True by (simp add: delete_settled_def hsay_with_spawn)
  qed (use inv Some in \<open>simp add: delete_settled_def\<close>)
qed (use inv in \<open>simp add: delete_settled_def\<close>)

lemma host_inv_step: "host_inv s \<Longrightarrow> host_inv (host_step s e)"
  by (cases e) (simp_all add: host_inv_spawn host_inv_process_started host_inv_preparation_failed host_inv_port host_inv_exited
      host_inv_host_settled host_inv_channel host_inv_bundle host_inv_admission host_inv_destructor host_inv_deleted)

lemma host_inv_new: "host_inv new_host_runner"
  by (rule host_invI) (simp_all add: new_host_runner_def refs_def users_def)

section \<open>Rooms that are killed once\<close>

definition killed_once :: "host_runner \<Rightarrow> host_event \<Rightarrow> bool" where
  "killed_once s e = (case e of HrKill i \<Rightarrow> (case jm_get (hr_spawns s) i of Some w \<Rightarrow> sw_runs w = 0 | None \<Rightarrow> True) | _ \<Rightarrow> True)"

definition once_inv :: "host_runner \<Rightarrow> bool" where
  "once_inv s \<longleftrightarrow> host_inv s \<and> (\<forall>i w. jm_get (hr_spawns s) i = Some w \<longrightarrow> sw_runs w \<le> 1)"

lemma release_spawns [simp]: "hr_spawns (release_host a s) = hr_spawns s"
  by (rule release_fields(1))

lemma runs_step:
  assumes "jm_get (hr_spawns (host_step s e)) i = Some w"
  shows "sw_runs w = 0 \<or> (\<exists>v. jm_get (hr_spawns s) i = Some v \<and> (sw_runs w = sw_runs v \<or> e = HrKill i \<and> sw_runs w = Suc (sw_runs v)))"
  using assms
  by (cases e)
    (auto simp: spawn_room_def ensureHost_def process_started_def preparation_failed_def port_settled_def process_exited_def
      host_settled_def channel_settled_def bundle_settled_def admission_settled_def host_destructor_def delete_settled_def
      spawn_rejects_def split: option.splits if_splits host_phase.splits bool.splits)

lemma once_inv_step:
  assumes inv: "once_inv s" and ok: "killed_once s e"
  shows "once_inv (host_step s e)"
  unfolding once_inv_def
proof (intro conjI allI impI)
  fix i w assume "jm_get (hr_spawns (host_step s e)) i = Some w"
  from runs_step [OF this] show "sw_runs w \<le> 1"
    using inv ok by (fastforce simp: once_inv_def killed_once_def)
qed (use inv host_inv_step in \<open>simp add: once_inv_def\<close>)

interpretation hr: step_invariant host_step killed_once once_inv
  by unfold_locales (rule once_inv_step)

lemma once_inv_new: "once_inv new_host_runner"
  using host_inv_new by (simp add: once_inv_def new_host_runner_def)

text \<open>The spawns that use a host, and its count.\<close>

definition users_of :: "host_runner \<Rightarrow> nat \<Rightarrow> nat set" where
  "users_of s a = {i. \<exists>w. jm_get (hr_spawns s) i = Some w \<and> sw_host w = a \<and> sw_counted w \<and> sw_done w = 0}"

lemma counted_runs: "spawn_ok w \<Longrightarrow> 0 < sw_runs w \<Longrightarrow> sw_counted w"
  by (auto simp: spawn_ok_def in_use_def)

lemma held_once:
  assumes inv: "once_inv s"
  shows "held_by a (hr_spawns s) i = (if i \<in> users_of s a then 1 else 0)"
proof (cases "jm_get (hr_spawns s) i")
  case (Some w)
  have h: "host_inv s" and runs: "sw_runs w \<le> 1" using inv Some by (simp_all add: once_inv_def)
  have ok: "spawn_ok w" by (rule host_invD(5) [OF h Some])
  then have le: "sw_done w \<le> sw_runs w" by (simp add: spawn_ok_def)
  then have "sw_done w = 1 \<longrightarrow> sw_counted w" using counted_runs [OF ok] by simp
  with le runs show ?thesis using Some by (auto simp: held_by_def held_def users_of_def)
qed (simp add: held_by_def users_of_def)

lemma refs_once:
  assumes inv: "once_inv s"
  shows "refs s a = int (card (users_of s a))" and "finite (users_of s a)"
proof -
  have h: "host_inv s" using inv by (simp add: once_inv_def)
  have sub: "users_of s a \<subseteq> {..<hr_nextSpawn s}" using host_invD(3) [OF h] by (auto simp: users_of_def)
  then show "finite (users_of s a)" by (rule finite_subset) simp
  have "refs s a = (\<Sum>i<hr_nextSpawn s. if i \<in> users_of s a then 1 else 0)"
    using host_invD(7) [OF h, of a] held_once [OF inv] by (simp add: users_def)
  also have "\<dots> = int (card ({..<hr_nextSpawn s} \<inter> users_of s a))" by (simp add: sum.If_cases)
  also have "{..<hr_nextSpawn s} \<inter> users_of s a = users_of s a" using sub by blast
  finally show "refs s a = int (card (users_of s a))" .
qed

text \<open>A process is asked to end only when its count is down to zero.\<close>

lemma leave_host_log [simp]: "hr_log (leave_host w s) = hr_log s"
  by (simp add: leave_host_def)

lemma sigterm_admission:
  assumes log: "hr_log (admission_settled i answer s) = hr_log s @ as" and sig: "SignalProcess a SIGTERM \<in> set as"
  shows "refs (admission_settled i answer s) a \<le> 0"
proof -
  obtain w where w: "jm_get (hr_spawns s) i = Some w" "sw_phase w = AwaitAdmission" "answer = Some False"
    using log sig by (auto simp: admission_settled_def spawn_rejects_def split: option.splits if_splits bool.splits)
  let ?t = "hsay [CloseListener i] (with_spawn i (\<lambda>w. w\<lparr>sw_counted := False, sw_phase := SpawnFailed\<rparr>) (leave_host w s))"
  have step: "admission_settled i answer s = hsay [SpawnRejects i] (release_host (sw_host w) ?t)" using w by (simp add: admission_settled_def)
  show ?thesis using log sig unfolding step by (auto simp: release_log release_fields split: if_splits)
qed

lemma sigterm_deleted:
  assumes log: "hr_log (delete_settled i s) = hr_log s @ as" and sig: "SignalProcess a SIGTERM \<in> set as"
  shows "refs (delete_settled i s) a \<le> 0"
proof -
  obtain w where w: "jm_get (hr_spawns s) i = Some w" "sw_done w < sw_runs w"
    using log sig by (auto simp: delete_settled_def split: option.splits if_splits)
  let ?t = "hsay [CloseListener i] (with_spawn i (\<lambda>w. w\<lparr>sw_done := Suc (sw_done w)\<rparr>) s)"
  have step: "delete_settled i s = release_host (sw_host w) ?t" using w by (simp add: delete_settled_def)
  show ?thesis using log sig unfolding step by (auto simp: release_log release_fields split: if_splits)
qed

lemma no_sigterm:
  "hr_log (spawn_room roomId s) = hr_log s @ as \<Longrightarrow> SignalProcess a SIGTERM \<notin> set as"
  "hr_log (process_started b s) = hr_log s @ as \<Longrightarrow> SignalProcess a SIGTERM \<notin> set as"
  "hr_log (preparation_failed b s) = hr_log s @ as \<Longrightarrow> SignalProcess a SIGTERM \<notin> set as"
  "hr_log (port_settled b ok s) = hr_log s @ as \<Longrightarrow> SignalProcess a SIGTERM \<notin> set as"
  "hr_log (process_exited b code s) = hr_log s @ as \<Longrightarrow> SignalProcess a SIGTERM \<notin> set as"
  "hr_log (host_settled i s) = hr_log s @ as \<Longrightarrow> SignalProcess a SIGTERM \<notin> set as"
  "hr_log (channel_settled i ok s) = hr_log s @ as \<Longrightarrow> SignalProcess a SIGTERM \<notin> set as"
  "hr_log (bundle_settled i ok s) = hr_log s @ as \<Longrightarrow> SignalProcess a SIGTERM \<notin> set as"
  "hr_log (host_destructor i s) = hr_log s @ as \<Longrightarrow> SignalProcess a SIGTERM \<notin> set as"
  by (auto simp: spawn_room_def ensureHost_def process_started_def preparation_failed_def port_settled_def process_exited_def
      host_settled_def channel_settled_def bundle_settled_def host_destructor_def spawn_rejects_def
      split: option.splits if_splits host_phase.splits)

lemma sigterm_step:
  assumes "hr_log (host_step s e) = hr_log s @ as" and "SignalProcess a SIGTERM \<in> set as"
  shows "refs (host_step s e) a \<le> 0"
  using assms by (cases e) (auto dest: no_sigterm sigterm_admission sigterm_deleted)

text \<open>
  C39: The shared process lives as long as a room uses it. In every run in which the destructor of no
  room is called twice, whatever fails on the way: the count of a host is the number of spawns that
  took it and did not give it back; at most one host is coming up or in service; and when a process
  is asked to end, every spawn on it that got as far as to count, and did not fail, has been killed
  and its room deleted.
\<close>

theorem host_counts_its_users:
  assumes run: "run_ok killed_once host_step new_host_runner es" and s: "s = run host_step new_host_runner es"
  shows "(\<forall>a h. jm_get (hr_hosts s) a = Some h \<longrightarrow> wh_refcount h = int (card (users_of s a))) \<and>
    (\<forall>a b h k. jm_get (hr_hosts s) a = Some h \<and> usable h \<and> jm_get (hr_hosts s) b = Some k \<and> usable k \<longrightarrow> a = b) \<and>
    (\<forall>e as a i w. killed_once s e \<and> hr_log (host_step s e) = hr_log s @ as \<and> SignalProcess a SIGTERM \<in> set as \<and>
       jm_get (hr_spawns (host_step s e)) i = Some w \<and> sw_host w = a \<and> in_use w \<longrightarrow> sw_phase w = HasDestructor \<and> sw_done w = 1)"
proof -
  have inv: "once_inv s" using hr.I_run [OF once_inv_new run] by (simp add: s)
  then have h: "host_inv s" by (simp add: once_inv_def)
  have count: "wh_refcount k = int (card (users_of s a))" if "jm_get (hr_hosts s) a = Some k" for a k
    using refs_once(1) [OF inv, of a] that by (simp add: refs_def)
  have one: "a = b" if "jm_get (hr_hosts s) a = Some k" "usable k" "jm_get (hr_hosts s) b = Some k'" "usable k'" for a b k k'
    using host_invD(2) [OF h that(1,2)] host_invD(2) [OF h that(3,4)] by simp
  have gone: "sw_phase w = HasDestructor \<and> sw_done w = 1"
    if ok: "killed_once s e" and log: "hr_log (host_step s e) = hr_log s @ as" "SignalProcess a SIGTERM \<in> set as"
      and w: "jm_get (hr_spawns (host_step s e)) i = Some w" "sw_host w = a" "in_use w" for e as a i w
  proof -
    let ?t = "host_step s e"
    have inv': "once_inv ?t" by (rule once_inv_step [OF inv ok])
    then have ok_w: "spawn_ok w" and runs: "sw_runs w \<le> 1" using host_invD(5) [of ?t i w] w(1) by (simp_all add: once_inv_def)
    have "card (users_of ?t a) = 0" using sigterm_step [OF log] refs_once(1) [OF inv', of a] by simp
    then have "i \<notin> users_of ?t a" using refs_once(2) [OF inv', of a] by auto
    then have "sw_done w \<noteq> 0" using w ok_w by (auto simp: users_of_def spawn_ok_def)
    then show ?thesis using ok_w runs by (auto simp: spawn_ok_def)
  qed
  show ?thesis using count one gone by blast
qed

text \<open>Two rooms on one host.\<close>

definition two_rooms :: "host_event list" where
  "two_rooms =
     [HrSpawn ''r1'', HrSpawn ''r2'', HrProcessStarted 0, HrPort 0 True, HrHost 0, HrHost 1, HrChannel 0 True, HrChannel 1 True,
      HrBundle 0 True, HrBundle 1 True, HrAdmission 0 (Some True), HrAdmission 1 (Some True)]"

lemma two_rooms_ok: "run_ok killed_once host_step new_host_runner (two_rooms @ [HrKill 0, HrDeleted 0])"
  by code_simp

lemma host_counts_its_users_witness:
  "let s = run host_step new_host_runner (two_rooms @ [HrKill 0, HrDeleted 0]) in
   \<exists>h. jm_get (hr_hosts s) 0 = Some h \<and> wh_refcount h = 1 \<and> int (card (users_of s 0)) = 1"
proof -
  let ?s = "run host_step new_host_runner (two_rooms @ [HrKill 0, HrDeleted 0])"
  have "map_option wh_refcount (jm_get (hr_hosts ?s) 0) = Some 1" by code_simp
  then obtain h where h: "jm_get (hr_hosts ?s) 0 = Some h" "wh_refcount h = 1" by auto
  then show ?thesis using host_counts_its_users [OF two_rooms_ok refl] unfolding Let_def by metis
qed

section \<open>A room that is killed again\<close>

text \<open>
  The destructor has no guard, and it never reports the room as stopped, so the server keeps the
  process entry and its sweep calls the destructor again at the next tick. The second call takes
  another one off the count: with two rooms on the host, killing one of them twice ends the process
  under the other, which was not killed.
\<close>

lemma second_kill_ends_the_shared_process:
  "let s = run host_step new_host_runner (two_rooms @ [HrKill 0, HrDeleted 0, HrKill 0, HrDeleted 0]) in
   SignalProcess 0 SIGTERM \<in> set (hr_log s) \<and>
   list_all (\<lambda>x. case x of StoppedCall i _ \<Rightarrow> i \<noteq> 0 | _ \<Rightarrow> True) (hr_log s) \<and>
   map_option sw_phase (jm_get (hr_spawns s) 1) = Some HasDestructor \<and> map_option sw_runs (jm_get (hr_spawns s) 1) = Some 0 \<and>
   StoppedCall 1 None \<in> set (hr_log (host_step s (HrExit 0 None)))"
  by code_simp

text \<open>
  A spawn that fails after it took the host, other than by a refusal, never gives it back: the
  process then outlives its last room.
\<close>

lemma failed_spawn_keeps_the_host:
  "let s = run host_step new_host_runner
     [HrSpawn ''r1'', HrProcessStarted 0, HrPort 0 True, HrHost 0, HrChannel 0 True, HrBundle 0 False] in
   hr_log s = [StartProcess 0, SpawnRejects 0] \<and> map_option wh_refcount (jm_get (hr_hosts s) 0) = Some 1"
  by code_simp

end
