(* ===== verification/Logger.thy ===== *)
theory Logger
  imports Prelude
begin

text \<open>
  \<open>src/common/logger.ts\<close>: levels, the merge of a line's entries, child loggers and the choice of the
  stream. A log line is the entry it serialises: \<open>JSON.stringify\<close> and the streams are the
  environment. Values other than errors are kept as they are (type \<open>'v\<close>).
\<close>

section \<open>Levels\<close>

datatype log_level = Debug | Info | Warn | Error

fun LEVEL_VALUES :: "log_level \<Rightarrow> nat" where
  "LEVEL_VALUES Debug = 0" | "LEVEL_VALUES Info = 1" | "LEVEL_VALUES Warn = 2" | "LEVEL_VALUES Error = 3"

definition level_named :: "string \<Rightarrow> log_level option" where
  "level_named name =
     (if name = ''debug'' then Some Debug else if name = ''info'' then Some Info
      else if name = ''warn'' then Some Warn else if name = ''error'' then Some Error else None)"

text \<open>
  \<open>lower in LEVEL_VALUES\<close> also holds for the names every object inherits; the lower-case ones are
  these two, and the value found there is no number. \<open>None\<close> stands for such a level: every
  comparison with it is false.
\<close>

definition inherited_names :: "string list" where
  "inherited_names = [''constructor'', ''__proto__'']"

definition to_lower_char :: "char \<Rightarrow> char" where
  "to_lower_char c = (if 65 \<le> (of_char c :: nat) \<and> (of_char c :: nat) \<le> 90 then char_of ((of_char c :: nat) + 32) else c)"

definition resolveLevel :: "string option \<Rightarrow> log_level option" where
  "resolveLevel env =
     (let lower = map to_lower_char (case env of Some v \<Rightarrow> v | None \<Rightarrow> []) in
      case level_named lower of Some l \<Rightarrow> Some l
      | None \<Rightarrow> if lower \<in> set inherited_names then None else Some Info)"

section \<open>Lines\<close>

datatype 'v log_value = ErrorInstance string "string option" | Value 'v

text \<open>\<open>serializeValue\<close>: an error becomes an object of its message and stack.\<close>

datatype 'v entry_value = Stamp ms | LevelName log_level | Message string | ErrorFields string "string option" | Plain 'v

fun serializeValue :: "'v log_value \<Rightarrow> 'v entry_value" where
  "serializeValue (ErrorInstance message stack) = ErrorFields message stack"
| "serializeValue (Value v) = Plain v"

type_synonym 'v log_fields = "(string, 'v log_value) jsmap"

definition put_fields :: "'v log_fields \<Rightarrow> (string, 'v entry_value) jsmap \<Rightarrow> (string, 'v entry_value) jsmap" where
  "put_fields fields entry = fold (\<lambda>(k, v) e. jm_set e k (serializeValue v)) fields entry"

definition buildLine :: "ms \<Rightarrow> log_level \<Rightarrow> string \<Rightarrow> 'v log_fields \<Rightarrow> 'v log_fields option \<Rightarrow> (string, 'v entry_value) jsmap" where
  "buildLine now level msg context fields =
     (let entry = [(''ts'', Stamp now), (''level'', LevelName level), (''msg'', Message msg)];
          entry1 = put_fields context entry
      in case fields of Some f \<Rightarrow> put_fields f entry1 | None \<Rightarrow> entry1)"

section \<open>Loggers\<close>

record 'v logger =
  lg_minLevel :: "log_level option"
  lg_context :: "'v log_fields"

datatype 'v log_output = Stdout "(string, 'v entry_value) jsmap" | Stderr "(string, 'v entry_value) jsmap"

definition logger_log :: "ms \<Rightarrow> 'v logger \<Rightarrow> log_level \<Rightarrow> string \<Rightarrow> 'v log_fields option \<Rightarrow> 'v log_output option" where
  "logger_log now lg level msg extra =
     (if (case lg_minLevel lg of Some m \<Rightarrow> LEVEL_VALUES level < LEVEL_VALUES m | None \<Rightarrow> False) then None
      else
        let line = buildLine now level msg (lg_context lg) extra
        in Some (if level = Error then Stderr line else Stdout line))"

definition logger_child :: "'v log_fields \<Rightarrow> 'v logger \<Rightarrow> 'v logger" where
  "logger_child extra lg = lg\<lparr>lg_context := jm_merge (lg_context lg) extra\<rparr>"

definition createLogger :: "log_level option \<Rightarrow> string option \<Rightarrow> 'v logger" where
  "createLogger level env = \<lparr>lg_minLevel = (case level of Some l \<Rightarrow> Some l | None \<Rightarrow> resolveLevel env), lg_context = []\<rparr>"

section \<open>What a line says\<close>

lemma put_fields_get:
  "jm_get (put_fields extra entry) k =
     (case jm_get (rev extra) k of Some v \<Rightarrow> Some (serializeValue v) | None \<Rightarrow> jm_get entry k)"
proof (induction extra arbitrary: entry)
  case (Cons x extra)
  obtain k' v where x: "x = (k', v)" by (rule prod.exhaust)
  have "jm_get (put_fields (x # extra) entry) k = jm_get (put_fields extra (jm_set entry k' (serializeValue v))) k"
    by (simp add: put_fields_def x)
  also have "\<dots> = (case jm_get (rev extra) k of Some v \<Rightarrow> Some (serializeValue v) | None \<Rightarrow> jm_get (jm_set entry k' (serializeValue v)) k)"
    by (rule Cons.IH)
  finally show ?case by (simp add: x jm_get_append jm_get_Cons split: option.split)
qed (simp add: put_fields_def)

text \<open>
  A call's own fields win over the context of the logger, that of a child over its parent's, and
  both over \<open>ts\<close>, \<open>level\<close> and \<open>msg\<close>; no error is left as an empty object.
\<close>

lemma line_entries:
  "jm_get (buildLine now level msg context extra) k =
     (case Option.bind extra (\<lambda>f. jm_get (rev f) k) of Some v \<Rightarrow> Some (serializeValue v)
      | None \<Rightarrow> (case jm_get (rev context) k of Some v \<Rightarrow> Some (serializeValue v)
      | None \<Rightarrow> if k = ''ts'' then Some (Stamp now) else if k = ''level'' then Some (LevelName level)
                else if k = ''msg'' then Some (Message msg) else None))"
  by (cases extra) (simp_all add: buildLine_def Let_def put_fields_get jm_get_Cons split: option.split)

lemma child_context: "jm_get (lg_context (logger_child extra lg)) k =
    (case jm_get (rev extra) k of Some v \<Rightarrow> Some v | None \<Rightarrow> jm_get (lg_context lg) k)"
  by (simp add: logger_child_def jm_get_merge split: option.split)

lemma child_silent_as_parent: "logger_log now (logger_child extra lg) level msg f = None \<longleftrightarrow> logger_log now lg level msg g = None"
  by (simp add: logger_log_def logger_child_def Let_def)

text \<open>An unknown name gives \<open>info\<close>; the two inherited names silence nothing.\<close>

lemma unknown_level_is_info:
  "resolveLevel None = Some Info" "resolveLevel (Some ''LOUD'') = Some Info" "resolveLevel (Some ''WARN'') = Some Warn"
  by code_simp+

lemma inherited_name_logs_everything:
  "logger_log now (createLogger None (Some ''constructor'')) Debug msg extra \<noteq> None"
proof -
  have "resolveLevel (Some ''constructor'') = None" by code_simp
  then show ?thesis by (simp add: logger_log_def createLogger_def Let_def)
qed

end
