(* ===== verification/Room_Ipc.thy ===== *)
theory Room_Ipc
  imports Notify_Channels Runner
begin

text \<open>
  \<open>src/room/ipc.ts\<close>: the room's end of a notify channel, and \<open>src/server/runner/runner.ts\<close>, which
  builds the environment a room is started with. The platform's \<open>URL\<close> parser is an argument: the
  host name, the port (0 when there is none) and the \<open>token\<close> query parameter, or \<open>None\<close> where the
  constructor throws.
\<close>

section \<open>Targets\<close>

datatype notify_target = UdsTarget string | TcpTarget string nat string

datatype ipc_error = InvalidPort string | UnsupportedScheme string | InvalidUrl string | ConnectFailed string

definition starts_with :: "string \<Rightarrow> string \<Rightarrow> bool" where
  "starts_with p s = (take (length p) s = p)"

fun contains_text :: "string \<Rightarrow> string \<Rightarrow> bool" where
  "contains_text p [] = (p = [])"
| "contains_text p (c # cs) = (starts_with p (c # cs) \<or> contains_text p cs)"

definition parseNotifyTarget ::
    "(string \<Rightarrow> (string \<times> nat \<times> string option) option) \<Rightarrow> string \<Rightarrow> ipc_error + notify_target" where
  "parseNotifyTarget parse_url uri =
     (if starts_with ''uds:'' uri then Inr (UdsTarget (drop (length ''uds:'') uri))
      else if starts_with ''tcp://'' uri then
        (case parse_url uri of
           None \<Rightarrow> Inl (InvalidUrl uri)
         | Some (hostname, port, token) \<Rightarrow>
             if port = 0 then Inl (InvalidPort uri)
             else Inr (TcpTarget hostname port (case token of Some t \<Rightarrow> t | None \<Rightarrow> [])))
      else if contains_text ''://'' uri then Inl (UnsupportedScheme uri)
      else Inr (UdsTarget uri))"

section \<open>Dialling\<close>

text \<open>
  The sockets of a dial are numbered by attempt. What is written, and what the dial settles to, is
  kept in order; \<open>di_timer\<close> says that the retry timer is armed.
\<close>

record dialer =
  di_maxRetries :: nat
  di_token :: "js_string option"
  di_onClose :: bool
  di_attempt :: nat
  di_connected :: bool
  di_live :: bool
  di_timer :: bool
  di_outcome :: "(ipc_error + unit) option"
  di_written :: "byte list"
  di_onCloseCalls :: nat

definition dial :: "nat \<Rightarrow> js_string option \<Rightarrow> bool \<Rightarrow> dialer" where
  "dial maxRetries token onClose =
     \<lparr>di_maxRetries = maxRetries, di_token = token, di_onClose = onClose, di_attempt = 0, di_connected = False,
      di_live = True, di_timer = False, di_outcome = None, di_written = [], di_onCloseCalls = 0\<rparr>"

text \<open>The \<open>connect\<close> event of the current socket.\<close>

definition dial_connect :: "dialer \<Rightarrow> dialer" where
  "dial_connect s =
     (if \<not> di_live s \<or> di_connected s then s
      else s\<lparr>di_connected := True,
             di_written := di_written s @
               (case di_token s of Some t \<Rightarrow> encodeRawFrame (textEncoder_encode t) | None \<Rightarrow> []),
             di_outcome := Some (Inr ())\<rparr>)"

text \<open>The \<open>error\<close> event of the current socket.\<close>

definition dial_error :: "string \<Rightarrow> dialer \<Rightarrow> dialer" where
  "dial_error msg s =
     (if \<not> di_live s then s
      else if di_connected s then s
      else
        let s1 = s\<lparr>di_live := False, di_attempt := Suc (di_attempt s)\<rparr> in
        if di_attempt s1 \<ge> di_maxRetries s1 then s1\<lparr>di_outcome := Some (Inl (ConnectFailed msg))\<rparr>
        else s1\<lparr>di_timer := True\<rparr>)"

text \<open>The retry timer: \<open>tryConnect\<close> again.\<close>

definition dial_retry :: "dialer \<Rightarrow> dialer" where
  "dial_retry s = (if di_timer s then s\<lparr>di_timer := False, di_live := True\<rparr> else s)"

definition dial_closed :: "dialer \<Rightarrow> dialer" where
  "dial_closed s =
     (if \<not> di_live s then s
      else s\<lparr>di_live := False, di_onCloseCalls := di_onCloseCalls s + (if di_connected s \<and> di_onClose s then 1 else 0)\<rparr>)"

text \<open>The notifier a dial resolves to; \<open>close\<close> destroys the socket, whose \<open>close\<close> event follows.\<close>

definition notifier_send :: "(notify_message \<Rightarrow> byte list) \<Rightarrow> notify_message \<Rightarrow> dialer \<Rightarrow> dialer" where
  "notifier_send pack msg s =
     (if di_connected s \<and> di_live s then s\<lparr>di_written := di_written s @ encodeNotifyFrame pack msg\<rparr> else s)"

definition connectNotify :: "notify_target \<Rightarrow> nat \<Rightarrow> bool \<Rightarrow> dialer" where
  "connectNotify target maxRetries onClose =
     (case target of
        UdsTarget path \<Rightarrow> dial maxRetries None onClose
      | TcpTarget host port token \<Rightarrow> dial maxRetries (Some (map of_char token)) onClose)"

section \<open>From the room to the server\<close>

definition send_all :: "(notify_message \<Rightarrow> byte list) \<Rightarrow> notify_message list \<Rightarrow> dialer \<Rightarrow> dialer" where
  "send_all pack msgs s = fold (notifier_send pack) msgs s"

lemma send_all_written:
  assumes "di_connected s" "di_live s"
  shows "di_written (send_all pack msgs s) = di_written s @ concat (map (encodeNotifyFrame pack) msgs)"
  using assms unfolding send_all_def
  by (induction msgs arbitrary: s) (simp_all add: notifier_send_def)

lemma parse_tcp_env:
  assumes "snd (tcp_env host port token) = uri" and "parse_url uri = Some (host, port, Some tok)" and "0 < port"
  shows "parseNotifyTarget parse_url uri = Inr (TcpTarget host port tok)"
  using assms by (auto simp: parseNotifyTarget_def starts_with_def tcp_env_def)

lemma parse_uds_env: "parseNotifyTarget parse_url (snd (uds_env path)) = Inr (UdsTarget path)"
  by (simp add: parseNotifyTarget_def starts_with_def uds_env_def)

lemma token_chars: "map of_char (map char_of (tcp_token bytes)) = tcp_token bytes"
proof -
  have "(of_char (char_of u) :: nat) = u" if "u \<in> set (tcp_token bytes)" for u
    using hex_token_ascii [OF that] by (simp add: of_char_of take_bit_nat_eq_self_iff)
  then show ?thesis by (simp add: map_idI)
qed

text \<open>
  C33: The tcp notify channel end to end. A room started with the URI the channel advertises, which
  the platform's URL parser reads as its host, port and token, connects; whatever it then sends is
  delivered by the server's end of the channel completely and in order, however the network cuts
  the stream into chunks.
\<close>

theorem tcp_channel_end_to_end:
  assumes "snd (tcp_env host port (tcp_token bytes)) = uri"
    and "parse_url uri = Some (host, port, Some (map char_of (tcp_token bytes)))" and "0 < port"
    and "parseNotifyTarget parse_url uri = Inr target"
    and "concat chunks = di_written (send_all pack msgs (dial_connect (connectNotify target maxRetries onClose)))"
    and "\<And>m. m \<in> set msgs \<Longrightarrow> unpack (pack m) = Some m \<and> length (pack m) < 2 ^ 32"
    and "length bytes = 16"
  shows "delivered_by 0 (run (tcp_step unpack (tcp_token bytes)) new_listener (ChConnect # map (ChData 0) chunks)) = msgs"
proof -
  have "target = TcpTarget host port (map char_of (tcp_token bytes))"
    using parse_tcp_env [OF assms(1), of parse_url] assms(2-4) by simp
  then have "concat chunks = encodeRawFrame (textEncoder_encode (tcp_token bytes)) @ concat (map (encodeNotifyFrame pack) msgs)"
    using assms(5) token_chars [of bytes]
    by (simp add: connectNotify_def dial_def dial_connect_def send_all_written del: map_map)
  moreover have "length (textEncoder_encode (tcp_token bytes)) < 2 ^ 32"
    using ascii_encode [of "tcp_token bytes"] hex_token_ascii assms(7) length_tcp_token [of bytes] by simp
  ultimately show ?thesis
    by (intro tcp_stream_delivers [OF token_roundtrip]) (use assms(6) in auto)
qed

definition demo_token :: js_string where
  "demo_token = tcp_token (replicate 16 0xA7)"

definition demo_dialer :: dialer where
  "demo_dialer = send_all (\<lambda>_. [5]) [Stopped] (dial_connect (connectNotify (TcpTarget ''h'' 80 (map char_of demo_token)) 50 False))"

lemma tcp_channel_end_to_end_witness:
  "delivered_by 0 (run (tcp_step (\<lambda>b. if b = [5] then Some Stopped else None) demo_token) new_listener
     (ChConnect # map (ChData 0) [take 7 (di_written demo_dialer), drop 7 (di_written demo_dialer)])) = [Stopped]"
  unfolding demo_token_def
  by (rule tcp_channel_end_to_end [OF refl, where host = "''h''" and port = 80 and pack = "\<lambda>_. [5]" and maxRetries = 50 and
        onClose = False and target = "TcpTarget ''h'' 80 (map char_of demo_token)" and
        parse_url = "\<lambda>_. Some (''h'', 80, Some (map char_of demo_token))"])
    (simp_all add: demo_token_def demo_dialer_def parseNotifyTarget_def starts_with_def tcp_env_def)

section \<open>Giving up\<close>

fun failed_attempts :: "string \<Rightarrow> nat \<Rightarrow> dialer \<Rightarrow> dialer" where
  "failed_attempts msg 0 s = s"
| "failed_attempts msg (Suc n) s = failed_attempts msg n (dial_error msg (dial_retry s))"

lemma failed_attempts_eq:
  assumes "di_attempt s + n < di_maxRetries s" "\<not> di_connected s" "di_live s \<noteq> di_timer s" "di_outcome s = None"
  shows "di_attempt (failed_attempts msg n s) = di_attempt s + n \<and> di_outcome (failed_attempts msg n s) = None \<and>
    di_live (failed_attempts msg n s) \<noteq> di_timer (failed_attempts msg n s) \<and>
    di_maxRetries (failed_attempts msg n s) = di_maxRetries s \<and> \<not> di_connected (failed_attempts msg n s)"
  using assms
proof (induction n arbitrary: s)
  case (Suc n)
  let ?s = "dial_error msg (dial_retry s)"
  have "di_attempt ?s + n < di_maxRetries ?s" "\<not> di_connected ?s" "di_live ?s \<noteq> di_timer ?s" "di_outcome ?s = None"
    "di_attempt ?s = Suc (di_attempt s)" "di_maxRetries ?s = di_maxRetries s"
    using Suc.prems by (auto simp: dial_error_def dial_retry_def Let_def)
  from Suc.IH [OF this(1-4)] this(5,6) show ?case by simp
qed auto

lemma failed_attempts_snoc: "failed_attempts msg (Suc n) s = dial_error msg (dial_retry (failed_attempts msg n s))"
  by (induction n arbitrary: s) simp_all

text \<open>A dial that never connects rejects at its last retry, and not before.\<close>

lemma dial_gives_up:
  assumes "0 < maxRetries"
  shows "di_outcome (failed_attempts msg maxRetries (dial maxRetries token onClose)) = Some (Inl (ConnectFailed msg)) \<and>
    (\<forall>n < maxRetries. di_outcome (failed_attempts msg n (dial maxRetries token onClose)) = None)"
proof -
  obtain m where m: "maxRetries = Suc m" using assms by (cases maxRetries) auto
  let ?d = "dial maxRetries token onClose"
  have some: "di_attempt (failed_attempts msg n ?d) = n \<and> di_outcome (failed_attempts msg n ?d) = None \<and>
    di_live (failed_attempts msg n ?d) \<noteq> di_timer (failed_attempts msg n ?d) \<and>
    di_maxRetries (failed_attempts msg n ?d) = maxRetries \<and> \<not> di_connected (failed_attempts msg n ?d)"
    if "n < maxRetries" for n
    using failed_attempts_eq [of ?d n msg] that by (simp add: dial_def)
  have "di_outcome (failed_attempts msg (Suc m) ?d) = Some (Inl (ConnectFailed msg))"
    using some [of m] m unfolding failed_attempts_snoc
    by (cases "di_live (failed_attempts msg m ?d)") (simp_all add: dial_error_def dial_retry_def Let_def)
  with some m show ?thesis by simp
qed

end
