(* ===== verification/Jwt.thy ===== *)
theory Jwt
  imports Prelude
begin

text \<open>
  \<open>src/common/jwt.ts\<close>: base64url over the platform's \<open>btoa\<close> and \<open>atob\<close>, the compact token
  format, and the key cache. \<open>crypto.subtle\<close> and \<open>JSON\<close> are services of the platform: the MAC of
  a secret and a message, its check, and the two JSON conversions (with their text encoding) are
  arguments, as is the expiry a payload carries as a number. Strings are over the characters up
  to U+00FF.
\<close>

section \<open>base64\<close>

definition b64_alphabet :: string where
  "b64_alphabet = ''ABCDEFGHIJKLMNOPQRSTUVWXYZabcdefghijklmnopqrstuvwxyz0123456789+/''"

definition b64_char :: "nat \<Rightarrow> char" where
  "b64_char i = b64_alphabet ! i"

definition b64_index :: "char \<Rightarrow> nat option" where
  "b64_index c = map_of (zip b64_alphabet [0..<64]) c"

text \<open>The sextets of the bytes, and back: the groups of three bytes, a last one of one or two.\<close>

fun sextets :: "nat list \<Rightarrow> nat list" where
  "sextets [] = []"
| "sextets [a] = [a div 4, a mod 4 * 16]"
| "sextets [a, b] = [a div 4, a mod 4 * 16 + b div 16, b mod 16 * 4]"
| "sextets (a # b # c # xs) = a div 4 # (a mod 4 * 16 + b div 16) # (b mod 16 * 4 + c div 64) # c mod 64 # sextets xs"

fun octets :: "nat list \<Rightarrow> nat list option" where
  "octets [] = Some []"
| "octets [p] = None"
| "octets [p, q] = Some [p * 4 + q div 16]"
| "octets [p, q, r] = Some [p * 4 + q div 16, q mod 16 * 16 + r div 4]"
| "octets (p # q # r # t # xs) =
     map_option (\<lambda>ys. (p * 4 + q div 16) # (q mod 16 * 16 + r div 4) # (r mod 4 * 64 + t) # ys) (octets xs)"

definition btoa :: "byte list \<Rightarrow> string" where
  "btoa bytes =
     (let body = map b64_char (sextets (map unat bytes))
      in body @ replicate ((4 - length body mod 4) mod 4) CHR ''='')"

text \<open>The forgiving decoding of \<open>atob\<close>; \<open>None\<close> where it throws.\<close>

definition ascii_space :: "char \<Rightarrow> bool" where
  "ascii_space c = (of_char c \<in> {9, 10, 12, 13, 32 :: nat})"

definition drop_padding :: "string \<Rightarrow> string" where
  "drop_padding s =
     (if length s mod 4 \<noteq> 0 then s
      else case rev s of
        c # c' # xs \<Rightarrow> if c = CHR ''='' then (if c' = CHR ''='' then rev xs else rev (c' # xs)) else s
      | _ \<Rightarrow> s)"

fun all_some :: "'a option list \<Rightarrow> 'a list option" where
  "all_some [] = Some []"
| "all_some (None # xs) = None"
| "all_some (Some x # xs) = map_option ((#) x) (all_some xs)"

definition atob :: "string \<Rightarrow> byte list option" where
  "atob s =
     Option.bind (all_some (map b64_index (drop_padding (filter (\<lambda>c. \<not> ascii_space c) s))))
       (\<lambda>ds. map_option (map word_of_nat) (octets ds))"

definition replaceAll :: "char \<Rightarrow> char \<Rightarrow> string \<Rightarrow> string" where
  "replaceAll a b s = map (\<lambda>c. if c = a then b else c) s"

text \<open>\<open>replace(/=+$/, '')\<close>.\<close>

definition strip_eq :: "string \<Rightarrow> string" where
  "strip_eq s = rev (dropWhile (\<lambda>c. c = CHR ''='') (rev s))"

definition toBase64Url :: "byte list \<Rightarrow> string" where
  "toBase64Url bytes = strip_eq (replaceAll CHR ''/'' CHR ''_'' (replaceAll CHR ''+'' CHR ''-'' (btoa bytes)))"

definition fromBase64Url :: "string \<Rightarrow> byte list option" where
  "fromBase64Url s =
     (let b64 = replaceAll CHR ''_'' CHR ''/'' (replaceAll CHR ''-'' CHR ''+'' s)
      in atob (b64 @ replicate ((4 - length b64 mod 4) mod 4) CHR ''=''))"

section \<open>Tokens\<close>

definition utf8 :: "string \<Rightarrow> byte list" where
  "utf8 s =
     concat (map (\<lambda>c. let n = of_char c :: nat in
        if n < 128 then [word_of_nat n] else [word_of_nat (192 + n div 64), word_of_nat (128 + n mod 64)]) s)"

definition quoted :: "string \<Rightarrow> string" where
  "quoted s = [CHR 0x22] @ s @ [CHR 0x22]"

definition JWT_HEADER :: string where
  "JWT_HEADER = toBase64Url (utf8 (''{'' @ quoted ''alg'' @ '':'' @ quoted ''HS256'' @ '','' @ quoted ''typ'' @ '':'' @ quoted ''JWT'' @ ''}''))"

definition JWT_CLOCK_LEEWAY_MS :: ms where "JWT_CLOCK_LEEWAY_MS = 30000"

fun split_dots :: "string \<Rightarrow> string list" where
  "split_dots [] = [[]]"
| "split_dots (c # cs) =
     (if c = CHR ''.'' then [] # split_dots cs
      else case split_dots cs of p # ps \<Rightarrow> (c # p) # ps | [] \<Rightarrow> [[c]])"

definition jwtSign :: "('p \<Rightarrow> byte list) \<Rightarrow> (string \<Rightarrow> byte list \<Rightarrow> byte list) \<Rightarrow> 'p \<Rightarrow> string \<Rightarrow> string" where
  "jwtSign stringify mac payload secret =
     (let body = toBase64Url (stringify payload);
          signed = JWT_HEADER @ ''.'' @ body
      in signed @ ''.'' @ toBase64Url (mac secret (utf8 signed)))"

definition jwtVerify ::
    "(byte list \<Rightarrow> 'p option) \<Rightarrow> ('p \<Rightarrow> ms option) \<Rightarrow> (string \<Rightarrow> byte list \<Rightarrow> byte list \<Rightarrow> bool) \<Rightarrow> ms \<Rightarrow> string \<Rightarrow> string \<Rightarrow> 'p option" where
  "jwtVerify parse exp_of check now token secret =
     (case split_dots token of
        [header, body, signature] \<Rightarrow>
          (case fromBase64Url signature of None \<Rightarrow> None
           | Some sig \<Rightarrow>
               if \<not> check secret sig (utf8 (header @ ''.'' @ body)) then None
               else case Option.bind (fromBase64Url body) parse of
                 None \<Rightarrow> None
               | Some payload \<Rightarrow>
                   (case exp_of payload of
                      Some e \<Rightarrow> if now > e + JWT_CLOCK_LEEWAY_MS then None else Some payload
                    | None \<Rightarrow> Some payload))
      | _ \<Rightarrow> None)"

section \<open>The key cache\<close>

datatype key_usage = SignKey | VerifyKey

definition KEY_CACHE_MAX :: nat where "KEY_CACHE_MAX = 256"

text \<open>
  Keys are numbered by the import that makes them; the second component of the result says
  whether a key was imported.
\<close>

record key_cache =
  kc_keys :: "(key_usage \<times> string, nat) jsmap"
  kc_next :: nat

definition hmacKey :: "string \<Rightarrow> key_usage \<Rightarrow> key_cache \<Rightarrow> (nat \<times> bool) \<times> key_cache" where
  "hmacKey secret usage s =
     (case jm_get (kc_keys s) (usage, secret) of
        Some key \<Rightarrow> ((key, False), s)
      | None \<Rightarrow>
          let keys = (if length (kc_keys s) \<ge> KEY_CACHE_MAX then
                        (case jm_keys (kc_keys s) of oldest # _ \<Rightarrow> jm_del (kc_keys s) oldest | [] \<Rightarrow> kc_keys s)
                      else kc_keys s)
          in ((kc_next s, True), s\<lparr>kc_keys := jm_set keys (usage, secret) (kc_next s), kc_next := Suc (kc_next s)\<rparr>))"

definition import_failed :: "string \<Rightarrow> key_usage \<Rightarrow> key_cache \<Rightarrow> key_cache" where
  "import_failed secret usage s = s\<lparr>kc_keys := jm_del (kc_keys s) (usage, secret)\<rparr>"

section \<open>Round trips\<close>

lemma sextets_small: "\<forall>x\<in>set xs. x < 256 \<Longrightarrow> \<forall>d\<in>set (sextets xs). d < 64"
  by (induction xs rule: sextets.induct) auto

lemma octets_sextets: "\<forall>x\<in>set xs. x < 256 \<Longrightarrow> octets (sextets xs) = Some xs"
proof (induction xs rule: sextets.induct)
  case (2 a)
  then show ?case by simp
next
  case (3 a b)
  then have "b div 16 < 16" "a mod 4 * 16 div 16 = a mod 4" by auto
  with 3 show ?case by simp
next
  case (4 a b c xs)
  then have IH: "octets (sextets xs) = Some xs" by simp
  have small: "b < 256" "c < 256" using 4(2) by simp_all
  then have hi: "b div 16 < 16" "c div 64 < 4" by auto
  have "(a mod 4 * 16 + b div 16) div 16 = a mod 4" using hi(1) by simp
  then have 1: "a div 4 * 4 + (a mod 4 * 16 + b div 16) div 16 = a" by simp
  have "(a mod 4 * 16 + b div 16) mod 16 = b div 16" using hi(1) by simp
  moreover have "(b mod 16 * 4 + c div 64) div 4 = b mod 16" using hi(2) by simp
  ultimately have 2: "(a mod 4 * 16 + b div 16) mod 16 * 16 + (b mod 16 * 4 + c div 64) div 4 = b" by simp
  have "(b mod 16 * 4 + c div 64) mod 4 = c div 64" using hi(2) by simp
  then have 3: "(b mod 16 * 4 + c div 64) mod 4 * 64 + c mod 64 = c" by simp
  show ?case using IH 1 2 3 by simp
qed simp

lemma b64_index_char: "i < 64 \<Longrightarrow> b64_index (b64_char i) = Some i"
proof -
  have "list_all (\<lambda>i. b64_index (b64_char i) = Some i) [0..<64]" by code_simp
  then show "i < 64 \<Longrightarrow> b64_index (b64_char i) = Some i" by (simp add: list_all_iff)
qed

definition plain_char :: "char \<Rightarrow> bool" where
  "plain_char c \<longleftrightarrow> c \<noteq> CHR ''='' \<and> c \<noteq> CHR ''-'' \<and> c \<noteq> CHR ''_'' \<and> c \<noteq> CHR ''.'' \<and> \<not> ascii_space c"

lemma b64_char_plain: "i < 64 \<Longrightarrow> plain_char (b64_char i)"
proof -
  have "list_all (\<lambda>i. plain_char (b64_char i)) [0..<64]" by code_simp
  then show "i < 64 \<Longrightarrow> plain_char (b64_char i)" by (simp add: list_all_iff)
qed

lemma length_sextets: "length (sextets xs) mod 4 \<noteq> 1"
proof (induction xs rule: sextets.induct)
  case (4 a b c xs)
  then show ?case by simp
qed simp_all

lemma all_some_map: "(\<And>x. x \<in> set xs \<Longrightarrow> f (g x) = Some x) \<Longrightarrow> all_some (map f (map g xs)) = Some xs"
  by (induction xs) auto

lemma strip_eq_pad:
  assumes "\<forall>c\<in>set s. c \<noteq> CHR ''=''"
  shows "strip_eq (s @ replicate n CHR ''='') = s"
proof -
  have "dropWhile (\<lambda>c. c = CHR ''='') (replicate n CHR ''='' @ rev s) = rev s"
    using assms by (induction n) (cases "rev s"; force simp: dropWhile_eq_self_iff)+
  then show ?thesis by (simp add: strip_eq_def)
qed

lemma drop_padding_pad:
  assumes "\<forall>c\<in>set s. c \<noteq> CHR ''=''" and "length s mod 4 \<noteq> 1"
  shows "drop_padding (s @ replicate ((4 - length s mod 4) mod 4) CHR ''='') = s"
proof -
  have "length s mod 4 < 4" by simp
  then consider "length s mod 4 = 0" | "length s mod 4 = 2" | "length s mod 4 = 3" using assms(2) by linarith
  then show ?thesis
  proof cases
    case 1
    have "hd (rev s) \<noteq> CHR ''=''" if "s \<noteq> []" using assms(1) that by (simp add: hd_rev)
    with 1 show ?thesis by (cases "rev s") (auto simp: drop_padding_def split: list.split)
  next
    case 2
    then have "(length s + 2) mod 4 = 0" by presburger
    with 2 show ?thesis by (simp add: drop_padding_def numeral_2_eq_2)
  next
    case 3
    then have len: "(length s + 1) mod 4 = 0" and ne: "s \<noteq> []" by (presburger, auto)
    then obtain c xs where s: "rev s = c # xs" by (cases "rev s") auto
    then have "c \<in> set s" by (metis list.set_intros(1) set_rev)
    then have "c \<noteq> CHR ''=''" using assms(1) by blast
    with 3 len s show ?thesis by (simp add: drop_padding_def)
  qed
qed

definition url_char :: "char \<Rightarrow> char" where
  "url_char c = (if c = CHR ''+'' then CHR ''-'' else if c = CHR ''/'' then CHR ''_'' else c)"

definition b64_body :: "byte list \<Rightarrow> string" where
  "b64_body bytes = map b64_char (sextets (map unat bytes))"

lemma bytes_small: "\<forall>x\<in>set (map unat (bytes :: byte list)). x < 256"
proof -
  have "unat b < 256" for b :: byte using unsigned_less [of b] by simp
  then show ?thesis by simp
qed

lemma b64_body_plain: "c \<in> set (b64_body bytes) \<Longrightarrow> plain_char c"
  using sextets_small [OF bytes_small [of bytes]] by (auto simp: b64_body_def b64_char_plain)

lemma btoa_body: "btoa bytes = b64_body bytes @ replicate ((4 - length (b64_body bytes) mod 4) mod 4) CHR ''=''"
  by (simp add: btoa_def b64_body_def Let_def)

lemma toBase64Url_eq: "toBase64Url bytes = map url_char (b64_body bytes)"
proof -
  let ?n = "(4 - length (b64_body bytes) mod 4) mod 4"
  have "replaceAll CHR ''/'' CHR ''_'' (replaceAll CHR ''+'' CHR ''-'' (btoa bytes)) =
      map url_char (b64_body bytes) @ replicate ?n CHR ''=''"
    by (auto simp: btoa_body replaceAll_def url_char_def)
  moreover have "c \<noteq> CHR ''=''" if "c \<in> set (map url_char (b64_body bytes))" for c
    using that b64_body_plain by (auto simp: url_char_def plain_char_def)
  ultimately show ?thesis unfolding toBase64Url_def by (simp add: strip_eq_pad)
qed

lemma from_to_Base64Url: "fromBase64Url (toBase64Url bytes) = Some bytes"
proof -
  let ?b = "b64_body bytes"
  let ?pad = "replicate ((4 - length ?b mod 4) mod 4) CHR ''=''"
  have undo: "replaceAll CHR ''_'' CHR ''/'' (replaceAll CHR ''-'' CHR ''+'' (toBase64Url bytes)) = ?b"
    unfolding toBase64Url_eq replaceAll_def map_map
    by (rule map_idI) (auto simp: url_char_def plain_char_def dest!: b64_body_plain)
  have plain: "\<forall>c\<in>set ?b. c \<noteq> CHR ''=''" using b64_body_plain by (auto simp: plain_char_def)
  have "filter (\<lambda>c. \<not> ascii_space c) (?b @ ?pad) = ?b @ ?pad"
    using b64_body_plain by (auto simp: filter_id_conv plain_char_def ascii_space_def)
  moreover have "drop_padding (?b @ ?pad) = ?b"
    by (rule drop_padding_pad [OF plain]) (unfold b64_body_def length_map, rule length_sextets)
  moreover have "all_some (map b64_index ?b) = Some (sextets (map unat bytes))"
    unfolding b64_body_def
    by (rule all_some_map) (use sextets_small [OF bytes_small] b64_index_char in blast)
  ultimately have "atob (?b @ ?pad) = Some bytes"
    by (simp add: atob_def octets_sextets [OF bytes_small] comp_def)
  then show ?thesis by (simp add: fromBase64Url_def Let_def undo)
qed

lemma toBase64Url_no_dot: "CHR ''.'' \<notin> set (toBase64Url bytes)"
  using b64_body_plain by (force simp: toBase64Url_eq url_char_def plain_char_def split: if_splits)

lemma split_dots_token: "CHR ''.'' \<notin> set a \<Longrightarrow> split_dots (a @ CHR ''.'' # rest) = a # split_dots rest"
  by (induction a) auto

lemma split_dots_last: "CHR ''.'' \<notin> set a \<Longrightarrow> split_dots a = [a]"
  by (induction a) auto

lemma split_signed:
  "split_dots (JWT_HEADER @ ''.'' @ toBase64Url b @ ''.'' @ toBase64Url s) = [JWT_HEADER, toBase64Url b, toBase64Url s]"
  using split_dots_token [of JWT_HEADER] split_dots_token [OF toBase64Url_no_dot] split_dots_last [OF toBase64Url_no_dot]
  by (simp add: JWT_HEADER_def toBase64Url_no_dot)



lemma verify_signed_parts:
  "jwtVerify parse exp_of check now (JWT_HEADER @ ''.'' @ toBase64Url b @ ''.'' @ toBase64Url sig) secret =
     (if \<not> check secret sig (utf8 (JWT_HEADER @ ''.'' @ toBase64Url b)) then None
      else case parse b of None \<Rightarrow> None
      | Some payload \<Rightarrow>
          (case exp_of payload of
             Some e \<Rightarrow> if now > e + JWT_CLOCK_LEEWAY_MS then None else Some payload
           | None \<Rightarrow> Some payload))"
  unfolding jwtVerify_def split_signed by (simp add: from_to_Base64Url split: option.split)

lemma jwtSign_parts:
  "jwtSign stringify mac payload secret =
     JWT_HEADER @ ''.'' @ toBase64Url (stringify payload) @ ''.'' @
     toBase64Url (mac secret (utf8 (JWT_HEADER @ ''.'' @ toBase64Url (stringify payload))))"
  by (simp add: jwtSign_def Let_def)

text \<open>
  A signed token. With a MAC whose check accepts exactly its own output, and a payload that
  survives the JSON conversions, a token minted by \<open>jwtSign\<close> verifies to its payload under the
  same secret until thirty seconds after its expiry and is rejected later, and it is rejected at
  any time under a secret whose MAC of the signed text differs.
\<close>

theorem jwt_roundtrip:
  assumes "\<And>k sig m. check k sig m \<longleftrightarrow> sig = mac k m"
    and "parse (stringify payload) = Some payload"
    and "mac other (utf8 (JWT_HEADER @ ''.'' @ toBase64Url (stringify payload))) \<noteq>
         mac secret (utf8 (JWT_HEADER @ ''.'' @ toBase64Url (stringify payload)))"
  shows "jwtVerify parse exp_of check now (jwtSign stringify mac payload secret) secret =
      (case exp_of payload of Some e \<Rightarrow> if e + 30000 < now then None else Some payload | None \<Rightarrow> Some payload) \<and>
    jwtVerify parse exp_of check now (jwtSign stringify mac payload secret) other = None"
  unfolding jwtSign_parts verify_signed_parts using assms(3)
  by (simp add: assms(1,2) JWT_CLOCK_LEEWAY_MS_def split: option.split)

lemma accepted_is_signed:
  assumes "jwtVerify parse exp_of check now token secret = Some payload"
  shows "\<exists>header body signature sig bytes. split_dots token = [header, body, signature] \<and>
      fromBase64Url signature = Some sig \<and> check secret sig (utf8 (header @ ''.'' @ body)) \<and>
      fromBase64Url body = Some bytes \<and> parse bytes = Some payload \<and>
      (\<forall>e. exp_of payload = Some e \<longrightarrow> now \<le> e + JWT_CLOCK_LEEWAY_MS)"
  using assms unfolding jwtVerify_def
  by (auto split: list.splits option.splits if_splits simp: bind_eq_Some_conv)

definition demo_mac :: "string \<Rightarrow> byte list \<Rightarrow> byte list" where
  "demo_mac secret m = [word_of_nat (length secret), sum_list m]"

definition demo_parse :: "byte list \<Rightarrow> (byte \<times> byte) option" where
  "demo_parse bytes = (case bytes of [a, b] \<Rightarrow> Some (a, b) | _ \<Rightarrow> None)"

lemma jwt_roundtrip_witness:
  "let token = jwtSign (\<lambda>(a, b). [a, b]) demo_mac (7, 250) ''s3cret'';
       verify = jwtVerify demo_parse (\<lambda>p. Some (int (unat (fst p)))) (\<lambda>k sig m. sig = demo_mac k m)
   in verify 30007 token ''s3cret'' = Some (7, 250) \<and> verify 30008 token ''s3cret'' = None \<and> verify 0 token ''other'' = None"
proof -
  let ?tok = "jwtSign (\<lambda>(a, b). [a, b]) demo_mac (7, 250) ''s3cret''"
  let ?v = "jwtVerify demo_parse (\<lambda>p. Some (int (unat (fst p)))) (\<lambda>k sig m. sig = demo_mac k m)"
  have "?v now ?tok ''s3cret'' = (if 30007 < now then None else Some (7, 250)) \<and> ?v now ?tok ''other'' = None" for now
    using jwt_roundtrip [where parse = demo_parse and exp_of = "\<lambda>p. Some (int (unat (fst p)))" and
        check = "\<lambda>k sig m. sig = demo_mac k m" and mac = demo_mac and stringify = "\<lambda>(a, b). [a, b]" and
        payload = "(7, 250)" and secret = "''s3cret''" and other = "''other''" and now = now]
    by (simp add: demo_parse_def demo_mac_def)
  then show ?thesis by (simp add: Let_def)
qed

section \<open>The key cache stays bounded\<close>

definition cache_ok :: "key_cache \<Rightarrow> bool" where
  "cache_ok s \<longleftrightarrow> jm_wf (kc_keys s) \<and> length (kc_keys s) \<le> KEY_CACHE_MAX"

lemma length_jm_del: "length (jm_del m k) \<le> length m"
  by (simp add: jm_del_def length_delete_le)

lemma length_jm_set: "length (jm_set m k v) \<le> Suc (length m)"
  unfolding jm_set_def by (induction m) auto

lemma length_jm_del_hd: "m = (k, v) # rest \<Longrightarrow> length (jm_del m k) < length m"
  by (simp add: jm_del_def less_Suc_eq_le length_delete_le)

lemma hmacKey_ok [wf_intros]: "cache_ok s \<Longrightarrow> cache_ok (snd (hmacKey secret usage s))"
proof (cases "jm_get (kc_keys s) (usage, secret)")
  case None
  assume ok: "cache_ok s"
  let ?keys = "if length (kc_keys s) \<ge> KEY_CACHE_MAX then
      (case jm_keys (kc_keys s) of oldest # _ \<Rightarrow> jm_del (kc_keys s) oldest | [] \<Rightarrow> kc_keys s) else kc_keys s"
  have "jm_wf ?keys" using ok by (auto simp: cache_ok_def split: list.split)
  moreover have "length ?keys < KEY_CACHE_MAX"
    using ok length_jm_del_hd [of "kc_keys s"]
    by (cases "kc_keys s") (auto simp: cache_ok_def jm_keys_def KEY_CACHE_MAX_def)
  ultimately show ?thesis
    using None length_jm_set [of ?keys "(usage, secret)" "kc_next s"] by (simp add: hmacKey_def cache_ok_def Let_def)
qed (simp add: hmacKey_def)

lemma import_failed_ok [wf_intros]: "cache_ok s \<Longrightarrow> cache_ok (import_failed secret usage s)"
  using length_jm_del [of "kc_keys s"] by (auto simp: import_failed_def cache_ok_def intro: order_trans)

lemma hmacKey_cached:
  "jm_get (kc_keys (snd (hmacKey secret usage s))) (usage, secret) = Some (fst (fst (hmacKey secret usage s)))"
  by (simp add: hmacKey_def Let_def split: option.split)

end
