(* ===== verification/Client.thy ===== *)
theory Client
  imports Protocol Complex_Main
begin

text \<open>
  \<open>src/client/index.ts\<close>: one connection of the browser client, from \<open>connect\<close> to its terminal
  CLOSED state. The variables closed over by \<open>connect\<close> are the fields of one record, with the
  \<open>WebSocket\<close> objects it made (their ready state, whether handlers are still wired) and the live
  timers; what the connection does to sockets and to the application is logged in order. Each
  browser event (a socket opening, a frame, a close, a timer) and each call of the application
  is one function. Only \<open>onDrop\<close> is called with code still to follow in the same handler, so
  the calls an application makes inside it, and whether it then throws, are arguments of the close
  event: a throw skips what follows.
\<close>

section \<open>State\<close>

type_synonym socket_id = nat

datatype connection_status = Connecting | Open | Reconnecting | Closed

datatype close_cause = Consented | Auth | InitialConnectFailed | SessionRejected | ReconnectFailed | BufferOverflow | ByServer

datatype ready_state = CONNECTING | OPEN | CLOSING | CLOSED

record ws_object =
  so_isReconnect :: bool
  so_wired :: bool
  so_ready :: ready_state

datatype client_action =
    NewWebSocket socket_id string
  | WsSend socket_id "byte list"
  | WsClose socket_id "(nat \<times> string) option"
  | CbOpen
  | CbMessage frame
  | CbDrop
  | CbReconnect
  | CbAuthError string
  | CbClose nat string close_cause
  | CbError

record connection =
  cc_url :: string
  cc_state :: connection_status
  cc_ws :: "socket_id option"
  cc_sessionToken :: "string option"
  cc_clientId :: "string option"
  cc_retryCount :: nat
  cc_uptimeTimer :: "nat option"
  cc_backoffTimer :: "nat option"
  cc_openedAt :: "ms option"
  cc_initialAuthFailed :: bool
  cc_consentedClose :: bool
  cc_reliableBuffer :: "(user_message \<times> nat) list"
  cc_reliableBufferBytes :: nat
  cc_unload :: bool
  cc_sockets :: "(socket_id, ws_object) jsmap"
  cc_uptimes :: "nat list"
  cc_backoffs :: "nat list"
  cc_next :: nat
  cc_log :: "client_action list"

definition MIN_DELAY :: rat where "MIN_DELAY = 1000"
definition MAX_DELAY :: rat where "MAX_DELAY = 10000"
definition BACKOFF_FACTOR :: rat where "BACKOFF_FACTOR = 3 / 2"
definition MIN_UPTIME :: ms where "MIN_UPTIME = 5000"
definition MAX_RECONNECT_ATTEMPTS :: nat where "MAX_RECONNECT_ATTEMPTS = 10"
definition MAX_BUFFER_BYTES :: nat where "MAX_BUFFER_BYTES = 1048576"

text \<open>\<open>random\<close> is \<open>Math.random()\<close>, in exact arithmetic.\<close>

definition computeDelay :: "nat \<Rightarrow> rat \<Rightarrow> rat" where
  "computeDelay retryCount random =
     min (MIN_DELAY * BACKOFF_FACTOR ^ (retryCount - 1) * (1 / 2 + random)) MAX_DELAY"

definition appendParam :: "string \<Rightarrow> string \<Rightarrow> string \<Rightarrow> string" where
  "appendParam url key val = url @ (if CHR ''?'' \<in> set url then ''&'' else ''?'') @ key @ ''='' @ val"

text \<open>\<open>String(PROTOCOL_VERSION)\<close>.\<close>

definition withProtocolVersion :: "string \<Rightarrow> string" where
  "withProtocolVersion url = appendParam url ''gv'' ''1''"

definition buildReconnectUrl :: "string \<Rightarrow> string \<Rightarrow> string" where
  "buildReconnectUrl originalUrl token = withProtocolVersion (appendParam originalUrl ''session'' token)"

section \<open>Sockets and timers\<close>

definition say :: "client_action list \<Rightarrow> connection \<Rightarrow> connection" where
  "say as s = s\<lparr>cc_log := cc_log s @ as\<rparr>"

definition ready :: "connection \<Rightarrow> socket_id \<Rightarrow> ready_state" where
  "ready s k = (case jm_get (cc_sockets s) k of Some w \<Rightarrow> so_ready w | None \<Rightarrow> CLOSED)"

definition wired :: "connection \<Rightarrow> socket_id \<Rightarrow> bool" where
  "wired s k = (case jm_get (cc_sockets s) k of Some w \<Rightarrow> so_wired w | None \<Rightarrow> False)"

definition isReconnect :: "connection \<Rightarrow> socket_id \<Rightarrow> bool" where
  "isReconnect s k = (case jm_get (cc_sockets s) k of Some w \<Rightarrow> so_isReconnect w | None \<Rightarrow> False)"

definition set_ready :: "socket_id \<Rightarrow> ready_state \<Rightarrow> connection \<Rightarrow> connection" where
  "set_ready k r s =
     (case jm_get (cc_sockets s) k of None \<Rightarrow> s
      | Some w \<Rightarrow> s\<lparr>cc_sockets := jm_set (cc_sockets s) k (w\<lparr>so_ready := r\<rparr>)\<rparr>)"

definition unwire :: "socket_id \<Rightarrow> connection \<Rightarrow> connection" where
  "unwire k s =
     (case jm_get (cc_sockets s) k of None \<Rightarrow> s
      | Some w \<Rightarrow> s\<lparr>cc_sockets := jm_set (cc_sockets s) k (w\<lparr>so_wired := False\<rparr>)\<rparr>)"

text \<open>\<open>new WebSocket(url)\<close> followed by \<open>wireSocket\<close>; the new socket is \<open>ws\<close>.\<close>

definition new_socket :: "string \<Rightarrow> bool \<Rightarrow> connection \<Rightarrow> connection" where
  "new_socket url isRec s =
     say [NewWebSocket (cc_next s) url]
       (s\<lparr>cc_ws := Some (cc_next s),
          cc_sockets := jm_set (cc_sockets s) (cc_next s) \<lparr>so_isReconnect = isRec, so_wired = True, so_ready = CONNECTING\<rparr>,
          cc_next := Suc (cc_next s)\<rparr>)"

text \<open>
  The browser's \<open>send\<close> and \<open>close\<close>: data on a socket that is closing or closed is discarded; a
  close of one that is closing or closed does nothing. A socket that is still connecting would
  throw on \<open>send\<close>; the code sends only on a socket that has delivered a frame.
\<close>

definition ws_write :: "socket_id \<Rightarrow> byte list \<Rightarrow> connection \<Rightarrow> connection" where
  "ws_write k data s = (if ready s k = OPEN then say [WsSend k data] s else s)"

definition ws_shut :: "socket_id \<Rightarrow> (nat \<times> string) option \<Rightarrow> connection \<Rightarrow> connection" where
  "ws_shut k why s =
     (if ready s k \<in> {CONNECTING, OPEN} then say [WsClose k why] (set_ready k CLOSING s) else s)"

definition clearUptime :: "connection \<Rightarrow> connection" where
  "clearUptime s =
     (case cc_uptimeTimer s of None \<Rightarrow> s
      | Some i \<Rightarrow> s\<lparr>cc_uptimes := removeAll i (cc_uptimes s), cc_uptimeTimer := None\<rparr>)"

definition clearTimers :: "connection \<Rightarrow> connection" where
  "clearTimers s =
     (let s1 = clearUptime s in
      case cc_backoffTimer s1 of None \<Rightarrow> s1
      | Some i \<Rightarrow> s1\<lparr>cc_backoffs := removeAll i (cc_backoffs s1), cc_backoffTimer := None\<rparr>)"

definition startUptime :: "connection \<Rightarrow> connection" where
  "startUptime s = s\<lparr>cc_uptimes := cc_next s # cc_uptimes s, cc_uptimeTimer := Some (cc_next s), cc_next := Suc (cc_next s)\<rparr>"

section \<open>Helpers\<close>

fun estimateByteSize :: "user_message \<Rightarrow> nat" where
  "estimateByteSize (TextMsg t) = length t * 2"
| "estimateByteSize (BlobMsg b) = length b"
| "estimateByteSize (BufferMsg b) = length b"
| "estimateByteSize (ViewMsg _ _ len) = len"

definition enterClosed :: "nat \<Rightarrow> string \<Rightarrow> close_cause \<Rightarrow> connection \<Rightarrow> connection" where
  "enterClosed code reason cause s =
     say [CbClose code reason cause]
       ((clearTimers (s\<lparr>cc_state := Closed\<rparr>))
          \<lparr>cc_unload := False, cc_ws := None, cc_reliableBuffer := [], cc_reliableBufferBytes := 0\<rparr>)"

definition bufferReliable :: "user_message \<Rightarrow> connection \<Rightarrow> connection" where
  "bufferReliable msg s =
     (let byteSize = estimateByteSize msg;
          s1 = s\<lparr>cc_reliableBuffer := cc_reliableBuffer s @ [(msg, byteSize)],
                 cc_reliableBufferBytes := cc_reliableBufferBytes s + byteSize\<rparr>
      in if cc_reliableBufferBytes s1 > MAX_BUFFER_BYTES
         then enterClosed 1009 ''outbound buffer overflow'' BufferOverflow s1 else s1)"

text \<open>
  The loop of \<open>flushReliableBuffer\<close>; \<open>False\<close> where framing throws, which skips everything that
  follows in the handler.
\<close>

fun flush_loop :: "socket_id \<Rightarrow> (user_message \<times> nat) list \<Rightarrow> connection \<Rightarrow> bool \<times> connection" where
  "flush_loop k [] s = (True, s)"
| "flush_loop k ((m, _) # ms) s =
     (case frameUserMessage m of Inl _ \<Rightarrow> (False, s) | Inr f \<Rightarrow> flush_loop k ms (ws_write k f s))"

definition flushReliableBuffer :: "socket_id \<Rightarrow> connection \<Rightarrow> bool \<times> connection" where
  "flushReliableBuffer k s =
     (case flush_loop k (cc_reliableBuffer s) s of
        (True, s1) \<Rightarrow> (True, s1\<lparr>cc_reliableBuffer := [], cc_reliableBufferBytes := 0\<rparr>)
      | (False, s1) \<Rightarrow> (False, s1))"

definition sendLeaveAndClose :: "(protocol_message \<Rightarrow> byte list) \<Rightarrow> socket_id \<Rightarrow> connection \<Rightarrow> connection" where
  "sendLeaveAndClose pack k s =
     (if ready s k = OPEN
      then ws_shut k (Some (CONSENTED, ''consented leave'')) (ws_write k (packProtocol pack Leave) s)
      else ws_shut k None s)"

definition onBeforeUnload :: "(protocol_message \<Rightarrow> byte list) \<Rightarrow> connection \<Rightarrow> connection" where
  "onBeforeUnload pack s =
     (case cc_ws s of Some k \<Rightarrow> if cc_unload s \<and> cc_state s = Open then sendLeaveAndClose pack k s else s | None \<Rightarrow> s)"

section \<open>The application's calls\<close>

definition conn_send :: "user_message \<Rightarrow> bool \<Rightarrow> connection \<Rightarrow> (frame_error + unit) \<times> connection" where
  "conn_send msg reliable s =
     (case (cc_state s, cc_ws s) of
        (Open, Some k) \<Rightarrow>
          (case frameUserMessage msg of Inl e \<Rightarrow> (Inl e, s) | Inr f \<Rightarrow> (Inr (), ws_write k f s))
      | (st, _) \<Rightarrow>
          (Inr (), if (st = Connecting \<or> st = Reconnecting) \<and> reliable then bufferReliable msg s else s))"

definition conn_close :: "(protocol_message \<Rightarrow> byte list) \<Rightarrow> connection \<Rightarrow> connection" where
  "conn_close pack s =
     (case (cc_state s, cc_ws s) of
        (Closed, _) \<Rightarrow> s
      | (Open, Some k) \<Rightarrow> sendLeaveAndClose pack k (s\<lparr>cc_consentedClose := True\<rparr>)
      | (Open, None) \<Rightarrow> s
      | (Reconnecting, w) \<Rightarrow>
          enterClosed CONSENTED ''client closed during reconnection'' Consented
            (case w of Some k \<Rightarrow> ws_shut k None (unwire k s) | None \<Rightarrow> s)
      | (Connecting, Some k) \<Rightarrow>
          enterClosed CONSENTED ''client closed during connect'' Consented (ws_shut k None (unwire k s))
      | (Connecting, None) \<Rightarrow> s)"

datatype app_call = AppSend user_message bool | AppClose

fun app_step :: "(protocol_message \<Rightarrow> byte list) \<Rightarrow> connection \<Rightarrow> app_call \<Rightarrow> connection" where
  "app_step pack s (AppSend m r) = snd (conn_send m r s)"
| "app_step pack s AppClose = conn_close pack s"

section \<open>Reconnection\<close>

definition startReconnect :: "connection \<Rightarrow> connection" where
  "startReconnect s =
     (if cc_state s \<noteq> Reconnecting then s
      else if cc_retryCount s \<ge> MAX_RECONNECT_ATTEMPTS then
        enterClosed 1006 ''reconnection attempts exhausted'' ReconnectFailed s
      else s\<lparr>cc_retryCount := Suc (cc_retryCount s), cc_backoffs := cc_next s # cc_backoffs s,
             cc_backoffTimer := Some (cc_next s), cc_next := Suc (cc_next s)\<rparr>)"

definition backoff_fire :: "nat \<Rightarrow> connection \<Rightarrow> connection" where
  "backoff_fire i s =
     (if i \<notin> set (cc_backoffs s) then s
      else
        let s1 = s\<lparr>cc_backoffs := removeAll i (cc_backoffs s), cc_backoffTimer := None\<rparr> in
        if cc_state s1 \<noteq> Reconnecting then s1
        else case cc_sessionToken s1 of
            Some (c # cs) \<Rightarrow> new_socket (buildReconnectUrl (cc_url s1) (c # cs)) True s1
          | _ \<Rightarrow> enterClosed 1006 ''no session token'' ByServer s1)"

definition uptime_fire :: "nat \<Rightarrow> connection \<Rightarrow> connection" where
  "uptime_fire i s =
     (if i \<notin> set (cc_uptimes s) then s else s\<lparr>cc_uptimes := removeAll i (cc_uptimes s), cc_retryCount := 0\<rparr>)"

section \<open>Socket handlers\<close>

definition socket_onopen :: "socket_id \<Rightarrow> connection \<Rightarrow> connection" where
  "socket_onopen k s =
     (if ready s k \<noteq> CONNECTING then s
      else
        let s1 = set_ready k OPEN s
        in if wired s1 k \<and> cc_state s1 = Closed then ws_shut k None s1 else s1)"

text \<open>A \<open>session\<close> message moves to open, then flushes, then tells the application.\<close>

definition session_opened :: "socket_id \<Rightarrow> ms \<Rightarrow> client_action \<Rightarrow> connection \<Rightarrow> connection" where
  "session_opened k now cb s =
     (case flushReliableBuffer k (startUptime (s\<lparr>cc_state := Open, cc_openedAt := Some now\<rparr>)) of
        (True, s1) \<Rightarrow> say [cb] s1
      | (False, s1) \<Rightarrow> s1)"

definition on_protocol :: "socket_id \<Rightarrow> ms \<Rightarrow> protocol_message \<Rightarrow> connection \<Rightarrow> connection" where
  "on_protocol k now msg s =
     (case msg of
        Session token cid \<Rightarrow>
          let s1 = s\<lparr>cc_sessionToken := Some token, cc_clientId := Some cid\<rparr> in
          if isReconnect s1 k \<and> cc_state s1 = Reconnecting then
            session_opened k now CbReconnect (s1\<lparr>cc_retryCount := 0\<rparr>)
          else if \<not> isReconnect s1 k \<and> cc_state s1 = Connecting then session_opened k now CbOpen s1
          else s1
      | AuthError err \<Rightarrow>
          if isReconnect s k \<and> cc_state s = Reconnecting then
            enterClosed CONSENTED ''session rejected'' SessionRejected (ws_shut k None s)
          else say [CbAuthError err] (s\<lparr>cc_initialAuthFailed := True\<rparr>)
      | Leave \<Rightarrow> s)"

text \<open>
  A message event; \<open>data\<close> is \<open>None\<close> where it is not an \<open>ArrayBuffer\<close>. The browser delivers
  one only on an open socket. A frame that does not unpack throws in the event handler.
\<close>

definition socket_onmessage ::
    "(byte list \<Rightarrow> protocol_message option) \<Rightarrow> socket_id \<Rightarrow> ms \<Rightarrow> byte list option \<Rightarrow> connection \<Rightarrow> connection" where
  "socket_onmessage unpack k now data s =
     (if ready s k \<noteq> OPEN \<or> \<not> wired s k then s
      else case data of None \<Rightarrow> s
        | Some d \<Rightarrow>
            (case unpackFrame unpack d of Inl _ \<Rightarrow> s
             | Inr (ProtocolFrame msg) \<Rightarrow> on_protocol k now msg s
             | Inr f \<Rightarrow> say [CbMessage f] s))"

definition opened_long_ago :: "ms \<Rightarrow> connection \<Rightarrow> bool" where
  "opened_long_ago now s =
     (case cc_openedAt s of Some t \<Rightarrow> t \<noteq> 0 \<and> now - t \<ge> MIN_UPTIME | None \<Rightarrow> False)"

text \<open>
  A close event. \<open>onDrop\<close> makes the calls \<open>calls\<close>; where it throws after them, the exception leaves
  the handler and \<open>startReconnect\<close> is not reached.
\<close>

definition socket_onclose ::
    "(protocol_message \<Rightarrow> byte list) \<Rightarrow> socket_id \<Rightarrow> nat \<Rightarrow> string \<Rightarrow> ms \<Rightarrow> app_call list \<Rightarrow> bool \<Rightarrow> connection \<Rightarrow>
     connection" where
  "socket_onclose pack k code reason now calls dropThrows s =
     (if ready s k = CLOSED then s
      else if \<not> wired s k then set_ready k CLOSED s
      else
        let s1 = clearUptime (set_ready k CLOSED s) in
        (case cc_state s1 of
           Closed \<Rightarrow> s1
         | Connecting \<Rightarrow>
             enterClosed code reason (if cc_initialAuthFailed s1 then Auth else InitialConnectFailed) s1
         | Reconnecting \<Rightarrow> startReconnect s1
         | Open \<Rightarrow>
             if code = CONSENTED then enterClosed code reason (if cc_consentedClose s1 then Consented else ByServer) s1
             else if cc_sessionToken s1 \<noteq> None \<and> cc_sessionToken s1 \<noteq> Some [] then
               let s2 = s1\<lparr>cc_state := Reconnecting, cc_ws := None\<rparr>;
                   s3 = (if opened_long_ago now s2 then s2\<lparr>cc_retryCount := 0\<rparr> else s2);
                   s4 = foldl (app_step pack) (say [CbDrop] s3) calls
               in if dropThrows then s4 else startReconnect s4
             else enterClosed code reason ByServer s1))"

definition socket_onerror :: "socket_id \<Rightarrow> connection \<Rightarrow> connection" where
  "socket_onerror k s = (if wired s k then say [CbError] s else s)"

definition connect :: "string \<Rightarrow> connection" where
  "connect url =
     new_socket (withProtocolVersion url) False
       \<lparr>cc_url = url, cc_state = Connecting, cc_ws = None, cc_sessionToken = None, cc_clientId = None,
        cc_retryCount = 0, cc_uptimeTimer = None, cc_backoffTimer = None, cc_openedAt = None,
        cc_initialAuthFailed = False, cc_consentedClose = False, cc_reliableBuffer = [],
        cc_reliableBufferBytes = 0, cc_unload = True, cc_sockets = [], cc_uptimes = [], cc_backoffs = [],
        cc_next = 0, cc_log = []\<rparr>"

end
