(* ===== verification/Memory_Driver.thy ===== *)
theory Memory_Driver
  imports Driver_Types
begin

text \<open>
  \<open>src/driver/memory.ts\<close>: the in-process registry of servers, rooms and clients. The three
  \<open>Map\<close>s and the event emitter are the fields of one record; every method is a function
  from the state (and \<open>Date.now()\<close>, where the method reads the clock) to its result and the
  new state. No method but \<open>reserveClient\<close> awaits anything, so each is one atomic step;
  \<open>reserveClient\<close> is split at its await. An emitted event is appended to the outbox once for
  every listener registered on its channel at that moment.
\<close>

section \<open>State\<close>

record room_record =
  rr_roomId :: string
  rr_roomType :: string
  rr_serverId :: string
  rr_status :: room_status
  rr_endpoint :: "string option"
  rr_roomSecret :: "string option"
  rr_data :: room_data
  rr_tags :: tags
  rr_createdAt :: ms
  rr_requestedExpiresAt :: ms

record client_record =
  cl_clientId :: string
  cl_roomId :: string
  cl_status :: client_status
  cl_expiresAt :: ms
  cl_tags :: tags
  cl_connectedAt :: ms

record server_record =
  sv_serverId :: string
  sv_endpoint :: string
  sv_tags :: tags
  sv_roomTypes :: "string list"
  sv_lastHeartbeat :: ms

datatype channel = ChRoomAssigned string | ChRoomReady string | ChRoomFailed string
datatype driver_event = EvAssigned desired_room | EvReady room_info | EvFailed string

record memory_driver =
  staleServerMs :: ms
  rooms :: "(string, room_record) jsmap"
  clients :: "(string, client_record) jsmap"
  servers :: "(string, server_record) jsmap"
  listeners :: "(channel \<times> nat) list"
  outbox :: "(nat \<times> driver_event) list"

definition DEFAULT_STALE_SERVER_MS :: ms where
  "DEFAULT_STALE_SERVER_MS = 30000"

definition createMemoryDriver :: "ms option \<Rightarrow> memory_driver" where
  "createMemoryDriver stale =
     \<lparr>staleServerMs = (case stale of Some n \<Rightarrow> n | None \<Rightarrow> DEFAULT_STALE_SERVER_MS),
      rooms = [], clients = [], servers = [], listeners = [], outbox = []\<rparr>"

definition emit :: "channel \<Rightarrow> driver_event \<Rightarrow> memory_driver \<Rightarrow> memory_driver" where
  "emit ch ev s = s\<lparr>outbox := outbox s @ map (\<lambda>(_, l). (l, ev)) (filter (\<lambda>(c, _). c = ch) (listeners s))\<rparr>"

section \<open>Views\<close>

definition client_to_info :: "client_record \<Rightarrow> client_info" where
  "client_to_info c =
     \<lparr>ci_clientId = cl_clientId c, ci_status = cl_status c, ci_tags = cl_tags c, ci_connectedAt = cl_connectedAt c\<rparr>"

definition getClientsForRoom :: "memory_driver \<Rightarrow> string \<Rightarrow> client_info list" where
  "getClientsForRoom s roomId =
     map client_to_info (filter (\<lambda>c. cl_roomId c = roomId) (jm_values (clients s)))"

definition roomToInfo :: "memory_driver \<Rightarrow> room_record \<Rightarrow> room_info" where
  "roomToInfo s r =
     \<lparr>ri_roomId = rr_roomId r, ri_roomType = rr_roomType r, ri_serverId = rr_serverId r,
      ri_status = rr_status r, ri_endpoint = rr_endpoint r,
      ri_clients = getClientsForRoom s (rr_roomId r),
      ri_data = rr_data r, ri_tags = rr_tags r, ri_createdAt = rr_createdAt r\<rparr>"

definition getRoomsForServer :: "memory_driver \<Rightarrow> string \<Rightarrow> room_info list" where
  "getRoomsForServer s serverId =
     map (roomToInfo s) (filter (\<lambda>r. rr_serverId r = serverId) (jm_values (rooms s)))"

definition serverToInfo :: "memory_driver \<Rightarrow> server_record \<Rightarrow> server_info" where
  "serverToInfo s v =
     \<lparr>si_serverId = sv_serverId v, si_endpoint = sv_endpoint v, si_lastHeartbeat = sv_lastHeartbeat v,
      si_rooms = getRoomsForServer s (sv_serverId v), si_tags = sv_tags v, si_roomTypes = sv_roomTypes v\<rparr>"

section \<open>Deletion\<close>

definition deleteClientsForRoom :: "memory_driver \<Rightarrow> string \<Rightarrow> memory_driver" where
  "deleteClientsForRoom s roomId = s\<lparr>clients := jm_reject (\<lambda>_ c. cl_roomId c = roomId) (clients s)\<rparr>"

definition unregisterRoom :: "memory_driver \<Rightarrow> string \<Rightarrow> memory_driver" where
  "unregisterRoom s roomId =
     (let s1 = deleteClientsForRoom s roomId in s1\<lparr>rooms := jm_del (rooms s1) roomId\<rparr>)"

definition deleteServer :: "memory_driver \<Rightarrow> string \<Rightarrow> memory_driver" where
  "deleteServer s serverId =
     (let owned = map fst (filter (\<lambda>(_, r). rr_serverId r = serverId) (rooms s));
          s1 = foldl unregisterRoom s owned
      in s1\<lparr>servers := jm_del (servers s1) serverId\<rparr>)"

definition lapsed :: "ms \<Rightarrow> room_record \<Rightarrow> bool" where
  "lapsed now r = (rr_status r = Requested \<and> rr_requestedExpiresAt r < now)"

definition sweepExpiredRequestedRooms :: "memory_driver \<Rightarrow> ms \<Rightarrow> memory_driver" where
  "sweepExpiredRequestedRooms s now =
     foldl unregisterRoom s (map fst (filter (\<lambda>(_, r). lapsed now r) (rooms s)))"

definition reservation_expired :: "ms \<Rightarrow> client_record \<Rightarrow> bool" where
  "reservation_expired now c = (cl_status c = Reserved \<and> 0 < cl_expiresAt c \<and> cl_expiresAt c < now)"

definition prune :: "memory_driver \<Rightarrow> ms \<Rightarrow> memory_driver" where
  "prune s now =
     (let staleCutoff = now - staleServerMs s;
          staleServerIds = map fst (filter (\<lambda>(_, v). sv_lastHeartbeat v < staleCutoff) (servers s));
          s1 = foldl deleteServer s staleServerIds;
          s2 = sweepExpiredRequestedRooms s1 now
      in s2\<lparr>clients := jm_reject (\<lambda>_ c. reservation_expired now c) (clients s2)\<rparr>)"

section \<open>Rooms\<close>

definition registerRoom ::
    "memory_driver \<Rightarrow> ms \<Rightarrow> string \<Rightarrow> string \<Rightarrow> string \<Rightarrow> room_data \<Rightarrow> tags \<Rightarrow> js_number \<Rightarrow>
     (gatho_error + unit) \<times> memory_driver" where
  "registerRoom s now roomId roomType serverId data tags ttlMs =
     (if \<not> jm_has (servers s) serverId then (Inl (ServerNotFoundError serverId), s)
      else case validateTags tags of Inl e \<Rightarrow> (Inl e, s)
      | Inr _ \<Rightarrow> (case validateRequestedRoomTtl ttlMs of Inl e \<Rightarrow> (Inl e, s)
      | Inr _ \<Rightarrow>
          (let r = \<lparr>rr_roomId = roomId, rr_roomType = roomType, rr_serverId = serverId,
                    rr_status = Requested, rr_endpoint = None, rr_roomSecret = None,
                    rr_data = data, rr_tags = tags, rr_createdAt = now,
                    rr_requestedExpiresAt = now + ttl_ms ttlMs\<rparr>;
               assignment = \<lparr>dr_roomId = roomId, dr_roomType = roomType, dr_data = data, dr_status = Requested\<rparr>
           in (Inr (), emit (ChRoomAssigned serverId) (EvAssigned assignment)
                         (s\<lparr>rooms := jm_set (rooms s) roomId r\<rparr>)))))"

definition roomReady :: "memory_driver \<Rightarrow> ms \<Rightarrow> string \<Rightarrow> string \<Rightarrow> string \<Rightarrow> bool \<times> memory_driver" where
  "roomReady s now roomId endpoint roomSecret =
     (let s1 = sweepExpiredRequestedRooms s now
      in case jm_get (rooms s1) roomId of
           None \<Rightarrow> (False, s1)
         | Some r \<Rightarrow>
             (let r' = r\<lparr>rr_status := Running, rr_endpoint := Some endpoint, rr_roomSecret := Some roomSecret,
                         rr_requestedExpiresAt := 0\<rparr>;
                  s2 = s1\<lparr>rooms := jm_set (rooms s1) roomId r'\<rparr>
              in (True, emit (ChRoomReady roomId) (EvReady (roomToInfo s2 r')) s2)))"

definition roomFailure :: "memory_driver \<Rightarrow> string \<Rightarrow> string \<Rightarrow> memory_driver" where
  "roomFailure s roomId reason = unregisterRoom (emit (ChRoomFailed roomId) (EvFailed reason) s) roomId"

definition getRoomInfo :: "memory_driver \<Rightarrow> ms \<Rightarrow> string \<Rightarrow> room_info option \<times> memory_driver" where
  "getRoomInfo s now roomId =
     (let s1 = sweepExpiredRequestedRooms s now
      in (map_option (roomToInfo s1) (jm_get (rooms s1) roomId), s1))"

text \<open>A filter field is applied only when truthy: the empty string filters nothing.\<close>

definition str_filter :: "string option \<Rightarrow> string \<Rightarrow> bool" where
  "str_filter f x = (case f of None \<Rightarrow> True | Some [] \<Rightarrow> True | Some y \<Rightarrow> x = y)"

definition tags_match :: "tag_filter \<Rightarrow> tags \<Rightarrow> bool" where
  "tags_match f tags =
     (list_all (\<lambda>(k, v). jm_get tags k = Some v) (tf_eq f) \<and>
      list_all (\<lambda>(k, v). jm_get tags k \<noteq> Some v) (tf_neq f))"

definition room_matches :: "list_rooms_filter \<Rightarrow> room_record \<Rightarrow> bool" where
  "room_matches f r =
     (str_filter (lf_type f) (rr_roomType r) \<and>
      (case lf_status f of None \<Rightarrow> True | Some st \<Rightarrow> rr_status r = st) \<and>
      str_filter (lf_serverId f) (rr_serverId r) \<and>
      tags_match (lf_tags f) (rr_tags r))"

definition listRooms :: "memory_driver \<Rightarrow> ms \<Rightarrow> list_rooms_filter \<Rightarrow> room_info list \<times> memory_driver" where
  "listRooms s now f =
     (let s1 = sweepExpiredRequestedRooms s now
      in (map (roomToInfo s1) (filter (room_matches f) (jm_values (rooms s1))), s1))"

definition addRoomTags :: "memory_driver \<Rightarrow> string \<Rightarrow> tags \<Rightarrow> (gatho_error + unit) \<times> memory_driver" where
  "addRoomTags s roomId tags =
     (case jm_get (rooms s) roomId of
        None \<Rightarrow> (Inl (RoomNotFoundError roomId), s)
      | Some r \<Rightarrow>
          (case validateTags tags of Inl e \<Rightarrow> (Inl e, s)
           | Inr _ \<Rightarrow> (Inr (), s\<lparr>rooms := jm_set (rooms s) roomId (r\<lparr>rr_tags := jm_merge (rr_tags r) tags\<rparr>)\<rparr>)))"

definition removeRoomTags :: "memory_driver \<Rightarrow> string \<Rightarrow> string list \<Rightarrow> (gatho_error + unit) \<times> memory_driver" where
  "removeRoomTags s roomId keys =
     (case jm_get (rooms s) roomId of
        None \<Rightarrow> (Inl (RoomNotFoundError roomId), s)
      | Some r \<Rightarrow> (Inr (), s\<lparr>rooms := jm_set (rooms s) roomId (r\<lparr>rr_tags := jm_del_all (rr_tags r) keys\<rparr>)\<rparr>))"

section \<open>Clients\<close>

record jwt_payload =
  jp_clientId :: string
  jp_roomId :: string
  jp_exp :: ms
  jp_data :: string
  jp_tags :: tags

record pending_reservation =
  pr_payload :: jwt_payload
  pr_roomSecret :: string

text \<open>
  \<open>reserveClient\<close> up to its await: all checks, the fresh id and the payload handed to
  \<open>jwtSign\<close>. \<open>ttl\<close> is the caller's number of milliseconds.
\<close>

definition reserveClient_begin ::
    "memory_driver \<Rightarrow> ms \<Rightarrow> string \<Rightarrow> ms \<Rightarrow> string \<Rightarrow> tags \<Rightarrow> string \<Rightarrow> gatho_error + pending_reservation" where
  "reserveClient_begin s now roomId ttl data tags uuid =
     (case jm_get (rooms s) roomId of
        None \<Rightarrow> Inl (RoomNotFoundError roomId)
      | Some r \<Rightarrow>
          (case (rr_status r, rr_roomSecret r, rr_endpoint r) of
             (Running, Some (a # secret), Some (b # endpoint)) \<Rightarrow>
               (case validateTags tags of Inl e \<Rightarrow> Inl e
                | Inr _ \<Rightarrow> (case validateReserveData data of Inl e \<Rightarrow> Inl e
                | Inr _ \<Rightarrow> (case validateReserveTagsSize tags of Inl e \<Rightarrow> Inl e
                | Inr _ \<Rightarrow> Inr \<lparr>pr_payload = \<lparr>jp_clientId = uuid, jp_roomId = roomId, jp_exp = now + ttl,
                                   jp_data = data, jp_tags = tags\<rparr>,
                                pr_roomSecret = a # secret\<rparr>)))
           | _ \<Rightarrow> Inl (RoomNotRunningError roomId)))"

text \<open>
  After the await: store the reservation, then build the url from the record's endpoint.
  \<open>with_token\<close> is the URL API (\<open>new URL(e)\<close>, \<open>searchParams.set\<close>, \<open>toString\<close>), \<open>None\<close>
  where the constructor throws.
\<close>

definition reserveClient_commit ::
    "(string \<Rightarrow> string \<Rightarrow> string option) \<Rightarrow> memory_driver \<Rightarrow> pending_reservation \<Rightarrow> string \<Rightarrow> string \<Rightarrow>
     (gatho_error + client_reservation) \<times> memory_driver" where
  "reserveClient_commit with_token s p token endpoint =
     (let pl = pr_payload p;
          c = \<lparr>cl_clientId = jp_clientId pl, cl_roomId = jp_roomId pl, cl_status = Reserved,
               cl_expiresAt = jp_exp pl, cl_tags = jp_tags pl, cl_connectedAt = 0\<rparr>;
          s1 = s\<lparr>clients := jm_set (clients s) (jp_clientId pl) c\<rparr>
      in case with_token endpoint token of
           None \<Rightarrow> (Inl (OtherError ''Invalid URL''), s1)
         | Some url \<Rightarrow> (Inr \<lparr>cr_clientId = jp_clientId pl, cr_url = url, cr_roomId = jp_roomId pl,
                             cr_expiresAt = jp_exp pl\<rparr>, s1))"

text \<open>The whole method when nothing runs during the await.\<close>

definition reserveClient ::
    "(string \<Rightarrow> string \<Rightarrow> string option) \<Rightarrow> (jwt_payload \<Rightarrow> string \<Rightarrow> string) \<Rightarrow> memory_driver \<Rightarrow> ms \<Rightarrow> string \<Rightarrow>
     ms \<Rightarrow> string \<Rightarrow> tags \<Rightarrow> string \<Rightarrow> (gatho_error + client_reservation) \<times> memory_driver" where
  "reserveClient with_token jwtSign s now roomId ttl data tags uuid =
     (case reserveClient_begin s now roomId ttl data tags uuid of
        Inl e \<Rightarrow> (Inl e, s)
      | Inr p \<Rightarrow>
          (case Option.bind (jm_get (rooms s) roomId) rr_endpoint of
             Some endpoint \<Rightarrow>
               reserveClient_commit with_token s p (jwtSign (pr_payload p) (pr_roomSecret p)) endpoint
           | None \<Rightarrow> (Inl (RoomNotRunningError roomId), s)))"

definition connectClient :: "memory_driver \<Rightarrow> ms \<Rightarrow> string \<Rightarrow> string \<Rightarrow> tags \<Rightarrow> memory_driver" where
  "connectClient s now clientId roomId tags =
     s\<lparr>clients := jm_set (clients s) clientId
        \<lparr>cl_clientId = clientId, cl_roomId = roomId, cl_status = Connected, cl_expiresAt = 0,
         cl_tags = tags, cl_connectedAt = now\<rparr>\<rparr>"

definition disconnectClient :: "memory_driver \<Rightarrow> string \<Rightarrow> memory_driver" where
  "disconnectClient s clientId = s\<lparr>clients := jm_del (clients s) clientId\<rparr>"

section \<open>Servers\<close>

definition desiredRooms_of :: "memory_driver \<Rightarrow> string \<Rightarrow> desired_room list" where
  "desiredRooms_of s serverId =
     map (\<lambda>r. \<lparr>dr_roomId = rr_roomId r, dr_roomType = rr_roomType r, dr_data = rr_data r, dr_status = rr_status r\<rparr>)
       (filter (\<lambda>r. rr_serverId r = serverId) (jm_values (rooms s)))"

definition heartbeat_register :: "memory_driver \<Rightarrow> ms \<Rightarrow> heartbeat_options \<Rightarrow> memory_driver" where
  "heartbeat_register s now opts =
     (let evicted = map fst (filter (\<lambda>(_, v). sv_endpoint v = ho_endpoint opts) (servers s));
          s1 = foldl deleteServer s evicted
      in s1\<lparr>servers := jm_set (servers s1) (ho_serverId opts)
              \<lparr>sv_serverId = ho_serverId opts, sv_endpoint = ho_endpoint opts, sv_tags = ho_tags opts,
               sv_roomTypes = ho_roomTypes opts, sv_lastHeartbeat = now\<rparr>\<rparr>)"

definition heartbeat :: "memory_driver \<Rightarrow> ms \<Rightarrow> heartbeat_options \<Rightarrow> (gatho_error + heartbeat_result) \<times> memory_driver" where
  "heartbeat s now opts =
     (let finish = (\<lambda>s1 tags registered.
            let s2 = sweepExpiredRequestedRooms s1 now
            in (Inr \<lparr>hr_tags = tags, hr_desiredRooms = desiredRooms_of s2 (ho_serverId opts),
                     hr_registered = registered\<rparr>, s2))
      in case jm_get (servers s) (ho_serverId opts) of
           Some v \<Rightarrow>
             finish (s\<lparr>servers := jm_set (servers s) (ho_serverId opts)
                        (v\<lparr>sv_lastHeartbeat := now, sv_endpoint := ho_endpoint opts, sv_roomTypes := ho_roomTypes opts\<rparr>)\<rparr>)
                (sv_tags v) False
         | None \<Rightarrow>
             (case validateTags (ho_tags opts) of Inl e \<Rightarrow> (Inl e, s)
              | Inr _ \<Rightarrow> finish (heartbeat_register s now opts) (ho_tags opts) True))"

definition unregisterServer :: "memory_driver \<Rightarrow> string \<Rightarrow> memory_driver" where
  "unregisterServer s serverId = deleteServer s serverId"

definition reapServer :: "memory_driver \<Rightarrow> ms \<Rightarrow> string \<Rightarrow> bool \<times> memory_driver" where
  "reapServer s now serverId =
     (case jm_get (servers s) serverId of
        None \<Rightarrow> (False, s)
      | Some v \<Rightarrow> if now - staleServerMs s \<le> sv_lastHeartbeat v then (False, s) else (True, deleteServer s serverId))"

definition addServerTags :: "memory_driver \<Rightarrow> string \<Rightarrow> tags \<Rightarrow> (gatho_error + unit) \<times> memory_driver" where
  "addServerTags s serverId tags =
     (case jm_get (servers s) serverId of
        None \<Rightarrow> (Inl (ServerNotFoundError serverId), s)
      | Some v \<Rightarrow>
          (case validateTags tags of Inl e \<Rightarrow> (Inl e, s)
           | Inr _ \<Rightarrow> (Inr (), s\<lparr>servers := jm_set (servers s) serverId (v\<lparr>sv_tags := jm_merge (sv_tags v) tags\<rparr>)\<rparr>)))"

definition removeServerTags :: "memory_driver \<Rightarrow> string \<Rightarrow> string list \<Rightarrow> (gatho_error + unit) \<times> memory_driver" where
  "removeServerTags s serverId keys =
     (case jm_get (servers s) serverId of
        None \<Rightarrow> (Inl (ServerNotFoundError serverId), s)
      | Some v \<Rightarrow> (Inr (), s\<lparr>servers := jm_set (servers s) serverId (v\<lparr>sv_tags := jm_del_all (sv_tags v) keys\<rparr>)\<rparr>))"

definition server_matches :: "list_servers_filter \<Rightarrow> server_record \<Rightarrow> bool" where
  "server_matches f v =
     ((case sf_roomTypes f of None \<Rightarrow> True | Some required \<Rightarrow> list_all (\<lambda>rt. rt \<in> set (sv_roomTypes v)) required) \<and>
      tags_match (sf_tags f) (sv_tags v))"

definition listServers :: "memory_driver \<Rightarrow> ms \<Rightarrow> list_servers_filter \<Rightarrow> server_info list" where
  "listServers s now f =
     (let cutoff = now - staleServerMs s
      in map (serverToInfo s)
           (filter (server_matches f) (filter (\<lambda>v. cutoff \<le> sv_lastHeartbeat v) (jm_values (servers s)))))"

definition listStaleServers :: "memory_driver \<Rightarrow> ms \<Rightarrow> server_info list" where
  "listStaleServers s now =
     (let cutoff = now - staleServerMs s
      in map (serverToInfo s) (filter (\<lambda>v. sv_lastHeartbeat v < cutoff) (jm_values (servers s))))"

definition getServer :: "memory_driver \<Rightarrow> string \<Rightarrow> server_info option" where
  "getServer s serverId = map_option (serverToInfo s) (jm_get (servers s) serverId)"

section \<open>Subscriptions and leadership\<close>

definition add_listener :: "memory_driver \<Rightarrow> channel \<Rightarrow> nat \<Rightarrow> memory_driver" where
  "add_listener s ch l = s\<lparr>listeners := listeners s @ [(ch, l)]\<rparr>"

definition remove_listener :: "memory_driver \<Rightarrow> channel \<Rightarrow> nat \<Rightarrow> memory_driver" where
  "remove_listener s ch l = s\<lparr>listeners := filter (\<lambda>x. x \<noteq> (ch, l)) (listeners s)\<rparr>"

definition subscribeRoomAssignments :: "memory_driver \<Rightarrow> string \<Rightarrow> nat \<Rightarrow> memory_driver" where
  "subscribeRoomAssignments s serverId l = add_listener s (ChRoomAssigned serverId) l"

definition tryAcquireLeader :: "memory_driver \<Rightarrow> string \<Rightarrow> bool" where
  "tryAcquireLeader s serverId = True"

definition renewLeader :: "memory_driver \<Rightarrow> string \<Rightarrow> bool" where
  "renewLeader s serverId = True"

definition releaseLeader :: "memory_driver \<Rightarrow> string \<Rightarrow> memory_driver" where
  "releaseLeader s serverId = s"

section \<open>Lemmas\<close>

lemmas driver_defs =
  registerRoom_def roomReady_def roomFailure_def getRoomInfo_def listRooms_def addRoomTags_def removeRoomTags_def
  reserveClient_commit_def connectClient_def disconnectClient_def heartbeat_def heartbeat_register_def
  unregisterServer_def reapServer_def addServerTags_def removeServerTags_def prune_def
  subscribeRoomAssignments_def add_listener_def remove_listener_def

lemma emit_fields [simp]:
  "rooms (emit ch ev s) = rooms s" "clients (emit ch ev s) = clients s" "servers (emit ch ev s) = servers s"
  "staleServerMs (emit ch ev s) = staleServerMs s" "listeners (emit ch ev s) = listeners s"
  by (simp_all add: emit_def)

lemma unregisterRoom_fields [simp]:
  "rooms (unregisterRoom s k) = jm_del (rooms s) k"
  "clients (unregisterRoom s k) = jm_reject (\<lambda>_ c. cl_roomId c = k) (clients s)"
  "servers (unregisterRoom s k) = servers s" "staleServerMs (unregisterRoom s k) = staleServerMs s"
  "listeners (unregisterRoom s k) = listeners s" "outbox (unregisterRoom s k) = outbox s"
  by (simp_all add: unregisterRoom_def deleteClientsForRoom_def Let_def)

lemma unregisterRooms_fields:
  "rooms (foldl unregisterRoom s ks) = foldl jm_del (rooms s) ks"
  "clients (foldl unregisterRoom s ks) = jm_reject (\<lambda>_ c. cl_roomId c \<in> set ks) (clients s)"
  "servers (foldl unregisterRoom s ks) = servers s"
  "staleServerMs (foldl unregisterRoom s ks) = staleServerMs s"
  "listeners (foldl unregisterRoom s ks) = listeners s"
  "outbox (foldl unregisterRoom s ks) = outbox s"
  by (induction ks arbitrary: s) (simp_all add: jm_reject_reject disj_commute)

lemma in_filter_keys: "jm_wf m \<Longrightarrow> k \<in> set (map fst (filter (\<lambda>(_, v). P v) m)) \<longleftrightarrow> (\<exists>v. jm_get m k = Some v \<and> P v)"
  by (force simp: jm_mem_get [symmetric])

lemma deleteServer_fields:
  assumes "jm_wf (rooms s)"
  shows "jm_get (rooms (deleteServer s v)) k =
       (case jm_get (rooms s) k of Some r \<Rightarrow> if rr_serverId r = v then None else Some r | None \<Rightarrow> None)"
    and "jm_wf (rooms (deleteServer s v))"
    and "servers (deleteServer s v) = jm_del (servers s) v"
    and "clients (deleteServer s v) =
       jm_reject (\<lambda>_ c. \<exists>r. jm_get (rooms s) (cl_roomId c) = Some r \<and> rr_serverId r = v) (clients s)"
    and "staleServerMs (deleteServer s v) = staleServerMs s"
    and "listeners (deleteServer s v) = listeners s" and "outbox (deleteServer s v) = outbox s"
  using assms in_filter_keys [OF assms, of _ "\<lambda>r. rr_serverId r = v"]
  by (simp_all add: deleteServer_def Let_def unregisterRooms_fields jsm.remove_all jsm.wf_remove_all split: option.splits)

lemma sweep_fields:
  assumes "jm_wf (rooms s)"
  shows "jm_get (rooms (sweepExpiredRequestedRooms s now)) k =
       (case jm_get (rooms s) k of Some r \<Rightarrow> if lapsed now r then None else Some r | None \<Rightarrow> None)"
    and "jm_wf (rooms (sweepExpiredRequestedRooms s now))"
    and "servers (sweepExpiredRequestedRooms s now) = servers s"
    and "clients (sweepExpiredRequestedRooms s now) =
       jm_reject (\<lambda>_ c. \<exists>r. jm_get (rooms s) (cl_roomId c) = Some r \<and> lapsed now r) (clients s)"
    and "staleServerMs (sweepExpiredRequestedRooms s now) = staleServerMs s"
    and "listeners (sweepExpiredRequestedRooms s now) = listeners s"
    and "outbox (sweepExpiredRequestedRooms s now) = outbox s"
  using assms in_filter_keys [OF assms, of _ "lapsed now"]
  by (simp_all add: sweepExpiredRequestedRooms_def unregisterRooms_fields jsm.remove_all jsm.wf_remove_all split: option.splits)

end
