(* ===== verification/Memory_Driver_Correct.thy ===== *)
theory Memory_Driver_Correct
  imports Memory_Driver
begin

text \<open>
  Correctness of the memory driver: the registry invariant and its preservation by every
  operation, the characterization of what the bulk deletions (eviction, sweep, prune) remove,
  and the properties of the individual operations.
\<close>

section \<open>The registry invariant\<close>

definition room_ok :: "memory_driver \<Rightarrow> string \<Rightarrow> room_record \<Rightarrow> bool" where
  "room_ok s k r =
     (rr_roomId r = k \<and> jm_get (servers s) (rr_serverId r) \<noteq> None \<and> tags_ok (rr_tags r) \<and>
      (rr_status r = Running \<longrightarrow> rr_endpoint r \<noteq> None \<and> rr_roomSecret r \<noteq> None \<and> rr_requestedExpiresAt r = 0) \<and>
      (rr_status r = Requested \<longrightarrow> rr_endpoint r = None \<and> rr_roomSecret r = None))"

definition client_ok :: "string \<Rightarrow> client_record \<Rightarrow> bool" where
  "client_ok k c =
     (cl_clientId c = k \<and> (cl_status c = Reserved \<longrightarrow> cl_connectedAt c = 0) \<and>
      (cl_status c = Connected \<longrightarrow> cl_expiresAt c = 0))"

definition server_ok :: "string \<Rightarrow> server_record \<Rightarrow> bool" where
  "server_ok k v = (sv_serverId v = k \<and> tags_ok (sv_tags v))"

definition driver_inv :: "memory_driver \<Rightarrow> bool" where
  "driver_inv s =
     (jm_wf (rooms s) \<and> jm_wf (clients s) \<and> jm_wf (servers s) \<and>
      (\<forall>k r. jm_get (rooms s) k = Some r \<longrightarrow> room_ok s k r) \<and>
      (\<forall>k c. jm_get (clients s) k = Some c \<longrightarrow> client_ok k c) \<and>
      (\<forall>k v. jm_get (servers s) k = Some v \<longrightarrow> server_ok k v))"

lemma driver_invD:
  assumes "driver_inv s"
  shows "jm_wf (rooms s)" and "jm_wf (clients s)" and "jm_wf (servers s)"
    and "jm_get (rooms s) k = Some r \<Longrightarrow> room_ok s k r"
    and "jm_get (clients s) k = Some c \<Longrightarrow> client_ok k c"
    and "jm_get (servers s) k = Some v \<Longrightarrow> server_ok k v"
  using assms by (auto simp: driver_inv_def)

text \<open>Every operation either shrinks the three maps or writes one well-formed record.\<close>

lemma driver_inv_shrink:
  assumes "driver_inv s"
    and "jm_wf (rooms t)" and "jm_wf (clients t)" and "servers t = servers s"
    and "\<And>k r. jm_get (rooms t) k = Some r \<Longrightarrow> jm_get (rooms s) k = Some r"
    and "\<And>k c. jm_get (clients t) k = Some c \<Longrightarrow> jm_get (clients s) k = Some c"
  shows "driver_inv t"
proof -
  have "room_ok t k r" if "jm_get (rooms t) k = Some r" for k r
    using driver_invD(4) [OF assms(1) assms(5) [OF that]] assms(4) by (simp add: room_ok_def)
  moreover have "client_ok k c" if "jm_get (clients t) k = Some c" for k c
    using driver_invD(5) [OF assms(1) assms(6) [OF that]] .
  ultimately show ?thesis
    using assms(1-4) by (simp add: driver_inv_def)
qed

lemma driver_inv_emit [wf_intros]: "driver_inv s \<Longrightarrow> driver_inv (emit ch ev s)"
  by (simp add: driver_inv_def room_ok_def)

lemma driver_inv_unregisterRoom [wf_intros]:
  assumes "driver_inv s"
  shows "driver_inv (unregisterRoom s k)"
  by (rule driver_inv_shrink [OF assms])
     (auto simp: driver_invD [OF assms] split: if_splits option.splits)

lemma driver_inv_sweep [wf_intros]:
  assumes "driver_inv s"
  shows "driver_inv (sweepExpiredRequestedRooms s now)"
  by (rule driver_inv_shrink [OF assms])
     (auto simp: sweep_fields driver_invD [OF assms] split: if_splits option.splits)

lemma driver_inv_deleteServer [wf_intros]:
  assumes "driver_inv s"
  shows "driver_inv (deleteServer s v)"
proof -
  note wf = driver_invD [OF assms]
  show ?thesis
    unfolding driver_inv_def room_ok_def
    using wf by (auto simp: deleteServer_fields room_ok_def split: if_splits option.splits)
qed

lemma driver_inv_deleteServers [wf_intros]: "driver_inv s \<Longrightarrow> driver_inv (foldl deleteServer s vs)"
  by (induction vs arbitrary: s) (auto intro: driver_inv_deleteServer)

lemma driver_inv_room_set [wf_intros]:
  assumes "driver_inv s" and "room_ok s k r"
  shows "driver_inv (s\<lparr>rooms := jm_set (rooms s) k r\<rparr>)"
  using assms by (auto simp: driver_inv_def room_ok_def)

lemma driver_inv_client_set [wf_intros]:
  assumes "driver_inv s" and "client_ok k c"
  shows "driver_inv (s\<lparr>clients := jm_set (clients s) k c\<rparr>)"
  using assms by (auto simp: driver_inv_def room_ok_def)

lemma driver_inv_client_reject [wf_intros]:
  "driver_inv s \<Longrightarrow> driver_inv (s\<lparr>clients := jm_reject P (clients s)\<rparr>)"
  by (auto simp: driver_inv_def room_ok_def split: option.splits if_splits)

lemma driver_inv_client_del [wf_intros]:
  "driver_inv s \<Longrightarrow> driver_inv (s\<lparr>clients := jm_del (clients s) k\<rparr>)"
  by (auto simp: driver_inv_def room_ok_def)

lemma driver_inv_server_set [wf_intros]:
  assumes "driver_inv s" and "server_ok k v"
  shows "driver_inv (s\<lparr>servers := jm_set (servers s) k v\<rparr>)"
  using assms by (auto simp: driver_inv_def room_ok_def)

lemma driver_inv_listeners [wf_intros]: "driver_inv s \<Longrightarrow> driver_inv (s\<lparr>listeners := ls\<rparr>)"
  by (auto simp: driver_inv_def room_ok_def)

section \<open>What the bulk deletions remove\<close>

lemma deleteServers_rooms:
  "jm_wf (rooms s) \<Longrightarrow> jm_wf (rooms (foldl deleteServer s vs)) \<and>
     jm_get (rooms (foldl deleteServer s vs)) k =
       (case jm_get (rooms s) k of Some r \<Rightarrow> if rr_serverId r \<in> set vs then None else Some r | None \<Rightarrow> None)"
  by (induction vs arbitrary: s) (simp_all add: deleteServer_fields split: option.splits)

lemma deleteServers_clients:
  "jm_wf (rooms s) \<Longrightarrow> clients (foldl deleteServer s vs) =
     jm_reject (\<lambda>_ c. \<exists>r. jm_get (rooms s) (cl_roomId c) = Some r \<and> rr_serverId r \<in> set vs) (clients s)"
proof (induction vs arbitrary: s)
  case (Cons v vs)
  show ?case
    by (simp add: Cons.IH Cons.prems deleteServer_fields jm_reject_reject)
       (rule jm_reject_cong, auto split: option.splits if_splits)
qed simp

lemma deleteServers_fields:
  "jm_wf (rooms s) \<Longrightarrow> servers (foldl deleteServer s vs) = foldl jm_del (servers s) vs"
  "jm_wf (rooms s) \<Longrightarrow> staleServerMs (foldl deleteServer s vs) = staleServerMs s"
  "jm_wf (rooms s) \<Longrightarrow> listeners (foldl deleteServer s vs) = listeners s"
  "jm_wf (rooms s) \<Longrightarrow> outbox (foldl deleteServer s vs) = outbox s"
  by (induction vs arbitrary: s) (simp_all add: deleteServer_fields)

section \<open>Every operation keeps the invariant\<close>

datatype driver_op =
    OpPrune
  | OpRegisterRoom string string string room_data tags js_number
  | OpUnregisterRoom string
  | OpRoomReady string string string
  | OpRoomFailure string string
  | OpGetRoomInfo string
  | OpListRooms list_rooms_filter
  | OpAddRoomTags string tags
  | OpRemoveRoomTags string "string list"
  | OpReserveCommit pending_reservation string string
  | OpConnectClient string string tags
  | OpDisconnectClient string
  | OpHeartbeat heartbeat_options
  | OpUnregisterServer string
  | OpReapServer string
  | OpAddServerTags string tags
  | OpRemoveServerTags string "string list"
  | OpAddListener channel nat
  | OpRemoveListener channel nat

fun driver_step :: "(string \<Rightarrow> string \<Rightarrow> string option) \<Rightarrow> memory_driver \<Rightarrow> ms \<times> driver_op \<Rightarrow> memory_driver" where
  "driver_step wt s (now, OpPrune) = prune s now"
| "driver_step wt s (now, OpRegisterRoom r ty v d tg ttl) = snd (registerRoom s now r ty v d tg ttl)"
| "driver_step wt s (now, OpUnregisterRoom r) = unregisterRoom s r"
| "driver_step wt s (now, OpRoomReady r e sec) = snd (roomReady s now r e sec)"
| "driver_step wt s (now, OpRoomFailure r reason) = roomFailure s r reason"
| "driver_step wt s (now, OpGetRoomInfo r) = snd (getRoomInfo s now r)"
| "driver_step wt s (now, OpListRooms f) = snd (listRooms s now f)"
| "driver_step wt s (now, OpAddRoomTags r tg) = snd (addRoomTags s r tg)"
| "driver_step wt s (now, OpRemoveRoomTags r ks) = snd (removeRoomTags s r ks)"
| "driver_step wt s (now, OpReserveCommit p tok e) = snd (reserveClient_commit wt s p tok e)"
| "driver_step wt s (now, OpConnectClient c r tg) = connectClient s now c r tg"
| "driver_step wt s (now, OpDisconnectClient c) = disconnectClient s c"
| "driver_step wt s (now, OpHeartbeat opts) = snd (heartbeat s now opts)"
| "driver_step wt s (now, OpUnregisterServer v) = unregisterServer s v"
| "driver_step wt s (now, OpReapServer v) = snd (reapServer s now v)"
| "driver_step wt s (now, OpAddServerTags v tg) = snd (addServerTags s v tg)"
| "driver_step wt s (now, OpRemoveServerTags v ks) = snd (removeServerTags s v ks)"
| "driver_step wt s (now, OpAddListener ch l) = add_listener s ch l"
| "driver_step wt s (now, OpRemoveListener ch l) = remove_listener s ch l"

lemma driver_inv_registerRoom [wf_intros]:
  "driver_inv s \<Longrightarrow> driver_inv (snd (registerRoom s now r ty v d tg ttl))"
  unfolding registerRoom_def
  by (auto simp: Let_def room_ok_def validateTags_cases split: sum.splits
      intro!: driver_inv_emit driver_inv_room_set)

lemma driver_inv_roomReady [wf_intros]:
  assumes "driver_inv s"
  shows "driver_inv (snd (roomReady s now r e sec))"
proof -
  have inv: "driver_inv (sweepExpiredRequestedRooms s now)"
    using assms by (rule driver_inv_sweep)
  then show ?thesis
    unfolding roomReady_def
    by (auto simp: Let_def split: option.splits intro!: driver_inv_emit driver_inv_room_set)
      (auto simp: room_ok_def dest: driver_invD(4) [OF inv])
qed

lemma driver_inv_tags [wf_intros]:
  assumes "driver_inv s"
  shows "driver_inv (snd (addRoomTags s r tg))" and "driver_inv (snd (removeRoomTags s r ks))"
    and "driver_inv (snd (addServerTags s v tg))" and "driver_inv (snd (removeServerTags s v ks))"
  unfolding addRoomTags_def removeRoomTags_def addServerTags_def removeServerTags_def
  using assms
  by (auto simp: Let_def validateTags_cases room_ok_def server_ok_def tags_ok_merge tags_ok_del_all
      split: option.splits sum.splits dest: driver_invD
      intro!: driver_inv_room_set driver_inv_server_set)

lemma driver_inv_heartbeat [wf_intros]:
  "driver_inv s \<Longrightarrow> driver_inv (snd (heartbeat s now opts))"
  unfolding heartbeat_def heartbeat_register_def
  by (auto simp: Let_def validateTags_cases server_ok_def split: option.splits sum.splits
      intro!: driver_inv_sweep driver_inv_server_set driver_inv_deleteServers dest: driver_invD(6))

lemma driver_inv_prune [wf_intros]: "driver_inv s \<Longrightarrow> driver_inv (prune s now)"
  unfolding prune_def Let_def
  by (intro driver_inv_client_reject driver_inv_sweep driver_inv_deleteServers)

lemma driver_inv_step: "driver_inv s \<Longrightarrow> driver_inv (driver_step wt s e)"
  by (cases "(wt, s, e)" rule: driver_step.cases)
     (auto simp: roomFailure_def getRoomInfo_def listRooms_def reserveClient_commit_def connectClient_def
        disconnectClient_def unregisterServer_def reapServer_def add_listener_def remove_listener_def
        client_ok_def Let_def intro!: wf_intros split: option.splits)

interpretation md: step_invariant "driver_step wt" "\<lambda>_ _. True" driver_inv
  by unfold_locales (rule driver_inv_step)

lemma driver_inv_create: "driver_inv (createMemoryDriver stale)"
  by (simp add: createMemoryDriver_def driver_inv_def)

lemma driver_inv_run: "driver_inv (run (driver_step wt) (createMemoryDriver stale) ops)"
  by (rule md.I_run [OF driver_inv_create]) simp

section \<open>Properties\<close>

text \<open>
  C16: whatever sequence of driver calls is made at whatever times, the registry stays
  consistent: keys are unique and agree with the records, every room belongs to a registered
  server, a room has an endpoint, a secret and no expiry exactly when it is running, stored
  tags are valid, reserved clients have no connection time and connected ones no expiry.
\<close>

theorem driver_always_consistent:
  "driver_inv (run (driver_step wt) (createMemoryDriver stale) ops)"
  by (rule driver_inv_run)

text \<open>
  \<open>roomReady\<close> reports success exactly for a room whose record still exists and has not
  lapsed; it then marks that room running and persists it. A late ready never recreates a
  room: apart from lapsed records being dropped, no other room changes.
\<close>

theorem roomReady_only_live_rooms:
  assumes "driver_inv s"
  shows "fst (roomReady s now k e sec) = (case jm_get (rooms s) k of None \<Rightarrow> False | Some r \<Rightarrow> \<not> lapsed now r) \<and>
    jm_get (rooms (snd (roomReady s now k e sec))) k' =
      (case jm_get (rooms s) k' of None \<Rightarrow> None
       | Some r \<Rightarrow>
           if lapsed now r then None
           else if k' = k then Some (r\<lparr>rr_status := Running, rr_endpoint := Some e, rr_roomSecret := Some sec,
                                      rr_requestedExpiresAt := 0\<rparr>)
           else Some r)"
  using driver_invD(1) [OF assms]
  by (auto simp: roomReady_def Let_def sweep_fields split: option.splits if_splits)

definition demo_driver :: memory_driver where
  "demo_driver =
     snd (registerRoom (snd (heartbeat (createMemoryDriver None) 1000
        \<lparr>ho_serverId = ''s1'', ho_endpoint = ''http://a'', ho_tags = [], ho_roomTypes = [''game'']\<rparr>))
        2000 ''r1'' ''game'' ''s1'' [] [] (Fin 5000))"

lemma demo_driver_inv: "driver_inv demo_driver"
  unfolding demo_driver_def
  by (intro driver_inv_registerRoom driver_inv_heartbeat driver_inv_create)

lemma demo_driver_eq:
  "demo_driver =
     \<lparr>staleServerMs = 30000,
      rooms = [(''r1'', \<lparr>rr_roomId = ''r1'', rr_roomType = ''game'', rr_serverId = ''s1'', rr_status = Requested,
                 rr_endpoint = None, rr_roomSecret = None, rr_data = [], rr_tags = [], rr_createdAt = 2000,
                 rr_requestedExpiresAt = 7000\<rparr>)],
      clients = [],
      servers = [(''s1'', \<lparr>sv_serverId = ''s1'', sv_endpoint = ''http://a'', sv_tags = [], sv_roomTypes = [''game''],
                   sv_lastHeartbeat = 1000\<rparr>)],
      listeners = [], outbox = []\<rparr>"
  by code_simp

theorem roomReady_only_live_rooms_witness:
  "fst (roomReady demo_driver 6000 ''r1'' ''ws://a:1'' ''k'') \<and> \<not> fst (roomReady demo_driver 8000 ''r1'' ''ws://a:1'' ''k'')"
  using roomReady_only_live_rooms [OF demo_driver_inv, of 6000 "''r1''" "''ws://a:1''" "''k''"]
    roomReady_only_live_rooms [OF demo_driver_inv, of 8000 "''r1''" "''ws://a:1''" "''k''"]
  by (simp add: demo_driver_eq lapsed_def jm_get_Cons)

lemma desired_after_sweep:
  assumes "driver_inv s"
  shows "d \<in> set (desiredRooms_of (sweepExpiredRequestedRooms s now) sid) \<longleftrightarrow>
    (\<exists>k r. jm_get (rooms s) k = Some r \<and> rr_serverId r = sid \<and> \<not> lapsed now r \<and>
       d = \<lparr>dr_roomId = k, dr_roomType = rr_roomType r, dr_data = rr_data r, dr_status = rr_status r\<rparr>)"
    (is "?L \<longleftrightarrow> ?R")
proof -
  let ?t = "sweepExpiredRequestedRooms s now"
  note wf = driver_invD(1) [OF assms]
  have "?L \<longleftrightarrow> (\<exists>k r. jm_get (rooms ?t) k = Some r \<and> rr_serverId r = sid \<and>
       d = \<lparr>dr_roomId = rr_roomId r, dr_roomType = rr_roomType r, dr_data = rr_data r, dr_status = rr_status r\<rparr>)"
    using jm_values_iff [OF sweep_fields(2) [OF wf]] by (auto simp: desiredRooms_of_def)
  also have "\<dots> \<longleftrightarrow> ?R"
  proof -
    have "rr_roomId r = k" if "jm_get (rooms s) k = Some r" for k r
      using driver_invD(4) [OF assms that] by (simp add: room_ok_def)
    moreover have "jm_get (rooms ?t) k = Some r \<longleftrightarrow> jm_get (rooms s) k = Some r \<and> \<not> lapsed now r" for k r
      by (auto simp: sweep_fields(1) [OF wf] split: option.split)
    ultimately show ?thesis by auto
  qed
  finally show ?thesis .
qed

lemma no_rooms_of_unknown:
  "driver_inv s \<Longrightarrow> jm_get (servers s) sid = None \<Longrightarrow> jm_get (rooms s) k = Some r \<Longrightarrow> rr_serverId r \<noteq> sid"
  using driver_invD(4) [of s k r] by (auto simp: room_ok_def)

lemma desired_after_register:
  assumes "driver_inv s" and "jm_get (servers s) (ho_serverId opts) = None"
  shows "desiredRooms_of (sweepExpiredRequestedRooms (heartbeat_register s now opts) now) (ho_serverId opts) = []"
proof -
  note wf = driver_invD(1) [OF assms(1)]
  let ?s1 = "heartbeat_register s now opts"
  have wf1: "jm_wf (rooms ?s1)"
    using deleteServers_rooms [OF wf] by (simp add: heartbeat_register_def Let_def)
  have "rr_serverId r \<noteq> ho_serverId opts" if "jm_get (rooms ?s1) k = Some r" for k r
    using that deleteServers_rooms [OF wf] no_rooms_of_unknown [OF assms]
    by (auto simp: heartbeat_register_def Let_def split: option.splits if_splits)
  then have "rr_serverId r \<noteq> ho_serverId opts"
    if "jm_get (rooms (sweepExpiredRequestedRooms ?s1 now)) k = Some r" for k r
    using that by (auto simp: sweep_fields(1) [OF wf1] split: option.splits if_splits)
  then have "\<forall>r \<in> set (jm_values (rooms (sweepExpiredRequestedRooms ?s1 now))). rr_serverId r \<noteq> ho_serverId opts"
    using jm_values_iff [OF sweep_fields(2) [OF wf1]] by blast
  then show ?thesis
    by (simp add: desiredRooms_of_def filter_empty_conv)
qed

lemma servers_after_register:
  assumes "driver_inv s"
  shows "jm_get (servers (sweepExpiredRequestedRooms (heartbeat_register s now opts) now)) v =
    (if v = ho_serverId opts
     then Some \<lparr>sv_serverId = v, sv_endpoint = ho_endpoint opts, sv_tags = ho_tags opts,
                sv_roomTypes = ho_roomTypes opts, sv_lastHeartbeat = now\<rparr>
     else case jm_get (servers s) v of None \<Rightarrow> None
     | Some sv \<Rightarrow> if sv_endpoint sv = ho_endpoint opts then None else Some sv)"
proof -
  note wf = driver_invD(1,3) [OF assms]
  have "jm_wf (rooms (heartbeat_register s now opts))"
    using deleteServers_rooms [OF wf(1)] by (simp add: heartbeat_register_def Let_def)
  then show ?thesis
    using in_filter_keys [OF wf(2), of v "\<lambda>v. sv_endpoint v = ho_endpoint opts"]
    by (auto simp: sweep_fields heartbeat_register_def Let_def deleteServers_fields [OF wf(1)] jsm.remove_all
        split: option.splits)
qed

text \<open>
  A heartbeat with valid tags always succeeds. It registers exactly when the server had no
  record, returns the stored tags (the boot tags only on registration), and its desired rooms
  are exactly the rooms assigned to this server that have not lapsed. On registration, and
  only then, every other server on the same endpoint is evicted; no other server changes.
\<close>

theorem heartbeat_contract:
  assumes "driver_inv s" and "validateTags (ho_tags opts) = Inr ()"
  shows "\<exists>res s'. heartbeat s now opts = (Inr res, s') \<and>
    hr_registered res = (jm_get (servers s) (ho_serverId opts) = None) \<and>
    hr_tags res = (case jm_get (servers s) (ho_serverId opts) of Some v \<Rightarrow> sv_tags v | None \<Rightarrow> ho_tags opts) \<and>
    (\<forall>d. d \<in> set (hr_desiredRooms res) \<longleftrightarrow>
       (\<exists>k r. jm_get (rooms s) k = Some r \<and> rr_serverId r = ho_serverId opts \<and> \<not> lapsed now r \<and>
          d = \<lparr>dr_roomId = k, dr_roomType = rr_roomType r, dr_data = rr_data r, dr_status = rr_status r\<rparr>)) \<and>
    (\<forall>v. jm_get (servers s') v =
       (if v = ho_serverId opts
        then Some \<lparr>sv_serverId = v, sv_endpoint = ho_endpoint opts, sv_tags = hr_tags res,
                   sv_roomTypes = ho_roomTypes opts, sv_lastHeartbeat = now\<rparr>
        else case jm_get (servers s) v of None \<Rightarrow> None
        | Some sv \<Rightarrow> if hr_registered res \<and> sv_endpoint sv = ho_endpoint opts then None else Some sv))"
proof (cases "jm_get (servers s) (ho_serverId opts)")
  case None
  let ?t = "sweepExpiredRequestedRooms (heartbeat_register s now opts) now"
  have eq: "heartbeat s now opts =
      (Inr \<lparr>hr_tags = ho_tags opts, hr_desiredRooms = desiredRooms_of ?t (ho_serverId opts), hr_registered = True\<rparr>, ?t)"
    using None assms(2) by (simp add: heartbeat_def Let_def)
  show ?thesis
    using None desired_after_register [OF assms(1) None, of now] no_rooms_of_unknown [OF assms(1) None]
      servers_after_register [OF assms(1), of now opts]
    by (simp add: eq cong: option.case_cong) (metis option.distinct(1))
next
  case (Some v)
  let ?u = "s\<lparr>servers := jm_set (servers s) (ho_serverId opts)
             (v\<lparr>sv_lastHeartbeat := now, sv_endpoint := ho_endpoint opts, sv_roomTypes := ho_roomTypes opts\<rparr>)\<rparr>"
  let ?t = "sweepExpiredRequestedRooms ?u now"
  have eq: "heartbeat s now opts =
      (Inr \<lparr>hr_tags = sv_tags v, hr_desiredRooms = desiredRooms_of ?t (ho_serverId opts), hr_registered = False\<rparr>, ?t)"
    using Some by (simp add: heartbeat_def Let_def)
  have inv: "driver_inv ?u"
    using driver_invD(6) [OF assms(1) Some] assms(1) by (auto intro!: driver_inv_server_set simp: server_ok_def)
  have "sv_serverId v = ho_serverId opts"
    using driver_invD(6) [OF assms(1) Some] by (simp add: server_ok_def)
  then show ?thesis
    using Some desired_after_sweep [OF inv, of _ now] driver_invD(1) [OF assms(1)]
    by (simp add: eq sweep_fields split: option.split)
qed

theorem heartbeat_contract_witness:
  "\<exists>res s'. heartbeat demo_driver 3000
      \<lparr>ho_serverId = ''s2'', ho_endpoint = ''http://a'', ho_tags = [], ho_roomTypes = []\<rparr> = (Inr res, s') \<and>
    hr_registered res \<and> jm_get (servers s') ''s1'' = None"
proof -
  let ?opts = "\<lparr>ho_serverId = ''s2'', ho_endpoint = ''http://a'', ho_tags = [], ho_roomTypes = []\<rparr>"
  have "validateTags (ho_tags ?opts) = Inr ()"
    by simp
  from heartbeat_contract [OF demo_driver_inv this, of 3000] show ?thesis
    apply (elim exE conjE)
    subgoal for res s'
      by (rule exI [of _ res], rule exI [of _ s']) (simp add: demo_driver_eq jm_get_Cons)
    done
qed

text \<open>
  C17: \<open>reapServer\<close> removes a server only if its last heartbeat is older than the staleness
  threshold at that moment, and then removes that server, its rooms and those rooms' clients
  and nothing else; otherwise it changes nothing.
\<close>

theorem reapServer_only_stale:
  assumes "driver_inv s"
  shows "fst (reapServer s now v) =
      (case jm_get (servers s) v of None \<Rightarrow> False | Some sv \<Rightarrow> sv_lastHeartbeat sv < now - staleServerMs s) \<and>
    snd (reapServer s now v) = (if fst (reapServer s now v) then deleteServer s v else s) \<and>
    jm_get (servers (deleteServer s v)) k = (if k = v then None else jm_get (servers s) k) \<and>
    jm_get (rooms (deleteServer s v)) k =
      (case jm_get (rooms s) k of Some r \<Rightarrow> if rr_serverId r = v then None else Some r | None \<Rightarrow> None) \<and>
    jm_get (clients (deleteServer s v)) k =
      (case jm_get (clients s) k of None \<Rightarrow> None
       | Some c \<Rightarrow> if \<exists>r. jm_get (rooms s) (cl_roomId c) = Some r \<and> rr_serverId r = v then None else Some c)"
  using driver_invD(1,2) [OF assms]
  by (auto simp: reapServer_def deleteServer_fields split: option.splits)

theorem reapServer_only_stale_witness:
  "\<not> fst (reapServer demo_driver 31000 ''s1'') \<and> fst (reapServer demo_driver 31001 ''s1'')"
  using reapServer_only_stale [OF demo_driver_inv, of 31000 "''s1''"]
    reapServer_only_stale [OF demo_driver_inv, of 31001 "''s1''"]
  by (simp add: demo_driver_eq jm_get_Cons)

text \<open>
  A prune at time \<open>now\<close> keeps exactly the servers that are not stale, the rooms of kept
  servers that are not lapsed requests, and the clients that are neither expired reservations
  nor members of a removed room. In particular running rooms of live servers and connected
  clients of kept rooms survive every prune.
\<close>

theorem prune_survivors:
  assumes "driver_inv s"
  shows "jm_get (servers (prune s now)) k =
      (case jm_get (servers s) k of None \<Rightarrow> None
       | Some v \<Rightarrow> if sv_lastHeartbeat v < now - staleServerMs s then None else Some v) \<and>
    jm_get (rooms (prune s now)) k =
      (case jm_get (rooms s) k of None \<Rightarrow> None
       | Some r \<Rightarrow> if jm_get (servers (prune s now)) (rr_serverId r) = None \<or> lapsed now r then None else Some r) \<and>
    jm_get (clients (prune s now)) k =
      (case jm_get (clients s) k of None \<Rightarrow> None
       | Some c \<Rightarrow> if reservation_expired now c \<or>
                     (jm_get (rooms s) (cl_roomId c) \<noteq> None \<and> jm_get (rooms (prune s now)) (cl_roomId c) = None)
                  then None else Some c)"
proof -
  let ?stale = "map fst (filter (\<lambda>(_, v). sv_lastHeartbeat v < now - staleServerMs s) (servers s))"
  let ?s1 = "foldl deleteServer s ?stale"
  let ?s2 = "sweepExpiredRequestedRooms ?s1 now"
  note inv = driver_invD [OF assms]
  have wf1: "jm_wf (rooms ?s1)" using deleteServers_rooms [OF inv(1)] by blast
  have stale: "j \<in> set ?stale \<longleftrightarrow> (\<exists>v. jm_get (servers s) j = Some v \<and> sv_lastHeartbeat v < now - staleServerMs s)" for j
    by (rule in_filter_keys [OF inv(3)])
  have servers: "jm_get (servers (prune s now)) j =
      (case jm_get (servers s) j of None \<Rightarrow> None
       | Some v \<Rightarrow> if sv_lastHeartbeat v < now - staleServerMs s then None else Some v)" for j
    using stale [of j]
    by (simp add: prune_def Let_def sweep_fields(3) [OF wf1] deleteServers_fields [OF inv(1)] jsm.remove_all
        split: option.splits)
  have owner: "jm_get (rooms s) j = Some r \<Longrightarrow>
      (rr_serverId r \<in> set ?stale) = (jm_get (servers (prune s now)) (rr_serverId r) = None)" for j r
    using inv(4) [of j r] stale [of "rr_serverId r"]
    by (auto simp: servers room_ok_def split: option.splits)
  have rooms: "jm_get (rooms (prune s now)) j =
      (case jm_get (rooms s) j of None \<Rightarrow> None
       | Some r \<Rightarrow> if jm_get (servers (prune s now)) (rr_serverId r) = None \<or> lapsed now r then None else Some r)" for j
    using owner [of j] sweep_fields(1) [OF wf1, of now j] deleteServers_rooms [OF inv(1), of ?stale j]
    by (simp add: prune_def Let_def split: option.splits)
  have key: "((\<exists>r. jm_get (rooms s) j = Some r \<and> rr_serverId r \<in> set ?stale) \<or>
       (\<exists>r. jm_get (rooms ?s1) j = Some r \<and> lapsed now r)) =
     (jm_get (rooms s) j \<noteq> None \<and> jm_get (rooms (prune s now)) j = None)" for j
    using owner [of j] deleteServers_rooms [OF inv(1), of ?stale j] rooms [of j]
    by (cases "jm_get (rooms s) j") (simp_all split: if_splits)
  have clients: "clients (prune s now) = jm_reject (\<lambda>_ c. reservation_expired now c \<or>
      (jm_get (rooms s) (cl_roomId c) \<noteq> None \<and> jm_get (rooms (prune s now)) (cl_roomId c) = None)) (clients s)"
    unfolding key [symmetric]
    by (simp add: prune_def Let_def sweep_fields(4) [OF wf1] deleteServers_clients [OF inv(1)] jm_reject_reject)
       (rule jm_reject_cong, blast)
  show ?thesis
    using inv(2) by (simp add: servers rooms clients split: option.splits)
qed

theorem prune_survivors_witness:
  "jm_get (rooms (prune demo_driver 7000)) ''r1'' \<noteq> None \<and> jm_get (rooms (prune demo_driver 7001)) ''r1'' = None \<and>
   jm_get (servers (prune demo_driver 31001)) ''s1'' = None"
  using prune_survivors [OF demo_driver_inv, of 7000 "''r1''"] prune_survivors [OF demo_driver_inv, of 7001 "''r1''"]
    prune_survivors [OF demo_driver_inv, of 31001 "''s1''"] prune_survivors [OF demo_driver_inv, of 7000 "''s1''"]
  by (simp add: demo_driver_eq jm_get_Cons lapsed_def)

definition info_matches :: "list_rooms_filter \<Rightarrow> room_info \<Rightarrow> bool" where
  "info_matches f i =
     ((lf_type f \<in> {None, Some []} \<or> lf_type f = Some (ri_roomType i)) \<and>
      (lf_status f = None \<or> lf_status f = Some (ri_status i)) \<and>
      (lf_serverId f \<in> {None, Some []} \<or> lf_serverId f = Some (ri_serverId i)) \<and>
      (\<forall>(k, v) \<in> set (tf_eq (lf_tags f)). jm_get (ri_tags i) k = Some v) \<and>
      (\<forall>(k, v) \<in> set (tf_neq (lf_tags f)). jm_get (ri_tags i) k \<noteq> Some v))"

lemma str_filter_iff: "str_filter f x \<longleftrightarrow> f \<in> {None, Some []} \<or> f = Some x"
  by (auto simp: str_filter_def split: option.splits list.splits)

lemma info_matches_room: "info_matches f (roomToInfo s r) = room_matches f r"
  by (auto simp: info_matches_def room_matches_def str_filter_iff tags_match_def roomToInfo_def list_all_iff
      split: option.splits)

text \<open>
  C25: \<open>listRooms\<close> and \<open>getRoomInfo\<close> agree. At one moment, the listing contains exactly the
  rooms that \<open>getRoomInfo\<close> returns and that satisfy the filter (a type or server filter that
  is the empty string, like an absent one, filters nothing), each once.
\<close>

theorem listRooms_is_getRoomInfo_filtered:
  assumes "driver_inv s"
  shows "(i \<in> set (fst (listRooms s now f)) \<longleftrightarrow> (\<exists>k. fst (getRoomInfo s now k) = Some i) \<and> info_matches f i) \<and>
    distinct (map ri_roomId (fst (listRooms s now f)))"
proof
  let ?t = "sweepExpiredRequestedRooms s now"
  note inv = driver_invD [OF driver_inv_sweep [OF assms, of now]]
  show "i \<in> set (fst (listRooms s now f)) \<longleftrightarrow> (\<exists>k. fst (getRoomInfo s now k) = Some i) \<and> info_matches f i"
    using jm_values_iff [OF inv(1)] info_matches_room
    by (auto simp: listRooms_def getRoomInfo_def Let_def)
  have ids: "rr_roomId (snd x) = fst x" if "x \<in> set (rooms ?t)" for x
    using that inv(4) [of "fst x" "snd x"] jm_mem_get [OF inv(1), of "fst x" "snd x"] by (simp add: room_ok_def)
  have "map ri_roomId (fst (listRooms s now f)) = map fst (filter (\<lambda>x. room_matches f (snd x)) (rooms ?t))"
    using ids by (simp add: listRooms_def Let_def jm_values_def filter_map comp_def roomToInfo_def)
  then show "distinct (map ri_roomId (fst (listRooms s now f)))"
    using inv(1) by (simp add: jm_wf_def distinct_map_filter)
qed

theorem listRooms_is_getRoomInfo_filtered_witness:
  "map ri_roomId (fst (listRooms demo_driver 6000
     \<lparr>lf_tags = \<lparr>tf_eq = [], tf_neq = [(''x'', ''y'')]\<rparr>, lf_type = Some ''game'', lf_status = None, lf_serverId = None\<rparr>)) = [''r1''] \<and>
   distinct (map ri_roomId (fst (listRooms demo_driver 6000
     \<lparr>lf_tags = \<lparr>tf_eq = [], tf_neq = [(''x'', ''y'')]\<rparr>, lf_type = Some ''game'', lf_status = None, lf_serverId = None\<rparr>)))"
  (is "?ids = _ \<and> _")
proof
  show "?ids = [''r1'']" by code_simp
qed (rule conjunct2 [OF listRooms_is_getRoomInfo_filtered [OF demo_driver_inv]])

text \<open>
  Not every read drops lapsed requested rooms. Once a request has lapsed and before any
  sweep, \<open>getRoomInfo\<close> reports the room gone, yet \<open>getServer\<close> still lists it among its
  server's rooms and \<open>addRoomTags\<close> and \<open>removeRoomTags\<close> still succeed on it.
\<close>

theorem lapsed_room_still_served:
  assumes "driver_inv s" and "jm_get (rooms s) k = Some r" and "lapsed now r"
  shows "fst (getRoomInfo s now k) = None \<and>
    (\<exists>v. getServer s (rr_serverId r) = Some v \<and> k \<in> ri_roomId ` set (si_rooms v)) \<and>
    fst (addRoomTags s k []) = Inr () \<and> fst (removeRoomTags s k ks) = Inr ()"
proof -
  note inv = driver_invD [OF assms(1)]
  have r: "rr_roomId r = k" "jm_get (servers s) (rr_serverId r) \<noteq> None"
    using inv(4) [OF assms(2)] by (auto simp: room_ok_def)
  obtain v where v: "jm_get (servers s) (rr_serverId r) = Some v" using r(2) by blast
  have "sv_serverId v = rr_serverId r" using inv(6) [OF v] by (simp add: server_ok_def)
  moreover have "r \<in> set (jm_values (rooms s))" using assms(2) by (auto simp: jm_values_iff [OF inv(1)])
  ultimately have "roomToInfo s r \<in> set (si_rooms (serverToInfo s v))"
    by (simp add: serverToInfo_def getRoomsForServer_def)
  moreover have "ri_roomId (roomToInfo s r) = k"
    using r(1) by (simp add: roomToInfo_def)
  ultimately have "k \<in> ri_roomId ` set (si_rooms (serverToInfo s v))"
    by (metis image_eqI)
  moreover have "fst (getRoomInfo s now k) = None"
    using assms(2,3) by (simp add: getRoomInfo_def Let_def sweep_fields(1) [OF inv(1)])
  ultimately show ?thesis
    using assms(2) v by (simp add: getServer_def addRoomTags_def removeRoomTags_def)
qed

theorem lapsed_room_still_served_witness:
  "fst (getRoomInfo demo_driver 7001 ''r1'') = None \<and> fst (addRoomTags demo_driver ''r1'' []) = Inr ()"
proof -
  obtain r where "jm_get (rooms demo_driver) ''r1'' = Some r" and "lapsed 7001 r"
    by (simp add: demo_driver_eq jm_get_Cons lapsed_def)
  from lapsed_room_still_served [OF demo_driver_inv this] show ?thesis by blast
qed

text \<open>The record of a reserved client, and whether a room can be reserved at: both texts must be non-empty.\<close>

definition reserved_client :: "string \<Rightarrow> string \<Rightarrow> ms \<Rightarrow> tags \<Rightarrow> client_record" where
  "reserved_client clientId roomId expiresAt tags =
     \<lparr>cl_clientId = clientId, cl_roomId = roomId, cl_status = Reserved, cl_expiresAt = expiresAt, cl_tags = tags,
      cl_connectedAt = 0\<rparr>"

definition can_reserve :: "room_record \<Rightarrow> bool" where
  "can_reserve r \<longleftrightarrow> rr_status r = Running \<and> rr_roomSecret r \<notin> {None, Some []} \<and> rr_endpoint r \<notin> {None, Some []}"

lemma validateTags_error: "validateTags tags = (if tags_ok tags then Inr () else Inl (projl (validateTags tags)))"
  using validateTags_ok [of tags] by (cases "validateTags tags") auto

lemma can_reserveE:
  assumes "can_reserve r"
  obtains a sec b e where "rr_status r = Running" "rr_roomSecret r = Some (a # sec)" "rr_endpoint r = Some (b # e)"
proof -
  from assms have run: "rr_status r = Running" and set: "rr_roomSecret r \<noteq> None" "rr_roomSecret r \<noteq> Some []"
    "rr_endpoint r \<noteq> None" "rr_endpoint r \<noteq> Some []" by (simp_all add: can_reserve_def)
  from set obtain sec e where some: "rr_roomSecret r = Some sec" "rr_endpoint r = Some e" "sec \<noteq> []" "e \<noteq> []" by auto
  then show thesis using run that by (cases sec; cases e) auto
qed

lemma reserve_at_other_room:
  assumes "jm_get (rooms s) k = Some r" and "\<not> can_reserve r"
  shows "reserveClient with_token jwtSign s now k ttl data tags uuid = (Inl (RoomNotRunningError k), s)"
  using assms
  by (auto simp: reserveClient_def reserveClient_begin_def can_reserve_def split: room_status.split option.split list.split)

text \<open>
  C26: What \<open>reserveClient\<close> of the memory driver does, for every state and every input, in the
  order the checks are made. An unknown room is \<open>RoomNotFoundError\<close>; a room that is not running, such
  as a requested one, or whose secret or endpoint is absent or empty, is \<open>RoomNotRunningError\<close>;
  then come an invalid tag, data above 2048 and tags above 512 units; each leaves the registry as it was.
  Otherwise the registry gains exactly one reserved client, under the fresh id and expiring after the
  caller's ttl; the caller gets the url made of the endpoint and the token signed with the room's secret, and
  an error only if the endpoint is not a URL, the one error that leaves the reservation behind.
\<close>

theorem reserveClient_outcome:
  "reserveClient with_token jwtSign s now k ttl data tags uuid =
    (case jm_get (rooms s) k of
       None \<Rightarrow> (Inl (RoomNotFoundError k), s)
     | Some r \<Rightarrow>
         if \<not> can_reserve r then (Inl (RoomNotRunningError k), s)
         else if \<not> tags_ok tags then (Inl (projl (validateTags tags)), s)
         else if 2048 < length data then (Inl (PayloadTooLargeError FieldData (length data) 2048), s)
         else if 512 < json_tags_size tags then (Inl (PayloadTooLargeError FieldTags (json_tags_size tags) 512), s)
         else
           (case with_token (the (rr_endpoint r))
                   (jwtSign \<lparr>jp_clientId = uuid, jp_roomId = k, jp_exp = now + ttl, jp_data = data, jp_tags = tags\<rparr>
                      (the (rr_roomSecret r))) of
              Some url \<Rightarrow> Inr \<lparr>cr_clientId = uuid, cr_url = url, cr_roomId = k, cr_expiresAt = now + ttl\<rparr>
            | None \<Rightarrow> Inl (OtherError ''Invalid URL''),
            s\<lparr>clients := jm_set (clients s) uuid (reserved_client uuid k (now + ttl) tags)\<rparr>))"
proof (cases "jm_get (rooms s) k")
  case None
  then show ?thesis by (simp add: reserveClient_def reserveClient_begin_def)
next
  case (Some r)
  show ?thesis
  proof (cases "can_reserve r")
    case False
    with Some reserve_at_other_room [OF Some False] show ?thesis by simp
  next
    case True
    from True obtain a sec b e where room: "rr_status r = Running" "rr_roomSecret r = Some (a # sec)"
      "rr_endpoint r = Some (b # e)" by (rule can_reserveE)
    show ?thesis
      using Some True room
      by (subst reserveClient_def, subst reserveClient_begin_def, subst validateTags_error)
         (simp add: reserveClient_commit_def validateReserveData_def validateReserveTagsSize_def reserved_client_def
            RESERVE_DATA_MAX_BYTES_def RESERVE_TAGS_MAX_BYTES_def Let_def split: option.split)
  qed
qed

theorem reserveClient_outcome_witness:
  "fst (reserveClient (\<lambda>e t. Some (e @ t)) (\<lambda>_ _. ''t'') (snd (roomReady demo_driver 2500 ''r1'' ''ws://a'' ''k'')) 3000 ''r1'' 30000
     ''{}'' [] ''u'') = Inr \<lparr>cr_clientId = ''u'', cr_url = ''ws://at'', cr_roomId = ''r1'', cr_expiresAt = 33000\<rparr>
   \<and> reserveClient (\<lambda>e t. Some (e @ t)) (\<lambda>_ _. ''t'') demo_driver 3000 ''r1'' 30000 ''{}'' [] ''u'' =
       (Inl (RoomNotRunningError ''r1''), demo_driver)
   \<and> reserveClient (\<lambda>e t. Some (e @ t)) (\<lambda>_ _. ''t'') demo_driver 3000 ''r9'' 30000 ''{}'' [] ''u'' =
       (Inl (RoomNotFoundError ''r9''), demo_driver)"
proof -
  define s where "s = snd (roomReady demo_driver 2500 ''r1'' ''ws://a'' ''k'')"
  note outcome = reserveClient_outcome [where with_token = "\<lambda>e t. Some (e @ t)" and jwtSign = "\<lambda>_ _. ''t''"
      and now = 3000 and ttl = 30000 and data = "''{}''" and tags = "[]" and uuid = "''u''"]
  obtain r where r: "jm_get (rooms s) ''r1'' = Some r" "rr_endpoint r = Some ''ws://a''" "rr_roomSecret r = Some ''k''"
      "rr_status r = Running"
    by (simp add: s_def demo_driver_eq roomReady_def sweepExpiredRequestedRooms_def lapsed_def Let_def jm_get_Cons)
  have sz: "json_tags_size [] = 2" by (simp add: json_tags_size_def)
  have ok: "tags_ok []" by (simp add: tags_ok_def)
  have "fst (reserveClient (\<lambda>e t. Some (e @ t)) (\<lambda>_ _. ''t'') s 3000 ''r1'' 30000 ''{}'' [] ''u'') =
      Inr \<lparr>cr_clientId = ''u'', cr_url = ''ws://at'', cr_roomId = ''r1'', cr_expiresAt = 33000\<rparr>"
    using outcome [of s "''r1''"] r sz ok by (simp add: can_reserve_def)
  moreover have "jm_get (rooms demo_driver) ''r9'' = None" by (simp add: demo_driver_eq jm_get_Cons)
  moreover obtain q where "jm_get (rooms demo_driver) ''r1'' = Some q" "\<not> can_reserve q"
    by (simp add: demo_driver_eq jm_get_Cons can_reserve_def)
  ultimately show ?thesis
    using outcome [of demo_driver "''r1''"] outcome [of demo_driver "''r9''"] by (simp add: s_def)
qed

end
