(* ===== verification/End_To_End.thy ===== *)
theory End_To_End
  imports Subprocess Room_Ipc Room_Properties Jwt Client Memory_Driver_Correct
begin

text \<open>
  What the parts do together: the environment a subprocess is started with makes its room a managed
  one, and a seat that a driver reserved is admitted by that room and by no other.
\<close>

section \<open>A subprocess gets a managed room\<close>

text \<open>Every child was started with the environment of an event of its channel.\<close>

definition spawned_from_channel ::
    "(string, string) jsmap \<Rightarrow> env_option \<Rightarrow> runner_context \<Rightarrow> room_data \<Rightarrow> (string \<times> string) set \<Rightarrow> subprocess \<Rightarrow> bool" where
  "spawned_from_channel penv env ctx data channels s \<longleftrightarrow>
     (\<forall>w e. SpawnChild w e \<in> set (sp_log s) \<longrightarrow>
        (\<exists>uenv ch. user_env env ctx data = Inr uenv \<and> ch \<in> channels \<and> e = child_env penv uenv ctx ch))"

definition channels_of :: "subprocess_event list \<Rightarrow> (string \<times> string) set" where
  "channels_of evs = {ch. \<exists>throws. SpChannelUp throws ch \<in> set evs}"

lemma spawns_of_destructor [simp]: "SpawnChild w e \<in> set (sp_log (sp_destructor s)) \<longleftrightarrow> SpawnChild w e \<in> set (sp_log s)"
  by (simp add: sp_destructor_def)

lemma spawns_of_runner: "SpawnChild w e \<in> set (sp_log (fold runner_did cs s)) \<longleftrightarrow> SpawnChild w e \<in> set (sp_log s)"
  by (induction cs arbitrary: s) (simp_all add: runner_did_def)

lemma spawns_of_with_runner [simp]:
  "SpawnChild w e \<in> set (sp_log (with_runner f s)) \<longleftrightarrow> SpawnChild w e \<in> set (sp_log s)"
  by (simp add: with_runner_def Let_def spawns_of_runner)

lemma spawned_by_channel:
  "SpawnChild w e \<in> set (sp_log (channel_up command env penv ctx data throws ch s)) \<Longrightarrow>
     SpawnChild w e \<in> set (sp_log s) \<or> (\<exists>uenv. user_env env ctx data = Inr uenv \<and> e = child_env penv uenv ctx ch)"
  by (auto simp: channel_up_def split: sum.splits option.splits if_splits)

lemma spawned_step:
  assumes old: "spawned_from_channel penv env ctx data channels s"
  shows "spawned_from_channel penv env ctx data (channels \<union> channels_of [ev]) (subprocess_step command env penv ctx data s ev)"
proof (cases ev)
  case (SpChannelUp throws ch)
  then have "channels_of [ev] = {ch}" by (auto simp: channels_of_def)
  then show ?thesis
    using old spawned_by_channel [of _ _ command env penv ctx data throws ch s]
    unfolding spawned_from_channel_def SpChannelUp subprocess_step.simps by blast
qed (use old in \<open>auto simp: spawned_from_channel_def channels_of_def channel_failed_def child_exit_def child_error_def
      report_def subprocess_kill_def kill_timeout_fires_def split: if_splits\<close>)

lemma spawned_run:
  "spawned_from_channel penv env ctx data channels s \<Longrightarrow>
     spawned_from_channel penv env ctx data (channels \<union> channels_of evs) (run (subprocess_step command env penv ctx data) s evs)"
proof (induction evs arbitrary: s channels)
  case (Cons ev evs)
  have "channels_of (ev # evs) = channels_of [ev] \<union> channels_of evs" by (auto simp: channels_of_def)
  with Cons.IH [OF spawned_step [OF Cons.prems, of ev command]] show ?case by (simp add: Un_assoc)
qed (simp add: channels_of_def)

text \<open>
  C21: A room that \<open>subprocess()\<close> starts is a managed room. Whatever the environment of the host and
  of the user says, a room process that calls \<open>create\<close> without a server option of its own is
  created with the id, type, server and secret the server gave the runner, and the notify target it
  will dial is the socket the server listens on for this room.
\<close>

theorem subprocess_room_is_managed:
  assumes child: "SpawnChild w e \<in> set (sp_log (run (subprocess_step command env penv ctx data) new_subprocess evs))"
    and channels: "channels_of evs \<subseteq> {uds_env path}"
    and options: "co_server opts = None" "\<not> co_standalone opts"
  shows "create (jm_get e) opts uuid = Inr (initial_state (rx_roomId ctx) (rx_roomType ctx)
      (Some (rx_serverId ctx)) (Some (rx_roomSecret ctx)) (Some (NotifyUri (''uds:'' @ path)))) \<and>
    parseNotifyTarget parse_url (''uds:'' @ path) = Inr (UdsTarget path)"
proof -
  have "spawned_from_channel penv env ctx data {} new_subprocess"
    by (simp add: spawned_from_channel_def new_subprocess_def)
  from spawned_run [OF this, of evs command]
  have "spawned_from_channel penv env ctx data (channels_of evs) (run (subprocess_step command env penv ctx data) new_subprocess evs)"
    by simp
  with child obtain uenv ch where "ch \<in> channels_of evs" and e: "e = child_env penv uenv ctx ch"
    unfolding spawned_from_channel_def by blast
  then have "e = child_env penv uenv ctx (''GATHO_NOTIFY_SOCKET'', ''uds:'' @ path)"
    using channels by (auto simp: uds_env_def)
  then show ?thesis
    using options
    by (simp add: create_def Let_def child_env_entries or_else_def notify_truthy_def parseNotifyTarget_def starts_with_def)
qed

lemma subprocess_room_is_managed_witness:
  "let ctx = \<lparr>rx_roomId = ''r1'', rx_roomType = ''game'', rx_serverId = ''v'', rx_roomSecret = ''s''\<rparr>;
       s = run (subprocess_step [''bun''] (FixedEnv [(''GATHO_ROOM_SECRET'', ''forged'')]) [] ctx []) new_subprocess
             [SpChannelUp None (uds_env ''/tmp/r1/sock'')]
   in \<exists>w e. sp_log s = [SpawnChild w e] \<and>
        create (jm_get e) \<lparr>co_server = None, co_standalone = False\<rparr> ''u'' =
          Inr (initial_state ''r1'' ''game'' (Some ''v'') (Some ''s'') (Some (NotifyUri ''uds:/tmp/r1/sock'')))"
proof -
  let ?ctx = "\<lparr>rx_roomId = ''r1'', rx_roomType = ''game'', rx_serverId = ''v'', rx_roomSecret = ''s''\<rparr>"
  let ?env = "FixedEnv [(''GATHO_ROOM_SECRET'', ''forged'')]"
  let ?evs = "[SpChannelUp None (uds_env ''/tmp/r1/sock'')]"
  let ?s = "run (subprocess_step [''bun''] ?env [] ?ctx []) new_subprocess ?evs"
  have log: "\<exists>e. sp_log ?s = [SpawnChild [''bun''] e]"
    by (simp add: new_subprocess_def channel_up_def user_env_def with_runner_resolved runner_spawn_def)
  then obtain e where e: "sp_log ?s = [SpawnChild [''bun''] e]" by blast
  then have "SpawnChild [''bun''] e \<in> set (sp_log ?s)" by simp
  moreover have "channels_of ?evs \<subseteq> {uds_env ''/tmp/r1/sock''}" by (auto simp: channels_of_def)
  ultimately show ?thesis
    using subprocess_room_is_managed [of "[''bun'']" e "[''bun'']" ?env "[]" ?ctx "[]" ?evs "''/tmp/r1/sock''"
        "\<lparr>co_server = None, co_standalone = False\<rparr>" "''u''"] e
    by (simp add: Let_def)
qed

section \<open>A reserved seat\<close>

text \<open>
  \<open>jwtVerify\<close> as the room uses it at time \<open>t\<close>: the payload it parses is the one the drivers sign.
\<close>

definition claims_of :: "jwt_payload \<Rightarrow> seat_claims" where
  "claims_of p = \<lparr>sc_clientId = jp_clientId p, sc_roomId = jp_roomId p, sc_data = Some (jp_data p), sc_tags = Some (jp_tags p)\<rparr>"

definition seat_verify ::
    "(byte list \<Rightarrow> jwt_payload option) \<Rightarrow> (string \<Rightarrow> byte list \<Rightarrow> byte list \<Rightarrow> bool) \<Rightarrow> ms \<Rightarrow> string \<Rightarrow> string \<Rightarrow> seat_claims option" where
  "seat_verify parse check t token secret =
     map_option claims_of (Jwt.jwtVerify parse (\<lambda>p. Some (jp_exp p)) check t token secret)"

text \<open>The url of a reservation, as the client opens it: the URL API on the room's endpoint.\<close>

definition seat_query ::
    "(string \<Rightarrow> string \<Rightarrow> string option) \<Rightarrow> (string \<Rightarrow> (string \<times> string) list) \<Rightarrow> string \<Rightarrow> bool" where
  "seat_query with_token query endpoint \<longleftrightarrow>
     (\<forall>token url. with_token endpoint token = Some url \<longrightarrow>
        (let q = query (withProtocolVersion url)
         in map_of q ''token'' = Some token \<and> map_of q ''gv'' = Some ''1'' \<and> map_of q ''session'' = None))"

definition signed_text :: "(jwt_payload \<Rightarrow> byte list) \<Rightarrow> jwt_payload \<Rightarrow> byte list" where
  "signed_text stringify p = utf8 (JWT_HEADER @ ''.'' @ toBase64Url (stringify p))"

lemma verify_own_token:
  assumes "\<And>k sig m. check k sig m \<longleftrightarrow> sig = mac k m" and "parse (stringify p) = Some p"
  shows "seat_verify parse check t (jwtSign stringify mac p secret) secret' =
     (if mac secret (signed_text stringify p) = mac secret' (signed_text stringify p) \<and> t \<le> jp_exp p + 30000
      then Some (claims_of p) else None)"
  unfolding seat_verify_def jwtSign_parts verify_signed_parts signed_text_def
  using assms by (auto simp: JWT_CLOCK_LEEWAY_MS_def)

lemma jwtSign_ne: "jwtSign stringify mac p secret \<noteq> []"
  by (simp add: jwtSign_parts)

lemma upgrade_with_token:
  assumes "map_of params ''gv'' = Some ''1''" and "map_of params ''session'' = None" and "map_of params ''token'' = Some token"
    and "token \<noteq> []" and "rs_roomSecret s = Some secret" "secret \<noteq> []"
  shows "upgrade cfg s params fresh =
     (case room_config.jwtVerify cfg token secret of
        Some c \<Rightarrow> if sc_roomId c = rs_roomId s
          then Some \<lparr>ur_clientId = sc_clientId c, ur_reconnecting = False,
                 ur_joinData = (case sc_data c of Some d \<Rightarrow> d | None \<Rightarrow> ''{}''),
                 ur_tags = (case sc_tags c of Some t \<Rightarrow> t | None \<Rightarrow> []), ur_versionMismatch = None\<rparr>
          else None
      | None \<Rightarrow> None)"
proof -
  have v: "js_String_nat PROTOCOL_VERSION = ''1''" by code_simp
  show ?thesis using assms v by (simp add: upgrade_def truthy_def split: option.split)
qed

text \<open>What a granted reservation was made from.\<close>

lemma granted_reservation:
  assumes "reserveClient with_token sign d now roomId ttl data tags uuid = (Inr res, d')"
  shows "\<exists>r e sec. jm_get (rooms d) roomId = Some r \<and> rr_endpoint r = Some e \<and> rr_roomSecret r = Some sec \<and> sec \<noteq> [] \<and>
     with_token e (sign \<lparr>jp_clientId = uuid, jp_roomId = roomId, jp_exp = now + ttl, jp_data = data, jp_tags = tags\<rparr> sec) =
       Some (cr_url res) \<and> cr_clientId res = uuid \<and> cr_expiresAt res = now + ttl \<and>
     jm_get (clients d') uuid = Some \<lparr>cl_clientId = uuid, cl_roomId = roomId, cl_status = Reserved, cl_expiresAt = now + ttl,
        cl_tags = tags, cl_connectedAt = 0\<rparr>"
  using assms
  by (fastforce simp: reserveClient_def reserveClient_begin_def reserveClient_commit_def Let_def
      split: sum.splits option.splits list.splits room_status.splits)

text \<open>
  C7: A reserved seat works at its room and nowhere else. The url of a granted reservation, opened
  by a client, is upgraded by the room that holds the record's secret exactly until thirty seconds
  after the reservation expires, as that client with the reservation's data and tags, whatever
  state the room is in; a room of another id rejects it, and so does any room whose secret signs
  the token differently.
\<close>

theorem reserved_seat_is_admitted:
  assumes granted: "reserveClient with_token (jwtSign stringify mac) d now roomId ttl data tags uuid = (Inr res, d')"
    and room: "jm_get (rooms d) roomId = Some r" "rr_endpoint r = Some e" "rr_roomSecret r = Some sec"
    and url: "seat_query with_token query e"
    and p: "p = \<lparr>jp_clientId = uuid, jp_roomId = roomId, jp_exp = now + ttl, jp_data = data, jp_tags = tags\<rparr>"
    and json: "parse (stringify p) = Some p" and mac: "\<And>k sig m. check k sig m \<longleftrightarrow> sig = mac k m"
    and verify: "room_config.jwtVerify cfg = seat_verify parse check t"
    and secret: "rs_roomSecret s = Some secret" "secret \<noteq> []"
  shows "upgrade cfg s (query (withProtocolVersion (cr_url res))) fresh =
     (if mac sec (signed_text stringify p) = mac secret (signed_text stringify p) \<and> rs_roomId s = roomId \<and>
         t \<le> cr_expiresAt res + 30000
      then Some \<lparr>ur_clientId = cr_clientId res, ur_reconnecting = False, ur_joinData = data, ur_tags = tags,
                 ur_versionMismatch = None\<rparr>
      else None)"
proof -
  let ?tok = "jwtSign stringify mac p sec"
  have tok: "with_token e ?tok = Some (cr_url res)" and res: "cr_clientId res = uuid" "cr_expiresAt res = now + ttl"
    using granted_reservation [OF granted] room by (auto simp: p)
  then have q: "map_of (query (withProtocolVersion (cr_url res))) ''token'' = Some ?tok"
    "map_of (query (withProtocolVersion (cr_url res))) ''gv'' = Some ''1''"
    "map_of (query (withProtocolVersion (cr_url res))) ''session'' = None"
    using url by (simp_all add: seat_query_def Let_def)
  have fields: "jp_clientId p = uuid" "jp_roomId p = roomId" "jp_exp p = now + ttl" "jp_data p = data" "jp_tags p = tags"
    by (simp_all add: p)
  have seen: "seat_verify parse check t ?tok secret =
      (if mac sec (signed_text stringify p) = mac secret (signed_text stringify p) \<and> t \<le> now + ttl + 30000
       then Some (claims_of p) else None)"
    using verify_own_token [where mac = mac and stringify = stringify and parse = parse and p = p, OF mac json] fields(3) by simp
  show ?thesis
    unfolding upgrade_with_token [OF q(2,3,1) jwtSign_ne secret, of cfg fresh] verify seen
    by (simp add: claims_of_def fields res)
qed

text \<open>A driver with a running room, and the toy codecs of the witness.\<close>

definition seat_driver :: memory_driver where
  "seat_driver = snd (roomReady demo_driver 2500 ''r1'' ''ws://a'' ''k'')"

definition seat_payload :: jwt_payload where
  "seat_payload = \<lparr>jp_clientId = ''u'', jp_roomId = ''r1'', jp_exp = 33000, jp_data = ''{}'', jp_tags = []\<rparr>"

definition seat_parse :: "byte list \<Rightarrow> jwt_payload option" where
  "seat_parse bytes = (if bytes = [7] then Some seat_payload else None)"

definition seat_mac :: "string \<Rightarrow> byte list \<Rightarrow> byte list" where
  "seat_mac k m = [word_of_nat (length k)]"

definition seat_params :: "string \<Rightarrow> (string \<times> string) list" where
  "seat_params url = [(''token'', take (length url - 19) (drop 14 url)), (''gv'', ''1'')]"

lemma reserved_seat_is_admitted_witness:
  "\<exists>res d'. reserveClient (\<lambda>e t. Some (e @ ''/?token='' @ t)) (jwtSign (\<lambda>_. [7]) seat_mac) seat_driver 3000 ''r1'' 30000 ''{}'' [] ''u'' = (Inr res, d') \<and>
     upgrade (demo_cfg\<lparr>jwtVerify := seat_verify seat_parse (\<lambda>k sig m. sig = seat_mac k m) 60000\<rparr>)
       (demo_room\<lparr>rs_roomSecret := Some ''k''\<rparr>) (seat_params (withProtocolVersion (cr_url res))) ''x'' =
     Some \<lparr>ur_clientId = ''u'', ur_reconnecting = False, ur_joinData = ''{}'', ur_tags = [], ur_versionMismatch = None\<rparr>"
proof -
  let ?w = "\<lambda>e t. Some (e @ ''/?token='' @ t)"
  obtain r where r: "jm_get (rooms seat_driver) ''r1'' = Some r" "rr_endpoint r = Some ''ws://a''" "rr_roomSecret r = Some ''k''"
      "rr_status r = Running"
    by (simp add: seat_driver_def demo_driver_eq roomReady_def sweepExpiredRequestedRooms_def lapsed_def Let_def jm_get_Cons)
  have query: "seat_query ?w seat_params ''ws://a''"
    by (simp add: seat_query_def seat_params_def withProtocolVersion_def appendParam_def)
  have size: "json_tags_size [] = 2" by (simp add: json_tags_size_def)
  have tags: "validateTags [] = Inr ()" by code_simp
  have "\<exists>res d'. reserveClient ?w (jwtSign (\<lambda>_. [7]) seat_mac) seat_driver 3000 ''r1'' 30000 ''{}'' [] ''u'' = (Inr res, d')"
    using r size tags
    by (simp add: reserveClient_def reserveClient_begin_def reserveClient_commit_def Let_def
        validateReserveData_def validateReserveTagsSize_def RESERVE_DATA_MAX_BYTES_def RESERVE_TAGS_MAX_BYTES_def)
  then obtain res d' where g: "reserveClient ?w (jwtSign (\<lambda>_. [7]) seat_mac) seat_driver 3000 ''r1'' 30000 ''{}'' [] ''u'' = (Inr res, d')"
    by blast
  have res: "cr_clientId res = ''u''" "cr_expiresAt res = 33000" using granted_reservation [OF g] by auto
  have "seat_parse [7] = Some seat_payload" by (simp add: seat_parse_def)
  from reserved_seat_is_admitted [OF g r(1-3) query, where p = seat_payload and parse = seat_parse and t = 60000
      and check = "\<lambda>k sig m. sig = seat_mac k m" and secret = "''k''" and fresh = "''x''"
      and cfg = "demo_cfg\<lparr>jwtVerify := seat_verify seat_parse (\<lambda>k sig m. sig = seat_mac k m) 60000\<rparr>"
      and s = "demo_room\<lparr>rs_roomSecret := Some ''k''\<rparr>", OF _ this]
  show ?thesis using g res by (intro exI [of _ res] exI [of _ d']) (simp add: seat_payload_def demo_room_eq)
qed

end
