(* ===== verification/Wait_For_Room.thy ===== *)
theory Wait_For_Room
  imports Driver_Types
begin

text \<open>
  \<open>src/driver/wait-for-room.ts\<close>: one wait for a room to run. The promise's outcome, the two
  timers, the subscription and the record reads in flight are the state; a signal, a timer, a
  read's reply and the settling of the two promises the caller passes in are the events.
\<close>

section \<open>State\<close>

datatype wait_action =
    GetRoomInfo nat
  | SubscribeSignals
  | Unsubscribe
  | Resolve room_info
  | Reject gatho_error

record record_read =
  rd_afterReady :: bool
  rd_registeredWhenIssued :: bool

record waiter =
  wf_roomId :: string
  wf_timeoutMs :: js_number
  wf_outcome :: "(gatho_error + room_info) option"
  wf_isRegistered :: bool
  wf_unsubscribe :: bool
  wf_timer :: bool
  wf_poll :: bool
  wf_reads :: "(nat, record_read) jsmap"
  wf_registering :: bool
  wf_subscribing :: bool
  wf_next :: nat
  wf_log :: "wait_action list"

definition WAIT_FOR_ROOM_POLL_MS :: ms where "WAIT_FOR_ROOM_POLL_MS = 1000"

definition wlog :: "wait_action list \<Rightarrow> waiter \<Rightarrow> waiter" where
  "wlog as s = s\<lparr>wf_log := wf_log s @ as\<rparr>"

section \<open>Operations\<close>

definition wait_finish :: "gatho_error + room_info \<Rightarrow> waiter \<Rightarrow> waiter" where
  "wait_finish outcome s =
     (if wf_outcome s \<noteq> None then s
      else wlog ((if wf_unsubscribe s then [Unsubscribe] else []) @
                 [case outcome of Inr info \<Rightarrow> Resolve info | Inl err \<Rightarrow> Reject err])
             (s\<lparr>wf_outcome := Some outcome, wf_timer := False, wf_poll := False\<rparr>))"

definition wait_check :: "bool \<Rightarrow> waiter \<Rightarrow> waiter" where
  "wait_check afterReady s =
     wlog [GetRoomInfo (wf_next s)]
       (s\<lparr>wf_reads := jm_set (wf_reads s) (wf_next s)
             \<lparr>rd_afterReady = afterReady, rd_registeredWhenIssued = wf_isRegistered s\<rparr>,
          wf_next := Suc (wf_next s)\<rparr>)"

text \<open>The reply to a read: \<open>None\<close> is a rejection, \<open>Some None\<close> a missing record.\<close>

definition wait_read :: "nat \<Rightarrow> room_info option option \<Rightarrow> waiter \<Rightarrow> waiter" where
  "wait_read i reply s =
     (case jm_get (wf_reads s) i of None \<Rightarrow> s
      | Some rd \<Rightarrow>
          let s1 = s\<lparr>wf_reads := jm_del (wf_reads s) i\<rparr> in
          case reply of
            None \<Rightarrow> s1
          | Some info \<Rightarrow>
              if wf_outcome s1 \<noteq> None then s1
              else case info of
                Some room \<Rightarrow> if ri_status room = Running then wait_finish (Inr room) s1 else s1
              | None \<Rightarrow>
                  if rd_afterReady rd then wait_finish (Inl (RoomStartError (wf_roomId s1))) s1
                  else if rd_registeredWhenIssued rd
                  then wait_finish (Inl (RoomFailedError (wf_roomId s1) ''room record removed'')) s1
                  else s1)"

definition wait_timeout :: "waiter \<Rightarrow> waiter" where
  "wait_timeout s =
     (if wf_timer s then wait_finish (Inl (RoomTimeoutError (wf_roomId s) (wf_timeoutMs s))) s else s)"

definition wait_poll :: "waiter \<Rightarrow> waiter" where
  "wait_poll s = (if wf_poll s then wait_check False s else s)"

definition wait_registered :: "gatho_error + unit \<Rightarrow> waiter \<Rightarrow> waiter" where
  "wait_registered result s =
     (if \<not> wf_registering s then s
      else
        let s1 = s\<lparr>wf_registering := False\<rparr> in
        case result of Inr _ \<Rightarrow> wait_check False (s1\<lparr>wf_isRegistered := True\<rparr>) | Inl err \<Rightarrow> wait_finish (Inl err) s1)"

definition wait_ready_signal :: "waiter \<Rightarrow> waiter" where
  "wait_ready_signal s = wait_check True s"

definition wait_failed_signal :: "string \<Rightarrow> waiter \<Rightarrow> waiter" where
  "wait_failed_signal reason s = wait_finish (Inl (RoomFailedError (wf_roomId s) reason)) s"

definition wait_subscribed :: "bool \<Rightarrow> waiter \<Rightarrow> waiter" where
  "wait_subscribed ok s =
     (if \<not> wf_subscribing s then s
      else
        let s1 = s\<lparr>wf_subscribing := False\<rparr> in
        if \<not> ok then s1
        else if wf_outcome s1 \<noteq> None then wlog [Unsubscribe] s1
        else wait_check False (s1\<lparr>wf_unsubscribe := True\<rparr>))"

definition waitForRoomRunning :: "string \<Rightarrow> js_number \<Rightarrow> waiter" where
  "waitForRoomRunning roomId timeoutMs =
     wait_check False (wlog [SubscribeSignals]
       \<lparr>wf_roomId = roomId, wf_timeoutMs = timeoutMs, wf_outcome = None, wf_isRegistered = False,
        wf_unsubscribe = False, wf_timer = True, wf_poll = True, wf_reads = [], wf_registering = True,
        wf_subscribing = True, wf_next = 0, wf_log = []\<rparr>)"

section \<open>The machine\<close>

datatype wait_event =
    WTimeout
  | WPoll
  | WRead nat "room_info option option"
  | WRegistered "gatho_error + unit"
  | WReady
  | WFailed string
  | WSubscribed bool

fun wait_step :: "waiter \<Rightarrow> wait_event \<Rightarrow> waiter" where
  "wait_step s WTimeout = wait_timeout s"
| "wait_step s WPoll = wait_poll s"
| "wait_step s (WRead i reply) = wait_read i reply s"
| "wait_step s (WRegistered r) = wait_registered r s"
| "wait_step s WReady = wait_ready_signal s"
| "wait_step s (WFailed reason) = wait_failed_signal reason s"
| "wait_step s (WSubscribed ok) = wait_subscribed ok s"

definition settlements :: "waiter \<Rightarrow> (gatho_error + room_info) list" where
  "settlements s = List.map_filter (\<lambda>a. case a of Resolve i \<Rightarrow> Some (Inr i) | Reject e \<Rightarrow> Some (Inl e) | _ \<Rightarrow> None) (wf_log s)"

definition unsubscriptions :: "waiter \<Rightarrow> nat" where
  "unsubscriptions s = length (filter (\<lambda>a. a = Unsubscribe) (wf_log s))"

definition removed_error :: "waiter \<Rightarrow> gatho_error" where
  "removed_error s = RoomFailedError (wf_roomId s) ''room record removed''"

text \<open>
  The state so far, after the events \<open>evs\<close>: \<open>landed\<close> says that the subscription was granted.
\<close>

definition wait_inv :: "bool \<Rightarrow> waiter \<Rightarrow> bool" where
  "wait_inv landed s \<longleftrightarrow>
     settlements s = (case wf_outcome s of None \<Rightarrow> [] | Some x \<Rightarrow> [x]) \<and>
     wf_timer s = (wf_outcome s = None) \<and> wf_poll s = (wf_outcome s = None) \<and>
     (landed \<longrightarrow> \<not> wf_subscribing s) \<and>
     (wf_unsubscribe s \<longrightarrow> landed) \<and> (landed \<and> wf_outcome s = None \<longrightarrow> wf_unsubscribe s) \<and>
     unsubscriptions s = (if landed \<and> wf_outcome s \<noteq> None then 1 else 0) \<and>
     (\<forall>room. wf_outcome s = Some (Inr room) \<longrightarrow> ri_status room = Running) \<and>
     jm_wf (wf_reads s) \<and>
     (\<forall>i rd. jm_get (wf_reads s) i = Some rd \<and> rd_registeredWhenIssued rd \<longrightarrow> wf_isRegistered s)"

definition lands :: "waiter \<Rightarrow> wait_event \<Rightarrow> bool" where
  "lands s e \<longleftrightarrow> e = WSubscribed True \<and> wf_subscribing s"

lemma wlog_fields [simp]:
  "wf_roomId (wlog as s) = wf_roomId s" "wf_timeoutMs (wlog as s) = wf_timeoutMs s"
  "wf_outcome (wlog as s) = wf_outcome s" "wf_isRegistered (wlog as s) = wf_isRegistered s"
  "wf_unsubscribe (wlog as s) = wf_unsubscribe s" "wf_timer (wlog as s) = wf_timer s" "wf_poll (wlog as s) = wf_poll s"
  "wf_reads (wlog as s) = wf_reads s" "wf_registering (wlog as s) = wf_registering s"
  "wf_subscribing (wlog as s) = wf_subscribing s" "wf_next (wlog as s) = wf_next s"
  "settlements (wlog as s) = settlements s @
     List.map_filter (\<lambda>a. case a of Resolve i \<Rightarrow> Some (Inr i) | Reject e \<Rightarrow> Some (Inl e) | _ \<Rightarrow> None) as"
  "unsubscriptions (wlog as s) = unsubscriptions s + length (filter (\<lambda>a. a = Unsubscribe) as)"
  by (simp_all add: wlog_def settlements_def unsubscriptions_def map_filter_def)

lemma logged_cong [simp]:
  "settlements (s\<lparr>wf_outcome := a\<rparr>) = settlements s" "settlements (s\<lparr>wf_timer := b\<rparr>) = settlements s"
  "settlements (s\<lparr>wf_poll := b\<rparr>) = settlements s" "settlements (s\<lparr>wf_reads := c\<rparr>) = settlements s"
  "settlements (s\<lparr>wf_next := n\<rparr>) = settlements s" "settlements (s\<lparr>wf_registering := b\<rparr>) = settlements s"
  "settlements (s\<lparr>wf_subscribing := b\<rparr>) = settlements s" "settlements (s\<lparr>wf_unsubscribe := b\<rparr>) = settlements s"
  "settlements (s\<lparr>wf_isRegistered := b\<rparr>) = settlements s"
  "unsubscriptions (s\<lparr>wf_outcome := a\<rparr>) = unsubscriptions s" "unsubscriptions (s\<lparr>wf_timer := b\<rparr>) = unsubscriptions s"
  "unsubscriptions (s\<lparr>wf_poll := b\<rparr>) = unsubscriptions s" "unsubscriptions (s\<lparr>wf_reads := c\<rparr>) = unsubscriptions s"
  "unsubscriptions (s\<lparr>wf_next := n\<rparr>) = unsubscriptions s" "unsubscriptions (s\<lparr>wf_registering := b\<rparr>) = unsubscriptions s"
  "unsubscriptions (s\<lparr>wf_subscribing := b\<rparr>) = unsubscriptions s" "unsubscriptions (s\<lparr>wf_unsubscribe := b\<rparr>) = unsubscriptions s"
  "unsubscriptions (s\<lparr>wf_isRegistered := b\<rparr>) = unsubscriptions s"
  by (simp_all add: settlements_def unsubscriptions_def)

lemma inv_finish:
  assumes "wait_inv landed s" and "\<And>room. out = Inr room \<Longrightarrow> ri_status room = Running"
  shows "wait_inv landed (wait_finish out s)"
  using assms by (auto simp: wait_inv_def wait_finish_def map_filter_def split: sum.split)

lemma inv_check: "wait_inv landed s \<Longrightarrow> wait_inv landed (wait_check b s)"
  by (auto simp: wait_inv_def wait_check_def map_filter_def)

lemma inv_read: "wait_inv landed s \<Longrightarrow> wait_inv landed (wait_read i reply s)"
proof -
  assume inv: "wait_inv landed s"
  have "wait_inv landed (s\<lparr>wf_reads := jm_del (wf_reads s) i\<rparr>)"
    using inv by (auto simp: wait_inv_def)
  then show ?thesis using inv
    by (auto simp: wait_read_def Let_def intro!: inv_finish split: option.split)
qed

lemma inv_wait_step: "wait_inv landed s \<Longrightarrow> wait_inv (landed \<or> lands s e) (wait_step s e)"
proof (cases e)
  case (WRegistered r)
  assume inv: "wait_inv landed s"
  have a: "wait_inv landed (s\<lparr>wf_registering := False\<rparr>)"
    and b: "wait_inv landed (s\<lparr>wf_registering := False, wf_isRegistered := True\<rparr>)"
    using inv by (auto simp: wait_inv_def)
  show ?thesis
    using inv inv_finish [OF a] inv_check [OF b] WRegistered
    by (auto simp: wait_registered_def Let_def lands_def split: sum.split)
next
  case (WSubscribed ok)
  assume inv: "wait_inv landed s"
  have a: "wait_inv landed (s\<lparr>wf_subscribing := False\<rparr>)"
    using inv by (auto simp: wait_inv_def)
  have b: "wait_inv True (s\<lparr>wf_subscribing := False, wf_unsubscribe := True\<rparr>)" if "wf_outcome s = None"
    using inv that by (auto simp: wait_inv_def)
  have c: "wait_inv True (wlog [Unsubscribe] (s\<lparr>wf_subscribing := False\<rparr>))" if "wf_subscribing s" "wf_outcome s \<noteq> None"
    using inv that by (auto simp: wait_inv_def map_filter_def)
  show ?thesis
    using inv a inv_check [OF b] c WSubscribed by (auto simp: wait_subscribed_def Let_def lands_def)
qed (auto simp: wait_timeout_def wait_poll_def inv_read inv_check wait_ready_signal_def wait_failed_signal_def
      lands_def intro!: inv_finish)

fun lands_in :: "waiter \<Rightarrow> wait_event list \<Rightarrow> bool" where
  "lands_in s [] = False"
| "lands_in s (e # es) = (lands s e \<or> lands_in (wait_step s e) es)"

lemma inv_wait_run: "wait_inv landed s \<Longrightarrow> wait_inv (landed \<or> lands_in s es) (run wait_step s es)"
proof (induction es arbitrary: s landed)
  case (Cons e es)
  from Cons.IH [OF inv_wait_step [OF Cons.prems, of e]] show ?case by (simp add: disj_assoc)
qed simp

lemma inv_wait_initial: "wait_inv False (waitForRoomRunning r t)"
  unfolding waitForRoomRunning_def
  by (rule inv_check) (auto simp: wait_inv_def settlements_def unsubscriptions_def map_filter_def wlog_def)

lemma settled_step: "wf_outcome s = Some x \<Longrightarrow> wf_outcome (wait_step s e) = Some x"
  by (cases e)
    (auto simp: wait_timeout_def wait_poll_def wait_read_def wait_registered_def wait_ready_signal_def
      wait_failed_signal_def wait_subscribed_def wait_check_def wait_finish_def Let_def split: option.split sum.split)

lemma settled_run: "wf_outcome s = Some x \<Longrightarrow> wf_outcome (run wait_step s es) = Some x"
  by (induction es arbitrary: s) (auto simp: settled_step)

lemma timeout_settles:
  assumes "wait_inv landed s" and "WTimeout \<in> set es"
  shows "wf_outcome (run wait_step s es) \<noteq> None"
proof -
  obtain xs ys where es: "es = xs @ WTimeout # ys" using assms(2) by (meson split_list)
  have "wf_timer (run wait_step s xs) = (wf_outcome (run wait_step s xs) = None)"
    using inv_wait_run [OF assms(1), of xs] unfolding wait_inv_def by blast
  then have "wf_outcome (wait_step (run wait_step s xs) WTimeout) \<noteq> None"
    by (auto simp: wait_timeout_def wait_finish_def)
  then obtain x where "wf_outcome (wait_step (run wait_step s xs) WTimeout) = Some x" by blast
  from settled_run [OF this, of ys] show ?thesis by (simp add: es run_append)
qed

text \<open>
  C23: A wait for a room settles at most once and for good, at the latest when its timeout fires;
  it resolves only with a room that is running. While it is unsettled its timeout and its poll are
  armed; once settled both are off and the signal subscription, if it was granted at all, has been
  given back exactly once.
\<close>

theorem wait_settles_exactly_once:
  "let s0 = waitForRoomRunning roomId timeoutMs; s = run wait_step s0 evs in
     settlements s = (case wf_outcome s of None \<Rightarrow> [] | Some x \<Rightarrow> [x]) \<and>
     (\<forall>x more. wf_outcome s = Some x \<longrightarrow> settlements (run wait_step s more) = [x]) \<and>
     (WTimeout \<in> set evs \<longrightarrow> wf_outcome s \<noteq> None) \<and>
     (\<forall>room. wf_outcome s = Some (Inr room) \<longrightarrow> ri_status room = Running) \<and>
     (if wf_outcome s = None then wf_timer s \<and> wf_poll s \<and> unsubscriptions s = 0
      else \<not> wf_timer s \<and> \<not> wf_poll s \<and> unsubscriptions s = (if lands_in s0 evs then 1 else 0))"
proof -
  define s0 where "s0 = waitForRoomRunning roomId timeoutMs"
  define s where "s = run wait_step s0 evs"
  have inv0: "wait_inv False s0" unfolding s0_def by (rule inv_wait_initial)
  have inv: "wait_inv (lands_in s0 evs) s" using inv_wait_run [OF inv0, of evs] by (simp add: s_def)
  have later: "settlements (run wait_step s more) = [x]" if "wf_outcome s = Some x" for x more
    using inv_wait_run [OF inv, of more] settled_run [OF that, of more] unfolding wait_inv_def by simp
  have "WTimeout \<in> set evs \<Longrightarrow> wf_outcome s \<noteq> None"
    unfolding s_def by (rule timeout_settles [OF inv0])
  then show ?thesis
    using inv later unfolding s0_def [symmetric] s_def [symmetric] Let_def wait_inv_def by simp
qed

theorem wait_settles_exactly_once_witness:
  "wf_outcome (run wait_step (waitForRoomRunning ''r'' (Fin 10)) [WPoll, WSubscribed True, WTimeout]) \<noteq> None \<and>
   unsubscriptions (run wait_step (waitForRoomRunning ''r'' (Fin 10)) [WPoll, WSubscribed True, WTimeout]) = 1"
proof -
  have "lands_in (waitForRoomRunning ''r'' (Fin 10)) [WPoll, WSubscribed True, WTimeout]"
    by (simp add: lands_def waitForRoomRunning_def wait_check_def wait_poll_def)
  then show ?thesis
    using wait_settles_exactly_once [of "''r''" "Fin 10" "[WPoll, WSubscribed True, WTimeout]"]
    unfolding Let_def by (auto simp del: run.simps wait_step.simps split: if_splits)
qed

end
