(* ===== verification/Sdk.thy ===== *)
theory Sdk
  imports Wait_For_Room Memory_Driver
begin

text \<open>
  \<open>src/sdk/index.ts\<close>: the application's entry points over a driver. \<open>createRoom\<close> is a machine
  around the driver's \<open>waitForRoom\<close>, which both drivers implement with \<open>waitForRoomRunning\<close>; the
  replies of \<open>registerRoom\<close> and \<open>unregisterRoom\<close> are events. The other functions only forward
  their arguments, so the driver's operation is theirs.
\<close>

definition REQUESTED_ROOM_TTL_MARGIN_MS :: ms where "REQUESTED_ROOM_TTL_MARGIN_MS = 10000"

definition DEFAULT_JOIN_TTL_MS :: ms where "DEFAULT_JOIN_TTL_MS = 30000"

record create_room_options =
  co_type :: string
  co_serverId :: string
  co_data :: "room_data option"
  co_tags :: "tags option"
  co_timeoutMs :: "js_number option"

text \<open>\<open>Math.ceil(timeoutMs) + REQUESTED_ROOM_TTL_MARGIN_MS\<close>.\<close>

fun requested_ttl :: "js_number \<Rightarrow> js_number" where
  "requested_ttl (Fin q) = Fin (of_int \<lceil>q\<rceil> + of_int REQUESTED_ROOM_TTL_MARGIN_MS)"
| "requested_ttl NotFinite = NotFinite"

section \<open>Creating a room\<close>

datatype sdk_call =
    RegisterRoomCall string string string room_data tags js_number
  | UnregisterRoomCall string

datatype creation_phase =
    Registering
  | AwaitRoom
  | RegistrationFailed gatho_error
  | Unregistering gatho_error
  | Created "gatho_error + room_info"

text \<open>
  \<open>rc_unhandled\<close> says that the promise of the wait was rejected while nothing had attached a
  handler to it, which node reports as an unhandled rejection.
\<close>

record room_creation =
  rc_roomId :: string
  rc_phase :: creation_phase
  rc_waiter :: waiter
  rc_calls :: "sdk_call list"
  rc_unhandled :: bool

definition sdk_createRoom :: "string \<Rightarrow> create_room_options \<Rightarrow> room_creation" where
  "sdk_createRoom uuid opts =
     (let timeoutMs = (case co_timeoutMs opts of Some t \<Rightarrow> t | None \<Rightarrow> Fin 10000)
      in \<lparr>rc_roomId = uuid, rc_phase = Registering, rc_waiter = waitForRoomRunning uuid timeoutMs,
          rc_calls = [RegisterRoomCall uuid (co_type opts) (co_serverId opts)
            (case co_data opts of Some d \<Rightarrow> d | None \<Rightarrow> []) (case co_tags opts of Some t \<Rightarrow> t | None \<Rightarrow> [])
            (requested_ttl timeoutMs)],
          rc_unhandled = False\<rparr>)"

text \<open>What hangs on the promise of the wait, once it has settled.\<close>

definition after_wait :: "room_creation \<Rightarrow> room_creation" where
  "after_wait s =
     (case wf_outcome (rc_waiter s) of
        None \<Rightarrow> s
      | Some outcome \<Rightarrow>
          (case rc_phase s of
             Registering \<Rightarrow> (case outcome of Inl _ \<Rightarrow> s\<lparr>rc_unhandled := True\<rparr> | Inr _ \<Rightarrow> s)
           | AwaitRoom \<Rightarrow>
               (case outcome of
                  Inr info \<Rightarrow> s\<lparr>rc_phase := Created (Inr info)\<rparr>
                | Inl err \<Rightarrow> s\<lparr>rc_phase := Unregistering err, rc_calls := rc_calls s @ [UnregisterRoomCall (rc_roomId s)]\<rparr>)
           | RegistrationFailed err \<Rightarrow> s\<lparr>rc_phase := Created (Inl err)\<rparr>
           | _ \<Rightarrow> s))"

definition create_registered :: "gatho_error + unit \<Rightarrow> room_creation \<Rightarrow> room_creation" where
  "create_registered result s =
     (if rc_phase s \<noteq> Registering then s
      else
        let s1 = s\<lparr>rc_waiter := wait_registered result (rc_waiter s)\<rparr>
        in after_wait (s1\<lparr>rc_phase := (case result of Inl err \<Rightarrow> RegistrationFailed err | Inr _ \<Rightarrow> AwaitRoom)\<rparr>))"

text \<open>The signals, reads and timers of the wait; its registration is settled by \<open>create_registered\<close>.\<close>

definition create_wait :: "wait_event \<Rightarrow> room_creation \<Rightarrow> room_creation" where
  "create_wait e s =
     (case e of WRegistered _ \<Rightarrow> s
      | _ \<Rightarrow> after_wait (s\<lparr>rc_waiter := wait_step (rc_waiter s) e\<rparr>))"

text \<open>The reply to \<open>unregisterRoom\<close>; its rejection is ignored.\<close>

definition create_unregistered :: "room_creation \<Rightarrow> room_creation" where
  "create_unregistered s =
     (case rc_phase s of Unregistering err \<Rightarrow> s\<lparr>rc_phase := Created (Inl err)\<rparr> | _ \<Rightarrow> s)"

datatype creation_event = CrRegistered "gatho_error + unit" | CrWait wait_event | CrUnregistered

fun creation_step :: "room_creation \<Rightarrow> creation_event \<Rightarrow> room_creation" where
  "creation_step s (CrRegistered r) = create_registered r s"
| "creation_step s (CrWait e) = create_wait e s"
| "creation_step s CrUnregistered = create_unregistered s"

section \<open>Forwarding functions\<close>

definition sdk_destroyRoom :: "(string \<Rightarrow> 'r) \<Rightarrow> string \<Rightarrow> 'r" where
  "sdk_destroyRoom unregister_room roomId = unregister_room roomId"

definition sdk_join :: "(string \<Rightarrow> ms \<Rightarrow> 'data \<Rightarrow> 'tags \<Rightarrow> 'r) \<Rightarrow> string \<Rightarrow> ms option \<Rightarrow> 'data \<Rightarrow> 'tags \<Rightarrow> 'r" where
  "sdk_join reserve_client roomId ttl data tags =
     reserve_client roomId (case ttl of Some t \<Rightarrow> t | None \<Rightarrow> DEFAULT_JOIN_TTL_MS) data tags"

definition sdk_getRoom :: "(string \<Rightarrow> 'r) \<Rightarrow> string \<Rightarrow> 'r" where
  "sdk_getRoom get_room_info roomId = get_room_info roomId"

definition sdk_getRooms :: "('f \<Rightarrow> 'r) \<Rightarrow> 'f \<Rightarrow> 'r" where
  "sdk_getRooms list_rooms f = list_rooms f"

definition sdk_getServers :: "('f \<Rightarrow> 'r) \<Rightarrow> 'f \<Rightarrow> 'r" where
  "sdk_getServers list_servers f = list_servers f"

definition sdk_addRoomTags :: "(string \<Rightarrow> tags \<Rightarrow> 'r) \<Rightarrow> string \<Rightarrow> tags \<Rightarrow> 'r" where
  "sdk_addRoomTags add_room_tags roomId tags = add_room_tags roomId tags"

definition sdk_removeRoomTags :: "(string \<Rightarrow> string list \<Rightarrow> 'r) \<Rightarrow> string \<Rightarrow> string list \<Rightarrow> 'r" where
  "sdk_removeRoomTags remove_room_tags roomId keys = remove_room_tags roomId keys"

definition sdk_addServerTags :: "(string \<Rightarrow> tags \<Rightarrow> 'r) \<Rightarrow> string \<Rightarrow> tags \<Rightarrow> 'r" where
  "sdk_addServerTags add_server_tags serverId tags = add_server_tags serverId tags"

definition sdk_removeServerTags :: "(string \<Rightarrow> string list \<Rightarrow> 'r) \<Rightarrow> string \<Rightarrow> string list \<Rightarrow> 'r" where
  "sdk_removeServerTags remove_server_tags serverId keys = remove_server_tags serverId keys"

section \<open>The outcome\<close>

definition registers :: "room_creation \<Rightarrow> sdk_call list" where
  "registers s = filter (\<lambda>c. case c of RegisterRoomCall _ _ _ _ _ _ \<Rightarrow> True | _ \<Rightarrow> False) (rc_calls s)"

definition unregisters :: "room_creation \<Rightarrow> nat" where
  "unregisters s = length (filter (\<lambda>c. c = UnregisterRoomCall (rc_roomId s)) (rc_calls s))"

definition creation_inv :: "(gatho_error + unit) option \<Rightarrow> bool \<Rightarrow> room_creation \<Rightarrow> bool" where
  "creation_inv reply timed s \<longleftrightarrow>
     (\<exists>landed. wait_inv landed (rc_waiter s)) \<and> (timed \<longrightarrow> wf_outcome (rc_waiter s) \<noteq> None) \<and>
     (reply = None \<longleftrightarrow> rc_phase s = Registering) \<and>
     (rc_phase s = Registering \<longrightarrow> wf_registering (rc_waiter s) \<and> unregisters s = 0) \<and>
     (case rc_phase s of
        AwaitRoom \<Rightarrow> reply = Some (Inr ()) \<and> wf_outcome (rc_waiter s) = None \<and> unregisters s = 0
      | RegistrationFailed err \<Rightarrow> False
      | Unregistering err \<Rightarrow> reply = Some (Inr ()) \<and> wf_outcome (rc_waiter s) = Some (Inl err) \<and> unregisters s = 1
      | Created (Inr info) \<Rightarrow> reply = Some (Inr ()) \<and> wf_outcome (rc_waiter s) = Some (Inr info) \<and> unregisters s = 0
      | Created (Inl err) \<Rightarrow>
          reply = Some (Inl err) \<and> wf_outcome (rc_waiter s) \<noteq> None \<and> unregisters s = 0 \<or>
          reply = Some (Inr ()) \<and> wf_outcome (rc_waiter s) = Some (Inl err) \<and> unregisters s = 1
      | Registering \<Rightarrow> True)"

text \<open>The reply to the registration: the first that came.\<close>

fun registration_reply :: "creation_event list \<Rightarrow> (gatho_error + unit) option" where
  "registration_reply [] = None"
| "registration_reply (CrRegistered r # evs) = Some r"
| "registration_reply (_ # evs) = registration_reply evs"

lemma registration_reply_append:
  "registration_reply (xs @ ys) = (case registration_reply xs of None \<Rightarrow> registration_reply ys | Some r \<Rightarrow> Some r)"
  by (induction xs rule: registration_reply.induct) simp_all

lemma creation_inv_initial: "creation_inv None False (sdk_createRoom uuid opts)"
  using inv_wait_initial
  by (auto simp: creation_inv_def sdk_createRoom_def Let_def unregisters_def waitForRoomRunning_def wait_check_def)

lemma wait_inv_timer: "wait_inv landed s \<Longrightarrow> wf_timer s = (wf_outcome s = None)"
  by (simp add: wait_inv_def)

lemma wait_timeout_settles: "wait_inv landed s \<Longrightarrow> wf_outcome (wait_timeout s) \<noteq> None"
  using wait_inv_timer [of landed s] by (auto simp: wait_timeout_def wait_finish_def)

lemma wait_finish_settles: "wf_outcome (wait_finish out s) \<noteq> None"
  by (simp add: wait_finish_def)

lemma wait_check_fields [simp]:
  "wf_outcome (wait_check b s) = wf_outcome s" "wf_registering (wait_check b s) = wf_registering s"
  by (simp_all add: wait_check_def)

lemma wait_finish_registering [simp]: "wf_registering (wait_finish out s) = wf_registering s"
  by (simp add: wait_finish_def)

lemma wait_step_registering:
  "(\<And>r. e \<noteq> WRegistered r) \<Longrightarrow> wf_registering (wait_step s e) = wf_registering s"
  by (cases e)
    (auto simp: wait_timeout_def wait_poll_def wait_read_def wait_ready_signal_def wait_failed_signal_def
      wait_subscribed_def Let_def split: option.split)

lemma registered_outcome:
  assumes "wf_registering s"
  shows "wf_outcome (wait_registered (Inr ()) s) = wf_outcome s" "wf_outcome (wait_registered (Inl err) s) \<noteq> None"
  using assms by (simp_all add: wait_registered_def Let_def wait_finish_settles)

lemma creation_inv_registered:
  assumes inv: "creation_inv reply timed s"
  shows "creation_inv (case reply of None \<Rightarrow> Some r | Some q \<Rightarrow> Some q) timed (create_registered r s)"
proof (cases "rc_phase s = Registering")
  case False
  then obtain q where "reply = Some q" using inv by (auto simp: creation_inv_def)
  with inv False show ?thesis by (simp add: create_registered_def)
next
  case True
  then have reply: "reply = None" and reg: "wf_registering (rc_waiter s)" and none: "unregisters s = 0"
    and timed: "timed \<longrightarrow> wf_outcome (rc_waiter s) \<noteq> None"
    using inv by (auto simp: creation_inv_def)
  obtain landed where w: "wait_inv landed (rc_waiter s)" using inv by (auto simp: creation_inv_def)
  have w': "\<exists>landed. wait_inv landed (wait_registered r (rc_waiter s))"
    using inv_wait_step [OF w, of "WRegistered r"] by auto
  show ?thesis
  proof (cases r)
    case (Inl err)
    then obtain out where "wf_outcome (wait_registered (Inl err) (rc_waiter s)) = Some out"
      using registered_outcome(2) [OF reg] by blast
    with w' Inl reply none True show ?thesis
      by (simp add: create_registered_def Let_def after_wait_def creation_inv_def unregisters_def)
  next
    case (Inr u)
    then have r: "r = Inr ()" by simp
    show ?thesis
    proof (cases "wf_outcome (rc_waiter s)")
      case None
      with w' r reply none timed True registered_outcome(1) [OF reg] show ?thesis
        by (simp add: create_registered_def Let_def after_wait_def creation_inv_def unregisters_def)
    next
      case (Some out)
      with w' r reply none True registered_outcome(1) [OF reg] show ?thesis
        by (cases out) (simp_all add: create_registered_def Let_def after_wait_def creation_inv_def unregisters_def)
    qed
  qed
qed

lemma creation_inv_wait:
  assumes inv: "creation_inv reply timed s"
  shows "creation_inv reply (timed \<or> e = WTimeout) (create_wait e s)"
proof (cases "\<exists>r. e = WRegistered r")
  case True
  then have "create_wait e s = s" "e \<noteq> WTimeout" by (auto simp: create_wait_def)
  with inv show ?thesis by simp
next
  case False
  let ?w = "wait_step (rc_waiter s) e"
  obtain landed where w: "wait_inv landed (rc_waiter s)" using inv by (auto simp: creation_inv_def)
  have w': "\<exists>landed. wait_inv landed ?w" using inv_wait_step [OF w, of e] by blast
  have eq: "create_wait e s = after_wait (s\<lparr>rc_waiter := ?w\<rparr>)"
    using False by (auto simp: create_wait_def split: wait_event.split)
  have reg: "wf_registering ?w = wf_registering (rc_waiter s)" using False wait_step_registering by blast
  have kept: "wf_outcome (rc_waiter s) = Some x \<Longrightarrow> wf_outcome ?w = Some x" for x by (rule settled_step)
  have timed: "timed \<or> e = WTimeout \<longrightarrow> wf_outcome ?w \<noteq> None"
    using inv kept wait_timeout_settles [OF w] by (auto simp: creation_inv_def)
  show ?thesis
  proof (cases "wf_outcome ?w")
    case None
    with timed kept inv w' reg show ?thesis unfolding eq
      by (cases "wf_outcome (rc_waiter s)")
        (auto simp: after_wait_def creation_inv_def unregisters_def split: creation_phase.splits sum.splits)
  next
    case (Some out)
    show ?thesis
    proof (cases "rc_phase s")
      case AwaitRoom
      with Some inv w' timed show ?thesis unfolding eq
        by (cases out) (simp_all add: after_wait_def creation_inv_def unregisters_def)
    next
      case Registering
      with Some inv w' timed reg show ?thesis unfolding eq
        by (cases out) (simp_all add: after_wait_def creation_inv_def unregisters_def)
    next
      case (RegistrationFailed err)
      with inv show ?thesis by (simp add: creation_inv_def)
    next
      case (Unregistering err)
      with Some inv w' timed kept show ?thesis unfolding eq
        by (auto simp: after_wait_def creation_inv_def unregisters_def)
    next
      case (Created x)
      with Some inv w' timed kept show ?thesis unfolding eq
        by (cases x) (auto simp: after_wait_def creation_inv_def unregisters_def)
    qed
  qed
qed

lemma creation_inv_unregistered:
  assumes inv: "creation_inv reply timed s"
  shows "creation_inv reply timed (create_unregistered s)"
  using inv by (cases "rc_phase s") (auto simp: create_unregistered_def creation_inv_def unregisters_def)

lemma creation_inv_run:
  "creation_inv reply timed s \<Longrightarrow>
     creation_inv (case reply of None \<Rightarrow> registration_reply evs | Some q \<Rightarrow> Some q) (timed \<or> CrWait WTimeout \<in> set evs)
       (run creation_step s evs)"
proof (induction evs arbitrary: s reply timed)
  case Nil
  then show ?case by (cases reply) simp_all
next
  case (Cons e evs)
  show ?case
  proof (cases e)
    case (CrRegistered r)
    from Cons.IH [OF creation_inv_registered [OF Cons.prems, of r]] CrRegistered show ?thesis
      by (cases reply) simp_all
  next
    case (CrWait we)
    from Cons.IH [OF creation_inv_wait [OF Cons.prems, of we]] CrWait show ?thesis
      by (cases reply) (simp_all add: disj_assoc eq_commute)
  next
    case CrUnregistered
    from Cons.IH [OF creation_inv_unregistered [OF Cons.prems]] CrUnregistered show ?thesis
      by (cases reply) simp_all
  qed
qed

text \<open>
  C32: \<open>createRoom\<close> resolves only with a running room, after its registration succeeded and without
  unregistering anything. It rejects with the error of a failed registration and then leaves the
  driver alone, or with the error of the wait after exactly one \<open>unregisterRoom\<close>. Once the
  registration was answered and the timeout fired it is past the wait.
\<close>

theorem createRoom_outcome:
  "let s = run creation_step (sdk_createRoom uuid opts) evs in
     (\<forall>info. rc_phase s = Created (Inr info) \<longrightarrow>
        ri_status info = Running \<and> registration_reply evs = Some (Inr ()) \<and> unregisters s = 0) \<and>
     (\<forall>err. rc_phase s = Created (Inl err) \<longrightarrow>
        registration_reply evs = Some (Inl err) \<and> unregisters s = 0 \<or>
        registration_reply evs = Some (Inr ()) \<and> unregisters s = 1 \<and> wf_outcome (rc_waiter s) = Some (Inl err)) \<and>
     (registration_reply evs \<noteq> None \<and> CrWait WTimeout \<in> set evs \<longrightarrow>
        (case rc_phase s of Created _ \<Rightarrow> True | Unregistering _ \<Rightarrow> True | _ \<Rightarrow> False))"
proof -
  define s where "s = run creation_step (sdk_createRoom uuid opts) evs"
  have inv: "creation_inv (registration_reply evs) (CrWait WTimeout \<in> set evs) s"
    using creation_inv_run [OF creation_inv_initial, of evs uuid opts] by (simp add: s_def)
  then obtain landed where w: "wait_inv landed (rc_waiter s)" by (auto simp: creation_inv_def)
  have running: "ri_status info = Running" if "wf_outcome (rc_waiter s) = Some (Inr info)" for info
    using w that unfolding wait_inv_def by blast
  show ?thesis
    using inv running unfolding s_def [symmetric] Let_def creation_inv_def
    by (cases "rc_phase s") (auto split: sum.splits)
qed

lemma createRoom_outcome_witness:
  "case rc_phase (run creation_step (sdk_createRoom ''r'' \<lparr>co_type = ''t'', co_serverId = ''v'', co_data = None, co_tags = None, co_timeoutMs = None\<rparr>)
     [CrRegistered (Inr ()), CrWait WTimeout]) of Created _ \<Rightarrow> True | Unregistering _ \<Rightarrow> True | _ \<Rightarrow> False"
  using createRoom_outcome [of "''r''" "\<lparr>co_type = ''t'', co_serverId = ''v'', co_data = None, co_tags = None, co_timeoutMs = None\<rparr>"
      "[CrRegistered (Inr ()), CrWait WTimeout]"]
  by (simp add: Let_def del: run.simps)

text \<open>
  A wait that times out before \<open>registerRoom\<close> has answered rejects a promise that has no handler yet.
\<close>

lemma slow_registration_unhandled:
  "rc_unhandled (run creation_step (sdk_createRoom uuid opts) [CrWait WTimeout])"
  by (simp add: sdk_createRoom_def Let_def waitForRoomRunning_def wait_check_def wait_timeout_def wait_finish_def
      create_wait_def after_wait_def)

text \<open>The requested record outlives the wait: no sweep until ten seconds after its deadline removes it.\<close>

lemma requested_room_outlives_wait:
  assumes reg: "registerRoom s now uuid ty v data tags (requested_ttl (Fin q)) = (Inr (), s')"
    and wf: "jm_wf (rooms s)" and t: "of_int t \<le> of_int now + q + 10000"
  shows "jm_get (rooms (sweepExpiredRequestedRooms s' t)) uuid \<noteq> None \<and> fst (roomReady s' t uuid ep sec)"
proof -
  have "\<exists>r. jm_get (rooms s') uuid = Some r \<and> rr_requestedExpiresAt r = now + (\<lceil>q\<rceil> + 10000) \<and> jm_wf (rooms s')"
    using reg wf by (auto simp: registerRoom_def Let_def REQUESTED_ROOM_TTL_MARGIN_MS_def split: if_splits sum.splits)
  then obtain r where r: "jm_get (rooms s') uuid = Some r" "rr_requestedExpiresAt r = now + (\<lceil>q\<rceil> + 10000)" "jm_wf (rooms s')"
    by blast
  have "of_int t \<le> (of_int (now + (\<lceil>q\<rceil> + 10000)) :: rat)" using t by simp linarith
  then have "t \<le> now + (\<lceil>q\<rceil> + 10000)" by (simp only: of_int_le_iff)
  then have "\<not> lapsed t r" using r(2) by (simp add: lapsed_def)
  then have "jm_get (rooms (sweepExpiredRequestedRooms s' t)) uuid = Some r"
    using r by (simp add: sweep_fields)
  then show ?thesis by (simp add: roomReady_def Let_def)
qed

end
