(* ===== verification/Server.thy ===== *)
theory Server
  imports Driver_Types
begin

text \<open>
  \<open>src/server/server.ts\<close>: one game server process. \<open>ServerState\<close> is one record. The room
  processes are objects in a heap, because the closures of \<open>createRoom\<close> outlive the entry of the
  \<open>processes\<close> map. The driver is a service with its own replies: a call to it is logged, and its
  reply is an argument of the function that models the code after the \<open>await\<close>, so that a
  function covers exactly the code between two awaits. The runner and \<open>roomEndpoint\<close> are given
  by the application and are parameters; what a runner does to the server from within \<open>spawn\<close>
  and \<open>kill\<close> is the list of callbacks it makes. \<open>now\<close> is \<open>Date.now()\<close>, read once per function.
\<close>

section \<open>State\<close>

datatype life = IsStarting | IsReady | IsStopped

datatype failure =
    Stalled
  | UnexpectedExit
  | ExitedDuringStartup "int option"
  | SilentFor ms
  | NoRunner string
  | SpawnThrew string
  | ProcessLost

text \<open>The promise \<open>startedPromise\<close> of a room.\<close>

datatype startup = Awaiting | Spoke | Failed failure

record room_process =
  rp_roomId :: string
  rp_roomType :: string
  rp_roomSecret :: string
  rp_data :: room_data
  rp_endpoint :: "string option"
  rp_status :: life
  rp_started :: bool
  rp_stoppedCalled :: bool
  rp_killable :: bool
  rp_startup :: startup
  rp_timer :: bool
  rp_continued :: bool
  rp_exited :: bool

datatype server_action =
    DrvUnregisterRoom string
  | DrvRoomFailure string failure
  | DrvReconcile string "heartbeat_client list" ms
  | DrvConnectClient string string tags
  | DrvDisconnectClient string
  | DrvRoomReady string string string
  | DrvRegisterRoom string string string room_data ms
  | DrvHeartbeat heartbeat_options
  | DrvSubscribe string
  | DrvUnsubscribe
  | DrvRenewLeader string
  | DrvTryAcquireLeader string
  | DrvReleaseLeader string
  | DrvReapServer string
  | DrvUnregisterServer string
  | Spawn nat string ms
  | Kill nat
  | Exited nat
  | DestroySocket nat
  | CloseHttp

datatype tick_phase = AwaitHeartbeat | AwaitRegister nat | AwaitReady nat

record tick =
  tk_snapshotAt :: ms
  tk_phase :: tick_phase
  tk_desired :: "desired_room list"
  tk_reasserted :: "string set"
  tk_cursor :: nat

record server_options =
  op_host :: "string option"
  op_port :: "nat option"
  op_heartbeatIntervalMs :: "ms option"
  op_tags :: "tags option"
  op_serverEndpoint :: "string option"
  op_roomStartupTimeoutMs :: "ms option"
  op_roomStallTimeoutMs :: "ms option"

record server =
  ss_options :: server_options
  ss_serverId :: string
  ss_knownRoomTypes :: "string list"
  ss_processes :: "(string, nat) jsmap"
  ss_objects :: "(nat, room_process) jsmap"
  ss_lastHeartbeats :: "(string, ms) jsmap"
  ss_killed :: "string set"
  ss_spawning :: "string set"
  ss_attempted :: "(string, ms) jsmap"
  ss_lostSince :: "(string, ms) jsmap"
  ss_alive :: bool
  ss_openSockets :: "nat list"
  ss_subscribed :: bool
  ss_isLeader :: bool
  ss_leaderLoop :: bool
  ss_heartbeatLoop :: bool
  ss_http :: bool
  ss_currentAddress :: "(string \<times> nat) option"
  ss_serverTags :: tags
  ss_lastDriverHeartbeatAt :: ms
  ss_outageLogged :: bool
  ss_previouslyRegistered :: bool
  ss_ticks :: "(nat, tick) jsmap"
  ss_settled :: "(string \<times> failure option) list"
  ss_next :: nat
  ss_log :: "server_action list"

record spawn_context =
  sc_roomId :: string
  sc_roomType :: string
  sc_serverId :: string
  sc_roomSecret :: string
  sc_data :: room_data

datatype room_callback = CbOnMessage notify_message | CbStopped "int option"

text \<open>
  The application's part: the runner of a room type (what its \<open>spawn\<close> calls back at once, and
  the error it throws, if any), what \<open>kill\<close> calls back at once, \<open>roomEndpoint\<close>, and the secret
  drawn for the n-th object.
\<close>

record environment =
  en_spawn :: "string \<Rightarrow> (spawn_context \<Rightarrow> room_callback list \<times> string option) option"
  en_kill :: "string \<Rightarrow> room_callback list"
  en_roomEndpoint :: "string \<Rightarrow> nat \<Rightarrow> string"
  en_secret :: "nat \<Rightarrow> string"

definition DEFAULT_HEARTBEAT_INTERVAL_MS :: ms where "DEFAULT_HEARTBEAT_INTERVAL_MS = 5000"
definition HEARTBEAT_OUTAGE_LOG_AFTER_INTERVALS :: int where "HEARTBEAT_OUTAGE_LOG_AFTER_INTERVALS = 3"
definition ATTEMPT_RETENTION_MS :: ms where "ATTEMPT_RETENTION_MS = 5 * 60000"
definition DEFAULT_ROOM_STALL_TIMEOUT_MS :: ms where "DEFAULT_ROOM_STALL_TIMEOUT_MS = 10000"
definition DEFAULT_ROOM_STARTUP_TIMEOUT_MS :: ms where "DEFAULT_ROOM_STARTUP_TIMEOUT_MS = 30000"

definition heartbeatIntervalMs :: "server \<Rightarrow> ms" where
  "heartbeatIntervalMs s =
     (case op_heartbeatIntervalMs (ss_options s) of Some n \<Rightarrow> n | None \<Rightarrow> DEFAULT_HEARTBEAT_INTERVAL_MS)"

definition stallTimeoutMs :: "server \<Rightarrow> ms" where
  "stallTimeoutMs s =
     (case op_roomStallTimeoutMs (ss_options s) of Some n \<Rightarrow> n | None \<Rightarrow> DEFAULT_ROOM_STALL_TIMEOUT_MS)"

definition startupTimeoutMs :: "server \<Rightarrow> ms" where
  "startupTimeoutMs s =
     (case op_roomStartupTimeoutMs (ss_options s) of Some n \<Rightarrow> n | None \<Rightarrow> DEFAULT_ROOM_STARTUP_TIMEOUT_MS)"

section \<open>Room processes\<close>

definition tell :: "server_action list \<Rightarrow> server \<Rightarrow> server" where
  "tell as s = s\<lparr>ss_log := ss_log s @ as\<rparr>"

definition with_object :: "nat \<Rightarrow> (room_process \<Rightarrow> room_process) \<Rightarrow> server \<Rightarrow> server" where
  "with_object k f s =
     (case jm_get (ss_objects s) k of None \<Rightarrow> s | Some p \<Rightarrow> s\<lparr>ss_objects := jm_set (ss_objects s) k (f p)\<rparr>)"

text \<open>\<open>markExited\<close> resolves the promise \<open>exited\<close>; only the first call has an effect.\<close>

definition markExited :: "nat \<Rightarrow> server \<Rightarrow> server" where
  "markExited k s =
     (case jm_get (ss_objects s) k of None \<Rightarrow> s
      | Some p \<Rightarrow> if rp_exited p then s
          else tell [Exited k] (s\<lparr>ss_objects := jm_set (ss_objects s) k (p\<lparr>rp_exited := True\<rparr>)\<rparr>))"

datatype cleanup_reason = ProcessExited | SelfStopped | HeartbeatTimeout

definition forget :: "string \<Rightarrow> server \<Rightarrow> server" where
  "forget roomId s =
     s\<lparr>ss_processes := jm_del (ss_processes s) roomId, ss_lastHeartbeats := jm_del (ss_lastHeartbeats s) roomId\<rparr>"

definition cleanupRoom :: "string \<Rightarrow> cleanup_reason \<Rightarrow> server \<Rightarrow> server" where
  "cleanupRoom roomId reason s =
     (case jm_get (ss_processes s) roomId of None \<Rightarrow> s
      | Some k \<Rightarrow>
          let s1 = markExited k (forget roomId s) in
          case reason of
            SelfStopped \<Rightarrow> tell [DrvUnregisterRoom roomId] s1
          | HeartbeatTimeout \<Rightarrow> tell [DrvRoomFailure roomId Stalled] s1
          | ProcessExited \<Rightarrow>
              if roomId \<in> ss_killed s1 then s1\<lparr>ss_killed := ss_killed s1 - {roomId}\<rparr>
              else tell [DrvRoomFailure roomId UnexpectedExit] s1)"

section \<open>Messages of a room\<close>

definition handleNotifyMessage :: "environment \<Rightarrow> ms \<Rightarrow> string \<Rightarrow> notify_message \<Rightarrow> server \<Rightarrow> server" where
  "handleNotifyMessage e now roomId msg s =
     (case msg of
        Heartbeat timestamp metrics clients \<Rightarrow>
          tell [DrvReconcile roomId clients timestamp]
            (s\<lparr>ss_lastHeartbeats := jm_set (ss_lastHeartbeats s) roomId now\<rparr>)
      | Ready port \<Rightarrow>
          (case jm_get (ss_processes s) roomId of None \<Rightarrow> s
           | Some k \<Rightarrow> (case jm_get (ss_objects s) k of None \<Rightarrow> s
             | Some p \<Rightarrow>
               let endpoint = en_roomEndpoint e roomId port in
               tell [DrvRoomReady roomId endpoint (rp_roomSecret p)]
                 (with_object k (\<lambda>p. p\<lparr>rp_endpoint := Some endpoint\<rparr>) s)))
      | ClientConnected clientId room tags \<Rightarrow> tell [DrvConnectClient clientId room tags] s
      | ClientDisconnected clientId \<Rightarrow> tell [DrvDisconnectClient clientId] s
      | Stopped \<Rightarrow> cleanupRoom roomId SelfStopped s
      | ErrorMsg message \<Rightarrow> s)"

text \<open>Settling \<open>startedPromise\<close>: only the first call has an effect.\<close>

definition settle :: "startup \<Rightarrow> room_process \<Rightarrow> room_process" where
  "settle r p = (if rp_startup p = Awaiting then p\<lparr>rp_startup := r\<rparr> else p)"

definition note_status :: "notify_message \<Rightarrow> room_process \<Rightarrow> room_process" where
  "note_status msg p =
     (case msg of
        Ready _ \<Rightarrow> if rp_status p = IsStarting then p\<lparr>rp_status := IsReady\<rparr> else p
      | Stopped \<Rightarrow> p\<lparr>rp_status := IsStopped\<rparr>
      | _ \<Rightarrow> p)"

definition onMessage :: "environment \<Rightarrow> ms \<Rightarrow> nat \<Rightarrow> notify_message \<Rightarrow> server \<Rightarrow> server" where
  "onMessage e now k msg s =
     (case jm_get (ss_objects s) k of None \<Rightarrow> s
      | Some p \<Rightarrow>
          if rp_stoppedCalled p \<or> \<not> jm_has (ss_processes s) (rp_roomId p) then s
          else
            let s1 = (if rp_started p then s
                      else with_object k (\<lambda>p. settle Spoke (p\<lparr>rp_started := True\<rparr>))
                             (s\<lparr>ss_lastHeartbeats := jm_set (ss_lastHeartbeats s) (rp_roomId p) now\<rparr>))
            in handleNotifyMessage e now (rp_roomId p) msg (with_object k (note_status msg) s1))"

definition stopped :: "nat \<Rightarrow> int option \<Rightarrow> server \<Rightarrow> server" where
  "stopped k code s =
     (case jm_get (ss_objects s) k of None \<Rightarrow> s
      | Some p \<Rightarrow>
          if rp_stoppedCalled p then s
          else
            let s1 = with_object k (\<lambda>p. p\<lparr>rp_stoppedCalled := True, rp_status := IsStopped\<rparr>) s
            in if rp_started p then cleanupRoom (rp_roomId p) ProcessExited s1
               else with_object k (settle (Failed (ExitedDuringStartup code))) s1)"

fun callback :: "environment \<Rightarrow> ms \<Rightarrow> nat \<Rightarrow> room_callback \<Rightarrow> server \<Rightarrow> server" where
  "callback e now k (CbOnMessage msg) s = onMessage e now k msg s"
| "callback e now k (CbStopped code) s = stopped k code s"

definition kill :: "environment \<Rightarrow> ms \<Rightarrow> nat \<Rightarrow> server \<Rightarrow> server" where
  "kill e now k s =
     (case jm_get (ss_objects s) k of None \<Rightarrow> s
      | Some p \<Rightarrow> if rp_killable p then fold (callback e now k) (en_kill e (rp_roomId p)) (tell [Kill k] s) else s)"

section \<open>Spawning\<close>

text \<open>
  \<open>createRoom\<close> up to its await. The result is the error it rejects with at once, or the new
  object.
\<close>

definition createRoom ::
    "environment \<Rightarrow> ms \<Rightarrow> string \<Rightarrow> string \<Rightarrow> room_data \<Rightarrow> server \<Rightarrow> (failure + nat) \<times> server" where
  "createRoom e now roomId roomType data s =
     (case en_spawn e roomType of None \<Rightarrow> (Inl (NoRunner roomType), s)
      | Some spawn \<Rightarrow>
          let k = ss_next s; secret = en_secret e k;
              p = \<lparr>rp_roomId = roomId, rp_roomType = roomType, rp_roomSecret = secret, rp_data = data,
                   rp_endpoint = None, rp_status = IsStarting, rp_started = False, rp_stoppedCalled = False,
                   rp_killable = False, rp_startup = Awaiting, rp_timer = False, rp_continued = False,
                   rp_exited = False\<rparr>;
              s1 = tell [Spawn k roomId now]
                     (s\<lparr>ss_processes := jm_set (ss_processes s) roomId k, ss_objects := jm_set (ss_objects s) k p,
                        ss_next := Suc k\<rparr>);
              (calls, threw) = spawn \<lparr>sc_roomId = roomId, sc_roomType = roomType, sc_serverId = ss_serverId s,
                                      sc_roomSecret = secret, sc_data = data\<rparr>;
              s2 = fold (callback e now k) calls s1
          in case threw of
               Some err \<Rightarrow> (Inl (SpawnThrew err), s2)
             | None \<Rightarrow> (Inr k, with_object k (\<lambda>p. p\<lparr>rp_killable := True, rp_timer := True\<rparr>) s2))"

text \<open>The startup timer of an object fires.\<close>

definition startup_timeout :: "nat \<Rightarrow> server \<Rightarrow> server" where
  "startup_timeout k s =
     (case jm_get (ss_objects s) k of None \<Rightarrow> s
      | Some p \<Rightarrow> if rp_timer p
          then with_object k (\<lambda>p. settle (Failed (SilentFor (startupTimeoutMs s))) (p\<lparr>rp_timer := False\<rparr>)) s else s)"

text \<open>
  \<open>createRoom\<close> after its await, once the promise is settled. Its own promise is then settled,
  and the handlers \<open>spawnAssignedRoom\<close> put on it are queued.
\<close>

definition startup_continue :: "environment \<Rightarrow> ms \<Rightarrow> nat \<Rightarrow> server \<Rightarrow> server" where
  "startup_continue e now k s =
     (case jm_get (ss_objects s) k of None \<Rightarrow> s
      | Some p \<Rightarrow>
          if rp_continued p \<or> \<not> rp_killable p then s
          else case rp_startup p of
            Awaiting \<Rightarrow> s
          | Spoke \<Rightarrow>
              (with_object k (\<lambda>p. p\<lparr>rp_continued := True, rp_timer := False\<rparr>) s)
                \<lparr>ss_settled := ss_settled s @ [(rp_roomId p, None)]\<rparr>
          | Failed err \<Rightarrow>
              let s1 = markExited k (kill e now k (forget (rp_roomId p) s));
                  s2 = with_object k (\<lambda>p. p\<lparr>rp_continued := True, rp_timer := False\<rparr>) s1
              in s2\<lparr>ss_settled := ss_settled s2 @ [(rp_roomId p, Some err)]\<rparr>)"

text \<open>The \<open>catch\<close> and \<open>finally\<close> handlers of \<open>spawnAssignedRoom\<close>.\<close>

definition spawn_settled :: "server \<Rightarrow> server" where
  "spawn_settled s =
     (case ss_settled s of [] \<Rightarrow> s
      | (roomId, outcome) # rest \<Rightarrow>
          let s1 = s\<lparr>ss_settled := rest, ss_spawning := ss_spawning s - {roomId}\<rparr> in
          case outcome of None \<Rightarrow> s1 | Some err \<Rightarrow> tell [DrvRoomFailure roomId err] s1)"

definition spawnAssignedRoom :: "environment \<Rightarrow> ms \<Rightarrow> desired_room \<Rightarrow> server \<Rightarrow> server" where
  "spawnAssignedRoom e now room s =
     (let roomId = dr_roomId room in
      if \<not> ss_alive s then s
      else if jm_has (ss_processes s) roomId then s
      else if roomId \<in> ss_spawning s then s
      else if jm_has (ss_attempted s) roomId then s
      else
        let s1 = s\<lparr>ss_attempted := jm_set (ss_attempted s) roomId now, ss_spawning := insert roomId (ss_spawning s)\<rparr>
        in case createRoom e now roomId (dr_roomType room) (dr_data room) s1 of
             (Inl err, s2) \<Rightarrow> s2\<lparr>ss_settled := ss_settled s2 @ [(roomId, Some err)]\<rparr>
           | (Inr _, s2) \<Rightarrow> s2)"

definition destroyWorker :: "environment \<Rightarrow> ms \<Rightarrow> string \<Rightarrow> server \<Rightarrow> server" where
  "destroyWorker e now roomId s =
     (case jm_get (ss_processes s) roomId of None \<Rightarrow> s
      | Some k \<Rightarrow> kill e now k (s\<lparr>ss_killed := insert roomId (ss_killed s)\<rparr>))"

definition shutdownAllWorkers :: "environment \<Rightarrow> ms \<Rightarrow> server \<Rightarrow> server" where
  "shutdownAllWorkers e now s = fold (destroyWorker e now) (jm_keys (ss_processes s)) s"

text \<open>The reply to the \<open>roomReady\<close> call of \<^const>\<open>handleNotifyMessage\<close>; \<open>None\<close> is a rejection.\<close>

definition roomReady_reply :: "environment \<Rightarrow> ms \<Rightarrow> string \<Rightarrow> bool option \<Rightarrow> server \<Rightarrow> server" where
  "roomReady_reply e now roomId wanted s = (if wanted = Some False then destroyWorker e now roomId s else s)"

text \<open>A push on the assignment channel.\<close>

definition room_assigned :: "environment \<Rightarrow> ms \<Rightarrow> desired_room \<Rightarrow> server \<Rightarrow> server" where
  "room_assigned e now room s = (if ss_subscribed s then spawnAssignedRoom e now room s else s)"

definition startRoomSubscription :: "server \<Rightarrow> server" where
  "startRoomSubscription s = (tell [DrvSubscribe (ss_serverId s)] s)\<lparr>ss_subscribed := True\<rparr>"

definition stopRoomSubscription :: "server \<Rightarrow> server" where
  "stopRoomSubscription s =
     (if ss_subscribed s then (tell [DrvUnsubscribe] s)\<lparr>ss_subscribed := False\<rparr> else s)"

end
