(* ===== verification/Server_Loops.thy ===== *)
theory Server_Loops
  imports Server
begin

text \<open>
  The rest of \<open>src/server/server.ts\<close>: the heartbeat loop (driver heartbeat, stall sweep,
  recovery after a reap, destroy sweep, level-triggered spawning), the leader loop, client
  reconciliation, start and stop. A heartbeat tick is cut at its awaits; the ticks in flight are
  kept in the state, since a tick that timed out goes on running beside its successor. \<open>current\<close>
  is the value \<open>isCurrent()\<close> has at that moment.
\<close>

section \<open>Client reconciliation\<close>

text \<open>
  Every decision of \<open>reconcileClients\<close> is taken on the one \<open>getRoomInfo\<close> reply, so its driver
  calls are a function of that reply; each starts once the one before it has settled.
\<close>

definition reconcile_connects :: "room_info \<Rightarrow> string \<Rightarrow> heartbeat_client list \<Rightarrow> server_action list" where
  "reconcile_connects info roomId roomClients =
     map (\<lambda>c. DrvConnectClient (hc_clientId c) roomId (hc_tags c))
       (filter (\<lambda>c. case find (\<lambda>d. ci_clientId d = hc_clientId c) (ri_clients info) of
                       None \<Rightarrow> True | Some d \<Rightarrow> ci_status d \<noteq> Connected) roomClients)"

definition reconcile_disconnects :: "room_info \<Rightarrow> heartbeat_client list \<Rightarrow> ms \<Rightarrow> server_action list" where
  "reconcile_disconnects info roomClients heartbeatTimestamp =
     map (\<lambda>d. DrvDisconnectClient (ci_clientId d))
       (filter (\<lambda>d. ci_status d = Connected \<and> ci_clientId d \<notin> set (map hc_clientId roomClients)
                     \<and> ci_connectedAt d < heartbeatTimestamp) (ri_clients info))"

definition reconcileClients :: "room_info option \<Rightarrow> string \<Rightarrow> heartbeat_client list \<Rightarrow> ms \<Rightarrow> server_action list" where
  "reconcileClients roomInfo roomId roomClients heartbeatTimestamp =
     (case roomInfo of None \<Rightarrow> []
      | Some info \<Rightarrow> reconcile_connects info roomId roomClients @ reconcile_disconnects info roomClients heartbeatTimestamp)"

section \<open>Heartbeat loop\<close>

definition stall_check :: "environment \<Rightarrow> ms \<Rightarrow> string \<times> ms \<Rightarrow> server \<Rightarrow> server" where
  "stall_check e now entry s =
     (case entry of (roomId, lastBeat) \<Rightarrow>
        if now - lastBeat > stallTimeoutMs s then
          (case jm_get (ss_processes s) roomId of None \<Rightarrow> s
           | Some k \<Rightarrow>
               cleanupRoom roomId HeartbeatTimeout (kill e now k (s\<lparr>ss_killed := insert roomId (ss_killed s)\<rparr>)))
        else s)"

definition checkHeartbeats :: "environment \<Rightarrow> ms \<Rightarrow> server \<Rightarrow> server" where
  "checkHeartbeats e now s = fold (stall_check e now) (ss_lastHeartbeats s) s"

definition spawnedAfter :: "server \<Rightarrow> string \<Rightarrow> ms \<Rightarrow> bool" where
  "spawnedAfter s roomId since =
     (case jm_get (ss_attempted s) roomId of None \<Rightarrow> False | Some attemptedAt \<Rightarrow> since \<le> attemptedAt)"

definition reconcile_room :: "environment \<Rightarrow> ms \<Rightarrow> desired_room \<Rightarrow> server \<Rightarrow> server" where
  "reconcile_room e now room s =
     (let roomId = dr_roomId room in
      if jm_has (ss_processes s) roomId \<or> roomId \<in> ss_spawning s
      then s\<lparr>ss_lostSince := jm_del (ss_lostSince s) roomId\<rparr>
      else if dr_status room = Requested then spawnAssignedRoom e now room s
      else case jm_get (ss_lostSince s) roomId of
             None \<Rightarrow> s\<lparr>ss_lostSince := jm_set (ss_lostSince s) roomId now\<rparr>
           | Some lostAt \<Rightarrow>
               if now - lostAt < stallTimeoutMs s then s
               else tell [DrvRoomFailure roomId ProcessLost] (s\<lparr>ss_lostSince := jm_del (ss_lostSince s) roomId\<rparr>))"

definition reconcileDesiredRooms :: "environment \<Rightarrow> ms \<Rightarrow> desired_room list \<Rightarrow> ms \<Rightarrow> server \<Rightarrow> server" where
  "reconcileDesiredRooms e now desiredRooms snapshotRequestedAt s =
     (let desiredIds = set (map dr_roomId desiredRooms);
          s1 = fold (reconcile_room e now) desiredRooms s;
          s2 = s1\<lparr>ss_lostSince := jm_reject (\<lambda>roomId _. roomId \<notin> desiredIds) (ss_lostSince s1)\<rparr>
      in s2\<lparr>ss_attempted := jm_reject (\<lambda>roomId attemptedAt. \<not> (roomId \<in> desiredIds \<or> spawnedAfter s2 roomId snapshotRequestedAt)
                                          \<and> now - attemptedAt > ATTEMPT_RETENTION_MS) (ss_attempted s2)\<rparr>)"

definition logHeartbeatOutage :: "ms \<Rightarrow> server \<Rightarrow> server" where
  "logHeartbeatOutage now s =
     (if ss_outageLogged s then s
      else if now - ss_lastDriverHeartbeatAt s \<le> HEARTBEAT_OUTAGE_LOG_AFTER_INTERVALS * heartbeatIntervalMs s then s
      else s\<lparr>ss_outageLogged := True\<rparr>)"

text \<open>A tick up to its first await; the tick gets the next number.\<close>

definition heartbeatTick :: "ms \<Rightarrow> string \<Rightarrow> server \<Rightarrow> server" where
  "heartbeatTick now adminEndpoint s =
     (let s1 = logHeartbeatOutage now s in
      tell [DrvHeartbeat \<lparr>ho_serverId = ss_serverId s1, ho_endpoint = adminEndpoint, ho_tags = ss_serverTags s1,
                          ho_roomTypes = ss_knownRoomTypes s1\<rparr>]
        (s1\<lparr>ss_ticks := jm_set (ss_ticks s1) (ss_next s1)
               \<lparr>tk_snapshotAt = now, tk_phase = AwaitHeartbeat, tk_desired = [], tk_reasserted = {}, tk_cursor = 0\<rparr>,
            ss_next := Suc (ss_next s1)\<rparr>))"

definition destroy_unwanted :: "environment \<Rightarrow> ms \<Rightarrow> tick \<Rightarrow> string \<Rightarrow> server \<Rightarrow> server" where
  "destroy_unwanted e now tk roomId s =
     (if roomId \<in> tk_reasserted tk then s
      else if spawnedAfter s roomId (tk_snapshotAt tk) then s
      else if roomId \<notin> set (map dr_roomId (tk_desired tk)) then destroyWorker e now roomId s
      else s)"

text \<open>The end of a tick: destroy sweep, then the second staleness check.\<close>

definition tick_finish :: "environment \<Rightarrow> ms \<Rightarrow> bool \<Rightarrow> nat \<Rightarrow> tick \<Rightarrow> server \<Rightarrow> server" where
  "tick_finish e now current t tk s =
     (let s1 = s\<lparr>ss_previouslyRegistered := True, ss_ticks := jm_del (ss_ticks s) t\<rparr>;
          s2 = fold (destroy_unwanted e now tk) (jm_keys (ss_processes s1)) s1
      in if current then reconcileDesiredRooms e now (tk_desired tk) (tk_snapshotAt tk) s2 else s2)"

definition reassertable :: "server \<Rightarrow> tick \<Rightarrow> nat \<Rightarrow> bool" where
  "reassertable s tk k =
     (case jm_get (ss_objects s) k of None \<Rightarrow> False
      | Some p \<Rightarrow> rp_status p = IsReady \<and> rp_roomId p \<notin> set (map dr_roomId (tk_desired tk))
                 \<and> rp_endpoint p \<noteq> None \<and> rp_endpoint p \<noteq> Some [])"

text \<open>
  The loop over \<open>processes.values()\<close> goes on, over the live map: the next entry is the first one
  that was added after the entries visited so far.
\<close>

definition reassert_next :: "environment \<Rightarrow> ms \<Rightarrow> bool \<Rightarrow> nat \<Rightarrow> tick \<Rightarrow> server \<Rightarrow> server" where
  "reassert_next e now current t tk s =
     (case find (\<lambda>k. tk_cursor tk \<le> k \<and> reassertable s tk k) (jm_values (ss_processes s)) of
        None \<Rightarrow> tick_finish e now current t tk s
      | Some k \<Rightarrow>
          (case jm_get (ss_objects s) k of None \<Rightarrow> s
           | Some p \<Rightarrow>
               tell [DrvRegisterRoom (rp_roomId p) (rp_roomType p) (ss_serverId s) (rp_data p) (startupTimeoutMs s)]
                 (s\<lparr>ss_ticks := jm_set (ss_ticks s) t (tk\<lparr>tk_phase := AwaitRegister k, tk_cursor := Suc k\<rparr>)\<rparr>)))"

text \<open>The heartbeat reply of tick \<open>t\<close>; a rejection ends the tick (\<open>punctuate\<close> logs it).\<close>

definition tick_heartbeat ::
    "environment \<Rightarrow> ms \<Rightarrow> bool \<Rightarrow> nat \<Rightarrow> heartbeat_result option \<Rightarrow> server \<Rightarrow> server" where
  "tick_heartbeat e now current t reply s =
     (case jm_get (ss_ticks s) t of None \<Rightarrow> s
      | Some tk \<Rightarrow>
          if tk_phase tk \<noteq> AwaitHeartbeat then s
          else case reply of
            None \<Rightarrow> s\<lparr>ss_ticks := jm_del (ss_ticks s) t\<rparr>
          | Some result \<Rightarrow>
              if \<not> current then s\<lparr>ss_ticks := jm_del (ss_ticks s) t\<rparr>
              else
                let s1 = s\<lparr>ss_serverTags := hr_tags result, ss_lastDriverHeartbeatAt := now, ss_outageLogged := False\<rparr>;
                    s2 = checkHeartbeats e now s1;
                    tk1 = tk\<lparr>tk_desired := hr_desiredRooms result\<rparr>
                in if hr_registered result \<and> ss_previouslyRegistered s2
                   then reassert_next e now current t tk1 s2
                   else tick_finish e now current t tk1 s2)"

text \<open>The replies to \<open>registerRoom\<close> and \<open>roomReady\<close> of the recovery loop.\<close>

definition tick_registered :: "environment \<Rightarrow> ms \<Rightarrow> bool \<Rightarrow> nat \<Rightarrow> bool \<Rightarrow> server \<Rightarrow> server" where
  "tick_registered e now current t ok s =
     (case jm_get (ss_ticks s) t of None \<Rightarrow> s
      | Some tk \<Rightarrow>
          (case tk_phase tk of
             AwaitRegister k \<Rightarrow>
               (case jm_get (ss_objects s) k of None \<Rightarrow> s
                | Some p \<Rightarrow>
                    if ok then
                      tell [DrvRoomReady (rp_roomId p) (case rp_endpoint p of Some x \<Rightarrow> x | None \<Rightarrow> []) (rp_roomSecret p)]
                        (s\<lparr>ss_ticks := jm_set (ss_ticks s) t (tk\<lparr>tk_phase := AwaitReady k\<rparr>)\<rparr>)
                    else reassert_next e now current t tk s)
           | _ \<Rightarrow> s))"

definition tick_readied :: "environment \<Rightarrow> ms \<Rightarrow> bool \<Rightarrow> nat \<Rightarrow> bool \<Rightarrow> server \<Rightarrow> server" where
  "tick_readied e now current t ok s =
     (case jm_get (ss_ticks s) t of None \<Rightarrow> s
      | Some tk \<Rightarrow>
          (case tk_phase tk of
             AwaitReady k \<Rightarrow>
               (case jm_get (ss_objects s) k of None \<Rightarrow> s
                | Some p \<Rightarrow>
                    reassert_next e now current t
                      (if ok then tk\<lparr>tk_reasserted := insert (rp_roomId p) (tk_reasserted tk)\<rparr> else tk) s)
           | _ \<Rightarrow> s))"

definition startHeartbeatLoop :: "server \<Rightarrow> server" where
  "startHeartbeatLoop s = (if ss_heartbeatLoop s then s else s\<lparr>ss_heartbeatLoop := True\<rparr>)"

definition stopHeartbeatLoop :: "server \<Rightarrow> server" where
  "stopHeartbeatLoop s = (if ss_heartbeatLoop s then s\<lparr>ss_heartbeatLoop := False\<rparr> else s)"

section \<open>Leadership\<close>

definition leader_tick :: "server \<Rightarrow> server" where
  "leader_tick s = tell [if ss_isLeader s then DrvRenewLeader (ss_serverId s) else DrvTryAcquireLeader (ss_serverId s)] s"

text \<open>
  The replies; \<open>True\<close> in the result says that the leader duties follow.
\<close>

definition leader_renewed :: "bool \<Rightarrow> bool \<Rightarrow> server \<Rightarrow> bool \<times> server" where
  "leader_renewed current renewed s =
     (if \<not> current then (False, s) else if \<not> renewed then (False, s\<lparr>ss_isLeader := False\<rparr>) else (True, s))"

definition leader_acquired :: "bool \<Rightarrow> bool \<Rightarrow> server \<Rightarrow> bool \<times> server" where
  "leader_acquired current acquired s =
     (if \<not> current then (False, s) else if acquired then (True, s\<lparr>ss_isLeader := True\<rparr>) else (False, s))"

definition startLeaderLoop :: "server \<Rightarrow> server" where
  "startLeaderLoop s = s\<lparr>ss_leaderLoop := True\<rparr>"

definition stopLeaderLoop :: "server \<Rightarrow> server" where
  "stopLeaderLoop s = (if ss_leaderLoop s then s\<lparr>ss_leaderLoop := False\<rparr> else s)"

definition reapStaleServers :: "server_info list \<Rightarrow> server \<Rightarrow> server" where
  "reapStaleServers stale s = tell (map (\<lambda>v. DrvReapServer (si_serverId v)) stale) s"

definition orphaned_rooms :: "server_info list \<Rightarrow> server_info list \<Rightarrow> room_info list \<Rightarrow> string list" where
  "orphaned_rooms servers staleServers allRooms =
     filter (\<lambda>id. id \<notin> set (map ri_roomId allRooms))
       (remdups (concat (map (\<lambda>v. map ri_roomId (si_rooms v)) (servers @ staleServers))))"

definition cleanOrphanedRoomEntries :: "server_info list \<Rightarrow> server_info list \<Rightarrow> room_info list \<Rightarrow> server \<Rightarrow> server" where
  "cleanOrphanedRoomEntries servers staleServers allRooms s =
     tell (map DrvUnregisterRoom (orphaned_rooms servers staleServers allRooms)) s"

section \<open>HTTP\<close>

definition handleRequest :: "string option \<Rightarrow> string option \<Rightarrow> nat \<times> string option \<times> string" where
  "handleRequest url verb =
     (if url = Some ''/health'' \<and> verb = Some ''GET''
      then (200, Some ''application/json'', ''{'' @ [CHR 0x22] @ ''status'' @ [CHR 0x22] @ '':'' @ [CHR 0x22] @ ''ok'' @ [CHR 0x22] @ ''}'')
      else if url = Some ''/ping'' \<and> verb = Some ''GET'' then (200, Some ''text/plain'', ''pong'')
      else (404, None, []))"

definition socket_opened :: "nat \<Rightarrow> server \<Rightarrow> server" where
  "socket_opened k s = s\<lparr>ss_openSockets := ss_openSockets s @ [k]\<rparr>"

definition socket_closed :: "nat \<Rightarrow> server \<Rightarrow> server" where
  "socket_closed k s = s\<lparr>ss_openSockets := removeAll k (ss_openSockets s)\<rparr>"

section \<open>Start and stop\<close>

definition WILDCARD_HOSTS :: "string set" where
  "WILDCARD_HOSTS = {''0.0.0.0'', ''::'', []}"

definition bind_host :: "server_options \<Rightarrow> string" where
  "bind_host opts = (case op_host opts of Some h \<Rightarrow> h | None \<Rightarrow> ''0.0.0.0'')"

text \<open>\<open>start\<close> up to \<open>startInternal\<close>: the error thrown, or the initial state.\<close>

definition start_server :: "bool \<Rightarrow> string list \<Rightarrow> server_options \<Rightarrow> string \<Rightarrow> ms \<Rightarrow> gatho_error + server" where
  "start_server local roomTypes opts serverId now =
     (if \<not> local \<and> (op_serverEndpoint opts = None \<or> op_serverEndpoint opts = Some []) \<and> bind_host opts \<in> WILDCARD_HOSTS
      then Inl (OtherError ''gatho: serverEndpoint is required with a networked driver when binding a wildcard host'')
      else Inr \<lparr>ss_options = opts, ss_serverId = serverId, ss_knownRoomTypes = roomTypes, ss_processes = [],
                ss_objects = [], ss_lastHeartbeats = [], ss_killed = {}, ss_spawning = {}, ss_attempted = [],
                ss_lostSince = [], ss_alive = True, ss_openSockets = [], ss_subscribed = False, ss_isLeader = False,
                ss_leaderLoop = False, ss_heartbeatLoop = False, ss_http = False, ss_currentAddress = None,
                ss_serverTags = (case op_tags opts of Some tags \<Rightarrow> tags | None \<Rightarrow> []),
                ss_lastDriverHeartbeatAt = now, ss_outageLogged = False, ss_previouslyRegistered = False,
                ss_ticks = [], ss_settled = [], ss_next = 0, ss_log = []\<rparr>)"

text \<open>The address published to the driver: \<open>http://host:port\<close> unless one was given.\<close>

definition serverEndpoint :: "(nat \<Rightarrow> string) \<Rightarrow> server \<Rightarrow> string" where
  "serverEndpoint show_port s =
     (case op_serverEndpoint (ss_options s) of Some x \<Rightarrow> x
      | None \<Rightarrow>
          let (host, port) = (case ss_currentAddress s of Some a \<Rightarrow> a
                              | None \<Rightarrow> (bind_host (ss_options s), case op_port (ss_options s) of Some p \<Rightarrow> p | None \<Rightarrow> 3000))
          in ''http://'' @ host @ '':'' @ show_port port)"

definition startInternal_listening :: "(string \<times> nat) option \<Rightarrow> server \<Rightarrow> server" where
  "startInternal_listening addr s =
     startRoomSubscription (s\<lparr>ss_http := True, ss_currentAddress := (case addr of Some a \<Rightarrow> Some a | None \<Rightarrow> ss_currentAddress s)\<rparr>)"

text \<open>\<open>stop\<close>, cut at its awaits.\<close>

definition stop_begin :: "server \<Rightarrow> server" where
  "stop_begin s =
     (let s1 = stopLeaderLoop (stopHeartbeatLoop (stopRoomSubscription (s\<lparr>ss_alive := False\<rparr>)))
      in if ss_isLeader s1 then tell [DrvReleaseLeader (ss_serverId s1)] s1
         else tell [DrvUnregisterServer (ss_serverId s1)] s1)"

definition stop_released :: "server \<Rightarrow> server" where
  "stop_released s = tell [DrvUnregisterServer (ss_serverId s)] (s\<lparr>ss_isLeader := False\<rparr>)"

text \<open>After \<open>unregisterServer\<close>: the objects whose exit is awaited, and the state after the kills.\<close>

definition stop_unregistered :: "environment \<Rightarrow> ms \<Rightarrow> server \<Rightarrow> nat list \<times> server" where
  "stop_unregistered e now s = (jm_values (ss_processes s), shutdownAllWorkers e now s)"

definition drained :: "server \<Rightarrow> nat list \<Rightarrow> bool" where
  "drained s ks = list_all (\<lambda>k. case jm_get (ss_objects s) k of Some p \<Rightarrow> rp_exited p | None \<Rightarrow> True) ks"

definition stop_drained :: "server \<Rightarrow> server" where
  "stop_drained s =
     (tell (map DestroySocket (ss_openSockets s) @ (if ss_http s then [CloseHttp] else [])) s)
       \<lparr>ss_openSockets := [], ss_http := False, ss_currentAddress := None\<rparr>"

section \<open>Introspection\<close>

record room_details =
  rd_roomId :: string
  rd_roomType :: string
  rd_endpoint :: "string option"
  rd_status :: life
  rd_lastHeartbeatAt :: "ms option"

definition room_details_of :: "server \<Rightarrow> string \<Rightarrow> room_process \<Rightarrow> room_details" where
  "room_details_of s roomId p =
     \<lparr>rd_roomId = roomId, rd_roomType = rp_roomType p, rd_endpoint = rp_endpoint p, rd_status = rp_status p,
      rd_lastHeartbeatAt = jm_get (ss_lastHeartbeats s) roomId\<rparr>"

definition getRoomDetails :: "server \<Rightarrow> string \<Rightarrow> room_details option" where
  "getRoomDetails s roomId =
     (case jm_get (ss_processes s) roomId of None \<Rightarrow> None
      | Some k \<Rightarrow> map_option (room_details_of s roomId) (jm_get (ss_objects s) k))"

definition getAllRoomDetails :: "server \<Rightarrow> room_details list" where
  "getAllRoomDetails s =
     map (\<lambda>p. room_details_of s (rp_roomId p) p) (List.map_filter (jm_get (ss_objects s)) (jm_values (ss_processes s)))"

end
