(* ===== verification/Server_Correct.thy ===== *)
theory Server_Correct
  imports Server_Loops
begin

text \<open>
  The server as an event-driven machine. Every event carries the reading of the clock at which
  its code runs. The invariant ties the \<open>processes\<close> map to the process objects, gives every
  object exactly one exit, keeps the bookkeeping of spawns under way, and spaces the spawns of
  one room id. Everything but spawning is \<open>calm\<close>: it starts no object and leaves the spawn
  bookkeeping alone.
\<close>

section \<open>Events\<close>

datatype server_event =
    EvCallback nat room_callback
  | EvStartupTimeout nat
  | EvStartupContinue nat
  | EvSpawnSettled
  | EvRoomReadyReply string "bool option"
  | EvAssigned desired_room
  | EvListening "(string \<times> nat) option"
  | EvLoopsStarted
  | EvTick string
  | EvTickHeartbeat bool nat "heartbeat_result option"
  | EvTickRegistered bool nat bool
  | EvTickReadied bool nat bool
  | EvLeaderTick
  | EvLeaderRenewed bool bool
  | EvLeaderAcquired bool bool
  | EvStaleListed "server_info list"
  | EvRoomsListed "server_info list" "server_info list" "room_info list"
  | EvSocketOpened nat
  | EvSocketClosed nat
  | EvStop
  | EvStopReleased
  | EvStopUnregistered
  | EvStopDrained

fun server_step :: "environment \<Rightarrow> ms \<Rightarrow> server \<Rightarrow> server_event \<Rightarrow> server" where
  "server_step e now s (EvCallback k cb) = callback e now k cb s"
| "server_step e now s (EvStartupTimeout k) = startup_timeout k s"
| "server_step e now s (EvStartupContinue k) = startup_continue e now k s"
| "server_step e now s EvSpawnSettled = spawn_settled s"
| "server_step e now s (EvRoomReadyReply r w) = roomReady_reply e now r w s"
| "server_step e now s (EvAssigned room) = room_assigned e now room s"
| "server_step e now s (EvListening addr) = startInternal_listening addr s"
| "server_step e now s EvLoopsStarted = startLeaderLoop (startHeartbeatLoop s)"
| "server_step e now s (EvTick ep) = heartbeatTick now ep s"
| "server_step e now s (EvTickHeartbeat c t r) = tick_heartbeat e now c t r s"
| "server_step e now s (EvTickRegistered c t ok) = tick_registered e now c t ok s"
| "server_step e now s (EvTickReadied c t ok) = tick_readied e now c t ok s"
| "server_step e now s EvLeaderTick = leader_tick s"
| "server_step e now s (EvLeaderRenewed c r) = snd (leader_renewed c r s)"
| "server_step e now s (EvLeaderAcquired c a) = snd (leader_acquired c a s)"
| "server_step e now s (EvStaleListed vs) = reapStaleServers vs s"
| "server_step e now s (EvRoomsListed vs ws rs) = cleanOrphanedRoomEntries vs ws rs s"
| "server_step e now s (EvSocketOpened k) = socket_opened k s"
| "server_step e now s (EvSocketClosed k) = socket_closed k s"
| "server_step e now s EvStop = stop_begin s"
| "server_step e now s EvStopReleased = stop_released s"
| "server_step e now s EvStopUnregistered = snd (stop_unregistered e now s)"
| "server_step e now s EvStopDrained = stop_drained s"

text \<open>The machine with its clock, and what is asked of the clock: it does not go back.\<close>

type_synonym timed_server = "ms \<times> server"

definition timed_step :: "environment \<Rightarrow> timed_server \<Rightarrow> ms \<times> server_event \<Rightarrow> timed_server" where
  "timed_step e c ev = (fst ev, server_step e (fst ev) (snd c) (snd ev))"

definition clock_ok :: "timed_server \<Rightarrow> ms \<times> server_event \<Rightarrow> bool" where
  "clock_ok c ev = (fst c \<le> fst ev)"

section \<open>Invariants\<close>

definition exits :: "nat \<Rightarrow> server \<Rightarrow> nat" where
  "exits k s = length (filter (\<lambda>a. a = Exited k) (ss_log s))"

definition spawns :: "string \<Rightarrow> server \<Rightarrow> ms list" where
  "spawns r s = List.map_filter (\<lambda>a. case a of Spawn k r' t \<Rightarrow> if r' = r then Some t else None | _ \<Rightarrow> None) (ss_log s)"

text \<open>
  A live object is the entry of its room id, and the other way round; \<open>X\<close> holds the objects
  whose entry has been removed but whose exit is still to be marked.
\<close>

definition entries_ok :: "nat set \<Rightarrow> server \<Rightarrow> bool" where
  "entries_ok X s \<longleftrightarrow>
     (\<forall>r k. jm_get (ss_processes s) r = Some k \<longrightarrow>
        (\<exists>p. jm_get (ss_objects s) k = Some p \<and> rp_roomId p = r \<and> \<not> rp_exited p)) \<and>
     (\<forall>k p. jm_get (ss_objects s) k = Some p \<and> \<not> rp_exited p \<and> k \<notin> X \<longrightarrow> jm_get (ss_processes s) (rp_roomId p) = Some k)"

definition maps_wf :: "server \<Rightarrow> bool" where
  "maps_wf s \<longleftrightarrow>
     jm_wf (ss_processes s) \<and> jm_wf (ss_objects s) \<and> jm_wf (ss_lastHeartbeats s) \<and>
     jm_wf (ss_attempted s) \<and> jm_wf (ss_lostSince s)"

definition beats_ok :: "server \<Rightarrow> bool" where
  "beats_ok s \<longleftrightarrow> (\<forall>r. jm_get (ss_lastHeartbeats s) r \<noteq> None \<longrightarrow> jm_get (ss_processes s) r \<noteq> None)"

definition exits_ok :: "server \<Rightarrow> bool" where
  "exits_ok s \<longleftrightarrow>
     (\<forall>k. exits k s = (case jm_get (ss_objects s) k of Some p \<Rightarrow> if rp_exited p then 1 else 0 | None \<Rightarrow> 0))"

definition objects_fresh :: "server \<Rightarrow> bool" where
  "objects_fresh s \<longleftrightarrow> (\<forall>k. jm_get (ss_objects s) k \<noteq> None \<longrightarrow> k < ss_next s)"

text \<open>The map lists its objects in the order they were made.\<close>

definition in_order :: "server \<Rightarrow> bool" where
  "in_order s \<longleftrightarrow> sorted_wrt (<) (jm_values (ss_processes s))"

definition core_inv :: "nat set \<Rightarrow> server \<Rightarrow> bool" where
  "core_inv X s \<longleftrightarrow> maps_wf s \<and> entries_ok X s \<and> objects_fresh s \<and> beats_ok s \<and> exits_ok s \<and> in_order s"

definition pending :: "server \<Rightarrow> nat \<Rightarrow> string \<Rightarrow> bool" where
  "pending s k r \<longleftrightarrow> (\<exists>p. jm_get (ss_objects s) k = Some p \<and> rp_killable p \<and> \<not> rp_continued p \<and> rp_roomId p = r)"

definition pending_inv :: "server \<Rightarrow> bool" where
  "pending_inv s \<longleftrightarrow>
     (\<forall>k r. pending s k r \<longrightarrow> r \<in> ss_spawning s \<and> r \<notin> fst ` set (ss_settled s)) \<and>
     (\<forall>k k' r. pending s k r \<and> pending s k' r \<longrightarrow> k = k') \<and>
     (\<forall>k k' r. pending s k r \<and> jm_get (ss_processes s) r = Some k' \<longrightarrow> k' = k) \<and>
     fst ` set (ss_settled s) \<subseteq> ss_spawning s \<and> distinct (map fst (ss_settled s))"

definition spacing_inv :: "ms \<Rightarrow> server \<Rightarrow> bool" where
  "spacing_inv clock s \<longleftrightarrow>
     (\<forall>r t. jm_get (ss_attempted s) r = Some t \<longrightarrow> t \<le> clock) \<and>
     (\<forall>r. \<forall>t\<in>set (spawns r s).
        (\<exists>t'. jm_get (ss_attempted s) r = Some t' \<and> t \<le> t') \<or> t + ATTEMPT_RETENTION_MS < clock) \<and>
     (\<forall>r. sorted_wrt (\<lambda>t t'. t + ATTEMPT_RETENTION_MS < t') (spawns r s))"

definition server_inv :: "timed_server \<Rightarrow> bool" where
  "server_inv c \<longleftrightarrow> core_inv {} (snd c) \<and> pending_inv (snd c) \<and> spacing_inv (fst c) (snd c)"

section \<open>Calm steps\<close>

definition same_object :: "room_process \<Rightarrow> room_process \<Rightarrow> bool" where
  "same_object p q \<longleftrightarrow> rp_roomId p = rp_roomId q \<and> rp_killable p = rp_killable q \<and> rp_continued p = rp_continued q"

definition same_objects :: "server \<Rightarrow> server \<Rightarrow> bool" where
  "same_objects s s' \<longleftrightarrow> (\<forall>k. rel_option same_object (jm_get (ss_objects s) k) (jm_get (ss_objects s') k))"

definition no_new_entries :: "server \<Rightarrow> server \<Rightarrow> bool" where
  "no_new_entries s s' \<longleftrightarrow>
     (\<forall>r. jm_get (ss_processes s') r = None \<or> jm_get (ss_processes s') r = jm_get (ss_processes s) r)"

definition same_spawning :: "server \<Rightarrow> server \<Rightarrow> bool" where
  "same_spawning s s' \<longleftrightarrow>
     ss_spawning s' = ss_spawning s \<and> ss_settled s' = ss_settled s \<and> ss_attempted s' = ss_attempted s \<and>
     ss_alive s' = ss_alive s \<and> ss_options s' = ss_options s \<and> ss_next s' = ss_next s \<and>
     (\<forall>r. spawns r s' = spawns r s)"

definition calm :: "server \<Rightarrow> server \<Rightarrow> bool" where
  "calm s s' \<longleftrightarrow> same_spawning s s' \<and> same_objects s s' \<and> no_new_entries s s' \<and> (\<forall>X. core_inv X s \<longrightarrow> core_inv X s')"

lemma same_object_refl [simp]: "same_object p p"
  by (simp add: same_object_def)

lemma same_objects_trans:
  assumes "same_objects s s'" and "same_objects s' s''"
  shows "same_objects s s''"
  unfolding same_objects_def
proof
  fix k
  have "rel_option same_object (jm_get (ss_objects s) k) (jm_get (ss_objects s') k)"
    and "rel_option same_object (jm_get (ss_objects s') k) (jm_get (ss_objects s'') k)"
    using assms by (simp_all add: same_objects_def)
  then show "rel_option same_object (jm_get (ss_objects s) k) (jm_get (ss_objects s'') k)"
    by (cases "jm_get (ss_objects s) k"; cases "jm_get (ss_objects s') k"; cases "jm_get (ss_objects s'') k")
      (simp_all add: same_object_def)
qed

lemma no_new_entries_trans: "no_new_entries s s' \<Longrightarrow> no_new_entries s' s'' \<Longrightarrow> no_new_entries s s''"
  unfolding no_new_entries_def by metis

lemma calm_refl [simp, intro]: "calm s s"
  by (simp add: calm_def same_spawning_def same_objects_def no_new_entries_def option.rel_refl)

lemma same_spawning_trans: "same_spawning s s' \<Longrightarrow> same_spawning s' s'' \<Longrightarrow> same_spawning s s''"
  by (simp add: same_spawning_def)

lemma calm_trans [trans]: "calm s s' \<Longrightarrow> calm s' s'' \<Longrightarrow> calm s s''"
  unfolding calm_def by (blast intro: same_spawning_trans same_objects_trans no_new_entries_trans)

lemma calm_fold: "(\<And>x s. x \<in> set xs \<Longrightarrow> calm s (f x s)) \<Longrightarrow> calm s (fold f xs s)"
  by (induction xs arbitrary: s) (auto intro: calm_trans)

lemma calm_coreD: "calm s s' \<Longrightarrow> core_inv X s \<Longrightarrow> core_inv X s'"
  by (simp add: calm_def)

lemma entryD:
  assumes "core_inv X s" and "jm_get (ss_processes s) r = Some k"
  obtains p where "jm_get (ss_objects s) k = Some p" "rp_roomId p = r" "\<not> rp_exited p"
  using assms unfolding core_inv_def entries_ok_def by blast

lemma entries_okI:
  assumes "\<And>r k. jm_get (ss_processes s) r = Some k \<Longrightarrow>
             \<exists>p. jm_get (ss_objects s) k = Some p \<and> rp_roomId p = r \<and> \<not> rp_exited p"
    and "\<And>k p. jm_get (ss_objects s) k = Some p \<Longrightarrow> \<not> rp_exited p \<Longrightarrow> k \<notin> X \<Longrightarrow>
             jm_get (ss_processes s) (rp_roomId p) = Some k"
  shows "entries_ok X s"
  using assms unfolding entries_ok_def by blast

lemma live_object:
  assumes "core_inv X s" and "jm_get (ss_objects s) k = Some p" and "\<not> rp_exited p" and "k \<notin> X"
  shows "jm_get (ss_processes s) (rp_roomId p) = Some k"
  using assms unfolding core_inv_def entries_ok_def by blast

lemma core_parts:
  assumes "core_inv X s"
  shows "maps_wf s" and "entries_ok X s" and "objects_fresh s" and "beats_ok s" and "exits_ok s" and "in_order s"
  using assms by (simp_all add: core_inv_def)

section \<open>Field lemmas\<close>

lemma tell_fields [simp]:
  "ss_options (tell as s) = ss_options s" "ss_serverId (tell as s) = ss_serverId s"
  "ss_processes (tell as s) = ss_processes s" "ss_objects (tell as s) = ss_objects s"
  "ss_lastHeartbeats (tell as s) = ss_lastHeartbeats s" "ss_killed (tell as s) = ss_killed s"
  "ss_spawning (tell as s) = ss_spawning s" "ss_attempted (tell as s) = ss_attempted s"
  "ss_lostSince (tell as s) = ss_lostSince s" "ss_alive (tell as s) = ss_alive s"
  "ss_ticks (tell as s) = ss_ticks s" "ss_settled (tell as s) = ss_settled s" "ss_next (tell as s) = ss_next s"
  "ss_previouslyRegistered (tell as s) = ss_previouslyRegistered s"
  "ss_log (tell as s) = ss_log s @ as"
  by (simp_all add: tell_def)

lemma with_object_fields [simp]:
  "ss_options (with_object k f s) = ss_options s" "ss_serverId (with_object k f s) = ss_serverId s"
  "ss_processes (with_object k f s) = ss_processes s"
  "ss_lastHeartbeats (with_object k f s) = ss_lastHeartbeats s" "ss_killed (with_object k f s) = ss_killed s"
  "ss_spawning (with_object k f s) = ss_spawning s" "ss_attempted (with_object k f s) = ss_attempted s"
  "ss_lostSince (with_object k f s) = ss_lostSince s" "ss_alive (with_object k f s) = ss_alive s"
  "ss_ticks (with_object k f s) = ss_ticks s" "ss_settled (with_object k f s) = ss_settled s"
  "ss_next (with_object k f s) = ss_next s" "ss_previouslyRegistered (with_object k f s) = ss_previouslyRegistered s"
  "ss_log (with_object k f s) = ss_log s"
  "jm_get (ss_objects (with_object k f s)) j =
     (if j = k then map_option f (jm_get (ss_objects s) k) else jm_get (ss_objects s) j)"
  "jm_wf (ss_objects s) \<Longrightarrow> jm_wf (ss_objects (with_object k f s))"
  by (simp_all add: with_object_def split: option.splits)

lemma forget_fields [simp]:
  "ss_options (forget r s) = ss_options s" "ss_serverId (forget r s) = ss_serverId s"
  "ss_processes (forget r s) = jm_del (ss_processes s) r" "ss_objects (forget r s) = ss_objects s"
  "ss_lastHeartbeats (forget r s) = jm_del (ss_lastHeartbeats s) r" "ss_killed (forget r s) = ss_killed s"
  "ss_spawning (forget r s) = ss_spawning s" "ss_attempted (forget r s) = ss_attempted s"
  "ss_lostSince (forget r s) = ss_lostSince s" "ss_alive (forget r s) = ss_alive s"
  "ss_ticks (forget r s) = ss_ticks s" "ss_settled (forget r s) = ss_settled s" "ss_next (forget r s) = ss_next s"
  "ss_previouslyRegistered (forget r s) = ss_previouslyRegistered s" "ss_log (forget r s) = ss_log s"
  by (simp_all add: forget_def)

lemma markExited_fields [simp]:
  "ss_options (markExited k s) = ss_options s" "ss_serverId (markExited k s) = ss_serverId s"
  "ss_processes (markExited k s) = ss_processes s"
  "ss_lastHeartbeats (markExited k s) = ss_lastHeartbeats s" "ss_killed (markExited k s) = ss_killed s"
  "ss_spawning (markExited k s) = ss_spawning s" "ss_attempted (markExited k s) = ss_attempted s"
  "ss_lostSince (markExited k s) = ss_lostSince s" "ss_alive (markExited k s) = ss_alive s"
  "ss_ticks (markExited k s) = ss_ticks s" "ss_settled (markExited k s) = ss_settled s"
  "ss_next (markExited k s) = ss_next s" "ss_previouslyRegistered (markExited k s) = ss_previouslyRegistered s"
  "jm_get (ss_objects (markExited k s)) j =
     (if j = k then map_option (\<lambda>p. p\<lparr>rp_exited := True\<rparr>) (jm_get (ss_objects s) k) else jm_get (ss_objects s) j)"
  "jm_wf (ss_objects s) \<Longrightarrow> jm_wf (ss_objects (markExited k s))"
  by (auto simp: markExited_def split: option.splits)

lemma spawns_simps [simp]:
  "spawns r (tell as s) = spawns r s @
     List.map_filter (\<lambda>a. case a of Spawn k r' t \<Rightarrow> if r' = r then Some t else None | _ \<Rightarrow> None) as"
  "spawns r (with_object k f s) = spawns r s" "spawns r (forget r' s) = spawns r s" "spawns r (markExited k s) = spawns r s"
  by (auto simp: spawns_def map_filter_def markExited_def forget_def with_object_def split: option.splits)

lemma exits_simps [simp]:
  "exits k (tell as s) = exits k s + length (filter (\<lambda>a. a = Exited k) as)"
  "exits k (with_object j f s) = exits k s" "exits k (forget r' s) = exits k s"
  "exits k (markExited j s) = exits k s +
     (if j = k \<and> (\<exists>p. jm_get (ss_objects s) j = Some p \<and> \<not> rp_exited p) then 1 else 0)"
  by (auto simp: exits_def markExited_def forget_def with_object_def split: option.splits)

section \<open>The core invariant under the basic changes\<close>

lemma core_with_object [intro]:
  assumes inv: "core_inv X s" and keep: "\<And>p. rp_roomId (f p) = rp_roomId p \<and> rp_exited (f p) = rp_exited p"
  shows "core_inv X (with_object k f s)"
proof -
  have "entries_ok X (with_object k f s)"
  proof (rule entries_okI)
    show "\<exists>p. jm_get (ss_objects (with_object k f s)) j = Some p \<and> rp_roomId p = r \<and> \<not> rp_exited p"
      if e: "jm_get (ss_processes (with_object k f s)) r = Some j" for r j
      using entryD [OF inv, of r j] e keep by fastforce
    show "jm_get (ss_processes (with_object k f s)) (rp_roomId p) = Some j"
      if "jm_get (ss_objects (with_object k f s)) j = Some p" "\<not> rp_exited p" "j \<notin> X" for j p
      using live_object [OF inv, of j] that keep by (auto split: if_splits)
  qed
  moreover have "exits_ok (with_object k f s)"
    using core_parts(5) [OF inv] keep by (simp add: exits_ok_def split: option.splits)
  ultimately show ?thesis
    using core_parts [OF inv]
    by (simp add: core_inv_def maps_wf_def objects_fresh_def beats_ok_def in_order_def)
qed

lemma core_exit:
  assumes inv: "core_inv (insert k X) s" and gone: "\<And>r. jm_get (ss_processes s) r \<noteq> Some k"
  shows "core_inv X (markExited k s)"
proof -
  have "entries_ok X (markExited k s)"
  proof (rule entries_okI)
    show "\<exists>p. jm_get (ss_objects (markExited k s)) j = Some p \<and> rp_roomId p = r \<and> \<not> rp_exited p"
      if e: "jm_get (ss_processes (markExited k s)) r = Some j" for r j
      using entryD [OF inv, of r j] e gone [of r] by fastforce
    show "jm_get (ss_processes (markExited k s)) (rp_roomId p) = Some j"
      if "jm_get (ss_objects (markExited k s)) j = Some p" "\<not> rp_exited p" "j \<notin> X" for j p
      using live_object [OF inv, of j] that by (auto split: if_splits)
  qed
  moreover have "exits_ok (markExited k s)"
    using core_parts(5) [OF inv] by (simp add: exits_ok_def split: option.splits)
  ultimately show ?thesis
    using core_parts [OF inv]
    by (simp add: core_inv_def maps_wf_def objects_fresh_def beats_ok_def in_order_def)
qed

lemma core_forget:
  assumes inv: "core_inv X s" and only: "\<And>k'. jm_get (ss_processes s) r = Some k' \<Longrightarrow> k' = k"
  shows "core_inv (insert k X) (forget r s)"
proof -
  have "entries_ok (insert k X) (forget r s)"
  proof (rule entries_okI)
    show "\<exists>p. jm_get (ss_objects (forget r s)) j = Some p \<and> rp_roomId p = r' \<and> \<not> rp_exited p"
      if e: "jm_get (ss_processes (forget r s)) r' = Some j" for r' j
      using entryD [OF inv, of r' j] e by (fastforce split: if_splits)
    show "jm_get (ss_processes (forget r s)) (rp_roomId p) = Some j"
      if "jm_get (ss_objects (forget r s)) j = Some p" "\<not> rp_exited p" "j \<notin> insert k X" for j p
      using live_object [OF inv, of j] that only [of j] by auto
  qed
  then show ?thesis
    using core_parts [OF inv]
    by (simp add: core_inv_def maps_wf_def objects_fresh_def beats_ok_def in_order_def exits_ok_def)
qed

lemma core_entry_unique:
  assumes "core_inv X s" "jm_get (ss_processes s) r = Some k" "jm_get (ss_processes s) r' = Some k"
  shows "r = r'"
  using entryD [OF assms(1,2)] entryD [OF assms(1,3)] by (metis option.inject)

lemma core_cleanup_exit:
  assumes inv: "core_inv X s" and entry: "jm_get (ss_processes s) r = Some k"
  shows "core_inv X (markExited k (forget r s))"
proof (rule core_exit)
  show "core_inv (insert k X) (forget r s)" using entry by (intro core_forget [OF inv]) simp
  show "jm_get (ss_processes (forget r s)) r' \<noteq> Some k" for r'
    using core_entry_unique [OF inv entry, of r'] by auto
qed

text \<open>Changes of other fields.\<close>

lemma core_cong:
  assumes "ss_processes s' = ss_processes s" "ss_objects s' = ss_objects s" "ss_lastHeartbeats s' = ss_lastHeartbeats s"
    "jm_wf (ss_attempted s) \<Longrightarrow> jm_wf (ss_attempted s')" "jm_wf (ss_lostSince s) \<Longrightarrow> jm_wf (ss_lostSince s')"
    "ss_next s \<le> ss_next s'" "\<And>k. exits k s' = exits k s" and inv: "core_inv X s"
  shows "core_inv X s'"
proof -
  have "maps_wf s'" using core_parts(1) [OF inv] assms by (simp add: maps_wf_def)
  moreover have "entries_ok X s'" using core_parts(2) [OF inv] assms by (simp add: entries_ok_def)
  moreover have "objects_fresh s'"
    using core_parts(3) [OF inv] assms(2,6) unfolding objects_fresh_def by (metis less_le_trans)
  moreover have "beats_ok s'" using core_parts(4) [OF inv] assms by (simp add: beats_ok_def)
  moreover have "exits_ok s'" using core_parts(5) [OF inv] assms by (simp add: exits_ok_def)
  moreover have "in_order s'" using core_parts(6) [OF inv] assms by (simp add: in_order_def)
  ultimately show ?thesis by (simp add: core_inv_def)
qed

section \<open>Everything but spawning is calm\<close>

definition plain :: "server_action \<Rightarrow> bool" where
  "plain a \<longleftrightarrow> (case a of Spawn _ _ _ \<Rightarrow> False | Exited _ \<Rightarrow> False | _ \<Rightarrow> True)"

lemma plain_no_spawn:
  "list_all plain as \<Longrightarrow>
     List.map_filter (\<lambda>a. case a of Spawn k r' t \<Rightarrow> if r' = r then Some t else None | _ \<Rightarrow> None) as = []"
  by (induction as) (auto simp: plain_def map_filter_def split: server_action.splits)

lemma plain_no_exit: "list_all plain as \<Longrightarrow> filter (\<lambda>a. a = Exited k) as = []"
  by (induction as) (auto simp: plain_def)

lemma calmI:
  assumes "ss_spawning s' = ss_spawning s" "ss_settled s' = ss_settled s" "ss_attempted s' = ss_attempted s"
    "ss_alive s' = ss_alive s" "ss_options s' = ss_options s" "ss_next s' = ss_next s"
    "\<And>r. spawns r s' = spawns r s"
    "\<And>k p. jm_get (ss_objects s) k = Some p \<Longrightarrow> \<exists>q. jm_get (ss_objects s') k = Some q \<and> same_object p q"
    "\<And>k. jm_get (ss_objects s) k = None \<Longrightarrow> jm_get (ss_objects s') k = None"
    "\<And>r. jm_get (ss_processes s') r = None \<or> jm_get (ss_processes s') r = jm_get (ss_processes s) r"
    "\<And>X. core_inv X s \<Longrightarrow> core_inv X s'"
  shows "calm s s'"
proof -
  have "rel_option same_object (jm_get (ss_objects s) k) (jm_get (ss_objects s') k)" for k
    using assms(8,9) [of k] by (cases "jm_get (ss_objects s) k") auto
  then show ?thesis
    using assms by (simp add: calm_def same_spawning_def same_objects_def no_new_entries_def)
qed

lemma calm_tell: "list_all plain as \<Longrightarrow> calm s (tell as s)"
  by (rule calmI) (auto simp: plain_no_spawn plain_no_exit intro: core_cong [of "tell as s" s])

lemma calm_with_object:
  assumes "\<And>p. rp_roomId (f p) = rp_roomId p \<and> rp_exited (f p) = rp_exited p \<and>
                rp_killable (f p) = rp_killable p \<and> rp_continued (f p) = rp_continued p"
  shows "calm s (with_object k f s)"
  by (rule calmI) (use assms in \<open>auto simp: same_object_def intro: core_with_object\<close>)

lemma calm_cong:
  assumes "ss_processes s' = ss_processes s" "ss_objects s' = ss_objects s" "ss_lastHeartbeats s' = ss_lastHeartbeats s"
    "ss_spawning s' = ss_spawning s" "ss_settled s' = ss_settled s" "ss_attempted s' = ss_attempted s"
    "jm_wf (ss_lostSince s) \<Longrightarrow> jm_wf (ss_lostSince s')" "ss_next s' = ss_next s" "ss_log s' = ss_log s"
    "ss_alive s' = ss_alive s" "ss_options s' = ss_options s"
  shows "calm s s'"
  by (rule calmI) (use assms in \<open>auto simp: spawns_def exits_def intro: core_cong [of s' s]\<close>)

lemma core_beat:
  assumes inv: "core_inv X s" and entry: "jm_get (ss_processes s) r \<noteq> None"
  shows "core_inv X (s\<lparr>ss_lastHeartbeats := jm_set (ss_lastHeartbeats s) r now\<rparr>)"
proof -
  have "exits k (s\<lparr>ss_lastHeartbeats := jm_set (ss_lastHeartbeats s) r now\<rparr>) = exits k s" for k
    by (simp add: exits_def)
  then show ?thesis
    using core_parts [OF inv] entry
    by (simp add: core_inv_def maps_wf_def objects_fresh_def beats_ok_def in_order_def exits_ok_def entries_ok_def)
qed

lemma calm_beat:
  assumes "jm_get (ss_processes s) r \<noteq> None"
  shows "calm s (s\<lparr>ss_lastHeartbeats := jm_set (ss_lastHeartbeats s) r now\<rparr>)"
  by (rule calmI) (use assms in \<open>auto simp: spawns_def intro: core_beat\<close>)

lemma calm_cleanup_exit:
  assumes "jm_get (ss_processes s) r = Some k"
  shows "calm s (markExited k (forget r s))"
  by (rule calmI) (use assms in \<open>auto simp: same_object_def intro: core_cleanup_exit\<close>)

lemma calm_cleanupRoom: "calm s (cleanupRoom r reason s)"
proof (cases "jm_get (ss_processes s) r")
  case None
  then show ?thesis by (simp add: cleanupRoom_def)
next
  case (Some k)
  let ?s1 = "markExited k (forget r s)"
  have told: "calm ?s1 (tell [a] ?s1)" if "plain a" for a
    using that by (intro calm_tell) simp
  have "calm ?s1 (?s1\<lparr>ss_killed := ss_killed ?s1 - {r}\<rparr>)"
    by (rule calm_cong) simp_all
  then have "calm ?s1 (cleanupRoom r reason s)"
    using Some told by (simp add: cleanupRoom_def Let_def plain_def split: cleanup_reason.splits)
  with calm_cleanup_exit [OF Some] show ?thesis by (rule calm_trans)
qed

lemma calm_handleNotifyMessage:
  assumes "jm_get (ss_processes s) r \<noteq> None"
  shows "calm s (handleNotifyMessage e now r msg s)"
proof (cases msg)
  case (Ready port)
  have "calm s (tell [DrvRoomReady r ep sec] (with_object k (\<lambda>p. p\<lparr>rp_endpoint := Some ep\<rparr>) s))" for k ep sec
    by (rule calm_trans [OF calm_with_object calm_tell]) (simp_all add: plain_def)
  with Ready show ?thesis by (auto simp: handleNotifyMessage_def Let_def split: option.splits)
next
  case (Heartbeat ts m cl)
  show ?thesis unfolding handleNotifyMessage_def Heartbeat notify_message.case
    by (rule calm_trans [OF calm_beat [OF assms] calm_tell]) (simp add: plain_def)
qed (simp_all add: handleNotifyMessage_def calm_cleanupRoom calm_tell plain_def)

lemma settle_keeps [simp]:
  "rp_roomId (settle r p) = rp_roomId p" "rp_exited (settle r p) = rp_exited p"
  "rp_killable (settle r p) = rp_killable p" "rp_continued (settle r p) = rp_continued p"
  by (simp_all add: settle_def)

lemma note_status_keeps [simp]:
  "rp_roomId (note_status m p) = rp_roomId p" "rp_exited (note_status m p) = rp_exited p"
  "rp_killable (note_status m p) = rp_killable p" "rp_continued (note_status m p) = rp_continued p"
  by (simp_all add: note_status_def split: notify_message.splits)

lemma calm_onMessage: "calm s (onMessage e now k msg s)"
proof (cases "jm_get (ss_objects s) k")
  case None
  then show ?thesis by (simp add: onMessage_def)
next
  case (Some p)
  let ?r = "rp_roomId p"
  let ?s1 = "if rp_started p then s
             else with_object k (\<lambda>p. settle Spoke (p\<lparr>rp_started := True\<rparr>))
                    (s\<lparr>ss_lastHeartbeats := jm_set (ss_lastHeartbeats s) ?r now\<rparr>)"
  let ?s2 = "with_object k (note_status msg) ?s1"
  show ?thesis
  proof (cases "rp_stoppedCalled p \<or> \<not> jm_has (ss_processes s) ?r")
    case True
    with Some show ?thesis by (simp add: onMessage_def)
  next
    case False
    then have entry: "jm_get (ss_processes s) ?r \<noteq> None" by simp
    have "calm s ?s1"
      by (simp add: calm_trans [OF calm_beat [OF entry] calm_with_object])
    also have "calm ?s1 ?s2" by (rule calm_with_object) simp
    also have "calm ?s2 (handleNotifyMessage e now ?r msg ?s2)"
      by (rule calm_handleNotifyMessage) (use entry in \<open>simp split: if_splits\<close>)
    finally show ?thesis using Some False by (simp add: onMessage_def Let_def)
  qed
qed

lemma calm_stopped: "calm s (stopped k code s)"
proof (cases "jm_get (ss_objects s) k")
  case None
  then show ?thesis by (simp add: stopped_def)
next
  case (Some p)
  let ?s1 = "with_object k (\<lambda>p. p\<lparr>rp_stoppedCalled := True, rp_status := IsStopped\<rparr>) s"
  have "calm s ?s1" by (rule calm_with_object) simp
  moreover have "calm ?s1 (cleanupRoom (rp_roomId p) ProcessExited ?s1)" by (rule calm_cleanupRoom)
  moreover have "calm ?s1 (with_object k (settle (Failed (ExitedDuringStartup code))) ?s1)"
    by (rule calm_with_object) simp
  ultimately show ?thesis
    using Some by (auto simp: stopped_def Let_def intro: calm_trans)
qed

lemma calm_callback: "calm s (callback e now k cb s)"
  by (cases cb) (simp_all add: calm_onMessage calm_stopped)

lemma calm_kill: "calm s (kill e now k s)"
proof (cases "jm_get (ss_objects s) k")
  case None
  then show ?thesis by (simp add: kill_def)
next
  case (Some p)
  have "calm s (tell [Kill k] s)" by (rule calm_tell) (simp add: plain_def)
  moreover have "calm (tell [Kill k] s) (fold (callback e now k) cbs (tell [Kill k] s))" for cbs
    by (rule calm_fold) (rule calm_callback)
  ultimately show ?thesis using Some by (auto simp: kill_def intro: calm_trans)
qed

lemma calm_destroyWorker: "calm s (destroyWorker e now r s)"
proof -
  have "calm s (s\<lparr>ss_killed := insert r (ss_killed s)\<rparr>)" by (rule calm_cong) simp_all
  then show ?thesis unfolding destroyWorker_def
    by (auto intro: calm_trans calm_kill split: option.splits)
qed

lemma calm_shutdown: "calm s (shutdownAllWorkers e now s)"
  unfolding shutdownAllWorkers_def by (rule calm_fold) (rule calm_destroyWorker)

lemma calm_stall_check: "calm s (stall_check e now x s)"
proof -
  have "calm s (s\<lparr>ss_killed := insert r (ss_killed s)\<rparr>)" for r by (rule calm_cong) simp_all
  then have "calm s (cleanupRoom r HeartbeatTimeout (kill e now k (s\<lparr>ss_killed := insert r (ss_killed s)\<rparr>)))" for r k
    by (rule calm_trans [OF calm_trans [OF _ calm_kill] calm_cleanupRoom])
  then show ?thesis by (auto simp: stall_check_def split: option.splits prod.splits)
qed

lemma calm_checkHeartbeats: "calm s (checkHeartbeats e now s)"
  unfolding checkHeartbeats_def by (rule calm_fold) (rule calm_stall_check)

lemma calm_destroy_unwanted: "calm s (destroy_unwanted e now tk r s)"
  by (simp add: destroy_unwanted_def calm_destroyWorker)

lemma calm_startup_timeout: "calm s (startup_timeout k s)"
  by (auto simp: startup_timeout_def intro: calm_with_object split: option.splits)

lemma calm_roomReady_reply: "calm s (roomReady_reply e now r w s)"
  by (simp add: roomReady_reply_def calm_destroyWorker)

section \<open>The whole invariant\<close>

lemma calm_objectD:
  "calm s s' \<Longrightarrow> jm_get (ss_objects s) k = Some p \<Longrightarrow> \<exists>q. jm_get (ss_objects s') k = Some q \<and> same_object p q"
  by (auto simp: calm_def same_objects_def option_rel_Some1 dest: spec [of _ k])

lemma calm_objectD':
  "calm s s' \<Longrightarrow> jm_get (ss_objects s') k = Some q \<Longrightarrow> \<exists>p. jm_get (ss_objects s) k = Some p \<and> same_object p q"
  by (auto simp: calm_def same_objects_def option_rel_Some2 dest: spec [of _ k])

lemma calm_spawningD:
  assumes "calm s s'"
  shows "ss_spawning s' = ss_spawning s" "ss_settled s' = ss_settled s" "ss_attempted s' = ss_attempted s"
    "ss_alive s' = ss_alive s" "ss_options s' = ss_options s" "ss_next s' = ss_next s" "spawns r s' = spawns r s"
  using assms by (simp_all add: calm_def same_spawning_def)

lemma calm_entryD:
  "calm s s' \<Longrightarrow> jm_get (ss_processes s') r = Some k \<Longrightarrow> jm_get (ss_processes s) r = Some k"
  unfolding calm_def no_new_entries_def by (metis option.distinct(1))

lemma calm_pending:
  assumes "calm s s'"
  shows "pending s' k r \<longleftrightarrow> pending s k r"
proof
  assume "pending s' k r"
  then obtain q where "jm_get (ss_objects s') k = Some q" "rp_killable q" "\<not> rp_continued q" "rp_roomId q = r"
    by (auto simp: pending_def)
  with calm_objectD' [OF assms] show "pending s k r"
    by (fastforce simp: pending_def same_object_def)
next
  assume "pending s k r"
  then obtain q where "jm_get (ss_objects s) k = Some q" "rp_killable q" "\<not> rp_continued q" "rp_roomId q = r"
    by (auto simp: pending_def)
  with calm_objectD [OF assms] show "pending s' k r"
    by (fastforce simp: pending_def same_object_def)
qed

lemma pending_invI:
  assumes "\<And>k r. pending s k r \<Longrightarrow> r \<in> ss_spawning s" "\<And>k r. pending s k r \<Longrightarrow> r \<notin> fst ` set (ss_settled s)"
    "\<And>k k' r. pending s k r \<Longrightarrow> pending s k' r \<Longrightarrow> k = k'"
    "\<And>k k' r. pending s k r \<Longrightarrow> jm_get (ss_processes s) r = Some k' \<Longrightarrow> k' = k"
    "fst ` set (ss_settled s) \<subseteq> ss_spawning s" "distinct (map fst (ss_settled s))"
  shows "pending_inv s"
  using assms unfolding pending_inv_def by blast

lemma pending_invD:
  assumes "pending_inv s"
  shows "pending s k r \<Longrightarrow> r \<in> ss_spawning s" "pending s k r \<Longrightarrow> r \<notin> fst ` set (ss_settled s)"
    "pending s k r \<Longrightarrow> pending s k' r \<Longrightarrow> k = k'"
    "pending s k r \<Longrightarrow> jm_get (ss_processes s) r = Some k' \<Longrightarrow> k' = k"
    "fst ` set (ss_settled s) \<subseteq> ss_spawning s" "distinct (map fst (ss_settled s))"
proof -
  note c = assms [unfolded pending_inv_def]
  show "pending s k r \<Longrightarrow> r \<in> ss_spawning s" "pending s k r \<Longrightarrow> r \<notin> fst ` set (ss_settled s)"
    using conjunct1 [OF c] by simp_all
  show "pending s k r \<Longrightarrow> pending s k' r \<Longrightarrow> k = k'"
    using conjunct1 [OF conjunct2 [OF c]] by (meson)
  show "pending s k r \<Longrightarrow> jm_get (ss_processes s) r = Some k' \<Longrightarrow> k' = k"
    using conjunct1 [OF conjunct2 [OF conjunct2 [OF c]]] by (meson)
  show "fst ` set (ss_settled s) \<subseteq> ss_spawning s" "distinct (map fst (ss_settled s))"
    using conjunct2 [OF conjunct2 [OF conjunct2 [OF c]]] by simp_all
qed

lemma pending_inv_calm:
  assumes inv: "pending_inv s" and c: "calm s s'"
  shows "pending_inv s'"
proof (rule pending_invI)
  show "fst ` set (ss_settled s') \<subseteq> ss_spawning s'" "distinct (map fst (ss_settled s'))"
    using pending_invD(5,6) [OF inv] by (simp_all add: calm_spawningD [OF c])
  show "r \<in> ss_spawning s'" "r \<notin> fst ` set (ss_settled s')" if "pending s' k r" for k r
    using that pending_invD(1,2) [OF inv, of k r] by (simp_all add: calm_spawningD [OF c] calm_pending [OF c])
  show "k = k'" if "pending s' k r" "pending s' k' r" for k k' r
    using that pending_invD(3) [OF inv, of k r k'] by (simp add: calm_pending [OF c])
  show "k' = k" if "pending s' k r" "jm_get (ss_processes s') r = Some k'" for k k' r
    using that(1) pending_invD(4) [OF inv, of k r k'] calm_entryD [OF c that(2)] by (simp add: calm_pending [OF c])
qed

lemma spacing_invI:
  assumes "\<And>r t. jm_get (ss_attempted s) r = Some t \<Longrightarrow> t \<le> clock"
    and "\<And>r t. t \<in> set (spawns r s) \<Longrightarrow>
           (\<exists>t'. jm_get (ss_attempted s) r = Some t' \<and> t \<le> t') \<or> t + ATTEMPT_RETENTION_MS < clock"
    and "\<And>r. sorted_wrt (\<lambda>t t'. t + ATTEMPT_RETENTION_MS < t') (spawns r s)"
  shows "spacing_inv clock s"
  using assms unfolding spacing_inv_def by blast

lemma spacing_invD:
  assumes "spacing_inv clock s"
  shows "jm_get (ss_attempted s) r = Some t \<Longrightarrow> t \<le> clock"
    and "t \<in> set (spawns r s) \<Longrightarrow>
           (\<exists>t'. jm_get (ss_attempted s) r = Some t' \<and> t \<le> t') \<or> t + ATTEMPT_RETENTION_MS < clock"
    and "sorted_wrt (\<lambda>t t'. t + ATTEMPT_RETENTION_MS < t') (spawns r s)"
  using assms unfolding spacing_inv_def by blast+

lemma spacing_mono:
  assumes "spacing_inv clock s" and "clock \<le> now"
  shows "spacing_inv now s"
  using assms unfolding spacing_inv_def by (meson le_less_trans less_le_trans order_trans)

lemma spacing_cong:
  "ss_attempted s' = ss_attempted s \<Longrightarrow> (\<And>r. spawns r s' = spawns r s) \<Longrightarrow> spacing_inv clock s \<Longrightarrow> spacing_inv clock s'"
  by (simp add: spacing_inv_def)

lemma server_inv_calm: "server_inv (clock, s) \<Longrightarrow> calm s s' \<Longrightarrow> clock \<le> now \<Longrightarrow> server_inv (now, s')"
  unfolding server_inv_def
  by (auto intro: calm_coreD pending_inv_calm spacing_cong [of s' s] spacing_mono simp: calm_spawningD)

lemma server_inv_mono: "server_inv (clock, s) \<Longrightarrow> clock \<le> now \<Longrightarrow> server_inv (now, s)"
  by (erule server_inv_calm) simp

section \<open>Spawning keeps the invariant\<close>

lemma spacing_attempt:
  assumes inv: "spacing_inv now s" and new: "jm_get (ss_attempted s) r = None"
    and att: "ss_attempted s' = jm_set (ss_attempted s) r now" and sp: "\<And>r. spawns r s' = spawns r s"
  shows "spacing_inv now s'"
proof (rule spacing_invI)
  show "t \<le> now" if "jm_get (ss_attempted s') r' = Some t" for r' t
    using that att spacing_invD(1) [OF inv, of r'] by (auto split: if_splits)
  show "(\<exists>t'. jm_get (ss_attempted s') r' = Some t' \<and> t \<le> t') \<or> t + ATTEMPT_RETENTION_MS < now"
    if "t \<in> set (spawns r' s')" for r' t
    using that spacing_invD(2) [OF inv, of t r'] new att sp by (cases "r' = r") auto
  show "sorted_wrt (\<lambda>t t'. t + ATTEMPT_RETENTION_MS < t') (spawns r' s')" for r'
    using spacing_invD(3) [OF inv] sp by simp
qed

lemma spacing_spawn:
  assumes inv: "spacing_inv now s" and new: "jm_get (ss_attempted s) r = None"
    and att: "ss_attempted s' = jm_set (ss_attempted s) r now"
    and sp: "\<And>r'. spawns r' s' = spawns r' s @ (if r' = r then [now] else [])"
  shows "spacing_inv now s'"
proof (rule spacing_invI)
  show "t \<le> now" if "jm_get (ss_attempted s') r' = Some t" for r' t
    using that att spacing_invD(1) [OF inv, of r'] by (auto split: if_splits)
  show "(\<exists>t'. jm_get (ss_attempted s') r' = Some t' \<and> t \<le> t') \<or> t + ATTEMPT_RETENTION_MS < now"
    if "t \<in> set (spawns r' s')" for r' t
    using that spacing_invD(2) [OF inv, of t r'] new att sp by (cases "r' = r") auto
  have old: "t + ATTEMPT_RETENTION_MS < now" if "t \<in> set (spawns r s)" for t
    using spacing_invD(2) [OF inv that] new by simp
  show "sorted_wrt (\<lambda>t t'. t + ATTEMPT_RETENTION_MS < t') (spawns r' s')" for r'
    using spacing_invD(3) [OF inv, of r'] sp [of r'] old by (auto simp: sorted_wrt_append)
qed

text \<open>The state right after a new object was entered, before the runner is called.\<close>

definition fresh_entry :: "server \<Rightarrow> string \<Rightarrow> nat \<Rightarrow> bool" where
  "fresh_entry s r k \<longleftrightarrow>
     r \<in> ss_spawning s \<and> r \<notin> fst ` set (ss_settled s) \<and> (\<forall>k'. \<not> pending s k' r) \<and>
     (\<exists>p. jm_get (ss_objects s) k = Some p \<and> rp_roomId p = r \<and> \<not> rp_killable p \<and> \<not> rp_continued p) \<and>
     jm_get (ss_processes s) r \<in> {None, Some k}"

lemma fresh_entry_calm:
  assumes f: "fresh_entry s r k" and c: "calm s s'"
  shows "fresh_entry s' r k"
proof -
  obtain p where p: "jm_get (ss_objects s) k = Some p" "rp_roomId p = r" "\<not> rp_killable p" "\<not> rp_continued p"
    using f by (auto simp: fresh_entry_def)
  then obtain q where "jm_get (ss_objects s') k = Some q" "same_object p q"
    using calm_objectD [OF c] by blast
  moreover have "jm_get (ss_processes s') r \<in> {None, Some k}"
    using f calm_entryD [OF c, of r] by (cases "jm_get (ss_processes s') r") (auto simp: fresh_entry_def)
  ultimately show ?thesis
    using f p by (auto simp: fresh_entry_def calm_spawningD [OF c] calm_pending [OF c] same_object_def)
qed

definition entered :: "string \<Rightarrow> ms \<Rightarrow> room_process \<Rightarrow> server \<Rightarrow> server" where
  "entered r now p s =
     tell [Spawn (ss_next s) r now]
       (s\<lparr>ss_attempted := jm_set (ss_attempted s) r now, ss_spawning := insert r (ss_spawning s),
          ss_processes := jm_set (ss_processes s) r (ss_next s),
          ss_objects := jm_set (ss_objects s) (ss_next s) p, ss_next := Suc (ss_next s)\<rparr>)"

lemma entered_fields [simp]:
  "ss_processes (entered r now p s) = jm_set (ss_processes s) r (ss_next s)"
  "ss_objects (entered r now p s) = jm_set (ss_objects s) (ss_next s) p"
  "ss_lastHeartbeats (entered r now p s) = ss_lastHeartbeats s"
  "ss_attempted (entered r now p s) = jm_set (ss_attempted s) r now"
  "ss_spawning (entered r now p s) = insert r (ss_spawning s)"
  "ss_settled (entered r now p s) = ss_settled s" "ss_next (entered r now p s) = Suc (ss_next s)"
  "ss_lostSince (entered r now p s) = ss_lostSince s" "ss_alive (entered r now p s) = ss_alive s"
  by (simp_all add: entered_def)

lemma entered_log:
  "spawns r' (entered r now p s) = spawns r' s @ (if r' = r then [now] else [])"
  "exits k (entered r now p s) = exits k s"
  by (simp_all add: entered_def spawns_def exits_def map_filter_def)

lemma entered_inv:
  assumes inv: "server_inv (now, s)" and free: "jm_get (ss_processes s) r = None" "r \<notin> ss_spawning s"
    "jm_get (ss_attempted s) r = None"
    and p: "rp_roomId p = r" "\<not> rp_exited p" "\<not> rp_killable p" "\<not> rp_continued p"
  shows "server_inv (now, entered r now p s)" and "fresh_entry (entered r now p s) r (ss_next s)"
proof -
  let ?s = "entered r now p s"
  have core: "core_inv {} s" and pend: "pending_inv s" and space: "spacing_inv now s"
    using inv by (simp_all add: server_inv_def)
  have new: "jm_get (ss_objects s) (ss_next s) = None"
    using core_parts(3) [OF core] unfolding objects_fresh_def by (metis less_irrefl)
  have same: "pending ?s k r' \<longleftrightarrow> pending s k r'" for k r'
    using p new by (auto simp: pending_def)
  have none: "\<not> pending s k r" for k
    using free(2) pending_invD(1) [OF pend] by blast
  have unsettled: "r \<notin> fst ` set (ss_settled s)"
    using free(2) pending_invD(5) [OF pend] by blast
  have "entries_ok {} ?s"
  proof (rule entries_okI)
    show "\<exists>q. jm_get (ss_objects ?s) j = Some q \<and> rp_roomId q = r' \<and> \<not> rp_exited q"
      if e: "jm_get (ss_processes ?s) r' = Some j" for r' j
      using e p new entryD [OF core, of r' j] by (fastforce split: if_splits)
    show "jm_get (ss_processes ?s) (rp_roomId q) = Some j"
      if "jm_get (ss_objects ?s) j = Some q" "\<not> rp_exited q" "j \<notin> {}" for j q
      using that p free(1) live_object [OF core, of j q] by (auto split: if_splits)
  qed
  moreover have "exits_ok ?s"
    using core_parts(5) [OF core] p(2) new by (auto simp: exits_ok_def entered_log)
  moreover have "objects_fresh ?s"
    using core_parts(3) [OF core] by (auto simp: objects_fresh_def less_SucI)
  moreover have "in_order ?s"
  proof -
    have "k < ss_next s" if k: "k \<in> set (jm_values (ss_processes s))" for k
    proof -
      obtain r' where "jm_get (ss_processes s) r' = Some k"
        using k core_parts(1) [OF core] by (auto simp: maps_wf_def jm_values_iff)
      with entryD [OF core] core_parts(3) [OF core] show ?thesis unfolding objects_fresh_def by blast
    qed
    then show ?thesis
      using core_parts(6) [OF core] free(1) by (simp add: in_order_def jm_set_new jm_values_def sorted_wrt_append)
  qed
  ultimately have "core_inv {} ?s"
    using core_parts(1,4) [OF core] by (auto simp: core_inv_def maps_wf_def beats_ok_def)
  moreover have "pending_inv ?s"
  proof (rule pending_invI)
    show "r' \<in> ss_spawning ?s" "r' \<notin> fst ` set (ss_settled ?s)" if "pending ?s k r'" for k r'
      using that pending_invD(1,2) [OF pend, of k r'] by (simp_all add: same)
    show "k = k'" if "pending ?s k r'" "pending ?s k' r'" for k k' r'
      using that pending_invD(3) [OF pend, of k r' k'] by (simp add: same)
    show "k' = k" if "pending ?s k r'" "jm_get (ss_processes ?s) r' = Some k'" for k k' r'
      using that none [of k] pending_invD(4) [OF pend, of k r' k'] by (cases "r' = r") (simp_all add: same)
    show "fst ` set (ss_settled ?s) \<subseteq> ss_spawning ?s" "distinct (map fst (ss_settled ?s))"
      using pending_invD(5,6) [OF pend] by auto
  qed
  moreover have "spacing_inv now ?s"
    by (rule spacing_spawn [OF space free(3)]) (simp_all add: entered_log)
  ultimately show "server_inv (now, ?s)" by (simp add: server_inv_def)
  show "fresh_entry ?s r (ss_next s)"
    using none unsettled p by (simp add: fresh_entry_def same)
qed

text \<open>The two ways \<open>createRoom\<close> goes on.\<close>

lemma killable_inv:
  assumes inv: "server_inv (now, s)" and f: "fresh_entry s r k"
  shows "server_inv (now, with_object k (\<lambda>p. p\<lparr>rp_killable := True, rp_timer := True\<rparr>) s)"
proof -
  let ?s = "with_object k (\<lambda>p. p\<lparr>rp_killable := True, rp_timer := True\<rparr>) s"
  have core: "core_inv {} s" and pend: "pending_inv s" and space: "spacing_inv now s"
    using inv by (simp_all add: server_inv_def)
  obtain p where p: "jm_get (ss_objects s) k = Some p" "rp_roomId p = r" "\<not> rp_killable p" "\<not> rp_continued p"
    using f by (auto simp: fresh_entry_def)
  have pends: "pending ?s j r' \<longleftrightarrow> pending s j r' \<or> (j = k \<and> r' = r)" for j r'
    using p by (auto simp: pending_def)
  have "core_inv {} ?s" by (rule core_with_object [OF core]) simp
  moreover have "pending_inv ?s"
  proof (rule pending_invI)
    show "r' \<in> ss_spawning ?s" "r' \<notin> fst ` set (ss_settled ?s)" if "pending ?s j r'" for j r'
      using that f pending_invD(1,2) [OF pend, of j r'] unfolding pends fresh_entry_def with_object_fields by blast+
    show "j = j'" if "pending ?s j r'" "pending ?s j' r'" for j j' r'
      using that f pending_invD(3) [OF pend, of j r' j'] unfolding pends fresh_entry_def by blast
    show "j' = j" if "pending ?s j r'" "jm_get (ss_processes ?s) r' = Some j'" for j j' r'
      using that f pending_invD(4) [OF pend, of j r' j'] by (auto simp: pends fresh_entry_def)
    show "fst ` set (ss_settled ?s) \<subseteq> ss_spawning ?s" "distinct (map fst (ss_settled ?s))"
      using pending_invD(5,6) [OF pend] by simp_all
  qed
  moreover have "spacing_inv now ?s" by (rule spacing_cong [OF _ _ space]) simp_all
  ultimately show ?thesis by (simp add: server_inv_def)
qed

lemma settled_inv:
  assumes inv: "server_inv (now, s)" and f: "r \<in> ss_spawning s" "r \<notin> fst ` set (ss_settled s)" "\<And>k. \<not> pending s k r"
  shows "server_inv (now, s\<lparr>ss_settled := ss_settled s @ [(r, x)]\<rparr>)"
proof -
  let ?s = "s\<lparr>ss_settled := ss_settled s @ [(r, x)]\<rparr>"
  have core: "core_inv {} s" and pend: "pending_inv s" and space: "spacing_inv now s"
    using inv by (simp_all add: server_inv_def)
  have same: "pending ?s k r' \<longleftrightarrow> pending s k r'" for k r' by (simp add: pending_def)
  have "core_inv {} ?s" by (rule core_cong [OF _ _ _ _ _ _ _ core]) (simp_all add: exits_def)
  moreover have "pending_inv ?s"
  proof (rule pending_invI)
    show "r' \<in> ss_spawning ?s" "r' \<notin> fst ` set (ss_settled ?s)" if "pending ?s k r'" for k r'
      using that f pending_invD(1,2) [OF pend, of k r'] by (auto simp: same)
    show "k = k'" if "pending ?s k r'" "pending ?s k' r'" for k k' r'
      using that pending_invD(3) [OF pend, of k r' k'] by (simp add: same)
    show "k' = k" if "pending ?s k r'" "jm_get (ss_processes ?s) r' = Some k'" for k k' r'
      using that pending_invD(4) [OF pend, of k r' k'] by (simp add: same)
    show "fst ` set (ss_settled ?s) \<subseteq> ss_spawning ?s" "distinct (map fst (ss_settled ?s))"
      using f pending_invD(5,6) [OF pend] by auto
  qed
  moreover have "spacing_inv now ?s" by (rule spacing_cong [OF _ _ space]) (simp_all add: spawns_def)
  ultimately show ?thesis by (simp add: server_inv_def)
qed

lemma attempted_inv:
  assumes inv: "server_inv (now, s)" and new: "jm_get (ss_attempted s) r = None"
  shows "server_inv (now, s\<lparr>ss_attempted := jm_set (ss_attempted s) r now, ss_spawning := insert r (ss_spawning s)\<rparr>)"
proof -
  let ?s = "s\<lparr>ss_attempted := jm_set (ss_attempted s) r now, ss_spawning := insert r (ss_spawning s)\<rparr>"
  have core: "core_inv {} s" and pend: "pending_inv s" and space: "spacing_inv now s"
    using inv by (simp_all add: server_inv_def)
  have "core_inv {} ?s" by (rule core_cong [OF _ _ _ _ _ _ _ core]) (simp_all add: exits_def)
  moreover have "pending_inv ?s"
    using pend unfolding pending_inv_def pending_def by auto
  moreover have "spacing_inv now ?s" by (rule spacing_attempt [OF space new]) (simp_all add: spawns_def)
  ultimately show ?thesis by (simp add: server_inv_def)
qed

lemma server_inv_spawn:
  assumes inv: "server_inv (now, s)"
  shows "server_inv (now, spawnAssignedRoom e now room s)"
proof -
  let ?r = "dr_roomId room"
  show ?thesis
  proof (cases "\<not> ss_alive s \<or> jm_has (ss_processes s) ?r \<or> ?r \<in> ss_spawning s \<or> jm_has (ss_attempted s) ?r")
    case True
    with inv show ?thesis by (auto simp: spawnAssignedRoom_def Let_def)
  next
    case False
    then have free: "jm_get (ss_processes s) ?r = None" "?r \<notin> ss_spawning s" "jm_get (ss_attempted s) ?r = None"
      by (simp_all add: not_Some_eq)
    let ?s0 = "s\<lparr>ss_attempted := jm_set (ss_attempted s) ?r now, ss_spawning := insert ?r (ss_spawning s)\<rparr>"
    have pend: "pending_inv s" using inv by (simp add: server_inv_def)
    show ?thesis
    proof (cases "en_spawn e (dr_roomType room)")
      case None
      have "server_inv (now, ?s0\<lparr>ss_settled := ss_settled ?s0 @ [(?r, Some (NoRunner (dr_roomType room)))]\<rparr>)"
      proof (rule settled_inv [OF attempted_inv [OF inv free(3)]])
        show "\<not> pending ?s0 k ?r" for k
          using pending_invD(1) [OF pend, of k ?r] free(2) by (auto simp: pending_def)
      qed (use pending_invD(5) [OF pend] free(2) in auto)
      with False None show ?thesis
        by (simp add: spawnAssignedRoom_def Let_def createRoom_def)
    next
      case (Some spawn)
      define k where "k = ss_next s"
      define p where "p = \<lparr>rp_roomId = ?r, rp_roomType = dr_roomType room, rp_roomSecret = en_secret e k, rp_data = dr_data room,
                   rp_endpoint = None, rp_status = IsStarting, rp_started = False, rp_stoppedCalled = False,
                   rp_killable = False, rp_startup = Awaiting, rp_timer = False, rp_continued = False,
                   rp_exited = False\<rparr>"
      define calls where "calls = spawn \<lparr>sc_roomId = ?r, sc_roomType = dr_roomType room, sc_serverId = ss_serverId s,
                                      sc_roomSecret = en_secret e k, sc_data = dr_data room\<rparr>"
      define s2 where "s2 = fold (callback e now k) (fst calls) (entered ?r now p s)"
      have s1: "server_inv (now, entered ?r now p s)" "fresh_entry (entered ?r now p s) ?r k"
        using entered_inv [OF inv free, of p] by (simp_all add: p_def k_def)
      have c: "calm (entered ?r now p s) s2" unfolding s2_def by (rule calm_fold) (rule calm_callback)
      have s2: "server_inv (now, s2)" "fresh_entry s2 ?r k"
        using server_inv_calm [OF s1(1) c] fresh_entry_calm [OF s1(2) c] by simp_all
      have "spawnAssignedRoom e now room s =
          (case snd calls of
             Some err \<Rightarrow> s2\<lparr>ss_settled := ss_settled s2 @ [(?r, Some (SpawnThrew err))]\<rparr>
           | None \<Rightarrow> with_object k (\<lambda>p. p\<lparr>rp_killable := True, rp_timer := True\<rparr>) s2)"
        using False Some
        by (simp add: spawnAssignedRoom_def Let_def createRoom_def s2_def calls_def p_def k_def entered_def
            case_prod_unfold split: option.split)
      moreover have "server_inv (now, s2\<lparr>ss_settled := ss_settled s2 @ [(?r, x)]\<rparr>)" for x
        using s2(2) by (intro settled_inv [OF s2(1)]) (auto simp: fresh_entry_def)
      moreover have "server_inv (now, with_object k (\<lambda>p. p\<lparr>rp_killable := True, rp_timer := True\<rparr>) s2)"
        by (rule killable_inv [OF s2])
      ultimately show ?thesis by (simp split: option.split)
    qed
  qed
qed

lemma continued_inv:
  assumes inv: "server_inv (now, s)" and p: "jm_get (ss_objects s) k = Some p" and pd: "pending s k (rp_roomId p)"
  shows "server_inv (now, (with_object k (\<lambda>p. p\<lparr>rp_continued := True, rp_timer := False\<rparr>) s)
                            \<lparr>ss_settled := ss_settled s @ [(rp_roomId p, x)]\<rparr>)"
proof -
  let ?s = "with_object k (\<lambda>p. p\<lparr>rp_continued := True, rp_timer := False\<rparr>) s"
  have core: "core_inv {} s" and pend: "pending_inv s" and space: "spacing_inv now s"
    using inv by (simp_all add: server_inv_def)
  have pends: "pending ?s j r' \<longleftrightarrow> pending s j r' \<and> j \<noteq> k" for j r'
    using p by (auto simp: pending_def)
  have "core_inv {} ?s" by (rule core_with_object [OF core]) simp
  moreover have "pending_inv ?s"
  proof (rule pending_invI)
    show "r' \<in> ss_spawning ?s" "r' \<notin> fst ` set (ss_settled ?s)" if "pending ?s j r'" for j r'
      using that pending_invD(1,2) [OF pend, of j r'] unfolding pends with_object_fields by blast+
    show "j = j'" if "pending ?s j r'" "pending ?s j' r'" for j j' r'
      using that pending_invD(3) [OF pend, of j r' j'] unfolding pends by blast
    show "j' = j" if "pending ?s j r'" "jm_get (ss_processes ?s) r' = Some j'" for j j' r'
      using that pending_invD(4) [OF pend, of j r' j'] by (simp add: pends)
    show "fst ` set (ss_settled ?s) \<subseteq> ss_spawning ?s" "distinct (map fst (ss_settled ?s))"
      using pending_invD(5,6) [OF pend] by simp_all
  qed
  moreover have "spacing_inv now ?s" by (rule spacing_cong [OF _ _ space]) simp_all
  ultimately have "server_inv (now, ?s)" by (simp add: server_inv_def)
  then have "server_inv (now, ?s\<lparr>ss_settled := ss_settled ?s @ [(rp_roomId p, x)]\<rparr>)"
    using pending_invD(1,2) [OF pend pd] pending_invD(3) [OF pend pd] by (intro settled_inv) (auto simp: pends)
  then show ?thesis by simp
qed

section \<open>Every event keeps the invariant\<close>

lemma pending_inv_less:
  assumes inv: "pending_inv s" and same: "\<And>k r. pending s' k r \<longleftrightarrow> pending s k r"
    and sp: "ss_spawning s' = ss_spawning s" "ss_settled s' = ss_settled s"
    and sub: "\<And>r k. jm_get (ss_processes s') r = Some k \<Longrightarrow> jm_get (ss_processes s) r = Some k"
  shows "pending_inv s'"
proof (rule pending_invI)
  show "r \<in> ss_spawning s'" "r \<notin> fst ` set (ss_settled s')" if "pending s' k r" for k r
    using that pending_invD(1,2) [OF inv, of k r] by (simp_all add: sp same)
  show "k = k'" if "pending s' k r" "pending s' k' r" for k k' r
    using that pending_invD(3) [OF inv, of k r k'] by (simp add: same)
  show "k' = k" if "pending s' k r" "jm_get (ss_processes s') r = Some k'" for k k' r
    using that(1) pending_invD(4) [OF inv, of k r k'] sub [OF that(2)] by (simp add: same)
  show "fst ` set (ss_settled s') \<subseteq> ss_spawning s'" "distinct (map fst (ss_settled s'))"
    using pending_invD(5,6) [OF inv] by (simp_all add: sp)
qed

lemma server_inv_failed_start:
  assumes inv: "server_inv (now, s)" and p: "jm_get (ss_objects s) k = Some p" and pd: "pending s k (rp_roomId p)"
    and s1_def: "s1 = markExited k (kill e now k (forget (rp_roomId p) s))"
  shows "server_inv (now, s1)" and "pending s1 k (rp_roomId p)"
    and "\<exists>q. jm_get (ss_objects s1) k = Some q \<and> rp_roomId q = rp_roomId p"
proof -
  let ?r = "rp_roomId p"
  have core: "core_inv {} s" and pend: "pending_inv s" and space: "spacing_inv now s"
    using inv by (simp_all add: server_inv_def)
  have c: "calm (forget ?r s) (kill e now k (forget ?r s))" by (rule calm_kill)
  have pend_forget: "pending (forget ?r s) j r \<longleftrightarrow> pending s j r" for j r by (simp add: pending_def)
  have pends: "pending s1 j r \<longleftrightarrow> pending s j r" for j r
  proof -
    have "pending (markExited k x) j r \<longleftrightarrow> pending x j r" for x by (auto simp: pending_def)
    then show ?thesis by (simp add: s1_def calm_pending [OF c] pend_forget)
  qed
  have "core_inv {k} (forget ?r s)"
    using pending_invD(4) [OF pend pd] by (intro core_forget [OF core]) simp
  then have core2: "core_inv {k} (kill e now k (forget ?r s))" by (rule calm_coreD [OF c])
  have gone: "jm_get (ss_processes (kill e now k (forget ?r s))) r \<noteq> Some k" for r
  proof
    assume "jm_get (ss_processes (kill e now k (forget ?r s))) r = Some k"
    then have e: "jm_get (ss_processes (forget ?r s)) r = Some k" by (rule calm_entryD [OF c])
    then have "jm_get (ss_processes s) r = Some k" "r \<noteq> ?r" by (auto split: if_splits)
    with entryD [OF core, of r k] p show False by auto
  qed
  have "core_inv {} s1" unfolding s1_def by (rule core_exit [OF core2 gone])
  moreover have "pending_inv s1"
  proof (rule pending_inv_less [OF pend])
    show "pending s1 j r \<longleftrightarrow> pending s j r" for j r by (rule pends)
    show "jm_get (ss_processes s) r = Some j" if "jm_get (ss_processes s1) r = Some j" for r j
      using that calm_entryD [OF c, of r j] by (auto simp: s1_def split: if_splits)
  qed (simp_all add: s1_def calm_spawningD [OF c])
  moreover have "spacing_inv now s1"
    by (rule spacing_cong [OF _ _ space]) (simp_all add: s1_def calm_spawningD [OF c])
  ultimately show "server_inv (now, s1)" by (simp add: server_inv_def)
  show "pending s1 k ?r" using pd by (simp add: pends)
  then show "\<exists>q. jm_get (ss_objects s1) k = Some q \<and> rp_roomId q = ?r" by (auto simp: pending_def)
qed

lemma server_inv_continue:
  assumes inv: "server_inv (now, s)"
  shows "server_inv (now, startup_continue e now k s)"
proof (cases "jm_get (ss_objects s) k")
  case None
  with inv show ?thesis by (simp add: startup_continue_def)
next
  case (Some p)
  show ?thesis
  proof (cases "rp_continued p \<or> \<not> rp_killable p")
    case True
    with Some inv show ?thesis by (simp add: startup_continue_def)
  next
    case False
    then have pd: "pending s k (rp_roomId p)" using Some by (simp add: pending_def)
    show ?thesis
    proof (cases "rp_startup p")
      case Awaiting
      with Some inv show ?thesis by (simp add: startup_continue_def)
    next
      case Spoke
      with Some False continued_inv [OF inv Some pd] show ?thesis by (simp add: startup_continue_def)
    next
      case (Failed err)
      let ?s1 = "markExited k (kill e now k (forget (rp_roomId p) s))"
      obtain q where q: "jm_get (ss_objects ?s1) k = Some q" "rp_roomId q = rp_roomId p"
        using server_inv_failed_start(3) [OF inv Some pd refl] by blast
      have "pending ?s1 k (rp_roomId q)"
        using server_inv_failed_start(2) [OF inv Some pd refl] q by simp
      from continued_inv [OF server_inv_failed_start(1) [OF inv Some pd refl] q(1) this]
      show ?thesis using Some False Failed q by (simp add: startup_continue_def Let_def)
    qed
  qed
qed

lemma server_inv_settled:
  assumes inv: "server_inv (now, s)"
  shows "server_inv (now, spawn_settled s)"
proof (cases "ss_settled s")
  case Nil
  with inv show ?thesis by (simp add: spawn_settled_def)
next
  case (Cons x rest)
  let ?r = "fst x"
  let ?s = "s\<lparr>ss_settled := rest, ss_spawning := ss_spawning s - {?r}\<rparr>"
  have core: "core_inv {} s" and pend: "pending_inv s" and space: "spacing_inv now s"
    using inv by (simp_all add: server_inv_def)
  have same: "pending ?s k r \<longleftrightarrow> pending s k r" for k r by (simp add: pending_def)
  have "core_inv {} ?s" by (rule core_cong [OF _ _ _ _ _ _ _ core]) (simp_all add: exits_def)
  moreover have "pending_inv ?s"
  proof (rule pending_invI)
    show "r' \<in> ss_spawning ?s" "r' \<notin> fst ` set (ss_settled ?s)" if "pending ?s k r'" for k r'
      using that Cons pending_invD(1,2) [OF pend, of k r'] by (auto simp: same)
    show "k = k'" if "pending ?s k r'" "pending ?s k' r'" for k k' r'
      using that pending_invD(3) [OF pend, of k r' k'] by (simp add: same)
    show "k' = k" if "pending ?s k r'" "jm_get (ss_processes ?s) r' = Some k'" for k k' r'
      using that pending_invD(4) [OF pend, of k r' k'] by (simp add: same)
    show "fst ` set (ss_settled ?s) \<subseteq> ss_spawning ?s" "distinct (map fst (ss_settled ?s))"
      using Cons pending_invD(5,6) [OF pend] by (force simp: image_iff)+
  qed
  moreover have "spacing_inv now ?s" by (rule spacing_cong [OF _ _ space]) (simp_all add: spawns_def)
  ultimately have s: "server_inv (now, ?s)" by (simp add: server_inv_def)
  have "calm ?s (tell [DrvRoomFailure ?r err] ?s)" for err by (rule calm_tell) (simp add: plain_def)
  then have "server_inv (now, tell [DrvRoomFailure ?r err] ?s)" for err by (rule server_inv_calm [OF s]) simp
  with s Cons show ?thesis by (simp add: spawn_settled_def case_prod_unfold Let_def split: option.split)
qed

lemma server_inv_fold:
  "server_inv (now, s) \<Longrightarrow> (\<And>x s. server_inv (now, s) \<Longrightarrow> server_inv (now, f x s)) \<Longrightarrow> server_inv (now, fold f xs s)"
  by (induction xs arbitrary: s) auto

lemma server_inv_reconcile_room:
  assumes inv: "server_inv (now, s)"
  shows "server_inv (now, reconcile_room e now room s)"
proof -
  have upd: "server_inv (now, s\<lparr>ss_lostSince := m\<rparr>)" if "jm_wf (ss_lostSince s) \<Longrightarrow> jm_wf m" for m
    by (rule server_inv_calm [OF inv calm_cong]) (use that in simp_all)
  have "server_inv (now, tell [DrvRoomFailure r ProcessLost] (s\<lparr>ss_lostSince := jm_del (ss_lostSince s) r'\<rparr>))" for r r'
    by (rule server_inv_calm [OF upd calm_tell]) (simp_all add: plain_def)
  with inv upd server_inv_spawn [OF inv] show ?thesis
    by (simp add: reconcile_room_def Let_def split: option.split)
qed

lemma server_inv_reconcile:
  assumes inv: "server_inv (now, s)"
  shows "server_inv (now, reconcileDesiredRooms e now rooms since s)"
proof -
  let ?d = "set (map dr_roomId rooms)"
  define s1 where "s1 = fold (reconcile_room e now) rooms s"
  define s2 where "s2 = s1\<lparr>ss_lostSince := jm_reject (\<lambda>roomId _. roomId \<notin> ?d) (ss_lostSince s1)\<rparr>"
  define gone where "gone roomId attemptedAt \<longleftrightarrow> \<not> (roomId \<in> ?d \<or> spawnedAfter s2 roomId since) \<and> now - attemptedAt > ATTEMPT_RETENTION_MS"
    for roomId attemptedAt
  define s3 where "s3 = s2\<lparr>ss_attempted := jm_reject gone (ss_attempted s2)\<rparr>"
  have "server_inv (now, s1)" unfolding s1_def
    by (rule server_inv_fold [OF inv]) (rule server_inv_reconcile_room)
  then have inv2: "server_inv (now, s2)" by (rule server_inv_calm [OF _ calm_cong]) (simp_all add: s2_def)
  then have core: "core_inv {} s2" and pend: "pending_inv s2" and space: "spacing_inv now s2"
    by (simp_all add: server_inv_def)
  have wf: "jm_wf (ss_attempted s2)" using core_parts(1) [OF core] by (simp add: maps_wf_def)
  have "core_inv {} s3"
    by (rule core_cong [OF _ _ _ _ _ _ _ core]) (simp_all add: s3_def exits_def)
  moreover have "pending_inv s3"
    by (rule pending_inv_less [OF pend]) (simp_all add: s3_def pending_def)
  moreover have "spacing_inv now s3"
  proof (rule spacing_invI)
    have sp: "spawns r s3 = spawns r s2" for r by (simp add: s3_def spawns_def)
    have att: "jm_get (ss_attempted s3) r =
        (case jm_get (ss_attempted s2) r of None \<Rightarrow> None | Some v \<Rightarrow> if gone r v then None else Some v)" for r
      by (simp add: s3_def wf)
    show "t \<le> now" if "jm_get (ss_attempted s3) r = Some t" for r t
      using that spacing_invD(1) [OF space, of r t] by (simp add: att split: option.splits if_splits)
    show "(\<exists>t'. jm_get (ss_attempted s3) r = Some t' \<and> t \<le> t') \<or> t + ATTEMPT_RETENTION_MS < now"
      if "t \<in> set (spawns r s3)" for r t
    proof -
      from that spacing_invD(2) [OF space, of t r]
      consider t' where "jm_get (ss_attempted s2) r = Some t'" "t \<le> t'" | "t + ATTEMPT_RETENTION_MS < now"
        by (auto simp: sp)
      then show ?thesis
      proof cases
        case 1
        then show ?thesis by (cases "gone r t'") (auto simp: att gone_def)
      qed simp
    qed
    show "sorted_wrt (\<lambda>t t'. t + ATTEMPT_RETENTION_MS < t') (spawns r s3)" for r
      using spacing_invD(3) [OF space] by (simp add: sp)
  qed
  ultimately have "server_inv (now, s3)" by (simp add: server_inv_def)
  moreover have "reconcileDesiredRooms e now rooms since s = s3"
    by (simp add: reconcileDesiredRooms_def Let_def s1_def s2_def s3_def gone_def [abs_def])
  ultimately show ?thesis by simp
qed

lemma server_inv_finish:
  assumes inv: "server_inv (now, s)"
  shows "server_inv (now, tick_finish e now current t tk s)"
proof -
  let ?s1 = "s\<lparr>ss_previouslyRegistered := True, ss_ticks := jm_del (ss_ticks s) t\<rparr>"
  have s1: "server_inv (now, ?s1)" by (rule server_inv_calm [OF inv calm_cong]) simp_all
  have "calm ?s1 (fold (destroy_unwanted e now tk) (jm_keys (ss_processes ?s1)) ?s1)"
    by (rule calm_fold) (rule calm_destroy_unwanted)
  then have "server_inv (now, fold (destroy_unwanted e now tk) (jm_keys (ss_processes ?s1)) ?s1)"
    by (rule server_inv_calm [OF s1]) simp
  then show ?thesis by (simp add: tick_finish_def Let_def server_inv_reconcile)
qed

lemma server_inv_ticks:
  assumes "server_inv (now, s)"
  shows "server_inv (now, s\<lparr>ss_ticks := m\<rparr>)"
  by (rule server_inv_calm [OF assms calm_cong]) simp_all

lemma server_inv_tell:
  assumes "server_inv (now, s)" and "list_all plain as"
  shows "server_inv (now, tell as s)"
  by (rule server_inv_calm [OF assms(1) calm_tell [OF assms(2)]]) simp

lemma server_inv_reassert:
  assumes inv: "server_inv (now, s)"
  shows "server_inv (now, reassert_next e now current t tk s)"
  using inv by (simp add: reassert_next_def server_inv_finish server_inv_tell server_inv_ticks plain_def split: option.split)

lemma server_inv_heartbeat:
  assumes inv: "server_inv (now, s)"
  shows "server_inv (now, tick_heartbeat e now current t reply s)"
proof (cases "jm_get (ss_ticks s) t")
  case None
  with inv show ?thesis by (simp add: tick_heartbeat_def)
next
  case (Some tk)
  show ?thesis
  proof (cases reply)
    case None
    with Some inv show ?thesis by (simp add: tick_heartbeat_def server_inv_ticks)
  next
    case reply: (Some result)
    let ?s1 = "s\<lparr>ss_serverTags := hr_tags result, ss_lastDriverHeartbeatAt := now, ss_outageLogged := False\<rparr>"
    have "server_inv (now, ?s1)"
      by (rule server_inv_calm [OF inv calm_cong]) simp_all
    then have "server_inv (now, checkHeartbeats e now ?s1)"
      by (rule server_inv_calm [OF _ calm_checkHeartbeats]) simp
    note next_ok = server_inv_reassert [OF this] and finish_ok = server_inv_finish [OF this]
    show ?thesis
      using Some reply by (simp add: tick_heartbeat_def Let_def inv server_inv_ticks next_ok finish_ok)
  qed
qed

lemma server_inv_cong:
  assumes inv: "server_inv (now, s)" and "ss_processes s' = ss_processes s" "ss_objects s' = ss_objects s"
    "ss_lastHeartbeats s' = ss_lastHeartbeats s" "ss_spawning s' = ss_spawning s" "ss_settled s' = ss_settled s"
    "ss_attempted s' = ss_attempted s" "ss_lostSince s' = ss_lostSince s" "ss_next s \<le> ss_next s'" "ss_log s' = ss_log s"
  shows "server_inv (now, s')"
proof -
  have core: "core_inv {} s" and pend: "pending_inv s" and space: "spacing_inv now s"
    using inv by (simp_all add: server_inv_def)
  have "core_inv {} s'" by (rule core_cong [OF _ _ _ _ _ _ _ core]) (use assms in \<open>simp_all add: exits_def\<close>)
  moreover have "pending_inv s'" by (rule pending_inv_less [OF pend]) (use assms in \<open>simp_all add: pending_def\<close>)
  moreover have "spacing_inv now s'" by (rule spacing_cong [OF _ _ space]) (use assms in \<open>simp_all add: spawns_def\<close>)
  ultimately show ?thesis by (simp add: server_inv_def)
qed

lemma server_inv_begin_tick:
  assumes inv: "server_inv (now, s)"
  shows "server_inv (now, heartbeatTick now ep s)"
proof -
  have "server_inv (now, logHeartbeatOutage now s)"
    by (rule server_inv_cong [OF inv]) (simp_all add: logHeartbeatOutage_def)
  then have "server_inv (now, (logHeartbeatOutage now s)\<lparr>ss_ticks := m, ss_next := Suc (ss_next (logHeartbeatOutage now s))\<rparr>)" for m
    by (rule server_inv_cong) simp_all
  then show ?thesis unfolding heartbeatTick_def Let_def
    by (rule server_inv_tell) (simp add: plain_def)
qed

lemma server_inv_tick_registered:
  assumes inv: "server_inv (now, s)"
  shows "server_inv (now, tick_registered e now c t ok s)"
  using inv
  by (auto simp: tick_registered_def plain_def intro!: server_inv_tell server_inv_ticks server_inv_reassert
      split: option.split tick_phase.split)

lemma server_inv_tick_readied:
  assumes inv: "server_inv (now, s)"
  shows "server_inv (now, tick_readied e now c t ok s)"
  using inv by (auto simp: tick_readied_def intro!: server_inv_reassert split: option.split tick_phase.split)

lemma server_inv_stop:
  assumes inv: "server_inv (now, s)"
  shows "server_inv (now, stop_begin s)"
proof -
  have "server_inv (now, s\<lparr>ss_alive := False\<rparr>)" by (rule server_inv_cong [OF inv]) simp_all
  then have "server_inv (now, tell [DrvUnsubscribe] (s\<lparr>ss_alive := False\<rparr>))"
    by (rule server_inv_tell) (simp add: plain_def)
  then have "server_inv (now, (tell [DrvUnsubscribe] (s\<lparr>ss_alive := False\<rparr>))\<lparr>ss_subscribed := False\<rparr>)"
    by (rule server_inv_cong) simp_all
  with \<open>server_inv (now, s\<lparr>ss_alive := False\<rparr>)\<close>
  have "server_inv (now, stopRoomSubscription (s\<lparr>ss_alive := False\<rparr>))" by (simp add: stopRoomSubscription_def)
  then have "server_inv (now, stopLeaderLoop (stopHeartbeatLoop (stopRoomSubscription (s\<lparr>ss_alive := False\<rparr>))))"
    by (rule server_inv_cong) (simp_all add: stopLeaderLoop_def stopHeartbeatLoop_def)
  then show ?thesis by (simp add: stop_begin_def Let_def server_inv_tell plain_def)
qed

lemma server_inv_stop_drained:
  assumes inv: "server_inv (now, s)"
  shows "server_inv (now, stop_drained s)"
  unfolding stop_drained_def
  by (rule server_inv_cong [OF server_inv_tell [OF inv]]) (auto simp: list_all_iff plain_def)

lemma server_inv_step:
  assumes inv0: "server_inv (clock, s)" and later: "clock \<le> now"
  shows "server_inv (now, server_step e now s ev)"
proof -
  have inv: "server_inv (now, s)" by (rule server_inv_mono [OF inv0 later])
  have calmly: "server_inv (now, s')" if "calm s s'" for s'
    by (rule server_inv_calm [OF inv that]) simp
  show ?thesis
  proof (cases ev)
    case (EvListening addr)
    have "server_inv (now, s\<lparr>ss_http := True, ss_currentAddress := x\<rparr>)" for x
      by (rule server_inv_cong [OF inv]) simp_all
    then have "server_inv (now, (tell [DrvSubscribe y] (s\<lparr>ss_http := True, ss_currentAddress := x\<rparr>))\<lparr>ss_subscribed := True\<rparr>)"
      for x y by (rule server_inv_cong [OF server_inv_tell]) (simp_all add: plain_def)
    with EvListening show ?thesis by (simp add: startInternal_listening_def startRoomSubscription_def)
  next
    case EvLoopsStarted
    then show ?thesis
      by (simp, intro server_inv_cong [OF inv]) (simp_all add: startLeaderLoop_def startHeartbeatLoop_def)
  next
    case (EvLeaderRenewed c r)
    then show ?thesis by (simp, intro server_inv_cong [OF inv]) (simp_all add: leader_renewed_def)
  next
    case (EvLeaderAcquired c r)
    then show ?thesis by (simp, intro server_inv_cong [OF inv]) (simp_all add: leader_acquired_def)
  next
    case (EvSocketOpened k)
    then show ?thesis by (simp, intro server_inv_cong [OF inv]) (simp_all add: socket_opened_def)
  next
    case (EvSocketClosed k)
    then show ?thesis by (simp, intro server_inv_cong [OF inv]) (simp_all add: socket_closed_def)
  next
    case EvStopReleased
    have "server_inv (now, s\<lparr>ss_isLeader := False\<rparr>)" by (rule server_inv_cong [OF inv]) simp_all
    with EvStopReleased show ?thesis by (simp add: stop_released_def server_inv_tell plain_def)
  qed (simp_all add: calmly calm_callback calm_startup_timeout calm_roomReady_reply calm_shutdown inv
        server_inv_continue server_inv_settled room_assigned_def server_inv_spawn server_inv_begin_tick
        server_inv_heartbeat server_inv_tick_registered server_inv_tick_readied server_inv_stop server_inv_stop_drained
        server_inv_tell leader_tick_def reapStaleServers_def cleanOrphanedRoomEntries_def stop_unregistered_def
        plain_def list_all_iff)
qed

lemma server_inv_initial:
  assumes "start_server local roomTypes opts serverId now = Inr s"
  shows "server_inv (now, s)"
  using assms
  by (auto simp: start_server_def server_inv_def core_inv_def maps_wf_def entries_ok_def objects_fresh_def beats_ok_def
      exits_ok_def exits_def in_order_def jm_values_def pending_inv_def pending_def spacing_inv_def spawns_def map_filter_def split: if_splits)

end
