(* ===== verification/Server_Properties.thy ===== *)
theory Server_Properties
  imports Server_Correct
begin

text \<open>
  The properties of the server: what every reachable state looks like, how far apart the spawns
  of one room id are, and what a tick destroys.
\<close>

interpretation sm: step_invariant "timed_step e" clock_ok server_inv for e
proof
  show "server_inv (timed_step e c ev)" if "server_inv c" "clock_ok c ev" for c ev
    using that server_inv_step [of "fst c" "snd c" "fst ev" e "snd ev"]
    by (simp add: timed_step_def clock_ok_def)
qed

section \<open>Reachable states\<close>

text \<open>A demonstration environment: one room type, whose runner says nothing at once.\<close>

definition demo_env :: environment where
  "demo_env = \<lparr>en_spawn = (\<lambda>rt. if rt = ''arena'' then Some (\<lambda>_. ([], None)) else None), en_kill = (\<lambda>_. []),
               en_roomEndpoint = (\<lambda>r p. ''ws://'' @ r), en_secret = (\<lambda>k. ''secret'')\<rparr>"

definition demo_options :: server_options where
  "demo_options = \<lparr>op_host = None, op_port = None, op_heartbeatIntervalMs = None, op_tags = None,
                   op_serverEndpoint = Some ''http://a'', op_roomStartupTimeoutMs = None, op_roomStallTimeoutMs = None\<rparr>"

definition demo_server :: server where
  "demo_server = (case start_server False [''arena''] demo_options ''srv'' 0 of Inr s \<Rightarrow> s | Inl _ \<Rightarrow> undefined)"

definition demo_room :: "string \<Rightarrow> room_status \<Rightarrow> desired_room" where
  "demo_room r st = \<lparr>dr_roomId = r, dr_roomType = ''arena'', dr_data = [], dr_status = st\<rparr>"

lemma demo_server_start: "start_server False [''arena''] demo_options ''srv'' 0 = Inr demo_server"
  by (simp add: demo_server_def start_server_def demo_options_def)

definition demo_history :: "(ms \<times> server_event) list" where
  "demo_history =
     [(1, EvListening None), (2, EvAssigned (demo_room ''r1'' Requested)),
      (3, EvCallback 0 (CbOnMessage (Ready 4000))), (4, EvStartupContinue 0), (5, EvSpawnSettled),
      (6, EvCallback 0 (CbStopped (Some 1))), (7, EvAssigned (demo_room ''r1'' Requested))]"

lemma reachable_inv:
  "start_server local roomTypes opts serverId t0 = Inr s0 \<Longrightarrow> run_ok clock_ok (timed_step e) (t0, s0) evs \<Longrightarrow>
     server_inv (run (timed_step e) (t0, s0) evs)"
  by (rule sm.I_run) (rule server_inv_initial)

text \<open>
  C2: Whatever runners, driver and timers do, after any sequence of events the \<open>processes\<close> map
  and the process objects agree: every entry is an object of that room id whose exit was not yet
  signalled; an object's exit is signalled exactly once, namely when it is no longer an entry;
  and only local rooms have a heartbeat clock.
\<close>

theorem server_always_consistent:
  assumes "start_server local roomTypes opts serverId t0 = Inr s0"
    and "run_ok clock_ok (timed_step e) (t0, s0) evs"
  shows "let s = snd (run (timed_step e) (t0, s0) evs) in
     (\<forall>r k. jm_get (ss_processes s) r = Some k \<longrightarrow> (\<exists>p. jm_get (ss_objects s) k = Some p \<and> rp_roomId p = r)) \<and>
     (\<forall>k p. jm_get (ss_objects s) k = Some p \<longrightarrow>
        exits k s = (if jm_get (ss_processes s) (rp_roomId p) = Some k then 0 else 1)) \<and>
     (\<forall>r. jm_get (ss_lastHeartbeats s) r \<noteq> None \<longrightarrow> jm_get (ss_processes s) r \<noteq> None)"
proof -
  define s where "s = snd (run (timed_step e) (t0, s0) evs)"
  have core: "core_inv {} s"
    using reachable_inv [OF assms] by (simp add: server_inv_def s_def)
  have "exits k s = (if jm_get (ss_processes s) (rp_roomId p) = Some k then 0 else 1)"
    if p: "jm_get (ss_objects s) k = Some p" for k p
  proof -
    have "exits k s = (if rp_exited p then 1 else 0)"
      using core_parts(5) [OF core] p by (simp add: exits_ok_def)
    moreover have "\<not> rp_exited p \<longleftrightarrow> jm_get (ss_processes s) (rp_roomId p) = Some k"
      using live_object [OF core p] entryD [OF core, of "rp_roomId p" k] p by auto
    ultimately show ?thesis by (cases "rp_exited p") simp_all
  qed
  then show ?thesis
    using entryD [OF core] core_parts(4) [OF core] unfolding s_def [symmetric] Let_def beats_ok_def by metis
qed

theorem server_always_consistent_witness:
  "exits 0 (snd (run (timed_step demo_env) (0, demo_server) demo_history)) = 1"
proof -
  have ok: "run_ok clock_ok (timed_step demo_env) (0, demo_server) demo_history"
    by code_simp
  have obj: "case jm_get (ss_objects (snd (run (timed_step demo_env) (0, demo_server) demo_history))) 0 of None \<Rightarrow> False
      | Some p \<Rightarrow> jm_get (ss_processes (snd (run (timed_step demo_env) (0, demo_server) demo_history))) (rp_roomId p) = None"
    by code_simp
  show ?thesis
    using server_always_consistent [OF demo_server_start ok] obj unfolding Let_def by (auto split: option.splits)
qed

text \<open>
  C4: The server spawns a room id at most once per retention window: if the clock never goes
  back, more than five minutes lie between any two spawns of one room id, whatever pushes,
  heartbeat replies, failures and exits happen in between.
\<close>

theorem respawns_are_spaced:
  assumes "start_server local roomTypes opts serverId t0 = Inr s0"
    and "run_ok clock_ok (timed_step e) (t0, s0) evs"
  shows "sorted_wrt (\<lambda>t t'. t + 300000 < t') (spawns r (snd (run (timed_step e) (t0, s0) evs)))"
proof -
  have "spacing_inv (fst (run (timed_step e) (t0, s0) evs)) (snd (run (timed_step e) (t0, s0) evs))"
    using reachable_inv [OF assms] by (simp add: server_inv_def)
  from spacing_invD(3) [OF this, of r] show ?thesis by (simp add: ATTEMPT_RETENTION_MS_def)
qed

theorem respawns_are_spaced_witness:
  "spawns ''r1'' (snd (run (timed_step demo_env) (0, demo_server) demo_history)) = [2] \<and>
   sorted_wrt (\<lambda>t t'. t + 300000 < t') (spawns ''r1'' (snd (run (timed_step demo_env) (0, demo_server) demo_history)))"
proof
  show "spawns ''r1'' (snd (run (timed_step demo_env) (0, demo_server) demo_history)) = [2]" by code_simp
  have ok: "run_ok clock_ok (timed_step demo_env) (0, demo_server) demo_history" by code_simp
  show "sorted_wrt (\<lambda>t t'. t + 300000 < t') (spawns ''r1'' (snd (run (timed_step demo_env) (0, demo_server) demo_history)))"
    by (rule respawns_are_spaced [OF demo_server_start ok])
qed

section \<open>The destroy sweep\<close>

definition kills :: "server \<Rightarrow> nat list" where
  "kills s = List.map_filter (\<lambda>a. case a of Kill k \<Rightarrow> Some k | _ \<Rightarrow> None) (ss_log s)"

lemma kills_simps [simp]:
  "kills (tell as s) = kills s @ List.map_filter (\<lambda>a. case a of Kill k \<Rightarrow> Some k | _ \<Rightarrow> None) as"
  "kills (with_object k f s) = kills s" "kills (forget r s) = kills s" "kills (markExited k s) = kills s"
  by (auto simp: kills_def map_filter_def markExited_def forget_def with_object_def split: option.splits)

lemma kills_updates [simp]:
  "kills (s\<lparr>ss_killed := x_killed\<rparr>) = kills s"
  "kills (s\<lparr>ss_lastHeartbeats := x_lastHeartbeats\<rparr>) = kills s"
  "kills (s\<lparr>ss_lostSince := x_lostSince\<rparr>) = kills s"
  "kills (s\<lparr>ss_settled := x_settled\<rparr>) = kills s"
  "kills (s\<lparr>ss_attempted := x_attempted\<rparr>) = kills s"
  "kills (s\<lparr>ss_spawning := x_spawning\<rparr>) = kills s"
  "kills (s\<lparr>ss_processes := x_processes\<rparr>) = kills s"
  "kills (s\<lparr>ss_objects := x_objects\<rparr>) = kills s"
  "kills (s\<lparr>ss_next := x_next\<rparr>) = kills s"
  "kills (s\<lparr>ss_previouslyRegistered := x_previouslyRegistered\<rparr>) = kills s"
  "kills (s\<lparr>ss_ticks := x_ticks\<rparr>) = kills s"
  by (simp_all add: kills_def)

text \<open>A step about one room: calm, no other room's entry changes, and nothing is killed.\<close>

definition about :: "string \<Rightarrow> server \<Rightarrow> server \<Rightarrow> bool" where
  "about r s s' \<longleftrightarrow> calm s s' \<and> (\<forall>r'. r' \<noteq> r \<longrightarrow> jm_get (ss_processes s') r' = jm_get (ss_processes s) r') \<and> kills s' = kills s"

lemma about_trans: "about r s s' \<Longrightarrow> about r s' s'' \<Longrightarrow> about r s s''"
  unfolding about_def by (auto intro: calm_trans)

lemma about_cleanupRoom: "about r s (cleanupRoom r reason s)"
  using calm_cleanupRoom [of s r reason]
  by (auto simp: about_def cleanupRoom_def Let_def map_filter_def split: option.splits cleanup_reason.splits)

lemma handleNotify_about:
  assumes "jm_get (ss_processes s) r \<noteq> None"
  shows "about r s (handleNotifyMessage e now r msg s)"
proof (cases msg)
  case Stopped
  then show ?thesis by (simp add: handleNotifyMessage_def about_cleanupRoom)
qed (use calm_handleNotifyMessage [OF assms, of e now msg] in
      \<open>auto simp: about_def handleNotifyMessage_def Let_def map_filter_def split: option.splits\<close>)

lemma about_onMessage:
  assumes p: "jm_get (ss_objects s) k = Some p"
  shows "about (rp_roomId p) s (onMessage e now k msg s)"
proof (cases "rp_stoppedCalled p \<or> \<not> jm_has (ss_processes s) (rp_roomId p)")
  case True
  with p show ?thesis by (simp add: onMessage_def about_def)
next
  case False
  let ?r = "rp_roomId p"
  let ?s1 = "if rp_started p then s
             else with_object k (\<lambda>p. settle Spoke (p\<lparr>rp_started := True\<rparr>))
                    (s\<lparr>ss_lastHeartbeats := jm_set (ss_lastHeartbeats s) ?r now\<rparr>)"
  let ?s2 = "with_object k (note_status msg) ?s1"
  have eq: "onMessage e now k msg s = handleNotifyMessage e now ?r msg ?s2"
    using p False by (simp add: onMessage_def Let_def)
  have keep: "ss_processes ?s2 = ss_processes s" "kills ?s2 = kills s"
    by simp_all
  have "about ?r ?s2 (handleNotifyMessage e now ?r msg ?s2)"
    by (rule handleNotify_about) (use False keep(1) in auto)
  then show ?thesis
    unfolding about_def eq [symmetric] keep using calm_onMessage by blast
qed

lemma about_stopped:
  assumes p: "jm_get (ss_objects s) k = Some p"
  shows "about (rp_roomId p) s (stopped k code s)"
proof -
  let ?s1 = "with_object k (\<lambda>p. p\<lparr>rp_stoppedCalled := True, rp_status := IsStopped\<rparr>) s"
  have "about (rp_roomId p) ?s1 (cleanupRoom (rp_roomId p) ProcessExited ?s1)" by (rule about_cleanupRoom)
  then show ?thesis
    using p calm_stopped [of s k code] by (auto simp: stopped_def Let_def about_def)
qed

lemma about_callbacks:
  assumes "jm_get (ss_objects s) k = Some p"
  shows "about (rp_roomId p) s (fold (callback e now k) cbs s)"
  using assms
proof (induction cbs arbitrary: s p)
  case Nil
  then show ?case by (simp add: about_def)
next
  case (Cons cb cbs)
  have one: "about (rp_roomId p) s (callback e now k cb s)"
    by (cases cb) (simp_all add: about_onMessage about_stopped Cons.prems)
  then obtain q where q: "jm_get (ss_objects (callback e now k cb s)) k = Some q" "rp_roomId q = rp_roomId p"
    using calm_objectD [OF calm_callback Cons.prems, of e now k cb] by (auto simp: same_object_def)
  with one Cons.IH [OF q(1)] show ?case by (auto intro: about_trans)
qed

lemma destroyWorker_effect:
  assumes core: "core_inv {} s" and entry: "jm_get (ss_processes s) r = Some k" and p: "jm_get (ss_objects s) k = Some p"
  shows "kills (destroyWorker e now r s) = kills s @ (if rp_killable p then [k] else [])"
    and "r' \<noteq> r \<Longrightarrow> jm_get (ss_processes (destroyWorker e now r s)) r' = jm_get (ss_processes s) r'"
proof -
  have r: "rp_roomId p = r" using entryD [OF core entry] p by auto
  let ?s1 = "tell [Kill k] (s\<lparr>ss_killed := insert r (ss_killed s)\<rparr>)"
  have "jm_get (ss_objects ?s1) k = Some p" using p by simp
  from about_callbacks [OF this, of e now "en_kill e r"]
  have a: "about r ?s1 (fold (callback e now k) (en_kill e r) ?s1)" by (simp add: r)
  have eq: "destroyWorker e now r s =
      (if rp_killable p then fold (callback e now k) (en_kill e r) ?s1 else s\<lparr>ss_killed := insert r (ss_killed s)\<rparr>)"
    using entry p r by (simp add: destroyWorker_def kill_def)
  show "kills (destroyWorker e now r s) = kills s @ (if rp_killable p then [k] else [])"
    using a by (simp add: eq about_def map_filter_def)
  show "r' \<noteq> r \<Longrightarrow> jm_get (ss_processes (destroyWorker e now r s)) r' = jm_get (ss_processes s) r'"
    using a by (simp add: eq about_def)
qed

definition unwanted :: "server \<Rightarrow> tick \<Rightarrow> string \<Rightarrow> bool" where
  "unwanted s tk r \<longleftrightarrow>
     r \<notin> tk_reasserted tk \<and> \<not> spawnedAfter s r (tk_snapshotAt tk) \<and> r \<notin> set (map dr_roomId (tk_desired tk))"

definition can_kill :: "server \<Rightarrow> nat \<Rightarrow> bool" where
  "can_kill s k = (case jm_get (ss_objects s) k of Some p \<Rightarrow> rp_killable p | None \<Rightarrow> False)"

lemma destroy_fold:
  assumes "core_inv {} s" and "distinct (map fst es)" and "\<forall>(r, k)\<in>set es. jm_get (ss_processes s) r = Some k"
  shows "kills (fold (destroy_unwanted e now tk) (map fst es) s) =
         kills s @ map snd (filter (\<lambda>(r, k). unwanted s tk r \<and> can_kill s k) es)"
  using assms
proof (induction es arbitrary: s)
  case Nil
  then show ?case by simp
next
  case (Cons x es)
  obtain r k where x: "x = (r, k)" by force
  let ?s1 = "destroy_unwanted e now tk r s"
  have entry: "jm_get (ss_processes s) r = Some k" using Cons.prems(3) x by auto
  obtain p where p: "jm_get (ss_objects s) k = Some p" "rp_roomId p = r"
    using entryD [OF Cons.prems(1) entry] by blast
  have c: "calm s ?s1" by (rule calm_destroy_unwanted)
  have others: "jm_get (ss_processes ?s1) r' = jm_get (ss_processes s) r'" if "r' \<noteq> r" for r'
    using destroyWorker_effect(2) [OF Cons.prems(1) entry p(1) that] by (simp add: destroy_unwanted_def)
  have still: "\<forall>(r', k')\<in>set es. jm_get (ss_processes ?s1) r' = Some k'"
  proof
    fix y assume y: "y \<in> set es"
    then have "fst y \<noteq> r" using Cons.prems(2) x by force
    with y Cons.prems(3) others show "case y of (r', k') \<Rightarrow> jm_get (ss_processes ?s1) r' = Some k'" by auto
  qed
  have "can_kill ?s1 k' = can_kill s k'" for k'
    using calm_objectD [OF c, of k'] calm_objectD' [OF c, of k']
    by (cases "jm_get (ss_objects s) k'"; cases "jm_get (ss_objects ?s1) k'")
      (auto simp: can_kill_def same_object_def)
  moreover have "unwanted ?s1 tk r' = unwanted s tk r'" for r'
    by (simp add: unwanted_def spawnedAfter_def calm_spawningD [OF c])
  moreover have "kills ?s1 = kills s @ (if unwanted s tk r \<and> can_kill s k then [k] else [])"
    using destroyWorker_effect(1) [OF Cons.prems(1) entry p(1)] p(1)
    by (simp add: destroy_unwanted_def unwanted_def can_kill_def)
  ultimately show ?case
    using Cons.IH [OF calm_coreD [OF c Cons.prems(1)] _ still] Cons.prems(2) by (simp add: x)
qed

lemma kills_spawn:
  assumes inv: "server_inv (now, s)"
  shows "kills (spawnAssignedRoom e now room s) = kills s"
proof -
  have "kills (snd (createRoom e now r rt d s)) = kills s" if "jm_get (ss_objects s) (ss_next s) = None" for r rt d s
  proof (cases "en_spawn e rt")
    case None
    then show ?thesis by (simp add: createRoom_def)
  next
    case (Some spawn)
    let ?k = "ss_next s"
    define p where "p = \<lparr>rp_roomId = r, rp_roomType = rt, rp_roomSecret = en_secret e ?k, rp_data = d,
                   rp_endpoint = None, rp_status = IsStarting, rp_started = False, rp_stoppedCalled = False,
                   rp_killable = False, rp_startup = Awaiting, rp_timer = False, rp_continued = False,
                   rp_exited = False\<rparr>"
    let ?s1 = "tell [Spawn ?k r now] (s\<lparr>ss_processes := jm_set (ss_processes s) r ?k,
                  ss_objects := jm_set (ss_objects s) ?k p, ss_next := Suc ?k\<rparr>)"
    have "about (rp_roomId p) ?s1 (fold (callback e now ?k) cbs ?s1)" for cbs
      by (rule about_callbacks) simp
    then have "kills (fold (callback e now ?k) cbs ?s1) = kills s" for cbs
      by (simp add: about_def map_filter_def)
    with Some show ?thesis
      by (simp add: createRoom_def Let_def p_def case_prod_unfold split: option.split)
  qed
  moreover have "jm_get (ss_objects s) (ss_next s) = None"
    using inv core_parts(3) [of "{}" s] unfolding server_inv_def objects_fresh_def by (metis less_irrefl snd_conv)
  ultimately show ?thesis
    by (auto simp: spawnAssignedRoom_def Let_def case_prod_unfold split: sum.split)
qed

lemma kills_reconcile:
  assumes inv: "server_inv (now, s)"
  shows "kills (reconcileDesiredRooms e now rooms since s) = kills s"
proof -
  have room: "kills (reconcile_room e now room s) = kills s" if "server_inv (now, s)" for room s
    using kills_spawn [OF that] by (simp add: reconcile_room_def Let_def map_filter_def split: option.split)
  have "server_inv (now, fold (reconcile_room e now) rooms s) \<and> kills (fold (reconcile_room e now) rooms s) = kills s"
    using inv by (induction rooms arbitrary: s) (simp_all add: room server_inv_reconcile_room)
  then show ?thesis by (simp add: reconcileDesiredRooms_def Let_def)
qed

lemma finish_kills:
  assumes inv: "server_inv (now, s)"
  shows "kills (tick_finish e now current t tk s) =
         kills s @ map snd (filter (\<lambda>(r, k). unwanted s tk r \<and> can_kill s k) (ss_processes s))"
proof -
  let ?s1 = "s\<lparr>ss_previouslyRegistered := True, ss_ticks := jm_del (ss_ticks s) t\<rparr>"
  let ?s2 = "fold (destroy_unwanted e now tk) (map fst (ss_processes ?s1)) ?s1"
  have inv1: "server_inv (now, ?s1)" by (rule server_inv_cong [OF inv]) simp_all
  have core: "core_inv {} ?s1" using inv1 by (simp add: server_inv_def)
  have wf: "jm_wf (ss_processes s)" using core_parts(1) [OF core] by (simp add: maps_wf_def)
  have "kills ?s2 = kills ?s1 @ map snd (filter (\<lambda>(r, k). unwanted ?s1 tk r \<and> can_kill ?s1 k) (ss_processes ?s1))"
    by (rule destroy_fold [OF core]) (use wf in \<open>auto simp: jm_wf_def jm_mem_get [OF wf]\<close>)
  moreover have "unwanted ?s1 tk r = unwanted s tk r" "can_kill ?s1 k = can_kill s k" for r k
    by (simp_all add: unwanted_def spawnedAfter_def can_kill_def)
  ultimately have s2: "kills ?s2 = kills s @ map snd (filter (\<lambda>(r, k). unwanted s tk r \<and> can_kill s k) (ss_processes s))"
    by simp
  have "calm ?s1 ?s2" by (rule calm_fold) (rule calm_destroy_unwanted)
  then have "server_inv (now, ?s2)" by (rule server_inv_calm [OF inv1]) simp
  with s2 show ?thesis by (simp add: tick_finish_def Let_def jm_keys_def kills_reconcile)
qed

lemma reachable_core: "server_inv (now, s) \<Longrightarrow> core_inv {} s"
  by (simp add: server_inv_def)

text \<open>
  C5: The end of a tick kills, in map order, exactly the local rooms that the tick's desired set
  does not contain, that it did not re-assert and that were not spawned after its snapshot was
  requested. Whether the tick is still current plays no part in it: a tick that a newer one has
  replaced spawns nothing any more, but still destroys these rooms.
\<close>

theorem sweep_kills_exactly_unwanted:
  assumes inv: "server_inv (now, s)"
  shows "kills (tick_finish e now current t tk s) =
           kills s @ map snd (filter (\<lambda>(r, k). unwanted s tk r \<and> can_kill s k) (ss_processes s)) \<and>
         (\<not> current \<longrightarrow> (\<forall>r. spawns r (tick_finish e now current t tk s) = spawns r s))"
proof -
  let ?s1 = "s\<lparr>ss_previouslyRegistered := True, ss_ticks := jm_del (ss_ticks s) t\<rparr>"
  have "calm ?s1 (fold (destroy_unwanted e now tk) (jm_keys (ss_processes ?s1)) ?s1)"
    by (rule calm_fold) (rule calm_destroy_unwanted)
  then have "\<not> current \<longrightarrow> (\<forall>r. spawns r (tick_finish e now current t tk s) = spawns r ?s1)"
    by (simp add: tick_finish_def Let_def calm_spawningD(7))
  moreover have "spawns r ?s1 = spawns r s" for r by (simp add: spawns_def)
  ultimately show ?thesis using finish_kills [OF inv] by simp
qed

definition demo_running :: server where
  "demo_running = snd (run (timed_step demo_env) (0, demo_server) (take 5 demo_history))"

definition demo_tick :: tick where
  "demo_tick = \<lparr>tk_snapshotAt = 10, tk_phase = AwaitHeartbeat, tk_desired = [], tk_reasserted = {}, tk_cursor = 0\<rparr>"

lemma demo_running_inv: "server_inv (20, demo_running)"
proof -
  have ok: "run_ok clock_ok (timed_step demo_env) (0, demo_server) (take 5 demo_history)" by code_simp
  have "fst (run (timed_step demo_env) (0, demo_server) (take 5 demo_history)) = 5" by code_simp
  then have "run (timed_step demo_env) (0, demo_server) (take 5 demo_history) = (5, demo_running)"
    by (simp only: demo_running_def prod_eq_iff fst_conv snd_conv)
  with reachable_inv [OF demo_server_start ok] have "server_inv (5, demo_running)" by (simp only:)
  then show ?thesis by (rule server_inv_mono) simp
qed

theorem sweep_kills_exactly_unwanted_witness:
  "kills (tick_finish demo_env 20 False 7 demo_tick demo_running) = [0]"
proof -
  have "kills demo_running @ map snd (filter (\<lambda>(r, k). unwanted demo_running demo_tick r \<and> can_kill demo_running k)
          (ss_processes demo_running)) = [0]"
    by code_simp
  with sweep_kills_exactly_unwanted [OF demo_running_inv, of demo_env False 7 demo_tick] show ?thesis by simp
qed

end
