(* ===== verification/Reap_Recovery.thy ===== *)
theory Reap_Recovery
  imports Server_Properties Driver_Types
begin

text \<open>
  The recovery of a server whose driver record was reaped while it was alive, for any driver. What
  the server relies on is stated as locales: \<open>room_registry\<close>, that registering a room and reporting
  it ready makes it run, and \<open>reap_recovery\<close>, that the heartbeat of a forgotten server registers
  it anew without rooms. The recovery is proved once from that contract.
\<close>

section \<open>Calls and replies\<close>

text \<open>
  The driver answers the last call the server made, and the reply is delivered to tick \<open>t\<close>,
  which is still current: the schedule in which nothing comes between a call and its reply.
\<close>

definition answer ::
    "('d \<Rightarrow> ms \<Rightarrow> heartbeat_options \<Rightarrow> heartbeat_result option \<times> 'd) \<Rightarrow>
     ('d \<Rightarrow> ms \<Rightarrow> string \<Rightarrow> string \<Rightarrow> string \<Rightarrow> room_data \<Rightarrow> ms \<Rightarrow> bool \<times> 'd) \<Rightarrow>
     ('d \<Rightarrow> ms \<Rightarrow> string \<Rightarrow> string \<Rightarrow> string \<Rightarrow> bool \<times> 'd) \<Rightarrow>
     environment \<Rightarrow> ms \<Rightarrow> nat \<Rightarrow> server \<times> 'd \<Rightarrow> server \<times> 'd" where
  "answer beat register become_ready e now t x =
     (case x of (s, d) \<Rightarrow>
        (case last (ss_log s) of
           DrvHeartbeat opts \<Rightarrow>
             (case beat d now opts of (r, d1) \<Rightarrow> (tick_heartbeat e now True t r s, d1))
         | DrvRegisterRoom r ty v data ttl \<Rightarrow>
             (case register d now r ty v data ttl of (ok, d1) \<Rightarrow> (tick_registered e now True t ok s, d1))
         | DrvRoomReady r ep sec \<Rightarrow>
             (case become_ready d now r ep sec of (ok, d1) \<Rightarrow> (tick_readied e now True t ok s, d1))
         | _ \<Rightarrow> (s, d)))"

text \<open>The objects the recovery loop will visit from \<open>tk_cursor\<close> on.\<close>

definition candidates :: "server \<Rightarrow> tick \<Rightarrow> nat list" where
  "candidates s tk = filter (\<lambda>k. tk_cursor tk \<le> k \<and> reassertable s tk k) (jm_values (ss_processes s))"

lemma find_filter: "find P xs = (case filter P xs of [] \<Rightarrow> None | y # _ \<Rightarrow> Some y)"
  by (induction xs) simp_all

lemma candidates_step:
  assumes "candidates s tk = k # ks" and "in_order s"
    and "tk_cursor tk' = Suc k" "tk_desired tk' = tk_desired tk"
    and "ss_processes s' = ss_processes s" "ss_objects s' = ss_objects s"
  shows "candidates s' tk' = ks"
proof -
  have sorted: "sorted_wrt (<) (k # ks)"
    using assms(1,2) sorted_wrt_filter unfolding candidates_def in_order_def by metis
  have k: "tk_cursor tk \<le> k"
    using assms(1) unfolding candidates_def filter_eq_Cons_iff by auto
  have "candidates s' tk' = filter (\<lambda>j. Suc k \<le> j) (candidates s tk)"
  proof -
    have "reassertable s' tk' x = reassertable s tk x" for x
      by (simp only: reassertable_def assms(4-6))
    then show ?thesis using k assms(3,5) by (auto simp: candidates_def intro!: filter_cong)
  qed
  also have "\<dots> = ks" using sorted assms(1) by (simp add: Suc_le_eq filter_id_conv)
  finally show ?thesis .
qed

text \<open>What a server relies on when it re-asserts its rooms.\<close>

definition valid_ttl :: "ms \<Rightarrow> bool" where
  "valid_ttl n \<longleftrightarrow> 0 < n \<and> n \<le> MAX_SAFE_INTEGER"

locale room_registry =
  fixes register :: "'d \<Rightarrow> ms \<Rightarrow> string \<Rightarrow> string \<Rightarrow> string \<Rightarrow> room_data \<Rightarrow> ms \<Rightarrow> bool \<times> 'd"
    and become_ready :: "'d \<Rightarrow> ms \<Rightarrow> string \<Rightarrow> string \<Rightarrow> string \<Rightarrow> bool \<times> 'd"
    and knows :: "'d \<Rightarrow> ms \<Rightarrow> string \<Rightarrow> bool"
    and running :: "'d \<Rightarrow> ms \<Rightarrow> string \<Rightarrow> (string \<times> string \<times> string) option"
  assumes registered: "knows d now v \<Longrightarrow> valid_ttl ttl \<Longrightarrow> fst (register d now r ty v data ttl)"
    and becomes_ready: "knows d now v \<Longrightarrow> valid_ttl ttl \<Longrightarrow>
          fst (become_ready (snd (register d now r ty v data ttl)) now r ep sec)"
    and runs: "knows d now v \<Longrightarrow> valid_ttl ttl \<Longrightarrow>
          running (snd (become_ready (snd (register d now r ty v data ttl)) now r ep sec)) now r' =
            (if r' = r then Some (v, ep, sec) else running d now r')"
    and still_knows: "knows d now v \<Longrightarrow> valid_ttl ttl \<Longrightarrow>
          knows (snd (become_ready (snd (register d now r ty v data ttl)) now r ep sec)) now v"
begin

lemma reassert_once:
  assumes cand: "candidates s tk = k # ks" and p: "jm_get (ss_objects s) k = Some p"
    and knows: "knows d now (ss_serverId s)" and ttl: "valid_ttl (startupTimeoutMs s)" and ep: "rp_endpoint p = Some ep"
  shows "\<exists>m log.
     (answer beat register become_ready e now t ^^ 2) (reassert_next e now True t tk s, d) =
       (reassert_next e now True t
          (tk\<lparr>tk_cursor := Suc k, tk_phase := AwaitReady k, tk_reasserted := insert (rp_roomId p) (tk_reasserted tk)\<rparr>)
          (s\<lparr>ss_ticks := m, ss_log := ss_log s @ log\<rparr>),
        snd (become_ready (snd (register d now (rp_roomId p) (rp_roomType p) (ss_serverId s) (rp_data p) (startupTimeoutMs s)))
               now (rp_roomId p) ep (rp_roomSecret p))) \<and>
     kills (s\<lparr>ss_ticks := m, ss_log := ss_log s @ log\<rparr>) = kills s \<and> list_all plain log"
proof -
  let ?call1 = "DrvRegisterRoom (rp_roomId p) (rp_roomType p) (ss_serverId s) (rp_data p) (startupTimeoutMs s)"
  let ?call2 = "DrvRoomReady (rp_roomId p) ep (rp_roomSecret p)"
  let ?tk1 = "tk\<lparr>tk_phase := AwaitRegister k, tk_cursor := Suc k\<rparr>"
  let ?tk2 = "tk\<lparr>tk_cursor := Suc k, tk_phase := AwaitReady k\<rparr>"
  let ?s1 = "tell [?call1] (s\<lparr>ss_ticks := jm_set (ss_ticks s) t ?tk1\<rparr>)"
  let ?s2 = "tell [?call2] (?s1\<lparr>ss_ticks := jm_set (ss_ticks ?s1) t ?tk2\<rparr>)"
  let ?d1 = "snd (register d now (rp_roomId p) (rp_roomType p) (ss_serverId s) (rp_data p) (startupTimeoutMs s))"
  let ?d2 = "snd (become_ready ?d1 now (rp_roomId p) ep (rp_roomSecret p))"
  have start: "reassert_next e now True t tk s = ?s1"
    using cand p by (simp add: reassert_next_def find_filter candidates_def)
  have one: "answer beat register become_ready e now t (?s1, d) = (?s2, ?d1)"
    using registered [OF knows ttl, of "rp_roomId p" "rp_roomType p" "rp_data p"] p ep
    by (simp add: answer_def tick_registered_def case_prod_unfold)
  have two: "answer beat register become_ready e now t (?s2, ?d1) =
      (reassert_next e now True t (?tk2\<lparr>tk_reasserted := insert (rp_roomId p) (tk_reasserted tk)\<rparr>) ?s2, ?d2)"
    using becomes_ready [OF knows ttl, of "rp_roomId p" "rp_roomType p" "rp_data p" ep "rp_roomSecret p"] p
    by (simp add: answer_def tick_readied_def case_prod_unfold)
  have s2: "?s2 = s\<lparr>ss_ticks := jm_set (ss_ticks ?s1) t ?tk2, ss_log := ss_log s @ [?call1, ?call2]\<rparr>"
    by (simp add: tell_def)
  show ?thesis
    by (intro exI [of _ "jm_set (ss_ticks ?s1) t ?tk2"] exI [of _ "[?call1, ?call2]"])
      (use start one two s2 in \<open>simp add: numeral_2_eq_2 kills_def map_filter_def plain_def\<close>)
qed

lemma reassert_all:
  assumes "candidates s tk = ks" and "in_order s"
    and "\<forall>k\<in>set ks. \<exists>p. jm_get (ss_objects s) k = Some p \<and> rp_endpoint p \<noteq> None \<and> f k = p"
    and "distinct (map (rp_roomId \<circ> f) ks)"
    and "knows d now (ss_serverId s)" and "valid_ttl (startupTimeoutMs s)"
  shows "\<exists>m log tk' d'.
     (answer beat register become_ready e now t ^^ (2 * length ks)) (reassert_next e now True t tk s, d) =
       (tick_finish e now True t tk' (s\<lparr>ss_ticks := m, ss_log := ss_log s @ log\<rparr>), d') \<and>
     kills (s\<lparr>ss_ticks := m, ss_log := ss_log s @ log\<rparr>) = kills s \<and> list_all plain log \<and>
     tk_desired tk' = tk_desired tk \<and> tk_snapshotAt tk' = tk_snapshotAt tk \<and>
     tk_reasserted tk' = tk_reasserted tk \<union> (rp_roomId \<circ> f) ` set ks \<and>
     (\<forall>r. running d' now r =
        (case find (\<lambda>k. rp_roomId (f k) = r) ks of None \<Rightarrow> running d now r
         | Some k \<Rightarrow> Some (ss_serverId s, the (rp_endpoint (f k)), rp_roomSecret (f k))))"
  using assms
proof (induction ks arbitrary: s tk d)
  case Nil
  have "reassert_next e now True t tk s = tick_finish e now True t tk s"
    using Nil.prems(1) by (simp add: reassert_next_def find_filter candidates_def)
  moreover have "s = s\<lparr>ss_ticks := ss_ticks s, ss_log := ss_log s @ []\<rparr>" by simp
  ultimately show ?case
    by (intro exI [of _ "ss_ticks s"] exI [of _ "[]"] exI [of _ tk] exI [of _ d]) simp
next
  case (Cons k ks)
  obtain p ep where p: "jm_get (ss_objects s) k = Some p" "rp_endpoint p = Some ep" "f k = p"
    using Cons.prems(3) by auto
  let ?tk1 = "tk\<lparr>tk_cursor := Suc k, tk_phase := AwaitReady k, tk_reasserted := insert (rp_roomId p) (tk_reasserted tk)\<rparr>"
  let ?d1 = "snd (become_ready (snd (register d now (rp_roomId p) (rp_roomType p) (ss_serverId s) (rp_data p) (startupTimeoutMs s)))
               now (rp_roomId p) ep (rp_roomSecret p))"
  obtain m log where step: "(answer beat register become_ready e now t ^^ 2) (reassert_next e now True t tk s, d) =
       (reassert_next e now True t ?tk1 (s\<lparr>ss_ticks := m, ss_log := ss_log s @ log\<rparr>), ?d1)"
    and k1: "kills (s\<lparr>ss_ticks := m, ss_log := ss_log s @ log\<rparr>) = kills s" "list_all plain log"
    using reassert_once [OF Cons.prems(1) p(1) Cons.prems(5,6) p(2)] by blast
  let ?s1 = "s\<lparr>ss_ticks := m, ss_log := ss_log s @ log\<rparr>"
  have c1: "candidates ?s1 ?tk1 = ks"
    by (rule candidates_step [OF Cons.prems(1,2)]) simp_all
  have o1: "in_order ?s1" using Cons.prems(2) by (simp add: in_order_def)
  have kn: "knows ?d1 now (ss_serverId ?s1)"
    using still_knows [OF Cons.prems(5,6)] by simp
  have ttl: "valid_ttl (startupTimeoutMs ?s1)" using Cons.prems(6) by (simp add: startupTimeoutMs_def)
  from Cons.IH [OF c1 o1 _ _ kn ttl] Cons.prems(3,4)
  obtain m' log' tk' d' where rest:
    "(answer beat register become_ready e now t ^^ (2 * length ks)) (reassert_next e now True t ?tk1 ?s1, ?d1) =
       (tick_finish e now True t tk' (?s1\<lparr>ss_ticks := m', ss_log := ss_log ?s1 @ log'\<rparr>), d')"
    "kills (?s1\<lparr>ss_ticks := m', ss_log := ss_log ?s1 @ log'\<rparr>) = kills ?s1" "list_all plain log'"
    "tk_desired tk' = tk_desired ?tk1" "tk_snapshotAt tk' = tk_snapshotAt ?tk1"
    "tk_reasserted tk' = tk_reasserted ?tk1 \<union> (rp_roomId \<circ> f) ` set ks"
    "\<forall>r. running d' now r =
        (case find (\<lambda>k. rp_roomId (f k) = r) ks of None \<Rightarrow> running ?d1 now r
         | Some k \<Rightarrow> Some (ss_serverId ?s1, the (rp_endpoint (f k)), rp_roomSecret (f k)))"
    by force
  have whole: "(answer beat register become_ready e now t ^^ (2 * length (k # ks))) (reassert_next e now True t tk s, d) =
      (tick_finish e now True t tk' (?s1\<lparr>ss_ticks := m', ss_log := ss_log ?s1 @ log'\<rparr>), d')"
  proof -
    have "2 * length (k # ks) = 2 * length ks + 2" by simp
    then show ?thesis by (simp only: funpow_add comp_apply step rest(1))
  qed
  have none: "find (\<lambda>k. rp_roomId (f k) = rp_roomId p) ks = None"
    using Cons.prems(4) p(3) by (auto simp: find_None_iff image_iff)
  have run: "running d' now r =
        (case find (\<lambda>k. rp_roomId (f k) = r) (k # ks) of None \<Rightarrow> running d now r
         | Some k \<Rightarrow> Some (ss_serverId s, the (rp_endpoint (f k)), rp_roomSecret (f k)))" for r
    using rest(7) none p runs [OF Cons.prems(5,6)] by (cases "r = rp_roomId p") (auto split: option.split)
  show ?case
    by (intro exI [of _ m'] exI [of _ "log @ log'"] exI [of _ tk'] exI [of _ d'])
      (use whole run rest(2-6) k1 p(3) in simp)
qed

end

section \<open>The rooms to restore\<close>

lemma stall_fold_id:
  "\<forall>(r, b)\<in>set beats. now - b \<le> stallTimeoutMs s \<Longrightarrow> fold (stall_check e now) beats s = s"
  by (induction beats) (auto simp: stall_check_def)

text \<open>The rooms a recovery restores: ready, with an endpoint.\<close>

definition restorable :: "server \<Rightarrow> nat \<Rightarrow> bool" where
  "restorable s k \<longleftrightarrow>
     (case jm_get (ss_objects s) k of None \<Rightarrow> False
      | Some p \<Rightarrow> rp_status p = IsReady \<and> rp_endpoint p \<noteq> None \<and> rp_endpoint p \<noteq> Some [])"

lemma object_key:
  assumes core: "core_inv {} s" and k: "k \<in> set (jm_values (ss_processes s))"
  shows "rp_roomId (the (jm_get (ss_objects s) k)) = r \<longleftrightarrow> jm_get (ss_processes s) r = Some k"
proof -
  obtain r0 where r0: "jm_get (ss_processes s) r0 = Some k"
    using k core_parts(1) [OF core] by (auto simp: maps_wf_def jm_values_iff)
  then obtain p where "jm_get (ss_objects s) k = Some p" "rp_roomId p = r0" using entryD [OF core] by blast
  then have id: "rp_roomId (the (jm_get (ss_objects s) k)) = r0" by simp
  show ?thesis
  proof
    assume "rp_roomId (the (jm_get (ss_objects s) k)) = r"
    with r0 id show "jm_get (ss_processes s) r = Some k" by simp
  next
    assume "jm_get (ss_processes s) r = Some k"
    with core_entry_unique [OF core r0] have "r0 = r" .
    with id show "rp_roomId (the (jm_get (ss_objects s) k)) = r" by simp
  qed
qed


definition ready_objects :: "server \<Rightarrow> nat list" where
  "ready_objects s = filter (restorable s) (jm_values (ss_processes s))"

definition object_of :: "server \<Rightarrow> nat \<Rightarrow> room_process" where
  "object_of s k = the (jm_get (ss_objects s) k)"

lemma ready_objects_known:
  "\<forall>k \<in> set (ready_objects s). \<exists>p. jm_get (ss_objects s) k = Some p \<and> rp_endpoint p \<noteq> None \<and> object_of s k = p"
  by (auto simp: ready_objects_def restorable_def object_of_def split: option.splits)

lemma ready_objects_distinct:
  assumes core: "core_inv {} s"
  shows "distinct (map (rp_roomId \<circ> object_of s) (ready_objects s))"
proof -
  have wf: "jm_wf (ss_processes s)" using core_parts(1) [OF core] by (simp add: maps_wf_def)
  have entry: "\<exists>p. jm_get (ss_objects s) k = Some p \<and> rp_roomId p = r" if "jm_get (ss_processes s) r = Some k" for r k
    using entryD [OF core, of r k] that by auto
  have "map (rp_roomId \<circ> object_of s) (jm_values (ss_processes s)) = jm_keys (ss_processes s)"
    unfolding jm_values_def jm_keys_def map_map
    by (rule map_cong) (use entry jm_mem_get [OF wf] in \<open>fastforce simp: object_of_def\<close>)+
  then have "distinct (map (rp_roomId \<circ> object_of s) (jm_values (ss_processes s)))"
    using wf by (simp add: jm_wf_def jm_keys_def)
  then show ?thesis by (simp add: ready_objects_def distinct_map_filter)
qed

lemma ready_object_room:
  assumes core: "core_inv {} s" and e: "jm_get (ss_processes s) r = Some k"
  shows "r \<in> (rp_roomId \<circ> object_of s) ` set (ready_objects s) \<longleftrightarrow> restorable s k"
    and "restorable s k \<Longrightarrow> find (\<lambda>k. rp_roomId (object_of s k) = r) (ready_objects s) = Some k"
proof -
  have wf: "jm_wf (ss_processes s)" using core_parts(1) [OF core] by (simp add: maps_wf_def)
  have k: "k \<in> set (jm_values (ss_processes s))" using e jm_values_iff [OF wf] by blast
  have key: "rp_roomId (object_of s k') = r \<longleftrightarrow> k' = k" if "k' \<in> set (jm_values (ss_processes s))" for k'
    using object_key [OF core that, of r] e by (auto simp: object_of_def)
  show "r \<in> (rp_roomId \<circ> object_of s) ` set (ready_objects s) \<longleftrightarrow> restorable s k"
    using key k by (force simp: ready_objects_def)
  assume "restorable s k"
  then have mem: "k \<in> set (ready_objects s)" using k by (simp add: ready_objects_def)
  then obtain k' where k': "find (\<lambda>k. rp_roomId (object_of s k) = r) (ready_objects s) = Some k'"
    using key k by (cases "find (\<lambda>k. rp_roomId (object_of s k) = r) (ready_objects s)") (auto simp: find_None_iff)
  then have "k' \<in> set (ready_objects s)" "rp_roomId (object_of s k') = r" by (auto simp: find_Some_iff)
  then have "k' = k" using key by (simp add: ready_objects_def)
  with k' show "find (\<lambda>k. rp_roomId (object_of s k) = r) (ready_objects s) = Some k" by simp
qed

text \<open>What the sweep after the recovery kills.\<close>

lemma recovery_kills:
  assumes inv: "server_inv (now, s)" and tk: "tk_desired tk = []" "tk_snapshotAt tk = now"
    and reass: "tk_reasserted tk = (rp_roomId \<circ> object_of s) ` set (ready_objects s)"
  shows "kills (tick_finish e now True t tk s) =
    kills s @ map snd (filter (\<lambda>(r, k). \<not> restorable s k \<and> \<not> spawnedAfter s r now \<and> can_kill s k) (ss_processes s))"
proof -
  have core: "core_inv {} s" by (rule reachable_core [OF inv])
  have wf: "jm_wf (ss_processes s)" using core_parts(1) [OF core] by (simp add: maps_wf_def)
  have unw: "unwanted s tk r \<longleftrightarrow> r \<notin> (rp_roomId \<circ> object_of s) ` set (ready_objects s) \<and> \<not> spawnedAfter s r now" for r
    by (simp add: unwanted_def tk reass)
  have "filter (\<lambda>(r, k). unwanted s tk r \<and> can_kill s k) (ss_processes s) =
      filter (\<lambda>(r, k). \<not> restorable s k \<and> \<not> spawnedAfter s r now \<and> can_kill s k) (ss_processes s)"
  proof (rule filter_cong [OF refl])
    fix x assume mem: "x \<in> set (ss_processes s)"
    obtain r k where x: "x = (r, k)" by (rule prod.exhaust)
    have e: "jm_get (ss_processes s) r = Some k" using mem x jm_mem_get [OF wf, of r k] by simp
    show "(case x of (r, k) \<Rightarrow> unwanted s tk r \<and> can_kill s k) =
        (case x of (r, k) \<Rightarrow> \<not> restorable s k \<and> \<not> spawnedAfter s r now \<and> can_kill s k)"
      unfolding x prod.case unw ready_object_room(1) [OF core e] by (rule conj_assoc)
  qed
  then show ?thesis using finish_kills [OF inv, of e True t tk] by simp
qed

section \<open>Recovery\<close>

locale reap_recovery = room_registry register become_ready knows running
  for register :: "'d \<Rightarrow> ms \<Rightarrow> string \<Rightarrow> string \<Rightarrow> string \<Rightarrow> room_data \<Rightarrow> ms \<Rightarrow> bool \<times> 'd"
    and become_ready :: "'d \<Rightarrow> ms \<Rightarrow> string \<Rightarrow> string \<Rightarrow> string \<Rightarrow> bool \<times> 'd"
    and knows :: "'d \<Rightarrow> ms \<Rightarrow> string \<Rightarrow> bool"
    and running :: "'d \<Rightarrow> ms \<Rightarrow> string \<Rightarrow> (string \<times> string \<times> string) option" +
  fixes beat :: "'d \<Rightarrow> ms \<Rightarrow> heartbeat_options \<Rightarrow> heartbeat_result option \<times> 'd"
    and forgot :: "'d \<Rightarrow> ms \<Rightarrow> string \<Rightarrow> bool"
  assumes registers_anew: "forgot d now (ho_serverId opts) \<Longrightarrow> validateTags (ho_tags opts) = Inr () \<Longrightarrow>
      \<exists>d1. beat d now opts = (Some \<lparr>hr_tags = ho_tags opts, hr_desiredRooms = [], hr_registered = True\<rparr>, d1) \<and>
        knows d1 now (ho_serverId opts)"
begin

text \<open>The state in which the heartbeat reply of a fresh tick has been taken over.\<close>

lemma tick_reply:
  assumes inv: "server_inv (now, s)" and prev: "ss_previouslyRegistered s"
    and d: "forgot d now (ss_serverId s)" and tags: "validateTags (ss_serverTags s) = Inr ()"
    and beats: "\<forall>(r, b)\<in>set (ss_lastHeartbeats s). now - b \<le> stallTimeoutMs s"
  shows "\<exists>s2 tk d1. answer beat register become_ready e now (ss_next s) (heartbeatTick now ep s, d) =
      (reassert_next e now True (ss_next s) tk s2, d1) \<and>
    server_inv (now, s2) \<and> kills s2 = kills s \<and> ss_processes s2 = ss_processes s \<and> ss_objects s2 = ss_objects s \<and>
    ss_attempted s2 = ss_attempted s \<and> ss_serverId s2 = ss_serverId s \<and> ss_options s2 = ss_options s \<and>
    tk_desired tk = [] \<and> tk_reasserted tk = {} \<and> tk_cursor tk = 0 \<and> tk_snapshotAt tk = now \<and>
    knows d1 now (ss_serverId s)"
proof -
  define s1 where "s1 = heartbeatTick now ep s"
  define s2 where "s2 = s1\<lparr>ss_serverTags := ss_serverTags s, ss_lastDriverHeartbeatAt := now, ss_outageLogged := False\<rparr>"
  define tk where "tk = \<lparr>tk_snapshotAt = now, tk_phase = AwaitHeartbeat, tk_desired = [], tk_reasserted = {}, tk_cursor = 0\<rparr>"
  let ?opts = "\<lparr>ho_serverId = ss_serverId s, ho_endpoint = ep, ho_tags = ss_serverTags s, ho_roomTypes = ss_knownRoomTypes s\<rparr>"
  have f1: "ss_log s1 = ss_log s @ [DrvHeartbeat ?opts]" "jm_get (ss_ticks s1) (ss_next s) = Some tk"
    "ss_processes s1 = ss_processes s" "ss_objects s1 = ss_objects s" "ss_attempted s1 = ss_attempted s"
    "ss_serverId s1 = ss_serverId s" "ss_options s1 = ss_options s" "ss_lastHeartbeats s1 = ss_lastHeartbeats s"
    "ss_previouslyRegistered s1 = ss_previouslyRegistered s"
    by (simp_all add: s1_def heartbeatTick_def logHeartbeatOutage_def Let_def tk_def)
  obtain d1 where beat: "beat d now ?opts =
      (Some \<lparr>hr_tags = ss_serverTags s, hr_desiredRooms = [], hr_registered = True\<rparr>, d1)"
    and knows: "knows d1 now (ss_serverId s)"
    using registers_anew [of d now ?opts] d tags by auto
  have inv2: "server_inv (now, s2)"
    by (rule server_inv_cong [OF server_inv_begin_tick [OF inv, of ep]]) (simp_all add: s2_def s1_def)
  have "checkHeartbeats e now s2 = s2"
    unfolding checkHeartbeats_def
    by (rule stall_fold_id) (use beats in \<open>simp add: s2_def f1 stallTimeoutMs_def\<close>)
  then have "answer beat register become_ready e now (ss_next s) (s1, d) =
      (reassert_next e now True (ss_next s) (tk\<lparr>tk_desired := []\<rparr>) s2, d1)"
    using f1 beat prev by (simp add: answer_def tick_heartbeat_def Let_def s2_def [symmetric] tk_def)
      (simp add: s2_def f1)
  moreover have "kills s2 = kills s" by (simp add: kills_def s2_def f1 map_filter_def)
  ultimately show ?thesis
    using inv2 knows
    by (intro exI [of _ s2] exI [of _ "tk\<lparr>tk_desired := []\<rparr>"] exI [of _ d1]) (simp add: s1_def [symmetric] s2_def f1 tk_def)
qed

lemma recovers:
  assumes inv: "server_inv (now, s)" and prev: "ss_previouslyRegistered s"
    and d: "forgot d now (ss_serverId s)" and tags: "validateTags (ss_serverTags s) = Inr ()"
    and beats: "\<forall>(r, b)\<in>set (ss_lastHeartbeats s). now - b \<le> stallTimeoutMs s"
    and ttl: "valid_ttl (startupTimeoutMs s)"
  shows "\<exists>n s' d'.
     (answer beat register become_ready e now (ss_next s) ^^ n) (heartbeatTick now ep s, d) = (s', d') \<and>
     (\<forall>r k p. jm_get (ss_processes s) r = Some k \<and> jm_get (ss_objects s) k = Some p \<and> restorable s k \<longrightarrow>
        running d' now r = Some (ss_serverId s, the (rp_endpoint p), rp_roomSecret p)) \<and>
     kills s' = kills s @ map snd (filter (\<lambda>(r, k). \<not> restorable s k \<and> \<not> spawnedAfter s r now \<and> can_kill s k)
                                          (ss_processes s))"
proof -
  let ?t = "ss_next s" and ?step = "answer beat register become_ready e now (ss_next s)"
  obtain s2 tk d1 where first: "?step (heartbeatTick now ep s, d) = (reassert_next e now True ?t tk s2, d1)"
    and s2: "server_inv (now, s2)" "kills s2 = kills s" "ss_processes s2 = ss_processes s" "ss_objects s2 = ss_objects s"
      "ss_attempted s2 = ss_attempted s" "ss_serverId s2 = ss_serverId s" "ss_options s2 = ss_options s"
    and tk: "tk_desired tk = []" "tk_reasserted tk = {}" "tk_cursor tk = 0" "tk_snapshotAt tk = now"
    and knows: "knows d1 now (ss_serverId s)"
    using tick_reply [OF inv prev d tags beats] by blast
  have core: "core_inv {} s2" by (rule reachable_core [OF s2(1)])
  let ?ks = "ready_objects s2"
  have ks: "candidates s2 tk = ?ks"
  proof -
    have "reassertable s2 tk k = restorable s2 k" for k
      by (simp add: reassertable_def restorable_def tk(1) split: option.split)
    then show ?thesis by (simp add: candidates_def ready_objects_def tk(3))
  qed
  have knows2: "knows d1 now (ss_serverId s2)" and ttl2: "valid_ttl (startupTimeoutMs s2)"
    using knows ttl by (simp_all add: s2(6,7) startupTimeoutMs_def)
  obtain m log tk' d' where loop:
     "(?step ^^ (2 * length ?ks)) (reassert_next e now True ?t tk s2, d1) =
       (tick_finish e now True ?t tk' (s2\<lparr>ss_ticks := m, ss_log := ss_log s2 @ log\<rparr>), d')"
     and k3: "kills (s2\<lparr>ss_ticks := m, ss_log := ss_log s2 @ log\<rparr>) = kills s2" "list_all plain log"
     and tk': "tk_desired tk' = tk_desired tk" "tk_snapshotAt tk' = tk_snapshotAt tk"
       "tk_reasserted tk' = tk_reasserted tk \<union> (rp_roomId \<circ> object_of s2) ` set ?ks"
     and run: "\<forall>r. running d' now r =
        (case find (\<lambda>k. rp_roomId (object_of s2 k) = r) ?ks of None \<Rightarrow> running d1 now r
         | Some k \<Rightarrow> Some (ss_serverId s2, the (rp_endpoint (object_of s2 k)), rp_roomSecret (object_of s2 k)))"
    using reassert_all [OF ks core_parts(6) [OF core] ready_objects_known ready_objects_distinct [OF core] knows2 ttl2]
    by blast
  let ?s3 = "s2\<lparr>ss_ticks := m, ss_log := ss_log s2 @ log\<rparr>"
  have inv3: "server_inv (now, ?s3)"
    using server_inv_tell [OF server_inv_ticks [OF s2(1), of m] k3(2)] by (simp add: tell_def)
  have rest: "restorable ?s3 = restorable s" "restorable s2 = restorable s"
    by (rule ext, simp add: restorable_def s2(4))+
  have same: "object_of ?s3 = object_of s2" "ready_objects ?s3 = ?ks" "can_kill ?s3 k = can_kill s k"
    "spawnedAfter ?s3 r n = spawnedAfter s r n" for k r n
    by (rule ext, simp add: object_of_def) (simp_all add: ready_objects_def rest can_kill_def spawnedAfter_def s2(4,5))
  have "running d' now r = Some (ss_serverId s, the (rp_endpoint p), rp_roomSecret p)"
    if "jm_get (ss_processes s) r = Some k" "jm_get (ss_objects s) k = Some p" "restorable s k" for r k p
    using ready_object_room(2) [OF core, of r k] that run by (simp add: s2(3,4,6) rest(2) object_of_def)
  moreover have "kills (tick_finish e now True ?t tk' ?s3) =
      kills s @ map snd (filter (\<lambda>(r, k). \<not> restorable s k \<and> \<not> spawnedAfter s r now \<and> can_kill s k) (ss_processes s))"
    using recovery_kills [OF inv3, of tk' e ?t] tk' tk k3(1) by (simp add: same rest s2(2,3))
  moreover have "(?step ^^ (2 * length ?ks + 1)) (heartbeatTick now ep s, d) = (tick_finish e now True ?t tk' ?s3, d')"
    by (simp only: funpow_add comp_apply One_nat_def funpow.simps id_apply first loop)
  ultimately show ?thesis by blast
qed

end

section \<open>A live server to apply it to\<close>

definition demo_alive :: server where
  "demo_alive = demo_running\<lparr>ss_previouslyRegistered := True\<rparr>"

lemma demo_alive_inv: "server_inv (20, demo_alive)"
  by (rule server_inv_cong [OF demo_running_inv]) (simp_all add: demo_alive_def)

lemma demo_alive_ready:
  "ss_previouslyRegistered demo_alive" "validateTags (ss_serverTags demo_alive) = Inr ()"
  "\<forall>(r, b)\<in>set (ss_lastHeartbeats demo_alive). 20 - b \<le> stallTimeoutMs demo_alive"
  "valid_ttl (startupTimeoutMs demo_alive)"
  by code_simp+

lemma demo_alive_room:
  "jm_get (ss_processes demo_alive) ''r1'' = Some 0" "restorable demo_alive 0" "ss_serverId demo_alive = ''srv''"
  "case jm_get (ss_objects demo_alive) 0 of None \<Rightarrow> False
    | Some p \<Rightarrow> rp_endpoint p = Some ''ws://r1'' \<and> rp_roomSecret p = ''secret''"
  by code_simp+

lemma demo_alive_kept:
  "kills demo_alive @ map snd (filter (\<lambda>(r, k). \<not> restorable demo_alive k \<and> \<not> spawnedAfter demo_alive r 20
     \<and> can_kill demo_alive k) (ss_processes demo_alive)) = []"
  by code_simp

end
