(* ===== verification/Server_Driver.thy ===== *)
theory Server_Driver
  imports Reap_Recovery Memory_Driver_Correct
begin

text \<open>
  The server together with the memory driver, which keeps the contract of \<open>Reap_Recovery\<close>. Client
  reconciliation is then proved to converge on the memory driver.
\<close>

section \<open>The memory driver keeps the contract\<close>

definition mem_beat :: "memory_driver \<Rightarrow> ms \<Rightarrow> heartbeat_options \<Rightarrow> heartbeat_result option \<times> memory_driver" where
  "mem_beat d now opts = (case heartbeat d now opts of (Inr r, d1) \<Rightarrow> (Some r, d1) | (Inl _, d1) \<Rightarrow> (None, d1))"

definition mem_register ::
    "memory_driver \<Rightarrow> ms \<Rightarrow> string \<Rightarrow> string \<Rightarrow> string \<Rightarrow> room_data \<Rightarrow> ms \<Rightarrow> bool \<times> memory_driver" where
  "mem_register d now r ty v data ttl =
     (case registerRoom d now r ty v data [] (Fin (of_int ttl)) of (x, d1) \<Rightarrow> (x = Inr (), d1))"

definition mem_knows :: "memory_driver \<Rightarrow> string \<Rightarrow> bool" where
  "mem_knows d v \<longleftrightarrow> driver_inv d \<and> jm_get (servers d) v \<noteq> None"

definition running_room :: "room_record \<Rightarrow> (string \<times> string \<times> string) option" where
  "running_room rr =
     (case (rr_status rr, rr_endpoint rr, rr_roomSecret rr) of
        (Running, Some ep, Some sec) \<Rightarrow> Some (rr_serverId rr, ep, sec) | _ \<Rightarrow> None)"

definition mem_running :: "memory_driver \<Rightarrow> string \<Rightarrow> (string \<times> string \<times> string) option" where
  "mem_running d r = Option.bind (jm_get (rooms d) r) running_room"

lemma mem_register_eq:
  assumes "mem_knows d v" and "valid_ttl ttl"
  shows "fst (mem_register d now r ty v data ttl)"
    and "rooms (snd (mem_register d now r ty v data ttl)) = jm_set (rooms d) r
           \<lparr>rr_roomId = r, rr_roomType = ty, rr_serverId = v, rr_status = Requested, rr_endpoint = None,
            rr_roomSecret = None, rr_data = data, rr_tags = [], rr_createdAt = now, rr_requestedExpiresAt = now + ttl\<rparr>"
    and "servers (snd (mem_register d now r ty v data ttl)) = servers d"
    and "driver_inv (snd (mem_register d now r ty v data ttl))"
proof -
  have ttl: "validateRequestedRoomTtl (Fin (of_int ttl)) = Inr ()"
    using assms(2) by (auto simp: validateRequestedRoomTtl_ok valid_ttl_def)
  have eq: "registerRoom d now r ty v data [] (Fin (of_int ttl)) =
     (Inr (), emit (ChRoomAssigned v)
        (EvAssigned \<lparr>dr_roomId = r, dr_roomType = ty, dr_data = data, dr_status = Requested\<rparr>)
        (d\<lparr>rooms := jm_set (rooms d) r
           \<lparr>rr_roomId = r, rr_roomType = ty, rr_serverId = v, rr_status = Requested, rr_endpoint = None,
            rr_roomSecret = None, rr_data = data, rr_tags = [], rr_createdAt = now, rr_requestedExpiresAt = now + ttl\<rparr>\<rparr>))"
    using assms(1) ttl by (auto simp: registerRoom_def mem_knows_def Let_def)
  show "fst (mem_register d now r ty v data ttl)" "servers (snd (mem_register d now r ty v data ttl)) = servers d"
    "rooms (snd (mem_register d now r ty v data ttl)) = jm_set (rooms d) r
           \<lparr>rr_roomId = r, rr_roomType = ty, rr_serverId = v, rr_status = Requested, rr_endpoint = None,
            rr_roomSecret = None, rr_data = data, rr_tags = [], rr_createdAt = now, rr_requestedExpiresAt = now + ttl\<rparr>"
    by (simp_all add: mem_register_def eq)
  show "driver_inv (snd (mem_register d now r ty v data ttl))"
    using driver_inv_registerRoom [of d now r ty v data "[]" "Fin (of_int ttl)"] assms(1)
    by (simp add: mem_register_def mem_knows_def case_prod_unfold)
qed

lemma mem_ready_fields:
  assumes "driver_inv d"
  shows "jm_get (rooms (snd (roomReady d now r ep sec))) r' =
      (case jm_get (rooms d) r' of None \<Rightarrow> None
       | Some rr \<Rightarrow>
           if lapsed now rr then None
           else if r' = r then Some (rr\<lparr>rr_status := Running, rr_endpoint := Some ep, rr_roomSecret := Some sec,
                                      rr_requestedExpiresAt := 0\<rparr>)
           else Some rr)"
    and "fst (roomReady d now r ep sec) \<longleftrightarrow> (\<exists>rr. jm_get (rooms d) r = Some rr \<and> \<not> lapsed now rr)"
    and "servers (snd (roomReady d now r ep sec)) = servers d"
  using driver_invD(1) [OF assms]
  by (auto simp: roomReady_def Let_def sweep_fields split: option.splits)

definition mem_forgot :: "memory_driver \<Rightarrow> ms \<Rightarrow> string \<Rightarrow> bool" where
  "mem_forgot d now v \<longleftrightarrow> driver_inv d \<and> jm_get (servers d) v = None"

lemma mem_beat_unknown:
  assumes d: "driver_inv d" "jm_get (servers d) (ho_serverId opts) = None" and tags: "validateTags (ho_tags opts) = Inr ()"
  shows "\<exists>d1. mem_beat d now opts =
      (Some \<lparr>hr_tags = ho_tags opts, hr_desiredRooms = [], hr_registered = True\<rparr>, d1) \<and> mem_knows d1 (ho_serverId opts)"
proof -
  let ?d1 = "sweepExpiredRequestedRooms (heartbeat_register d now opts) now"
  have eq: "heartbeat d now opts = (Inr \<lparr>hr_tags = ho_tags opts, hr_desiredRooms = [], hr_registered = True\<rparr>, ?d1)"
    using d(2) tags desired_after_register [OF d, of now] by (simp add: heartbeat_def Let_def)
  have "driver_inv ?d1" using driver_inv_heartbeat [OF d(1), of now opts] by (simp add: eq)
  then have "mem_knows ?d1 (ho_serverId opts)"
    by (simp add: mem_knows_def servers_after_register [OF d(1)])
  with eq show ?thesis by (simp add: mem_beat_def)
qed

interpretation mem: reap_recovery mem_register roomReady "\<lambda>d _. mem_knows d" "\<lambda>d _. mem_running d" mem_beat mem_forgot
proof
  fix d :: memory_driver and v ty r r' ep sec :: string and ttl now :: ms and data :: room_data
  assume k: "mem_knows d v" and ttl: "valid_ttl ttl"
  let ?d1 = "snd (mem_register d now r ty v data ttl)"
  note reg = mem_register_eq [OF k ttl, of now r ty data]
  note rdy = mem_ready_fields [OF reg(4), of now r ep sec]
  have pos: "0 < ttl" using ttl by (simp add: valid_ttl_def)
  show "fst (mem_register d now r ty v data ttl)" by (rule reg(1))
  show "fst (roomReady ?d1 now r ep sec)" using pos by (simp add: rdy(2) reg(2) lapsed_def)
  have gone: "running_room rr = None" if "lapsed now rr" for rr
    using that by (simp add: lapsed_def running_room_def)
  show "mem_running (snd (roomReady ?d1 now r ep sec)) r' = (if r' = r then Some (v, ep, sec) else mem_running d r')"
    using pos gone by (auto simp: mem_running_def rdy(1) reg(2) lapsed_def running_room_def split: option.split)
  show "mem_knows (snd (roomReady ?d1 now r ep sec)) v"
    using k driver_inv_roomReady [OF reg(4)] by (simp add: mem_knows_def rdy(3) reg(3))
qed (rule mem_beat_unknown; simp add: mem_forgot_def)

text \<open>
  C8: A server whose driver record was reaped while it was alive recovers with its next tick.
  Every local room that is ready runs again in the driver, on this server, with its endpoint and
  secret, and no such room is killed; the sweep kills only the rooms that were not ready. (The
  memory driver answers every call at once, the tick stays current and no room has stalled.)
\<close>

theorem reaped_server_recovers:
  assumes inv: "server_inv (now, s)" and prev: "ss_previouslyRegistered s"
    and d: "driver_inv d" "jm_get (servers d) (ss_serverId s) = None" and tags: "validateTags (ss_serverTags s) = Inr ()"
    and beats: "\<forall>(r, b)\<in>set (ss_lastHeartbeats s). now - b \<le> stallTimeoutMs s"
    and ttl: "valid_ttl (startupTimeoutMs s)"
  shows "\<exists>n s' d'.
     (answer mem_beat mem_register roomReady e now (ss_next s) ^^ n) (heartbeatTick now ep s, d) = (s', d') \<and>
     (\<forall>r k p. jm_get (ss_processes s) r = Some k \<and> jm_get (ss_objects s) k = Some p \<and> restorable s k \<longrightarrow>
        mem_running d' r = Some (ss_serverId s, the (rp_endpoint p), rp_roomSecret p)) \<and>
     kills s' = kills s @ map snd (filter (\<lambda>(r, k). \<not> restorable s k \<and> \<not> spawnedAfter s r now \<and> can_kill s k)
                                          (ss_processes s))"
proof -
  have "mem_forgot d now (ss_serverId s)" using d by (simp add: mem_forgot_def)
  from mem.recovers [OF inv prev this tags beats ttl] show ?thesis .
qed

theorem reaped_server_recovers_witness:
  "\<exists>n s' d'.
     (answer mem_beat mem_register roomReady demo_env 20 (ss_next demo_alive) ^^ n)
       (heartbeatTick 20 ''http://a'' demo_alive, createMemoryDriver None) = (s', d') \<and>
     mem_running d' ''r1'' = Some (''srv'', ''ws://r1'', ''secret'') \<and> kills s' = []"
proof -
  have unknown: "jm_get (servers (createMemoryDriver None)) (ss_serverId demo_alive) = None"
    by (simp add: createMemoryDriver_def)
  show ?thesis
    using reaped_server_recovers [OF demo_alive_inv demo_alive_ready(1) driver_inv_create unknown demo_alive_ready(2-4),
        of demo_env "''http://a''"] demo_alive_room
    unfolding demo_alive_kept by (fastforce split: option.splits)
qed

section \<open>Client reconciliation\<close>

text \<open>What the memory driver does with the calls reconciliation makes.\<close>

fun drive :: "ms \<Rightarrow> server_action \<Rightarrow> memory_driver \<Rightarrow> memory_driver" where
  "drive now (DrvConnectClient clientId roomId tags) d = connectClient d now clientId roomId tags"
| "drive now (DrvDisconnectClient clientId) d = disconnectClient d clientId"
| "drive now _ d = d"

definition connected_in :: "memory_driver \<Rightarrow> string \<Rightarrow> string \<Rightarrow> bool" where
  "connected_in d roomId c \<longleftrightarrow>
     (\<exists>cl. jm_get (clients d) c = Some cl \<and> cl_roomId cl = roomId \<and> cl_status cl = Connected)"

lemma find_client:
  assumes inv: "driver_inv d"
  shows "find (\<lambda>x. ci_clientId x = c) (getClientsForRoom d roomId) =
     (case jm_get (clients d) c of None \<Rightarrow> None
      | Some cl \<Rightarrow> if cl_roomId cl = roomId then Some (client_to_info cl) else None)"
proof -
  have own: "cl_clientId cl = k" if "(k, cl) \<in> set (clients d)" for k cl
    using driver_invD(5) [OF inv, of k cl] that jm_mem_get [OF driver_invD(2) [OF inv]] by (simp add: client_ok_def)
  have "find (\<lambda>x. ci_clientId x = c) (map client_to_info (filter (\<lambda>cl. cl_roomId cl = roomId) (map snd m))) =
     (case map_of m c of None \<Rightarrow> None | Some cl \<Rightarrow> if cl_roomId cl = roomId then Some (client_to_info cl) else None)"
    if "\<forall>(k, cl)\<in>set m. cl_clientId cl = k" "distinct (map fst m)" for m
    using that
  proof (induction m)
    case (Cons a m)
    have "map_of m (fst a) = None" using Cons.prems(2) by (simp add: map_of_eq_None_iff)
    with Cons show ?case by (auto simp: client_to_info_def)
  qed simp
  then show ?thesis
    using own driver_invD(2) [OF inv] by (force simp: getClientsForRoom_def jm_values_def jm_get_def jm_wf_def)
qed

lemma drive_connects:
  assumes "distinct (map hc_clientId cs)"
  shows "jm_get (clients (fold (drive now) (map (\<lambda>c. DrvConnectClient (hc_clientId c) roomId (hc_tags c)) cs) d)) x =
     (case find (\<lambda>c. hc_clientId c = x) cs of
        None \<Rightarrow> jm_get (clients d) x
      | Some c \<Rightarrow> Some \<lparr>cl_clientId = x, cl_roomId = roomId, cl_status = Connected, cl_expiresAt = 0,
                       cl_tags = hc_tags c, cl_connectedAt = now\<rparr>)"
  using assms
proof (induction cs arbitrary: d)
  case (Cons c cs)
  have "find (\<lambda>c'. hc_clientId c' = hc_clientId c) cs = None"
    using Cons.prems by (auto simp: find_None_iff image_iff)
  with Cons show ?case by (auto simp: connectClient_def split: option.split)
qed simp

lemma drive_disconnects:
  "jm_get (clients (fold (drive now) (map (\<lambda>x. DrvDisconnectClient (ci_clientId x)) xs) d)) x =
     (if x \<in> ci_clientId ` set xs then None else jm_get (clients d) x)"
  by (induction xs arbitrary: d) (auto simp: disconnectClient_def)

lemma in_clients_for_room:
  assumes inv: "driver_inv d"
  shows "y \<in> set (getClientsForRoom d roomId) \<longleftrightarrow>
     (\<exists>cl. jm_get (clients d) (cl_clientId cl) = Some cl \<and> cl_roomId cl = roomId \<and> y = client_to_info cl)"
proof -
  have "cl \<in> set (jm_values (clients d)) \<longleftrightarrow> jm_get (clients d) (cl_clientId cl) = Some cl" for cl
  proof -
    have "jm_get (clients d) k = Some cl \<Longrightarrow> k = cl_clientId cl" for k
      using driver_invD(5) [OF inv, of k cl] by (simp add: client_ok_def)
    then show ?thesis using jm_values_iff [OF driver_invD(2) [OF inv], of cl] by blast
  qed
  then show ?thesis by (auto simp: getClientsForRoom_def)
qed

lemma find_of_filter: "find (\<lambda>c. f c = x) (filter (\<lambda>c. P (f c)) cs) = (if P x then find (\<lambda>c. f c = x) cs else None)"
  by (induction cs) auto

text \<open>
  C19: Reconciliation makes the driver agree with the room's heartbeat: a client the room lists
  is connected to it afterwards (unchanged if it was), a client of the room that the driver has
  as connected since before the heartbeat's snapshot and that the room does not list is removed,
  and every other client record is untouched, in particular one that connected after the snapshot.
\<close>

theorem reconcileClients_converges:
  assumes inv: "driver_inv d" and info: "getRoomInfo d now roomId = (Some info, d1)"
    and distinct: "distinct (map hc_clientId roomClients)"
  shows "jm_get (clients (fold (drive now) (reconcileClients (Some info) roomId roomClients timestamp) d1)) x =
     (case find (\<lambda>c. hc_clientId c = x) roomClients of
        Some c \<Rightarrow>
          (if connected_in d1 roomId x then jm_get (clients d1) x
           else Some \<lparr>cl_clientId = x, cl_roomId = roomId, cl_status = Connected, cl_expiresAt = 0,
                      cl_tags = hc_tags c, cl_connectedAt = now\<rparr>)
      | None \<Rightarrow>
          (if connected_in d1 roomId x \<and> cl_connectedAt (the (jm_get (clients d1) x)) < timestamp then None
           else jm_get (clients d1) x))"
proof -
  have d1: "driver_inv d1"
    using driver_inv_sweep [OF inv, of now] info by (simp add: getRoomInfo_def Let_def)
  have cls: "ri_clients info = getClientsForRoom d1 roomId"
  proof -
    obtain r where "jm_get (rooms d1) roomId = Some r" "info = roomToInfo d1 r"
      using info by (auto simp: getRoomInfo_def Let_def)
    with driver_invD(4) [OF d1] show ?thesis by (auto simp: roomToInfo_def room_ok_def)
  qed
  let ?P = "\<lambda>c. \<not> connected_in d1 roomId (hc_clientId c)"
  have conn: "reconcile_connects info roomId roomClients =
      map (\<lambda>c. DrvConnectClient (hc_clientId c) roomId (hc_tags c)) (filter ?P roomClients)"
    unfolding reconcile_connects_def cls find_client [OF d1] connected_in_def
    by (rule arg_cong [where f = "map _"], rule filter_cong) (auto simp: client_to_info_def split: option.splits)
  let ?Q = "\<lambda>y. ci_status y = Connected \<and> ci_clientId y \<notin> set (map hc_clientId roomClients) \<and> ci_connectedAt y < timestamp"
  have disc: "x \<in> ci_clientId ` set (filter ?Q (getClientsForRoom d1 roomId)) \<longleftrightarrow>
      connected_in d1 roomId x \<and> x \<notin> set (map hc_clientId roomClients) \<and>
      cl_connectedAt (the (jm_get (clients d1) x)) < timestamp" (is "?L \<longleftrightarrow> ?R")
  proof
    assume ?L
    then obtain y where y: "y \<in> set (getClientsForRoom d1 roomId)" "?Q y" "ci_clientId y = x" by auto
    then show ?R using in_clients_for_room [OF d1, of y roomId] by (auto simp: client_to_info_def connected_in_def)
  next
    assume R: ?R
    then obtain cl where cl: "jm_get (clients d1) x = Some cl" "cl_roomId cl = roomId" "cl_status cl = Connected"
      by (auto simp: connected_in_def)
    then have "cl_clientId cl = x" using driver_invD(5) [OF d1 cl(1)] by (simp add: client_ok_def)
    with cl R have "client_to_info cl \<in> set (filter ?Q (getClientsForRoom d1 roomId))" "ci_clientId (client_to_info cl) = x"
      using in_clients_for_room [OF d1, of "client_to_info cl" roomId] by (auto simp: client_to_info_def)
    then show ?L by force
  qed
  have dist: "distinct (map hc_clientId (filter ?P roomClients))"
    using distinct by (simp add: distinct_map_filter)
  have listed: "find (\<lambda>c. hc_clientId c = x) roomClients = None \<longleftrightarrow> x \<notin> set (map hc_clientId roomClients)"
    by (auto simp: find_None_iff)
  show ?thesis
    unfolding reconcileClients_def option.case reconcile_disconnects_def cls conn fold_append comp_apply
      drive_disconnects disc drive_connects [OF dist] find_of_filter [where P = "\<lambda>i. \<not> connected_in d1 roomId i"]
    using listed by (auto split: option.split)
qed

definition demo_clients_driver :: memory_driver where
  "demo_clients_driver =
     connectClient (connectClient (connectClient demo_driver 10 ''c1'' ''r1'' []) 10 ''c2'' ''r1'' []) 30 ''c3'' ''r1'' []"

lemma demo_clients_inv: "driver_inv demo_clients_driver"
  unfolding demo_clients_driver_def connectClient_def
  by (intro driver_inv_client_set demo_driver_inv) (simp_all add: client_ok_def)

theorem reconcileClients_converges_witness:
  "\<exists>info d1. getRoomInfo demo_clients_driver 40 ''r1'' = (Some info, d1) \<and>
     (let d2 = fold (drive 40) (reconcileClients (Some info) ''r1''
                  [\<lparr>hc_clientId = ''c1'', hc_tags = []\<rparr>, \<lparr>hc_clientId = ''c4'', hc_tags = []\<rparr>] 20) d1
      in jm_get (clients d2) ''c2'' = None \<and> jm_get (clients d2) ''c3'' \<noteq> None \<and> jm_get (clients d2) ''c4'' \<noteq> None)"
proof -
  let ?cs = "[\<lparr>hc_clientId = ''c1'', hc_tags = []\<rparr>, \<lparr>hc_clientId = ''c4'', hc_tags = []\<rparr>]"
  obtain info d1 where i: "getRoomInfo demo_clients_driver 40 ''r1'' = (Some info, d1)"
  proof -
    have "fst (getRoomInfo demo_clients_driver 40 ''r1'') \<noteq> None" by code_simp
    then show ?thesis using that by (metis not_None_eq prod.collapse)
  qed
  have facts: "connected_in d1 ''r1'' ''c2''" "cl_connectedAt (the (jm_get (clients d1) ''c2'')) < 20"
    "\<not> cl_connectedAt (the (jm_get (clients d1) ''c3'')) < 20" "jm_get (clients d1) ''c3'' \<noteq> None"
    "\<not> connected_in d1 ''r1'' ''c4''"
  proof -
    have "clients (snd (getRoomInfo demo_clients_driver 40 ''r1'')) = clients demo_clients_driver" by code_simp
    then have "clients d1 = clients demo_clients_driver" by (simp add: i)
    then show "connected_in d1 ''r1'' ''c2''" "cl_connectedAt (the (jm_get (clients d1) ''c2'')) < 20"
      "\<not> cl_connectedAt (the (jm_get (clients d1) ''c3'')) < 20" "jm_get (clients d1) ''c3'' \<noteq> None"
      "\<not> connected_in d1 ''r1'' ''c4''"
      by (simp_all add: connected_in_def demo_clients_driver_def connectClient_def demo_driver_eq)
  qed
  have dist: "distinct (map hc_clientId ?cs)" by simp
  note conv = reconcileClients_converges [OF demo_clients_inv i dist, of 20]
  show ?thesis
    using i conv [of "''c2''"] conv [of "''c3''"] conv [of "''c4''"] facts by (auto simp: Let_def)
qed


end
