(* ===== verification/Create_Scenario.thy ===== *)
theory Create_Scenario
  imports Sdk Server_Driver
begin

text \<open>
  One \<open>createRoom\<close> of the sdk from its call to its result, through the memory driver and the game
  server it names: the schedule in which every call is answered, the assignment is pushed, the
  room reports its port and the ready signal is delivered, with any times between.
\<close>

section \<open>The schedule\<close>









section \<open>The server's part\<close>


section \<open>The driver's part\<close>





section \<open>From the call to the result\<close>






end
