(* ===== verification/Client_Correct.thy ===== *)
theory Client_Correct
  imports Client
begin

text \<open>
  The client connection as a machine: its events, the invariant of its state, sockets and
  timers, and its properties.
\<close>

section \<open>Events\<close>

text \<open>\<open>CeCloseThrows\<close> is a close whose \<open>onDrop\<close> handler, if it is called, throws after its calls.\<close>

datatype client_event =
    CeOpen socket_id
  | CeMessage socket_id ms "byte list option"
  | CeClose socket_id nat string ms "app_call list"
  | CeCloseThrows socket_id nat string ms "app_call list"
  | CeError socket_id
  | CeUptime nat
  | CeBackoff nat
  | CeCall app_call
  | CeUnload

record codec =
  co_pack :: "protocol_message \<Rightarrow> byte list"
  co_unpack :: "byte list \<Rightarrow> protocol_message option"

fun client_step :: "codec \<Rightarrow> connection \<Rightarrow> client_event \<Rightarrow> connection" where
  "client_step c s (CeOpen k) = socket_onopen k s"
| "client_step c s (CeMessage k now d) = socket_onmessage (co_unpack c) k now d s"
| "client_step c s (CeClose k code reason now calls) = socket_onclose (co_pack c) k code reason now calls False s"
| "client_step c s (CeCloseThrows k code reason now calls) = socket_onclose (co_pack c) k code reason now calls True s"
| "client_step c s (CeError k) = socket_onerror k s"
| "client_step c s (CeUptime i) = uptime_fire i s"
| "client_step c s (CeBackoff i) = backoff_fire i s"
| "client_step c s (CeCall a) = app_step (co_pack c) s a"
| "client_step c s CeUnload = onBeforeUnload (co_pack c) s"

text \<open>Whether a close reaches \<open>onDrop\<close>, and whether an event is one whose \<open>onDrop\<close> throws.\<close>

definition reaches_onDrop :: "socket_id \<Rightarrow> nat \<Rightarrow> connection \<Rightarrow> bool" where
  "reaches_onDrop k code s \<longleftrightarrow>
     wired s k \<and> ready s k \<noteq> CLOSED \<and> cc_state s = Open \<and> code \<noteq> CONSENTED \<and>
     cc_sessionToken s \<noteq> None \<and> cc_sessionToken s \<noteq> Some []"

definition drop_throws :: "connection \<Rightarrow> client_event \<Rightarrow> bool" where
  "drop_throws s e \<longleftrightarrow> (case e of CeCloseThrows k code reason now calls \<Rightarrow> reaches_onDrop k code s | _ \<Rightarrow> False)"

section \<open>The invariant\<close>

fun is_close :: "client_action \<Rightarrow> bool" where
  "is_close (CbClose _ _ _) = True"
| "is_close _ = False"

definition closes :: "connection \<Rightarrow> nat" where
  "closes s = length (filter is_close (cc_log s))"

definition live :: "connection \<Rightarrow> socket_id \<Rightarrow> bool" where
  "live s k = (wired s k \<and> ready s k \<noteq> CLOSED)"

definition counts_ok :: "connection \<Rightarrow> bool" where
  "counts_ok s \<longleftrightarrow>
     closes s = (if cc_state s = Closed then 1 else 0) \<and>
     cc_retryCount s \<le> MAX_RECONNECT_ATTEMPTS \<and>
     cc_reliableBufferBytes s = sum_list (map snd (cc_reliableBuffer s)) \<and>
     sum_list (map snd (cc_reliableBuffer s)) \<le> MAX_BUFFER_BYTES \<and>
     (cc_state s = Closed \<longrightarrow> cc_reliableBuffer s = [])"

definition fresh_ok :: "connection \<Rightarrow> bool" where
  "fresh_ok s \<longleftrightarrow>
     (\<forall>k w. jm_get (cc_sockets s) k = Some w \<longrightarrow> k < cc_next s) \<and>
     (\<forall>i \<in> set (cc_backoffs s). i < cc_next s)"

text \<open>
  \<open>mayStick\<close> allows a reconnecting connection that has neither a timer nor a socket, which only an
  \<open>onDrop\<close> that throws leaves behind.
\<close>

definition progress_ok :: "bool \<Rightarrow> connection \<Rightarrow> bool" where
  "progress_ok mayStick s \<longleftrightarrow>
     (cc_state s \<noteq> Closed \<longrightarrow> (\<forall>k. live s k \<longrightarrow> cc_ws s = Some k)) \<and>
     (cc_state s \<in> {Connecting, Open} \<longrightarrow> (\<exists>k. cc_ws s = Some k \<and> live s k)) \<and>
     (cc_state s = Reconnecting \<longrightarrow>
        cc_sessionToken s \<noteq> None \<and> cc_sessionToken s \<noteq> Some [] \<and>
        ((\<exists>i. i \<in> set (cc_backoffs s)) \<or> (\<exists>k. cc_ws s = Some k \<and> live s k \<and> isReconnect s k) \<or>
         mayStick \<and> (\<forall>k. \<not> live s k))) \<and>
     (cc_backoffs s \<noteq> [] \<longrightarrow> cc_state s = Reconnecting \<and> (\<forall>k. \<not> live s k)) \<and>
     (\<forall>i \<in> set (cc_backoffs s). cc_backoffTimer s = Some i) \<and>
     (cc_state s = Connecting \<longrightarrow> (\<forall>k. cc_ws s = Some k \<longrightarrow> \<not> isReconnect s k))"

definition conn_inv :: "bool \<Rightarrow> connection \<Rightarrow> bool" where
  "conn_inv mayStick s \<longleftrightarrow> counts_ok s \<and> fresh_ok s \<and> progress_ok mayStick s"

definition client_inv :: "connection \<Rightarrow> bool" where
  "client_inv s \<longleftrightarrow> conn_inv True s"

section \<open>Field lemmas\<close>

lemma say_fields [simp]:
  "cc_state (say as s) = cc_state s" "cc_ws (say as s) = cc_ws s" "cc_retryCount (say as s) = cc_retryCount s"
  "cc_reliableBuffer (say as s) = cc_reliableBuffer s" "cc_reliableBufferBytes (say as s) = cc_reliableBufferBytes s"
  "cc_sockets (say as s) = cc_sockets s" "cc_backoffs (say as s) = cc_backoffs s" "cc_next (say as s) = cc_next s"
  "cc_backoffTimer (say as s) = cc_backoffTimer s" "cc_sessionToken (say as s) = cc_sessionToken s"
  "cc_log (say as s) = cc_log s @ as" "cc_uptimeTimer (say as s) = cc_uptimeTimer s" "cc_uptimes (say as s) = cc_uptimes s"
  "cc_initialAuthFailed (say as s) = cc_initialAuthFailed s" "cc_consentedClose (say as s) = cc_consentedClose s"
  "cc_openedAt (say as s) = cc_openedAt s" "cc_url (say as s) = cc_url s" "cc_clientId (say as s) = cc_clientId s"
  "cc_unload (say as s) = cc_unload s"
  by (simp_all add: say_def)

text \<open>Everything the invariant reads of the sockets goes through the socket map.\<close>

lemma socket_reads:
  "cc_sockets s' = cc_sockets s \<Longrightarrow> live s' = live s \<and> isReconnect s' = isReconnect s \<and> ready s' = ready s \<and> wired s' = wired s"
  by (simp add: live_def wired_def ready_def isReconnect_def fun_eq_iff)

lemma set_ready_fields [simp]:
  "cc_state (set_ready k r s) = cc_state s" "cc_ws (set_ready k r s) = cc_ws s" "cc_retryCount (set_ready k r s) = cc_retryCount s"
  "cc_reliableBuffer (set_ready k r s) = cc_reliableBuffer s" "cc_reliableBufferBytes (set_ready k r s) = cc_reliableBufferBytes s"
  "cc_backoffs (set_ready k r s) = cc_backoffs s" "cc_next (set_ready k r s) = cc_next s"
  "cc_backoffTimer (set_ready k r s) = cc_backoffTimer s" "cc_sessionToken (set_ready k r s) = cc_sessionToken s"
  "cc_log (set_ready k r s) = cc_log s" "cc_uptimeTimer (set_ready k r s) = cc_uptimeTimer s"
  "cc_initialAuthFailed (set_ready k r s) = cc_initialAuthFailed s" "cc_consentedClose (set_ready k r s) = cc_consentedClose s"
  "cc_openedAt (set_ready k r s) = cc_openedAt s" "cc_uptimes (set_ready k r s) = cc_uptimes s" "cc_url (set_ready k r s) = cc_url s"
  by (simp_all add: set_ready_def split: option.splits)

lemma set_ready_reads [simp]:
  "wired (set_ready k r s) k' = wired s k'" "isReconnect (set_ready k r s) k' = isReconnect s k'"
  "ready (set_ready k r s) k' = (if k' = k \<and> jm_get (cc_sockets s) k \<noteq> None then r else ready s k')"
  by (auto simp: set_ready_def wired_def isReconnect_def ready_def split: option.splits)

lemma live_set_ready: "live (set_ready k r s) k' \<longleftrightarrow> (if k' = k then wired s k \<and> r \<noteq> CLOSED else live s k')"
  unfolding live_def set_ready_reads by (cases "jm_get (cc_sockets s) k") (auto simp: wired_def)

lemma fresh_set_ready: "(\<forall>k' w. jm_get (cc_sockets (set_ready k r s)) k' = Some w \<longrightarrow> k' < n) =
    (\<forall>k' w. jm_get (cc_sockets s) k' = Some w \<longrightarrow> k' < n)"
  by (auto simp: set_ready_def split: option.splits if_splits)

lemma ws_write_fields [simp]:
  "cc_state (ws_write k d s) = cc_state s" "cc_ws (ws_write k d s) = cc_ws s" "cc_retryCount (ws_write k d s) = cc_retryCount s"
  "cc_reliableBuffer (ws_write k d s) = cc_reliableBuffer s" "cc_reliableBufferBytes (ws_write k d s) = cc_reliableBufferBytes s"
  "cc_sockets (ws_write k d s) = cc_sockets s" "cc_backoffs (ws_write k d s) = cc_backoffs s" "cc_next (ws_write k d s) = cc_next s"
  "cc_backoffTimer (ws_write k d s) = cc_backoffTimer s" "cc_sessionToken (ws_write k d s) = cc_sessionToken s"
  "closes (ws_write k d s) = closes s"
  by (simp_all add: ws_write_def closes_def)

lemma closes_say [simp]: "closes (say as s) = closes s + length (filter is_close as)"
  by (simp add: closes_def)

lemma closes_cong: "cc_log s' = cc_log s \<Longrightarrow> closes s' = closes s"
  by (simp add: closes_def)

text \<open>A change of fields the invariant does not read, or a log entry that is no close, keeps it.\<close>

lemma conn_inv_cong:
  assumes "conn_inv mayStick s"
    and "cc_state s' = cc_state s" "cc_ws s' = cc_ws s" "cc_retryCount s' \<le> MAX_RECONNECT_ATTEMPTS"
      "cc_reliableBuffer s' = cc_reliableBuffer s" "cc_reliableBufferBytes s' = cc_reliableBufferBytes s"
      "cc_sockets s' = cc_sockets s" "cc_backoffs s' = cc_backoffs s" "cc_next s \<le> cc_next s'"
      "cc_backoffTimer s' = cc_backoffTimer s" "closes s' = closes s"
      "cc_sessionToken s' = cc_sessionToken s \<or> cc_state s \<noteq> Reconnecting"
  shows "conn_inv mayStick s'"
  using assms socket_reads [OF assms(7)]
  unfolding conn_inv_def counts_ok_def fresh_ok_def progress_ok_def
  by (metis (no_types, lifting) less_le_trans)

lemma progress_cong:
  assumes "cc_state s' = cc_state s" "cc_ws s' = cc_ws s" "cc_sockets s' = cc_sockets s" "cc_backoffs s' = cc_backoffs s"
    "cc_backoffTimer s' = cc_backoffTimer s" "cc_sessionToken s' = cc_sessionToken s"
  shows "progress_ok mayStick s' = progress_ok mayStick s"
  using assms socket_reads [OF assms(3)] by (simp add: progress_ok_def)

lemma fresh_cong: "cc_sockets s' = cc_sockets s \<Longrightarrow> cc_backoffs s' = cc_backoffs s \<Longrightarrow> cc_next s' = cc_next s \<Longrightarrow>
    fresh_ok s' = fresh_ok s"
  by (simp add: fresh_ok_def)

lemma conn_invD:
  assumes "conn_inv mayStick s"
  shows "closes s = (if cc_state s = Closed then 1 else 0)" "cc_retryCount s \<le> MAX_RECONNECT_ATTEMPTS"
    "cc_reliableBufferBytes s = sum_list (map snd (cc_reliableBuffer s))"
    "sum_list (map snd (cc_reliableBuffer s)) \<le> MAX_BUFFER_BYTES"
    "cc_state s = Closed \<Longrightarrow> cc_reliableBuffer s = []" "fresh_ok s" "progress_ok mayStick s"
proof -
  have inv: "counts_ok s \<and> fresh_ok s \<and> progress_ok mayStick s" using assms by (simp add: conn_inv_def)
  note c = conjunct1 [OF inv, unfolded counts_ok_def]
  show "closes s = (if cc_state s = Closed then 1 else 0)" by (rule conjunct1 [OF c])
  note c2 = conjunct2 [OF c]
  show "cc_retryCount s \<le> MAX_RECONNECT_ATTEMPTS" by (rule conjunct1 [OF c2])
  note c3 = conjunct2 [OF c2]
  show "cc_reliableBufferBytes s = sum_list (map snd (cc_reliableBuffer s))" by (rule conjunct1 [OF c3])
  note c4 = conjunct2 [OF c3]
  show "sum_list (map snd (cc_reliableBuffer s)) \<le> MAX_BUFFER_BYTES" by (rule conjunct1 [OF c4])
  show "cc_state s = Closed \<Longrightarrow> cc_reliableBuffer s = []" by (rule mp [OF conjunct2 [OF c4]])
  show "fresh_ok s" "progress_ok mayStick s" using inv by simp_all
qed

lemma conn_invI:
  assumes "closes s = (if cc_state s = Closed then 1 else 0)" "cc_retryCount s \<le> MAX_RECONNECT_ATTEMPTS"
    "cc_reliableBufferBytes s = sum_list (map snd (cc_reliableBuffer s))"
    "sum_list (map snd (cc_reliableBuffer s)) \<le> MAX_BUFFER_BYTES"
    "cc_state s = Closed \<Longrightarrow> cc_reliableBuffer s = []" "fresh_ok s" "progress_ok mayStick s"
  shows "conn_inv mayStick s"
  unfolding conn_inv_def counts_ok_def by (intro conjI impI assms) assumption?

lemma progressD:
  assumes "progress_ok mayStick s"
  shows "cc_state s \<noteq> Closed \<Longrightarrow> live s k \<Longrightarrow> cc_ws s = Some k"
    and "cc_state s = Connecting \<or> cc_state s = Open \<Longrightarrow> \<exists>k. cc_ws s = Some k \<and> live s k"
    and "cc_state s = Reconnecting \<Longrightarrow> cc_sessionToken s \<noteq> None \<and> cc_sessionToken s \<noteq> Some []"
    and "cc_state s = Reconnecting \<Longrightarrow> (\<exists>i. i \<in> set (cc_backoffs s)) \<or> (\<exists>k. cc_ws s = Some k \<and> live s k \<and> isReconnect s k) \<or>
      mayStick \<and> (\<forall>k. \<not> live s k)"
    and "i \<in> set (cc_backoffs s) \<Longrightarrow> cc_state s = Reconnecting \<and> \<not> live s k \<and> cc_backoffTimer s = Some i"
    and "cc_state s = Connecting \<Longrightarrow> cc_ws s = Some k \<Longrightarrow> \<not> isReconnect s k"
proof -
  note p = assms [unfolded progress_ok_def]
  note p1 = conjunct1 [OF p] and p2 = conjunct2 [OF p]
  show "cc_state s \<noteq> Closed \<Longrightarrow> live s k \<Longrightarrow> cc_ws s = Some k" using p1 by blast
  show "cc_state s = Connecting \<or> cc_state s = Open \<Longrightarrow> \<exists>k. cc_ws s = Some k \<and> live s k"
    using conjunct1 [OF p2] by blast
  note p3 = conjunct2 [OF p2]
  show "cc_state s = Reconnecting \<Longrightarrow> cc_sessionToken s \<noteq> None \<and> cc_sessionToken s \<noteq> Some []"
    and "cc_state s = Reconnecting \<Longrightarrow> (\<exists>i. i \<in> set (cc_backoffs s)) \<or> (\<exists>k. cc_ws s = Some k \<and> live s k \<and> isReconnect s k) \<or>
      mayStick \<and> (\<forall>k. \<not> live s k)"
    using conjunct1 [OF p3] by blast+
  note p4 = conjunct2 [OF p3]
  note p5 = conjunct2 [OF p4]
  show "cc_state s = Reconnecting \<and> \<not> live s k \<and> cc_backoffTimer s = Some i" if "i \<in> set (cc_backoffs s)" for i
  proof -
    have "cc_backoffs s \<noteq> []" using that by force
    then show ?thesis using conjunct1 [OF p4] conjunct1 [OF p5] that by blast
  qed
  show "cc_state s = Connecting \<Longrightarrow> cc_ws s = Some k \<Longrightarrow> \<not> isReconnect s k"
    using conjunct2 [OF p5] by blast
qed

section \<open>Every event keeps the invariant\<close>

lemma clear_fields [simp]:
  "cc_state (clearUptime s) = cc_state s" "cc_ws (clearUptime s) = cc_ws s" "cc_retryCount (clearUptime s) = cc_retryCount s"
  "cc_reliableBuffer (clearUptime s) = cc_reliableBuffer s" "cc_reliableBufferBytes (clearUptime s) = cc_reliableBufferBytes s"
  "cc_sockets (clearUptime s) = cc_sockets s" "cc_backoffs (clearUptime s) = cc_backoffs s" "cc_next (clearUptime s) = cc_next s"
  "cc_backoffTimer (clearUptime s) = cc_backoffTimer s" "cc_sessionToken (clearUptime s) = cc_sessionToken s"
  "cc_log (clearUptime s) = cc_log s" "cc_initialAuthFailed (clearUptime s) = cc_initialAuthFailed s"
  "cc_consentedClose (clearUptime s) = cc_consentedClose s" "cc_openedAt (clearUptime s) = cc_openedAt s"
  by (simp_all add: clearUptime_def split: option.splits)

lemma clearTimers_fields [simp]:
  "cc_state (clearTimers s) = cc_state s" "cc_retryCount (clearTimers s) = cc_retryCount s"
  "cc_sockets (clearTimers s) = cc_sockets s" "cc_next (clearTimers s) = cc_next s" "cc_log (clearTimers s) = cc_log s"
  by (simp_all add: clearTimers_def Let_def split: option.splits)

lemma clearTimers_backoffs: "\<forall>i \<in> set (cc_backoffs s). cc_backoffTimer s = Some i \<Longrightarrow> cc_backoffs (clearTimers s) = []"
  by (cases "cc_backoffs s") (auto simp: clearTimers_def Let_def filter_empty_conv removeAll_filter_not_eq split: option.splits)

lemma enterClosed_fields [simp]:
  "cc_state (enterClosed c r x s) = Closed" "cc_ws (enterClosed c r x s) = None"
  "cc_reliableBuffer (enterClosed c r x s) = []" "cc_reliableBufferBytes (enterClosed c r x s) = 0"
  "cc_retryCount (enterClosed c r x s) = cc_retryCount s" "cc_sockets (enterClosed c r x s) = cc_sockets s"
  "cc_next (enterClosed c r x s) = cc_next s" "cc_log (enterClosed c r x s) = cc_log s @ [CbClose c r x]"
  by (simp_all add: enterClosed_def)

text \<open>Closing needs little of the state it leaves: that no close was reported yet.\<close>

lemma conn_inv_enterClosed:
  assumes "closes s = 0" "cc_retryCount s \<le> MAX_RECONNECT_ATTEMPTS" "fresh_ok s"
    and "\<forall>i \<in> set (cc_backoffs s). cc_backoffTimer s = Some i"
  shows "conn_inv mayStick (enterClosed c r x s)"
proof -
  have "cc_backoffs (enterClosed c r x s) = []"
    using clearTimers_backoffs [of "s\<lparr>cc_state := Closed\<rparr>"] assms(4) by (simp add: enterClosed_def)
  moreover have "closes (enterClosed c r x s) = 1"
    using assms(1) by (simp add: closes_def)
  ultimately show ?thesis
    using assms(2,3) by (simp add: conn_inv_def counts_ok_def fresh_ok_def progress_ok_def)
qed

lemma inv_can_close:
  assumes "conn_inv mayStick s" "cc_state s \<noteq> Closed"
  shows "closes s = 0" "cc_retryCount s \<le> MAX_RECONNECT_ATTEMPTS" "fresh_ok s"
    "\<forall>i \<in> set (cc_backoffs s). cc_backoffTimer s = Some i"
  using conn_invD [OF assms(1)] assms(2) progressD(5) [OF conn_invD(7) [OF assms(1)]] by simp_all

lemma conn_inv_close_from:
  assumes "conn_inv mayStick s" "cc_state s \<noteq> Closed"
    and "closes s' = closes s" "cc_retryCount s' = cc_retryCount s" "cc_backoffs s' = cc_backoffs s"
      "cc_backoffTimer s' = cc_backoffTimer s" "fresh_ok s'"
  shows "conn_inv mayStick (enterClosed c r x s')"
  using inv_can_close [OF assms(1,2)] assms(3-) by (intro conn_inv_enterClosed) simp_all

lemma conn_inv_bufferReliable:
  assumes "conn_inv mayStick s" "cc_state s \<in> {Connecting, Reconnecting}"
  shows "conn_inv mayStick (bufferReliable m s)"
proof -
  let ?s = "s\<lparr>cc_reliableBuffer := cc_reliableBuffer s @ [(m, estimateByteSize m)],
              cc_reliableBufferBytes := cc_reliableBufferBytes s + estimateByteSize m\<rparr>"
  have st: "cc_state s \<noteq> Closed" using assms(2) by auto
  show ?thesis
  proof (cases "cc_reliableBufferBytes ?s > MAX_BUFFER_BYTES")
    case True
    have "conn_inv mayStick (enterClosed 1009 ''outbound buffer overflow'' BufferOverflow ?s)"
      by (rule conn_inv_close_from [OF assms(1) st])
         (use inv_can_close(3) [OF assms(1) st] in \<open>simp_all add: closes_def fresh_ok_def\<close>)
    then show ?thesis using True by (simp add: bufferReliable_def Let_def)
  next
    case False
    have "progress_ok mayStick ?s" "fresh_ok ?s" "closes ?s = closes s"
      using conn_invD(6,7) [OF assms(1)] by (simp_all add: progress_cong [of ?s s] fresh_cong [of ?s s] closes_def)
    then have "conn_inv mayStick ?s"
      using False st conn_invD(1-4) [OF assms(1)] by (intro conn_invI) simp_all
    then show ?thesis using False by (simp add: bufferReliable_def Let_def)
  qed
qed

lemma conn_inv_write:
  assumes "conn_inv mayStick s"
  shows "conn_inv mayStick (ws_write k d s)"
  by (rule conn_inv_cong [OF assms]) (simp_all add: conn_invD(2) [OF assms])

lemma conn_inv_set_ready:
  assumes "conn_inv mayStick s" "r \<noteq> CLOSED" "ready s k \<noteq> CLOSED"
  shows "conn_inv mayStick (set_ready k r s)"
proof -
  have "live (set_ready k r s) k' = live s k'" for k'
    using assms(2,3) by (simp add: live_set_ready) (simp add: live_def)
  then have "progress_ok mayStick (set_ready k r s) = progress_ok mayStick s" by (simp add: progress_ok_def)
  then show ?thesis
    using conn_invD [OF assms(1)] fresh_set_ready [of k r s]
    by (intro conn_invI) (simp_all add: fresh_ok_def closes_cong [of "set_ready k r s" s])
qed

lemma ws_shut_fields [simp]:
  "cc_state (ws_shut k y s) = cc_state s" "cc_retryCount (ws_shut k y s) = cc_retryCount s"
  "cc_backoffs (ws_shut k y s) = cc_backoffs s" "cc_backoffTimer (ws_shut k y s) = cc_backoffTimer s"
  "cc_ws (ws_shut k y s) = cc_ws s" "closes (ws_shut k y s) = closes s" "cc_sessionToken (ws_shut k y s) = cc_sessionToken s"
  by (simp_all add: ws_shut_def closes_cong [of "set_ready k CLOSING s" s])

lemma fresh_ws_shut [simp]: "fresh_ok (ws_shut k y s) = fresh_ok s"
  using fresh_set_ready [of k CLOSING s] by (simp add: ws_shut_def fresh_ok_def)

lemma conn_inv_shut:
  assumes "conn_inv mayStick s"
  shows "conn_inv mayStick (ws_shut k y s)"
proof (cases "ready s k \<in> {CONNECTING, OPEN}")
  case True
  then have r: "conn_inv mayStick (set_ready k CLOSING s)" by (intro conn_inv_set_ready [OF assms]) auto
  have "conn_inv mayStick (say [WsClose k y] (set_ready k CLOSING s))"
    by (rule conn_inv_cong [OF r]) (simp_all add: conn_invD(2) [OF assms])
  then show ?thesis using True by (simp add: ws_shut_def)
qed (use assms in \<open>simp add: ws_shut_def\<close>)

lemma unwire_fields [simp]:
  "cc_state (unwire k s) = cc_state s" "cc_retryCount (unwire k s) = cc_retryCount s" "cc_backoffs (unwire k s) = cc_backoffs s"
  "cc_backoffTimer (unwire k s) = cc_backoffTimer s" "closes (unwire k s) = closes s" "fresh_ok (unwire k s) = fresh_ok s"
  by (auto simp: unwire_def closes_def fresh_ok_def split: option.splits)

lemma conn_inv_leave: "conn_inv mayStick s \<Longrightarrow> conn_inv mayStick (sendLeaveAndClose pack k s)"
  by (simp add: sendLeaveAndClose_def conn_inv_shut conn_inv_write)

lemma conn_inv_send: "conn_inv mayStick s \<Longrightarrow> conn_inv mayStick (snd (conn_send m r s))"
  by (auto simp: conn_send_def conn_inv_write conn_inv_bufferReliable split: connection_status.splits option.splits sum.splits)

lemma conn_inv_conn_close:
  assumes "conn_inv mayStick s"
  shows "conn_inv mayStick (conn_close pack s)"
proof -
  have "conn_inv mayStick (s\<lparr>cc_consentedClose := True\<rparr>)"
    by (rule conn_inv_cong [OF assms]) (simp_all add: closes_def conn_invD(2) [OF assms])
  then show ?thesis
    using assms inv_can_close [OF assms]
    by (auto simp: conn_close_def conn_inv_leave intro!: conn_inv_close_from [OF assms]
        split: connection_status.splits option.splits)
qed

lemma conn_inv_app: "conn_inv mayStick s \<Longrightarrow> conn_inv mayStick (app_step pack s a)"
  by (cases a) (auto intro: conn_inv_send conn_inv_conn_close)

lemma conn_inv_apps: "conn_inv mayStick s \<Longrightarrow> conn_inv mayStick (foldl (app_step pack) s as)"
  by (induction as arbitrary: s) (auto intro: conn_inv_app)

text \<open>Between losing its socket and arming the backoff timer, the connection has neither.\<close>

definition between_sockets :: "connection \<Rightarrow> bool" where
  "between_sockets s \<longleftrightarrow> cc_state s = Reconnecting \<and> counts_ok s \<and> fresh_ok s \<and> (\<forall>k. \<not> live s k) \<and> cc_backoffs s = [] \<and>
     cc_sessionToken s \<noteq> None \<and> cc_sessionToken s \<noteq> Some []"

lemma conn_inv_startReconnect:
  assumes "between_sockets s"
  shows "conn_inv mayStick (startReconnect s)"
proof (cases "cc_retryCount s \<ge> MAX_RECONNECT_ATTEMPTS")
  case True
  have "closes s = 0" "cc_retryCount s \<le> MAX_RECONNECT_ATTEMPTS"
    using assms by (simp_all add: between_sockets_def counts_ok_def)
  then have "conn_inv mayStick (enterClosed 1006 ''reconnection attempts exhausted'' ReconnectFailed s)"
    by (rule conn_inv_enterClosed) (use assms in \<open>simp_all add: between_sockets_def\<close>)
  then show ?thesis using True assms by (simp add: startReconnect_def between_sockets_def)
next
  case False
  let ?s = "s\<lparr>cc_retryCount := Suc (cc_retryCount s), cc_backoffs := cc_next s # cc_backoffs s,
             cc_backoffTimer := Some (cc_next s), cc_next := Suc (cc_next s)\<rparr>"
  have reads: "live ?s = live s" using socket_reads [of ?s s] by simp
  have "progress_ok mayStick ?s"
    using assms reads by (simp add: progress_ok_def between_sockets_def)
  moreover have "fresh_ok ?s" using assms by (auto simp: fresh_ok_def between_sockets_def less_Suc_eq)
  moreover have "counts_ok ?s" using assms False by (simp add: counts_ok_def between_sockets_def closes_def)
  ultimately show ?thesis using False assms by (simp add: startReconnect_def between_sockets_def conn_inv_def)
qed

lemma between_app:
  assumes "between_sockets s" "cc_ws s = None"
  shows "conn_inv mayStick (app_step pack s a) \<and> cc_state (app_step pack s a) = Closed \<or>
    between_sockets (app_step pack s a) \<and> cc_ws (app_step pack s a) = None"
proof -
  have c: "closes s = 0" "cc_retryCount s \<le> MAX_RECONNECT_ATTEMPTS" "fresh_ok s" "cc_backoffs s = []" "cc_state s = Reconnecting"
    using assms by (simp_all add: between_sockets_def counts_ok_def)
  show ?thesis
  proof (cases a)
    case AppClose
    then show ?thesis
      using c assms(2) conn_inv_enterClosed [OF c(1-3)] by (simp add: conn_close_def)
  next
    case (AppSend m r)
    let ?s = "s\<lparr>cc_reliableBuffer := cc_reliableBuffer s @ [(m, estimateByteSize m)],
              cc_reliableBufferBytes := cc_reliableBufferBytes s + estimateByteSize m\<rparr>"
    have reads: "live ?s = live s" using socket_reads [of ?s s] by simp
    have o: "conn_inv mayStick (enterClosed 1009 ''outbound buffer overflow'' BufferOverflow ?s)"
      by (rule conn_inv_enterClosed) (use c in \<open>simp_all add: closes_def fresh_ok_def\<close>)
    have "between_sockets ?s" if "cc_reliableBufferBytes ?s \<le> MAX_BUFFER_BYTES"
      using assms that reads by (simp add: between_sockets_def counts_ok_def closes_def fresh_ok_def)
    then show ?thesis
      using AppSend o assms c(5) by (auto simp: conn_send_def bufferReliable_def Let_def)
  qed
qed

lemma closed_apps: "cc_state s = Closed \<Longrightarrow> foldl (app_step pack) s as = s"
proof (induction as)
  case (Cons a as)
  then have "app_step pack s a = s" by (cases a) (simp_all add: conn_send_def conn_close_def)
  then show ?case using Cons by simp
qed simp

lemma between_stuck: "between_sockets s \<Longrightarrow> conn_inv True s"
  by (simp add: between_sockets_def conn_inv_def progress_ok_def)

text \<open>\<open>onDrop\<close> threw after its calls: a close among them has closed the connection, else it is stuck.\<close>

lemma between_apps_thrown:
  assumes "between_sockets s" "cc_ws s = None"
  shows "conn_inv True (foldl (app_step pack) s as)"
  using assms
proof (induction as arbitrary: s)
  case (Cons a as)
  from between_app [OF Cons.prems, of True pack a] show ?case by (auto simp: Cons.IH intro: conn_inv_apps)
qed (simp add: between_stuck)

lemma between_apps:
  assumes "between_sockets s" "cc_ws s = None"
  shows "conn_inv mayStick (startReconnect (foldl (app_step pack) s as))"
  using assms
proof (induction as arbitrary: s)
  case (Cons a as)
  from between_app [OF Cons.prems, of mayStick pack a] show ?case
  proof
    assume c: "conn_inv mayStick (app_step pack s a) \<and> cc_state (app_step pack s a) = Closed"
    then have "foldl (app_step pack) s (a # as) = app_step pack s a" by (simp add: closed_apps)
    then show ?thesis using c by (simp add: startReconnect_def)
  qed (simp add: Cons.IH)
qed (simp add: conn_inv_startReconnect)

lemma conn_inv_backoff:
  assumes "conn_inv mayStick s"
  shows "conn_inv mayStick (backoff_fire i s)"
proof (cases "i \<in> set (cc_backoffs s)")
  case True
  let ?s = "s\<lparr>cc_backoffs := removeAll i (cc_backoffs s), cc_backoffTimer := None\<rparr>"
  note p = progressD(5) [OF conn_invD(7) [OF assms] True]
  have all: "\<forall>j \<in> set (cc_backoffs s). j = i"
    using p progressD(5) [OF conn_invD(7) [OF assms]] by fastforce
  have empty: "removeAll i (cc_backoffs s) = []" using all by (auto simp: removeAll_filter_not_eq filter_empty_conv)
  obtain c cs where tok: "cc_sessionToken s = Some (c # cs)"
    using p progressD(3) [OF conn_invD(7) [OF assms]] by (cases "cc_sessionToken s") (auto simp: neq_Nil_conv)
  let ?n = "new_socket (buildReconnectUrl (cc_url s) (c # cs)) True ?s"
  have sock: "jm_get (cc_sockets ?n) k = (if k = cc_next s then Some \<lparr>so_isReconnect = True, so_wired = True, so_ready = CONNECTING\<rparr>
      else jm_get (cc_sockets s) k)" for k
    by (simp add: new_socket_def)
  have "live ?n k \<longleftrightarrow> k = cc_next s" for k
    using p by (auto simp: live_def wired_def ready_def sock)
  moreover have "isReconnect ?n (cc_next s)" by (simp add: isReconnect_def sock)
  ultimately have "progress_ok mayStick ?n"
    using p tok empty by (simp add: progress_ok_def new_socket_def)
  moreover have "fresh_ok ?n"
    using conn_invD(6) [OF assms] empty by (auto simp: fresh_ok_def sock less_Suc_eq) (auto simp: new_socket_def less_Suc_eq)
  moreover have "closes ?n = closes s" by (simp add: new_socket_def closes_def)
  moreover have "cc_state ?n = cc_state s" "cc_retryCount ?n = cc_retryCount s" "cc_reliableBuffer ?n = cc_reliableBuffer s"
      "cc_reliableBufferBytes ?n = cc_reliableBufferBytes s"
    by (simp_all add: new_socket_def)
  ultimately have "conn_inv mayStick ?n" using conn_invD(1-5) [OF assms] by (intro conn_invI) simp_all
  then show ?thesis using True p tok by (simp add: backoff_fire_def Let_def)
qed (use assms in \<open>simp add: backoff_fire_def\<close>)

lemma conn_inv_uptime:
  assumes "conn_inv mayStick s"
  shows "conn_inv mayStick (uptime_fire i s)"
proof -
  have "conn_inv mayStick (s\<lparr>cc_uptimes := u, cc_retryCount := 0\<rparr>)" for u
    by (rule conn_inv_cong [OF assms]) (simp_all add: closes_def)
  then show ?thesis using assms by (simp add: uptime_fire_def)
qed

lemma conn_inv_onopen:
  assumes "conn_inv mayStick s"
  shows "conn_inv mayStick (socket_onopen k s)"
  using assms conn_inv_set_ready [OF assms, of OPEN k] by (simp add: socket_onopen_def Let_def conn_inv_shut)

lemma conn_inv_onerror:
  assumes "conn_inv mayStick s"
  shows "conn_inv mayStick (socket_onerror k s)"
proof -
  have "conn_inv mayStick (say [CbError] s)"
    by (rule conn_inv_cong [OF assms]) (simp_all add: conn_invD(2) [OF assms])
  then show ?thesis using assms by (simp add: socket_onerror_def)
qed

lemma conn_inv_unload: "conn_inv mayStick s \<Longrightarrow> conn_inv mayStick (onBeforeUnload pack s)"
  by (auto simp: onBeforeUnload_def conn_inv_leave split: option.splits)

text \<open>Flushing only writes to the socket.\<close>

lemma flush_loop_fields:
  "cc_state (snd (flush_loop k ms s)) = cc_state s \<and> cc_ws (snd (flush_loop k ms s)) = cc_ws s \<and>
   cc_retryCount (snd (flush_loop k ms s)) = cc_retryCount s \<and> cc_reliableBuffer (snd (flush_loop k ms s)) = cc_reliableBuffer s \<and>
   cc_reliableBufferBytes (snd (flush_loop k ms s)) = cc_reliableBufferBytes s \<and> cc_sockets (snd (flush_loop k ms s)) = cc_sockets s \<and>
   cc_backoffs (snd (flush_loop k ms s)) = cc_backoffs s \<and> cc_next (snd (flush_loop k ms s)) = cc_next s \<and>
   cc_backoffTimer (snd (flush_loop k ms s)) = cc_backoffTimer s \<and> cc_sessionToken (snd (flush_loop k ms s)) = cc_sessionToken s \<and>
   closes (snd (flush_loop k ms s)) = closes s"
proof (induction k ms s rule: flush_loop.induct)
  case (2 k m b ms s)
  then show ?case by (cases "frameUserMessage m") simp_all
qed simp

lemma conn_inv_session_opened:
  assumes inv: "conn_inv mayStick s" and st: "cc_state s = Connecting \<or> cc_state s = Reconnecting" and k: "live s k"
    and cb: "\<not> is_close cb"
    and s0: "cc_state s0 = cc_state s" "cc_ws s0 = cc_ws s" "cc_retryCount s0 \<le> MAX_RECONNECT_ATTEMPTS"
      "cc_reliableBuffer s0 = cc_reliableBuffer s" "cc_reliableBufferBytes s0 = cc_reliableBufferBytes s"
      "cc_sockets s0 = cc_sockets s" "cc_backoffs s0 = cc_backoffs s" "cc_next s0 = cc_next s"
      "cc_backoffTimer s0 = cc_backoffTimer s" "closes s0 = closes s"
  shows "conn_inv mayStick (session_opened k now cb s0)"
proof -
  have none: "closes s = 0" using conn_invD(1) [OF inv] st by auto
  have backoffs: "cc_backoffs s = []"
    using progressD(5) [OF conn_invD(7) [OF inv], of _ k] k by (cases "cc_backoffs s") auto
  let ?s1 = "startUptime (s0\<lparr>cc_state := Open, cc_openedAt := Some now\<rparr>)"
  have s1: "cc_state ?s1 = Open" "cc_ws ?s1 = cc_ws s" "cc_retryCount ?s1 = cc_retryCount s0" "cc_sockets ?s1 = cc_sockets s"
      "cc_reliableBuffer ?s1 = cc_reliableBuffer s" "cc_reliableBufferBytes ?s1 = cc_reliableBufferBytes s"
      "cc_backoffs ?s1 = []" "cc_next ?s1 = Suc (cc_next s)" "closes ?s1 = closes s"
    using s0 backoffs by (simp_all add: startUptime_def closes_def)
  have core: "conn_inv mayStick t"
    if t: "cc_state t = Open" "cc_ws t = cc_ws s" "cc_retryCount t = cc_retryCount s0" "cc_sockets t = cc_sockets s"
      "cc_reliableBufferBytes t = sum_list (map snd (cc_reliableBuffer t))"
      "sum_list (map snd (cc_reliableBuffer t)) \<le> MAX_BUFFER_BYTES"
      "cc_backoffs t = []" "cc_next t = Suc (cc_next s)" "closes t = closes s" for t
  proof (rule conn_invI)
    have reads: "live t = live s" "isReconnect t = isReconnect s" using socket_reads [OF t(4)] by simp_all
    have "cc_ws s = Some k" using progressD(1) [OF conn_invD(7) [OF inv] _ k] st by auto
    then have lk: "live s j \<longleftrightarrow> j = k" for j
      using progressD(1) [OF conn_invD(7) [OF inv], of j] st k by auto
    show "progress_ok mayStick t"
      unfolding progress_ok_def reads lk t(1,2,7) \<open>cc_ws s = Some k\<close> by simp
    show "fresh_ok t" using conn_invD(6) [OF inv] t by (auto simp: fresh_ok_def less_Suc_eq)
    show "closes t = (if cc_state t = Closed then 1 else 0)" using t none by simp
  qed (use t s0 in simp_all)
  obtain b s2 where f: "flush_loop k (cc_reliableBuffer ?s1) ?s1 = (b, s2)" by fastforce
  note fl = flush_loop_fields [of k "cc_reliableBuffer ?s1" ?s1, unfolded f snd_conv]
  show ?thesis
  proof (cases b)
    case True
    have "conn_inv mayStick (say [cb] (s2\<lparr>cc_reliableBuffer := [], cc_reliableBufferBytes := 0\<rparr>))"
      by (rule core) (use fl s1 cb in \<open>simp_all add: closes_def\<close>)
    then show ?thesis using True f by (simp add: session_opened_def flushReliableBuffer_def)
  next
    case False
    have "conn_inv mayStick s2"
      by (rule core) (use fl s1 conn_invD(3,4) [OF inv] in simp_all)
    then show ?thesis using False f by (simp add: session_opened_def flushReliableBuffer_def)
  qed
qed

lemma conn_inv_onmessage:
  assumes inv: "conn_inv mayStick s"
  shows "conn_inv mayStick (socket_onmessage unpack k now d s)"
proof (cases "ready s k = OPEN \<and> wired s k")
  case False
  then show ?thesis using inv by (auto simp: socket_onmessage_def)
next
  case True
  then have k: "live s k" by (simp add: live_def)
  have "conn_inv mayStick (on_protocol k now m s)" for m
  proof (cases m)
    case (Session token cid)
    let ?s1 = "s\<lparr>cc_sessionToken := Some token, cc_clientId := Some cid\<rparr>"
    have reads: "isReconnect ?s1 k = isReconnect s k" by (simp add: isReconnect_def)
    have opened: "conn_inv mayStick (session_opened k now cb t)"
      if "cc_state s = Connecting \<or> cc_state s = Reconnecting" "\<not> is_close cb" "t = ?s1 \<or> t = ?s1\<lparr>cc_retryCount := 0\<rparr>" for cb t
      by (rule conn_inv_session_opened [OF inv that(1) k that(2)])
         (use that(3) conn_invD(2) [OF inv] in \<open>auto simp: closes_def\<close>)
    have rec: "isReconnect s k" if "cc_state s = Reconnecting"
      using progressD(4) [OF conn_invD(7) [OF inv] that] progressD(5) [OF conn_invD(7) [OF inv], of _ k]
        progressD(1) [OF conn_invD(7) [OF inv] _ k] that k by auto
    have "conn_inv mayStick ?s1" if "cc_state s \<noteq> Reconnecting"
      by (rule conn_inv_cong [OF inv]) (use that conn_invD(2) [OF inv] in \<open>simp_all add: closes_def\<close>)
    then show ?thesis
      using Session opened [of CbOpen ?s1] opened [of CbReconnect "?s1\<lparr>cc_retryCount := 0\<rparr>"] rec reads
      by (auto simp: on_protocol_def Let_def)
  next
    case (AuthError e)
    have "conn_inv mayStick (say [CbAuthError e] (s\<lparr>cc_initialAuthFailed := True\<rparr>))"
      by (rule conn_inv_cong [OF inv]) (use conn_invD(2) [OF inv] in \<open>simp_all add: closes_def\<close>)
    moreover have "conn_inv mayStick (enterClosed CONSENTED ''session rejected'' SessionRejected (ws_shut k None s))"
      if "cc_state s = Reconnecting"
      by (rule conn_inv_close_from [OF inv]) (use that conn_invD(6) [OF inv] in simp_all)
    ultimately show ?thesis using AuthError by (simp add: on_protocol_def)
  qed (use inv in \<open>simp add: on_protocol_def\<close>)
  moreover have "conn_inv mayStick (say [CbMessage f] s)" for f
    by (rule conn_inv_cong [OF inv]) (simp_all add: conn_invD(2) [OF inv])
  ultimately show ?thesis
    using inv by (auto simp: socket_onmessage_def split: option.splits sum.splits frame.splits)
qed

lemma conn_inv_onclose:
  assumes inv: "conn_inv mayStick s" and stick: "dropThrows \<Longrightarrow> mayStick \<or> \<not> reaches_onDrop k code s"
  shows "conn_inv mayStick (socket_onclose pack k code reason now calls dropThrows s)"
proof (cases "ready s k = CLOSED \<or> \<not> wired s k")
  case True
  have "conn_inv mayStick (set_ready k CLOSED s)" if "\<not> wired s k"
  proof -
    have "live (set_ready k CLOSED s) k' = live s k'" for k'
      using that by (simp add: live_set_ready) (simp add: live_def)
    then have "progress_ok mayStick (set_ready k CLOSED s) = progress_ok mayStick s" by (simp add: progress_ok_def)
    then show ?thesis
      using conn_invD [OF inv] fresh_set_ready [of k CLOSED s]
      by (intro conn_invI) (simp_all add: fresh_ok_def closes_cong [of "set_ready k CLOSED s" s])
  qed
  then show ?thesis using True inv by (auto simp: socket_onclose_def)
next
  case False
  then have k: "live s k" by (simp add: live_def)
  let ?s1 = "clearUptime (set_ready k CLOSED s)"
  have s1: "closes ?s1 = closes s" "fresh_ok ?s1" "cc_backoffs ?s1 = cc_backoffs s"
    using conn_invD(6) [OF inv] fresh_set_ready [of k CLOSED s] by (simp_all add: closes_def fresh_ok_def)
  have reads: "live ?s1 j \<longleftrightarrow> live s j \<and> j \<noteq> k" for j
    using socket_reads [of ?s1 "set_ready k CLOSED s"] by (simp add: live_set_ready)
  have backoffs: "cc_backoffs s = []"
    using progressD(5) [OF conn_invD(7) [OF inv], of _ k] k by (cases "cc_backoffs s") auto
  have closed: "conn_inv mayStick (enterClosed code reason x ?s1)" if "cc_state s \<noteq> Closed" for x
    by (rule conn_inv_close_from [OF inv that]) (use s1 in simp_all)
  have gone: "\<not> live ?s1 j" if "cc_state s \<noteq> Closed" for j
    using that reads progressD(1) [OF conn_invD(7) [OF inv] that k] progressD(1) [OF conn_invD(7) [OF inv] that] by force
  have counts: "counts_ok t" if "cc_state s \<noteq> Closed" "cc_state t = Reconnecting" "cc_retryCount t \<le> MAX_RECONNECT_ATTEMPTS"
      "cc_reliableBuffer t = cc_reliableBuffer s" "cc_reliableBufferBytes t = cc_reliableBufferBytes s" "closes t = closes s" for t
    using that conn_invD(1-4) [OF inv] by (simp add: counts_ok_def)
  show ?thesis
  proof (cases "cc_state s")
    case Closed
    have "conn_inv mayStick ?s1"
      using conn_invD [OF inv] s1 Closed reads backoffs by (intro conn_invI) (simp_all add: progress_ok_def)
    then show ?thesis using False Closed by (simp add: socket_onclose_def Let_def)
  next
    case Reconnecting
    have "between_sockets ?s1"
      using Reconnecting gone s1 backoffs progressD(3) [OF conn_invD(7) [OF inv] Reconnecting] conn_invD(2) [OF inv]
        counts [of ?s1] by (simp add: between_sockets_def)
    then show ?thesis using False Reconnecting conn_inv_startReconnect by (simp add: socket_onclose_def Let_def)
  next
    case Connecting
    then show ?thesis using False closed by (simp add: socket_onclose_def Let_def)
  next
    case Open
    let ?s2 = "?s1\<lparr>cc_state := Reconnecting, cc_ws := None\<rparr>"
    let ?s3 = "if opened_long_ago now ?s2 then ?s2\<lparr>cc_retryCount := 0\<rparr> else ?s2"
    have "between_sockets (say [CbDrop] ?s3) \<and> cc_ws (say [CbDrop] ?s3) = None"
      if "cc_sessionToken s \<noteq> None" "cc_sessionToken s \<noteq> Some []"
    proof -
      have l: "live (say [CbDrop] ?s3) = live ?s1" by (rule conjunct1 [OF socket_reads]) simp
      have "counts_ok (say [CbDrop] ?s3)"
        by (rule counts) (use Open conn_invD(2) [OF inv] s1(1) in \<open>simp_all add: closes_def\<close>)
      moreover have "fresh_ok (say [CbDrop] ?s3)" using s1(2) by (simp add: fresh_ok_def)
      ultimately show ?thesis using that Open gone backoffs l by (simp add: between_sockets_def)
    qed
    note dropped = this
    show ?thesis
    proof (cases "reaches_onDrop k code s")
      case True
      then have between: "between_sockets (say [CbDrop] ?s3)" "cc_ws (say [CbDrop] ?s3) = None"
        and tok: "code \<noteq> CONSENTED" "cc_sessionToken s \<noteq> None" "cc_sessionToken s \<noteq> Some []"
        using dropped by (simp_all add: reaches_onDrop_def)
      have step: "socket_onclose pack k code reason now calls dropThrows s =
          (let s4 = foldl (app_step pack) (say [CbDrop] ?s3) calls in if dropThrows then s4 else startReconnect s4)"
        using False Open tok by (auto simp: socket_onclose_def Let_def)
      show ?thesis
        unfolding step Let_def
        using between_apps [OF between, of mayStick pack calls] between_apps_thrown [OF between, of pack calls] stick True
        by (cases dropThrows) simp_all
    next
      case no: False
      then show ?thesis
        using False Open closed by (auto simp: reaches_onDrop_def socket_onclose_def Let_def)
    qed
  qed
qed

lemma conn_inv_step:
  assumes "conn_inv mayStick s" and "mayStick \<or> \<not> drop_throws s e"
  shows "conn_inv mayStick (client_step c s e)"
  using assms
  by (cases e) (auto simp: drop_throws_def intro: conn_inv_onopen conn_inv_onmessage conn_inv_onclose conn_inv_onerror
      conn_inv_uptime conn_inv_backoff conn_inv_app conn_inv_unload)

text \<open>Every run keeps the invariant; a run in which no \<open>onDrop\<close> throws keeps the stronger one.\<close>

lemma client_inv_step: "client_inv s \<Longrightarrow> client_inv (client_step c s e)"
  unfolding client_inv_def by (rule conn_inv_step) simp_all

interpretation cm: step_invariant "client_step c" "\<lambda>_ _. True" client_inv for c
  by unfold_locales (rule client_inv_step)

interpretation cq: step_invariant "client_step c" "\<lambda>s e. \<not> drop_throws s e" "conn_inv False" for c
  by unfold_locales (simp add: conn_inv_step)

lemma conn_inv_connect: "conn_inv mayStick (connect url)"
proof -
  have "jm_get (cc_sockets (connect url)) k = (if k = 0 then Some \<lparr>so_isReconnect = False, so_wired = True, so_ready = CONNECTING\<rparr> else None)" for k
    by (simp add: connect_def new_socket_def)
  then show ?thesis
    by (intro conn_invI)
       (auto simp: fresh_ok_def progress_ok_def live_def wired_def ready_def isReconnect_def,
         auto simp: connect_def new_socket_def closes_def MAX_BUFFER_BYTES_def)
qed

lemma client_inv_reachable: "client_inv (run (client_step c) (connect url) es)"
  using conn_inv_connect [of True url] by (intro cm.I_run) (simp_all add: client_inv_def)

section \<open>Properties\<close>

lemma closed_step: "cc_state s = Closed \<Longrightarrow> cc_state (client_step c s e) = Closed"
proof (cases e)
  case (CeMessage k now d)
  moreover assume "cc_state s = Closed"
  ultimately show ?thesis
    by (auto simp: socket_onmessage_def on_protocol_def Let_def split: option.splits sum.splits frame.splits protocol_message.splits)
next
  case (CeCall a)
  moreover assume "cc_state s = Closed"
  ultimately show ?thesis by (cases a) (simp_all add: conn_send_def conn_close_def)
qed (auto simp: socket_onopen_def socket_onclose_def socket_onerror_def uptime_fire_def backoff_fire_def onBeforeUnload_def Let_def
    split: option.splits)

lemma closed_run: "cc_state s = Closed \<Longrightarrow> cc_state (run (client_step c) s es) = Closed"
  by (induction es arbitrary: s) (simp_all add: closed_step)

definition demo_codec :: codec where
  "demo_codec = \<lparr>co_pack = (\<lambda>m. [if m = Leave then 9 else 7]),
     co_unpack = (\<lambda>b. if b = [7] then Some (Session ''tok'' ''c1'') else if b = [8] then Some (AuthError ''no'') else None)\<rparr>"

text \<open>
  C10: a connection reports its end exactly once. In every reachable state \<open>onClose\<close> has been
  called once if the state is CLOSED and never otherwise, CLOSED is never left, at most ten
  reconnection attempts are counted, and the outbound buffer is accounted exactly and stays
  within its cap.
\<close>

theorem onClose_once_and_terminal:
  "let s = run (client_step c) (connect url) es in
    length (filter is_close (cc_log s)) = (if cc_state s = Closed then 1 else 0) \<and>
    (cc_state s = Closed \<longrightarrow> cc_state (run (client_step c) (connect url) (es @ es')) = Closed) \<and>
    cc_retryCount s \<le> 10 \<and>
    cc_reliableBufferBytes s = sum_list (map snd (cc_reliableBuffer s)) \<and>
    cc_reliableBufferBytes s \<le> 1048576"
proof -
  note d = conn_invD [OF client_inv_reachable [of c url es, unfolded client_inv_def]]
  show ?thesis
    unfolding Let_def run_append
    using d(1-4) closed_run [of "run (client_step c) (connect url) es" c es']
    by (intro conjI impI) (simp_all add: closes_def MAX_RECONNECT_ATTEMPTS_def MAX_BUFFER_BYTES_def)
qed

theorem onClose_once_and_terminal_witness:
  "let s = run (client_step demo_codec) (connect ''ws://h'') [CeCall AppClose] in
   filter is_close (cc_log s) = [CbClose 4000 ''client closed during connect'' Consented] \<and>
   cc_state (run (client_step demo_codec) (connect ''ws://h'') ([CeCall AppClose] @ [CeOpen 0, CeMessage 0 5 (Some [0, 7])])) = Closed"
proof -
  have "cc_state (run (client_step demo_codec) (connect ''ws://h'') [CeCall AppClose]) = Closed"
    "filter is_close (cc_log (run (client_step demo_codec) (connect ''ws://h'') [CeCall AppClose])) =
      [CbClose 4000 ''client closed during connect'' Consented]"
    by code_simp+
  then show ?thesis
    using onClose_once_and_terminal [of demo_codec "''ws://h''" "[CeCall AppClose]" "[CeOpen 0, CeMessage 0 5 (Some [0, 7])]"]
    by (simp add: Let_def del: run.simps append.simps)
qed

text \<open>
  The backoff delay of every attempt lies between half a second and ten seconds, whatever
  the jitter.
\<close>

theorem computeDelay_bounds:
  assumes "1 \<le> n" and "0 \<le> random" and "random < 1"
  shows "500 \<le> computeDelay n random \<and> computeDelay n random \<le> 10000"
proof -
  have "(1 :: rat) \<le> BACKOFF_FACTOR ^ (n - 1)" by (simp add: BACKOFF_FACTOR_def one_le_power)
  then have "1000 * (1 / 2) \<le> MIN_DELAY * BACKOFF_FACTOR ^ (n - 1) * (1 / 2 + random)"
    using assms(2) by (intro mult_mono) (simp_all add: MIN_DELAY_def)
  then show ?thesis by (simp add: computeDelay_def MAX_DELAY_def)
qed

theorem computeDelay_bounds_witness: "500 \<le> computeDelay 3 (1 / 4) \<and> computeDelay 3 (1 / 4) \<le> 10000"
  using computeDelay_bounds [of 3 "1 / 4"] by simp

text \<open>A reconnecting connection with neither a timer nor a socket.\<close>

definition stuck :: "connection \<Rightarrow> bool" where
  "stuck s \<longleftrightarrow> cc_state s = Reconnecting \<and> cc_backoffs s = [] \<and> (\<forall>k. \<not> live s k)"

lemma stuck_cong:
  "cc_state s' = cc_state s \<Longrightarrow> cc_backoffs s' = cc_backoffs s \<Longrightarrow> cc_sockets s' = cc_sockets s \<Longrightarrow> stuck s' = stuck s"
  using socket_reads [of s' s] by (simp add: stuck_def)

lemma stuck_set_ready: "stuck s \<Longrightarrow> \<not> wired s k \<Longrightarrow> stuck (set_ready k r s)"
  by (simp add: stuck_def live_set_ready)

text \<open>
  An \<open>onDrop\<close> that throws leaves such a connection, and no event but an end that the application
  brings about itself, by \<open>close\<close> or by overflowing the buffer, takes it out of that state.
\<close>

lemma throwing_drop_sticks:
  assumes "client_inv s" and "reaches_onDrop k code s"
  shows "stuck (client_step c s (CeCloseThrows k code reason now []))"
proof -
  note inv = conn_invD(7) [OF assms(1) [unfolded client_inv_def]]
  have k: "live s k" and st: "cc_state s = Open" and tok: "code \<noteq> CONSENTED" "cc_sessionToken s \<noteq> None" "cc_sessionToken s \<noteq> Some []"
    using assms(2) by (simp_all add: reaches_onDrop_def live_def)
  have backoffs: "cc_backoffs s = []"
    using progressD(5) [OF inv, of _ k] k by (cases "cc_backoffs s") auto
  have only: "live s j \<Longrightarrow> j = k" for j
    using progressD(1) [OF inv, of k] progressD(1) [OF inv, of j] st k by simp
  let ?s' = "client_step c s (CeCloseThrows k code reason now [])"
  have "cc_state ?s' = Reconnecting" "cc_backoffs ?s' = []" "cc_sockets ?s' = cc_sockets (set_ready k CLOSED s)"
    using k st tok backoffs by (simp_all add: socket_onclose_def Let_def live_def)
  moreover have "\<not> live (set_ready k CLOSED s) j" for j using only by (auto simp: live_set_ready)
  ultimately show ?thesis using socket_reads [of ?s' "set_ready k CLOSED s"] by (simp add: stuck_def)
qed

lemma stuck_stays:
  assumes "stuck s"
  shows "stuck (client_step c s e) \<or> cc_state (client_step c s e) = Closed \<and> (\<exists>a. e = CeCall a)"
proof -
  have st: "cc_state s = Reconnecting" "cc_backoffs s = []" and dead: "wired s k \<Longrightarrow> ready s k = CLOSED" for k
    using assms by (simp_all add: stuck_def live_def)
  show ?thesis
  proof (cases e)
    case (CeOpen k)
    show ?thesis
    proof (cases "ready s k = CONNECTING")
      case True
      then have "\<not> wired s k" using dead [of k] by auto
      then show ?thesis using CeOpen True st stuck_set_ready [OF assms] by (simp add: socket_onopen_def Let_def)
    qed (use CeOpen assms in \<open>simp add: socket_onopen_def\<close>)
  next
    case (CeMessage k now d)
    then show ?thesis using dead [of k] assms by (auto simp: socket_onmessage_def)
  next
    case (CeClose k code reason now calls)
    then show ?thesis using dead [of k] assms stuck_set_ready [OF assms, of k CLOSED] by (auto simp: socket_onclose_def)
  next
    case (CeCloseThrows k code reason now calls)
    then show ?thesis using dead [of k] assms stuck_set_ready [OF assms, of k CLOSED] by (auto simp: socket_onclose_def)
  next
    case (CeError k)
    then show ?thesis using assms stuck_cong [of "say [CbError] s" s] by (simp add: socket_onerror_def)
  next
    case (CeUptime i)
    then show ?thesis using assms stuck_cong [of "s\<lparr>cc_uptimes := removeAll i (cc_uptimes s), cc_retryCount := 0\<rparr>" s]
      by (simp add: uptime_fire_def)
  next
    case (CeBackoff i)
    then show ?thesis using assms st by (simp add: backoff_fire_def)
  next
    case CeUnload
    then show ?thesis using assms st by (simp add: onBeforeUnload_def split: option.split)
  next
    case (CeCall a)
    show ?thesis
    proof (cases a)
      case AppClose
      then show ?thesis using CeCall st by (simp add: conn_close_def split: option.split)
    next
      case (AppSend m r)
      let ?s = "s\<lparr>cc_reliableBuffer := cc_reliableBuffer s @ [(m, estimateByteSize m)],
                cc_reliableBufferBytes := cc_reliableBufferBytes s + estimateByteSize m\<rparr>"
      have "stuck ?s" using assms stuck_cong [of ?s s] by simp
      then show ?thesis using CeCall AppSend st assms by (simp add: conn_send_def bufferReliable_def Let_def)
    qed
  qed
qed

text \<open>
  C30: As long as no \<open>onDrop\<close> handler throws, a reconnecting client is never stuck. In every RECONNECTING
  state reached by a run in which no call of \<open>onDrop\<close> threw, whatever the other events and calls, the
  client holds a session token, and either a reconnection socket is in progress, or a backoff timer is
  armed which, when it fires, opens a new socket to the url carrying that token. The
  condition is needed: a throw skips \<open>startReconnect\<close> and leaves the client stuck
  (\<open>throwing_drop_sticks\<close>, \<open>stuck_stays\<close>).
\<close>

theorem reconnecting_never_stuck:
  assumes "run_ok (\<lambda>s e. \<not> drop_throws s e) (client_step c) (connect url) es"
    and "cc_state (run (client_step c) (connect url) es) = Reconnecting"
  shows "let s = run (client_step c) (connect url) es in
    \<exists>tok. cc_sessionToken s = Some tok \<and>
     ((\<exists>k. cc_ws s = Some k \<and> isReconnect s k \<and> wired s k \<and> ready s k \<noteq> CLOSED) \<or>
      (\<exists>i \<in> set (cc_backoffs s). let s' = client_step c s (CeBackoff i) in
         cc_log s' = cc_log s @ [NewWebSocket (cc_next s) (buildReconnectUrl (cc_url s) tok)] \<and>
         cc_ws s' = Some (cc_next s) \<and> isReconnect s' (cc_next s) \<and> ready s' (cc_next s) = CONNECTING))"
proof -
  define s where "s = run (client_step c) (connect url) es"
  have st: "cc_state s = Reconnecting" using assms(2) by (simp add: s_def)
  have "conn_inv False s" unfolding s_def by (rule cq.I_run [OF conn_inv_connect assms(1)])
  note p = conn_invD(7) [OF this]
  obtain x xs where tok: "cc_sessionToken s = Some (x # xs)"
    using progressD(3) [OF p st] by (cases "cc_sessionToken s") (auto simp: neq_Nil_conv)
  have fires: "let s' = client_step c s (CeBackoff i) in
         cc_log s' = cc_log s @ [NewWebSocket (cc_next s) (buildReconnectUrl (cc_url s) (x # xs))] \<and>
         cc_ws s' = Some (cc_next s) \<and> isReconnect s' (cc_next s) \<and> ready s' (cc_next s) = CONNECTING"
    if "i \<in> set (cc_backoffs s)" for i
    using that st tok by (simp add: backoff_fire_def Let_def new_socket_def isReconnect_def ready_def)
  show ?thesis
    using progressD(4) [OF p st] tok fires unfolding s_def [symmetric] live_def Let_def by blast
qed

theorem reconnecting_never_stuck_witness:
  "let s = run (client_step demo_codec) (connect ''ws://h'') [CeOpen 0, CeMessage 0 5 (Some [0, 7]), CeClose 0 1006 [] 9 []] in
   \<exists>i \<in> set (cc_backoffs s). let s' = client_step demo_codec s (CeBackoff i) in cc_ws s' = Some 3 \<and> isReconnect s' 3"
proof -
  let ?es = "[CeOpen 0, CeMessage 0 5 (Some [0, 7]), CeClose 0 1006 [] 9 []]"
  let ?s = "run (client_step demo_codec) (connect ''ws://h'') ?es"
  have s: "cc_state ?s = Reconnecting" "cc_ws ?s = None" "cc_next ?s = 3" by code_simp+
  have "run_ok (\<lambda>s e. \<not> drop_throws s e) (client_step demo_codec) (connect ''ws://h'') ?es"
    by (simp add: drop_throws_def)
  from reconnecting_never_stuck [OF this s(1)] show ?thesis
    using s(2,3) unfolding Let_def by auto
qed

text \<open>One failing attempt: the armed timer fires and the socket it opens closes.\<close>

definition attempt_fails :: "codec \<Rightarrow> connection \<Rightarrow> connection" where
  "attempt_fails c s =
     (case cc_backoffTimer s of None \<Rightarrow> s
      | Some i \<Rightarrow> run (client_step c) s [CeBackoff i, CeClose (cc_next s) 1006 [] 0 []])"

lemma attempt_fails_once:
  assumes inv: "client_inv s" and st: "cc_state s = Reconnecting" and b: "cc_backoffs s \<noteq> []"
  shows "client_inv (attempt_fails c s) \<and>
    (if cc_retryCount s = MAX_RECONNECT_ATTEMPTS
     then cc_state (attempt_fails c s) = Closed \<and>
       last (cc_log (attempt_fails c s)) = CbClose 1006 ''reconnection attempts exhausted'' ReconnectFailed
     else cc_state (attempt_fails c s) = Reconnecting \<and> cc_backoffs (attempt_fails c s) \<noteq> [] \<and>
       cc_retryCount (attempt_fails c s) = Suc (cc_retryCount s))"
proof -
  obtain i where i: "i \<in> set (cc_backoffs s)" using b by (cases "cc_backoffs s") auto
  note conn = inv [unfolded client_inv_def]
  note p = progressD(5) [OF conn_invD(7) [OF conn] i]
  obtain x xs where tok: "cc_sessionToken s = Some (x # xs)"
    using progressD(3) [OF conn_invD(7) [OF conn] st] by (cases "cc_sessionToken s") (auto simp: neq_Nil_conv)
  let ?k = "cc_next s"
  define s1 where "s1 = backoff_fire i s"
  have s1: "cc_state s1 = Reconnecting" "cc_retryCount s1 = cc_retryCount s" "wired s1 ?k" "ready s1 ?k = CONNECTING"
    using i st tok by (simp_all add: s1_def backoff_fire_def Let_def new_socket_def wired_def ready_def)
  have step: "attempt_fails c s = startReconnect (clearUptime (set_ready ?k CLOSED s1))"
    using p s1 by (simp add: attempt_fails_def s1_def [symmetric] socket_onclose_def Let_def)
  have inv': "client_inv (attempt_fails c s)"
    using p inv by (simp add: attempt_fails_def client_inv_def conn_inv_backoff conn_inv_onclose)
  show ?thesis
    using inv' s1 conn_invD(2) [OF conn] unfolding step
    by (simp add: startReconnect_def)
qed

text \<open>
  C11: reconnection terminates. A client waiting for its next attempt with \<open>r\<close> attempts
  counted reaches CLOSED with cause \<open>reconnect-failed\<close> after exactly \<open>11 - r\<close> failing attempts,
  and is still reconnecting after any smaller number of them.
\<close>

theorem reconnection_gives_up:
  assumes "client_inv s" and "cc_state s = Reconnecting" and "cc_backoffs s \<noteq> []"
  shows "cc_state ((attempt_fails c ^^ (11 - cc_retryCount s)) s) = Closed \<and>
    last (cc_log ((attempt_fails c ^^ (11 - cc_retryCount s)) s)) =
      CbClose 1006 ''reconnection attempts exhausted'' ReconnectFailed \<and>
    (\<forall>n < 11 - cc_retryCount s. cc_state ((attempt_fails c ^^ n) s) = Reconnecting)"
  using assms
proof (induction "10 - cc_retryCount s" arbitrary: s)
  case 0
  then have "cc_retryCount s = MAX_RECONNECT_ATTEMPTS"
    using conn_invD(2) [OF 0(2) [unfolded client_inv_def]] by (simp add: MAX_RECONNECT_ATTEMPTS_def)
  then show ?case using attempt_fails_once [OF 0(2-4), of c] 0(3) by (simp add: MAX_RECONNECT_ATTEMPTS_def)
next
  case (Suc m)
  let ?t = "attempt_fails c s"
  have "cc_retryCount s \<noteq> MAX_RECONNECT_ATTEMPTS" using Suc(2) by (simp add: MAX_RECONNECT_ATTEMPTS_def)
  then have t: "client_inv ?t" "cc_state ?t = Reconnecting" "cc_backoffs ?t \<noteq> []" "cc_retryCount ?t = Suc (cc_retryCount s)"
    using attempt_fails_once [OF Suc(3-5), of c] by simp_all
  have r: "11 - cc_retryCount s = Suc (11 - cc_retryCount ?t)" using Suc(2) t(4) by simp
  have IH: "cc_state ((attempt_fails c ^^ (11 - cc_retryCount ?t)) ?t) = Closed \<and>
    last (cc_log ((attempt_fails c ^^ (11 - cc_retryCount ?t)) ?t)) =
      CbClose 1006 ''reconnection attempts exhausted'' ReconnectFailed \<and>
    (\<forall>n < 11 - cc_retryCount ?t. cc_state ((attempt_fails c ^^ n) ?t) = Reconnecting)"
    using Suc(2) t(4) by (intro Suc.hyps(1) [OF _ t(1-3)]) simp
  have "cc_state ((attempt_fails c ^^ n) s) = Reconnecting" if "n < 11 - cc_retryCount s" for n
  proof (cases n)
    case (Suc j)
    then have "j < 11 - cc_retryCount ?t" using that r by simp
    then show ?thesis using IH Suc by (simp add: funpow_Suc_right del: funpow.simps)
  qed (use Suc.prems(2) in simp)
  then show ?case using IH unfolding r by (simp add: funpow_Suc_right del: funpow.simps)
qed

theorem reconnection_gives_up_witness:
  "let s = run (client_step demo_codec) (connect ''ws://h'') [CeOpen 0, CeMessage 0 5 (Some [0, 7]), CeClose 0 1006 [] 9 []] in
   cc_state ((attempt_fails demo_codec ^^ 10) s) = Closed"
proof -
  let ?s = "run (client_step demo_codec) (connect ''ws://h'') [CeOpen 0, CeMessage 0 5 (Some [0, 7]), CeClose 0 1006 [] 9 []]"
  have s: "cc_state ?s = Reconnecting" "cc_retryCount ?s = 1" "cc_backoffs ?s = [2]" by code_simp+
  have "cc_backoffs ?s \<noteq> []" by (simp only: s) simp
  from reconnection_gives_up [OF client_inv_reachable s(1) this, of demo_codec] show ?thesis
    by (simp add: s(2) Let_def del: run.simps)
qed

section \<open>The outbound buffer\<close>

lemma flush_loop_ok:
  "map (\<lambda>x. frameUserMessage (fst x)) buf = map Inr fs \<Longrightarrow> ready s k = OPEN \<Longrightarrow>
   flush_loop k buf s = (True, s\<lparr>cc_log := cc_log s @ map (WsSend k) fs\<rparr>)"
proof (induction buf arbitrary: fs s)
  case (Cons x buf)
  obtain f fs' where f: "fs = f # fs'" "frameUserMessage (fst x) = Inr f" "map (\<lambda>x. frameUserMessage (fst x)) buf = map Inr fs'"
    using Cons.prems(1) by (cases fs) auto
  have w: "ws_write k f s = s\<lparr>cc_log := cc_log s @ [WsSend k f]\<rparr>"
    using Cons.prems(2) by (simp add: ws_write_def say_def)
  have "ready (ws_write k f s) k = OPEN" using Cons.prems(2) by (simp add: w ready_def)
  from Cons.IH [OF f(3) this] show ?case using f by (cases x) (simp add: w)
qed simp

lemma sends_buffered:
  assumes "cc_state s = Connecting" and "cc_reliableBufferBytes s + sum_list (map estimateByteSize ms) \<le> MAX_BUFFER_BYTES"
  shows "foldl (\<lambda>s m. snd (conn_send m True s)) s ms =
    s\<lparr>cc_reliableBuffer := cc_reliableBuffer s @ map (\<lambda>m. (m, estimateByteSize m)) ms,
      cc_reliableBufferBytes := cc_reliableBufferBytes s + sum_list (map estimateByteSize ms)\<rparr>"
  using assms
proof (induction ms arbitrary: s)
  case (Cons m ms)
  let ?s = "s\<lparr>cc_reliableBuffer := cc_reliableBuffer s @ [(m, estimateByteSize m)],
              cc_reliableBufferBytes := cc_reliableBufferBytes s + estimateByteSize m\<rparr>"
  have "snd (conn_send m True s) = ?s"
    using Cons.prems by (simp add: conn_send_def bufferReliable_def Let_def)
  then show ?case using Cons.IH [of ?s] Cons.prems by (simp add: add.assoc)
qed simp

text \<open>
  What the application sends before the connection is established arrives first. Messages
  sent reliably while CONNECTING, within the cap, are written to the socket in order on receipt
  of the session, after which the buffer is empty and only then \<open>onOpen\<close> is called.
\<close>

theorem early_messages_flushed_before_open:
  assumes "map frameUserMessage ms = map Inr fs" and "sum_list (map estimateByteSize ms) \<le> 1048576"
    and "unpack payload = Some (Session tok cid)"
  shows "let s1 = foldl (\<lambda>s m. snd (conn_send m True s)) (connect url) ms;
      s2 = socket_onmessage unpack 0 now (Some (0 # payload)) (socket_onopen 0 s1)
    in cc_state s2 = Open \<and> cc_clientId s2 = Some cid \<and> cc_reliableBuffer s2 = [] \<and>
       cc_log s2 = [NewWebSocket 0 (withProtocolVersion url)] @ map (WsSend 0) fs @ [CbOpen]"
proof -
  let ?buf = "map (\<lambda>m. (m, estimateByteSize m)) ms"
  define s1 where "s1 = foldl (\<lambda>s m. snd (conn_send m True s)) (connect url) ms"
  have s1: "s1 = (connect url)\<lparr>cc_reliableBuffer := ?buf, cc_reliableBufferBytes := sum_list (map estimateByteSize ms)\<rparr>"
    unfolding s1_def using sends_buffered [of "connect url" ms] assms(2)
    by (simp add: connect_def new_socket_def MAX_BUFFER_BYTES_def)
  define s2 where "s2 = socket_onopen 0 s1"
  have s2: "s2 = set_ready 0 OPEN s1" "cc_state s2 = Connecting" "ready s2 0 = OPEN" "wired s2 0" "\<not> isReconnect s2 0"
      "cc_reliableBuffer s2 = ?buf" "cc_log s2 = [NewWebSocket 0 (withProtocolVersion url)]"
    by (simp_all add: s2_def s1 socket_onopen_def Let_def connect_def new_socket_def ready_def wired_def isReconnect_def
        set_ready_def)
  define s3 where "s3 = startUptime (s2\<lparr>cc_sessionToken := Some tok, cc_clientId := Some cid, cc_state := Open, cc_openedAt := Some now\<rparr>)"
  have "ready s3 0 = OPEN" using s2(3) by (simp add: s3_def startUptime_def ready_def)
  moreover have b: "cc_reliableBuffer s3 = ?buf" "cc_log s3 = cc_log s2" using s2 by (simp_all add: s3_def startUptime_def)
  moreover have "map (\<lambda>x. frameUserMessage (fst x)) ?buf = map Inr fs" using assms(1) by (simp add: comp_def)
  ultimately have f: "flush_loop 0 ?buf s3 = (True, s3\<lparr>cc_log := cc_log s2 @ map (WsSend 0) fs\<rparr>)"
    using flush_loop_ok [of ?buf fs s3 0] by simp
  have "isReconnect (s2\<lparr>cc_sessionToken := x, cc_clientId := y\<rparr>) 0 = isReconnect s2 0" for x y
    by (simp add: isReconnect_def)
  then have "on_protocol 0 now (Session tok cid) s2 =
      say [CbOpen] (s3\<lparr>cc_log := cc_log s2 @ map (WsSend 0) fs, cc_reliableBuffer := [], cc_reliableBufferBytes := 0\<rparr>)"
    using s2(2,5) f b(1)
    by (simp add: on_protocol_def Let_def session_opened_def flushReliableBuffer_def s3_def [symmetric])
  then have "socket_onmessage unpack 0 now (Some (0 # payload)) s2 =
      say [CbOpen] (s3\<lparr>cc_log := cc_log s2 @ map (WsSend 0) fs, cc_reliableBuffer := [], cc_reliableBufferBytes := 0\<rparr>)"
    using s2(3,4) assms(3) by (simp add: socket_onmessage_def unpackFrame_def FRAME_PROTOCOL_def)
  then show ?thesis
    unfolding s1_def [symmetric] s2_def [symmetric] Let_def by (simp add: s2(7)) (simp add: s3_def startUptime_def)
qed

theorem early_messages_flushed_before_open_witness:
  "let s = socket_onmessage (co_unpack demo_codec) 0 5 (Some [0, 7])
     (socket_onopen 0 (foldl (\<lambda>s m. snd (conn_send m True s)) (connect ''ws://h'') [TextMsg [104], BufferMsg [1]]))
   in cc_log s = [NewWebSocket 0 ''ws://h?gv=1'', WsSend 0 [1, 104], WsSend 0 [2, 1], CbOpen]"
proof -
  have "map frameUserMessage [TextMsg [104], BufferMsg [1]] = map Inr [[1, 104], [2, 1]]"
    by (simp add: frameUserMessage_def packUserText_def packUserBinary_def textEncoder_encode_def utf8_scalar_def
        FRAME_USER_TEXT_def FRAME_USER_BINARY_def)
  moreover have "sum_list (map estimateByteSize [TextMsg [104], BufferMsg [1]]) \<le> 1048576" by simp
  moreover have "co_unpack demo_codec [7] = Some (Session ''tok'' ''c1'')" by (simp add: demo_codec_def)
  moreover have "withProtocolVersion ''ws://h'' = ''ws://h?gv=1''" by code_simp
  ultimately show ?thesis
    using early_messages_flushed_before_open [of "[TextMsg [104], BufferMsg [1]]" "[[1, 104], [2, 1]]" "co_unpack demo_codec" "[7]"
        "''tok''" "''c1''" "''ws://h''" 5]
    by (simp only: Let_def) simp
qed

text \<open>
  An overflow of the outbound buffer during connect closes the connection for the
  application but not the socket: \<open>onClose\<close> is reported while the already open socket stays
  open and wired, and a later user message on it still reaches \<open>onMessage\<close>.
\<close>

theorem overflow_leaves_socket_open:
  assumes "cc_state s = Connecting" and "ready s k = OPEN" and "wired s k"
    and "cc_reliableBufferBytes s + estimateByteSize m > 1048576"
  shows "let s1 = snd (conn_send m True s); s2 = socket_onmessage unpack k now (Some (2 # d)) s1 in
    cc_state s1 = Closed \<and> ready s1 k = OPEN \<and>
    cc_log s1 = cc_log s @ [CbClose 1009 ''outbound buffer overflow'' BufferOverflow] \<and>
    cc_log s2 = cc_log s1 @ [CbMessage (UserBinary d)]"
proof -
  define s1 where "s1 = snd (conn_send m True s)"
  have s1: "cc_state s1 = Closed" "cc_sockets s1 = cc_sockets s"
      "cc_log s1 = cc_log s @ [CbClose 1009 ''outbound buffer overflow'' BufferOverflow]"
    using assms by (simp_all add: s1_def conn_send_def bufferReliable_def Let_def MAX_BUFFER_BYTES_def)
  have "ready s1 k = OPEN" "wired s1 k" using socket_reads [OF s1(2)] assms(2,3) by simp_all
  then show ?thesis
    using s1 unfolding s1_def [symmetric] Let_def
    by (simp add: socket_onmessage_def unpackFrame_def FRAME_PROTOCOL_def FRAME_USER_TEXT_def FRAME_USER_BINARY_def)
qed

theorem overflow_leaves_socket_open_witness:
  "let s1 = snd (conn_send (ViewMsg [] 0 2000000) True (socket_onopen 0 (connect ''ws://h''))) in
   last (cc_log (socket_onmessage (co_unpack demo_codec) 0 5 (Some [2, 42]) s1)) = CbMessage (UserBinary [42])"
proof -
  let ?s = "socket_onopen 0 (connect ''ws://h'')"
  have "cc_state ?s = Connecting" "ready ?s 0 = OPEN" "wired ?s 0" "cc_reliableBufferBytes ?s = 0" by code_simp+
  then show ?thesis
    using overflow_leaves_socket_open [of ?s 0 "ViewMsg [] 0 2000000" "co_unpack demo_codec" 5 "[42]"]
    by (simp add: Let_def)
qed

text \<open>
  A \<open>Blob\<close>, which the type of \<open>send\<close> admits, is buffered like any message and makes the flush
  throw: the connection is open, yet \<open>onOpen\<close> is never called and the buffer keeps all of its
  messages, those already written included.
\<close>

lemma blob_wedges_open:
  assumes "cc_reliableBuffer s = (BlobMsg b, n) # rest"
  shows "session_opened k now CbOpen s = startUptime (s\<lparr>cc_state := Open, cc_openedAt := Some now\<rparr>)"
proof -
  have "cc_reliableBuffer (startUptime (s\<lparr>cc_state := Open, cc_openedAt := Some now\<rparr>)) = (BlobMsg b, n) # rest"
    using assms by (simp add: startUptime_def)
  then show ?thesis by (simp add: session_opened_def flushReliableBuffer_def frameUserMessage_def)
qed

end
