(* ===== verification/Punctuate.thy ===== *)
theory Punctuate
  imports Prelude
begin

text \<open>
  \<open>src/common/punctuate.ts\<close>: the self-pacing loop that drives the heartbeat and leader loops. A
  call of \<open>tick\<close> is a run with a position: racing its timeout, past the race, or returned. The
  promise of the run itself is not cancelled by the timeout; \<open>pr_executing\<close> says that it has not
  settled. Timers have ids, so that a cleared one can be told from one that was scheduled later.
\<close>

section \<open>State\<close>

datatype position = Racing | Raced | Returned

record punctuate_run =
  pr_epoch :: nat
  pr_startedAt :: ms
  pr_position :: position
  pr_executing :: bool

record punctuator =
  pu_intervalMs :: ms
  pu_stopped :: bool
  pu_timer :: "nat option"
  pu_armed :: "(nat \<times> ms) list"
  pu_epoch :: nat
  pu_runs :: "(nat, punctuate_run) jsmap"
  pu_next :: nat

definition isCurrent :: "punctuator \<Rightarrow> nat \<Rightarrow> bool" where
  "isCurrent s i \<longleftrightarrow>
     (case jm_get (pu_runs s) i of None \<Rightarrow> False | Some r \<Rightarrow> \<not> pu_stopped s \<and> pu_epoch s = pr_epoch r)"

definition set_run :: "nat \<Rightarrow> punctuate_run \<Rightarrow> punctuator \<Rightarrow> punctuator" where
  "set_run i r s = s\<lparr>pu_runs := jm_set (pu_runs s) i r\<rparr>"

section \<open>Operations\<close>

definition punctuate_stop :: "punctuator \<Rightarrow> punctuator" where
  "punctuate_stop s =
     (let s1 = s\<lparr>pu_stopped := True, pu_epoch := Suc (pu_epoch s)\<rparr> in
      case pu_timer s1 of None \<Rightarrow> s1
      | Some i \<Rightarrow> s1\<lparr>pu_armed := filter (\<lambda>x. fst x \<noteq> i) (pu_armed s1), pu_timer := None\<rparr>)"

text \<open>\<open>tick\<close> up to the await of \<open>withTimeout\<close>, which starts the run and its timeout.\<close>

definition punctuate_tick :: "ms \<Rightarrow> punctuator \<Rightarrow> punctuator" where
  "punctuate_tick now s =
     (if pu_stopped s then s
      else (set_run (pu_next s)
              \<lparr>pr_epoch = pu_epoch s, pr_startedAt = now, pr_position = Racing, pr_executing = True\<rparr> s)
             \<lparr>pu_next := Suc (pu_next s)\<rparr>)"

text \<open>The run's promise settles; it wins the race if the race is still on.\<close>

definition run_settles :: "nat \<Rightarrow> punctuator \<Rightarrow> punctuator" where
  "run_settles i s =
     (case jm_get (pu_runs s) i of None \<Rightarrow> s
      | Some r \<Rightarrow> if \<not> pr_executing r then s
          else set_run i (r\<lparr>pr_executing := False, pr_position := (if pr_position r = Racing then Raced else pr_position r)\<rparr>) s)"

text \<open>The timeout wins: \<open>onTimeout\<close> advances the epoch at once.\<close>

definition run_timeout :: "nat \<Rightarrow> punctuator \<Rightarrow> punctuator" where
  "run_timeout i s =
     (case jm_get (pu_runs s) i of None \<Rightarrow> s
      | Some r \<Rightarrow> if pr_position r \<noteq> Racing then s
          else
            let s1 = (if pu_epoch s = pr_epoch r then s\<lparr>pu_epoch := Suc (pu_epoch s)\<rparr> else s)
            in set_run i (r\<lparr>pr_position := Raced\<rparr>) s1)"

text \<open>The rest of \<open>tick\<close>, whichever way the race ended.\<close>

definition tick_rest :: "ms \<Rightarrow> nat \<Rightarrow> punctuator \<Rightarrow> punctuator" where
  "tick_rest now i s =
     (case jm_get (pu_runs s) i of None \<Rightarrow> s
      | Some r \<Rightarrow> if pr_position r \<noteq> Raced then s
          else
            let s1 = set_run i (r\<lparr>pr_position := Returned\<rparr>) s in
            if pu_stopped s1 then s1
            else
              let delay = max 0 (pu_intervalMs s1 - (now - pr_startedAt r));
                  s2 = (if pu_epoch s1 = pr_epoch r then s1\<lparr>pu_epoch := Suc (pu_epoch s1)\<rparr> else s1)
              in s2\<lparr>pu_timer := Some (pu_next s2), pu_armed := (pu_next s2, now + delay) # pu_armed s2,
                    pu_next := Suc (pu_next s2)\<rparr>)"

definition timer_fires :: "ms \<Rightarrow> nat \<Rightarrow> punctuator \<Rightarrow> punctuator" where
  "timer_fires now i s =
     (if i \<in> fst ` set (pu_armed s)
      then punctuate_tick now (s\<lparr>pu_armed := filter (\<lambda>x. fst x \<noteq> i) (pu_armed s)\<rparr>) else s)"

definition punctuate :: "ms \<Rightarrow> ms \<Rightarrow> punctuator" where
  "punctuate intervalMs now =
     punctuate_tick now
       \<lparr>pu_intervalMs = intervalMs, pu_stopped = False, pu_timer = None, pu_armed = [], pu_epoch = 0,
        pu_runs = [], pu_next = 0\<rparr>"

section \<open>The machine\<close>

datatype punctuate_event = EvStop | EvSettles nat | EvTimeout nat | EvRest nat | EvFires nat

fun punctuate_step :: "punctuator \<Rightarrow> ms \<times> punctuate_event \<Rightarrow> punctuator" where
  "punctuate_step s (now, EvStop) = punctuate_stop s"
| "punctuate_step s (now, EvSettles i) = run_settles i s"
| "punctuate_step s (now, EvTimeout i) = run_timeout i s"
| "punctuate_step s (now, EvRest i) = tick_rest now i s"
| "punctuate_step s (now, EvFires i) = timer_fires now i s"

text \<open>
  The one tick in progress: a run that has not returned, or the armed timer that will start the
  next. \<open>Idle\<close> only once the loop was stopped.
\<close>

datatype progress = InFlight nat | Scheduled nat ms | Idle

definition returned_old :: "punctuator \<Rightarrow> bool" where
  "returned_old s \<longleftrightarrow> jm_wf (pu_runs s) \<and>
     (\<forall>i r. jm_get (pu_runs s) i = Some r \<longrightarrow> i < pu_next s \<and> (pr_position r = Returned \<longrightarrow> pr_epoch r < pu_epoch s))"

definition only_active :: "punctuator \<Rightarrow> nat option \<Rightarrow> bool" where
  "only_active s a \<longleftrightarrow>
     (\<forall>i r. jm_get (pu_runs s) i = Some r \<and> pr_position r \<noteq> Returned \<longrightarrow> a = Some i)"

fun progress_ok :: "punctuator \<Rightarrow> progress \<Rightarrow> bool" where
  "progress_ok s (InFlight i) \<longleftrightarrow>
     pu_armed s = [] \<and> only_active s (Some i) \<and>
     (\<exists>r. jm_get (pu_runs s) i = Some r \<and> pr_epoch r \<le> pu_epoch s \<and>
        (pr_position r = Racing \<and> (\<not> pu_stopped s \<longrightarrow> pr_epoch r = pu_epoch s) \<or>
         pr_position r = Raced \<and> (pr_executing r \<longrightarrow> pr_epoch r < pu_epoch s)) \<and>
        (pu_stopped s \<longrightarrow> pr_epoch r < pu_epoch s))"
| "progress_ok s (Scheduled j at) \<longleftrightarrow>
     \<not> pu_stopped s \<and> pu_armed s = [(j, at)] \<and> pu_timer s = Some j \<and> only_active s None"
| "progress_ok s Idle \<longleftrightarrow> pu_stopped s \<and> pu_armed s = [] \<and> only_active s None"

definition punctuate_inv :: "punctuator \<Rightarrow> bool" where
  "punctuate_inv s \<longleftrightarrow> returned_old s \<and> (\<exists>p. progress_ok s p)"

section \<open>The invariant\<close>

lemma set_run_fields [simp]:
  "pu_stopped (set_run i r s) = pu_stopped s" "pu_timer (set_run i r s) = pu_timer s"
  "pu_armed (set_run i r s) = pu_armed s" "pu_epoch (set_run i r s) = pu_epoch s"
  "pu_next (set_run i r s) = pu_next s" "pu_runs (set_run i r s) = jm_set (pu_runs s) i r"
  "pu_intervalMs (set_run i r s) = pu_intervalMs s"
  by (simp_all add: set_run_def)

lemma returned_oldD:
  "returned_old s \<Longrightarrow> jm_get (pu_runs s) i = Some r \<Longrightarrow> pr_position r = Returned \<Longrightarrow> pr_epoch r < pu_epoch s"
  "returned_old s \<Longrightarrow> jm_get (pu_runs s) i = Some r \<Longrightarrow> i < pu_next s"
  "returned_old s \<Longrightarrow> jm_wf (pu_runs s)"
  by (auto simp: returned_old_def)

lemma only_activeD:
  "only_active s a \<Longrightarrow> jm_get (pu_runs s) i = Some r \<Longrightarrow> pr_position r \<noteq> Returned \<Longrightarrow> a = Some i"
  by (auto simp: only_active_def)

lemma only_active_set:
  "only_active s a \<Longrightarrow> (pr_position q \<noteq> Returned \<Longrightarrow> a = Some i) \<Longrightarrow> only_active (set_run i q s) a"
  by (auto simp: only_active_def)

lemma active_is_progress:
  assumes "progress_ok s p" and "jm_get (pu_runs s) i = Some r" and "pr_position r \<noteq> Returned"
  shows "p = InFlight i"
  using assms(1) only_activeD [OF _ assms(2,3)] by (cases p) auto

lemma inv_stop: "punctuate_inv s \<Longrightarrow> punctuate_inv (punctuate_stop s)"
proof -
  assume "punctuate_inv s"
  then obtain p where old: "returned_old s" and p: "progress_ok s p" by (auto simp: punctuate_inv_def)
  have "returned_old (punctuate_stop s)"
    using old by (force simp: returned_old_def punctuate_stop_def Let_def split: option.split)
  moreover have "progress_ok (punctuate_stop s) (case p of InFlight i \<Rightarrow> InFlight i | _ \<Rightarrow> Idle)"
  proof (cases p)
    case (InFlight i)
    with p show ?thesis by (auto simp: punctuate_stop_def Let_def only_active_def split: option.split)
  next
    case (Scheduled j at)
    with p show ?thesis by (simp add: punctuate_stop_def Let_def only_active_def)
  next
    case Idle
    with p show ?thesis by (auto simp: punctuate_stop_def Let_def only_active_def split: option.split)
  qed
  ultimately show ?thesis unfolding punctuate_inv_def by blast
qed

lemma inv_settles: "punctuate_inv s \<Longrightarrow> punctuate_inv (run_settles i s)"
proof -
  assume "punctuate_inv s"
  then obtain p where old: "returned_old s" and p: "progress_ok s p" by (auto simp: punctuate_inv_def)
  show ?thesis
  proof (cases "\<exists>r. jm_get (pu_runs s) i = Some r \<and> pr_executing r")
    case False
    with \<open>punctuate_inv s\<close> show ?thesis by (auto simp: run_settles_def split: option.split)
  next
    case True
    then obtain r where r: "jm_get (pu_runs s) i = Some r" "pr_executing r" by blast
    let ?r = "r\<lparr>pr_executing := False, pr_position := (if pr_position r = Racing then Raced else pr_position r)\<rparr>"
    have eq: "run_settles i s = set_run i ?r s" using r by (simp add: run_settles_def)
    have "returned_old (set_run i ?r s)"
      using old r by (auto simp: returned_old_def)
    moreover have "progress_ok (set_run i ?r s) p"
    proof (cases "pr_position r = Returned")
      case True
      then show ?thesis using p r by (cases p) (auto intro!: only_active_set split: if_splits)
    next
      case False
      then have pi: "p = InFlight i" by (rule active_is_progress [OF p r(1)])
      show ?thesis using p r unfolding pi by (auto intro!: only_active_set)
    qed
    ultimately show ?thesis unfolding eq punctuate_inv_def by blast
  qed
qed

lemma inv_timeout: "punctuate_inv s \<Longrightarrow> punctuate_inv (run_timeout i s)"
proof -
  assume "punctuate_inv s"
  then obtain p where old: "returned_old s" and p: "progress_ok s p" by (auto simp: punctuate_inv_def)
  show ?thesis
  proof (cases "\<exists>r. jm_get (pu_runs s) i = Some r \<and> pr_position r = Racing")
    case False
    with \<open>punctuate_inv s\<close> show ?thesis by (auto simp: run_timeout_def split: option.split)
  next
    case True
    then obtain r where r: "jm_get (pu_runs s) i = Some r" "pr_position r = Racing" by blast
    have pi: "p = InFlight i"
      by (rule active_is_progress [OF p r(1)]) (simp add: r(2))
    have old': "returned_old (run_timeout i s)"
      using old r by (force simp: returned_old_def run_timeout_def Let_def)
    have "progress_ok (run_timeout i s) (InFlight i)"
      using p r unfolding pi by (auto simp: run_timeout_def Let_def only_active_def)
    with old' show ?thesis unfolding punctuate_inv_def by blast
  qed
qed

lemma inv_rest: "punctuate_inv s \<Longrightarrow> punctuate_inv (tick_rest now i s)"
proof -
  assume "punctuate_inv s"
  then obtain p where old: "returned_old s" and p: "progress_ok s p" by (auto simp: punctuate_inv_def)
  show ?thesis
  proof (cases "\<exists>r. jm_get (pu_runs s) i = Some r \<and> pr_position r = Raced")
    case False
    with \<open>punctuate_inv s\<close> show ?thesis by (auto simp: tick_rest_def split: option.split)
  next
    case True
    then obtain r where r: "jm_get (pu_runs s) i = Some r" "pr_position r = Raced" by blast
    have pi: "p = InFlight i"
      by (rule active_is_progress [OF p r(1)]) (simp add: r(2))
    have only: "only_active s (Some i)" "pu_armed s = []" "pr_epoch r \<le> pu_epoch s" "pu_stopped s \<Longrightarrow> pr_epoch r < pu_epoch s"
      using p r unfolding pi by auto
    have rest: "pr_position q = Returned" if "jm_get (pu_runs s) j = Some q" "j \<noteq> i" for j q
      using only_activeD [OF only(1) that(1)] that(2) by auto
    show ?thesis
    proof (cases "pu_stopped s")
      case True
      then have eq: "tick_rest now i s = set_run i (r\<lparr>pr_position := Returned\<rparr>) s"
        using r by (simp add: tick_rest_def Let_def)
      have "returned_old (tick_rest now i s)" using old only True r by (auto simp: eq returned_old_def)
      moreover have "progress_ok (tick_rest now i s) Idle"
        using True only rest by (auto simp: eq only_active_def)
      ultimately show ?thesis unfolding punctuate_inv_def by blast
    next
      case False
      let ?at = "now + max 0 (pu_intervalMs s - (now - pr_startedAt r))"
      have old': "returned_old (tick_rest now i s)"
        using old only r False by (force simp: tick_rest_def Let_def returned_old_def)
      have "progress_ok (tick_rest now i s) (Scheduled (pu_next s) ?at)"
        using False only r rest by (auto simp: tick_rest_def Let_def only_active_def)
      with old' show ?thesis unfolding punctuate_inv_def by blast
    qed
  qed
qed

lemma inv_tick:
  assumes old: "returned_old s" and none: "only_active s None" "pu_armed s = []" and on: "\<not> pu_stopped s"
  shows "punctuate_inv (punctuate_tick now s)"
proof -
  have "returned_old (punctuate_tick now s)"
    using old on by (auto simp: punctuate_tick_def returned_old_def less_SucI)
  moreover have "progress_ok (punctuate_tick now s) (InFlight (pu_next s))"
    using none on by (auto simp: punctuate_tick_def only_active_def)
  ultimately show ?thesis unfolding punctuate_inv_def by blast
qed

lemma inv_fires: "punctuate_inv s \<Longrightarrow> punctuate_inv (timer_fires now j s)"
proof -
  assume inv: "punctuate_inv s"
  then obtain p where old: "returned_old s" and p: "progress_ok s p" by (auto simp: punctuate_inv_def)
  show ?thesis
  proof (cases "j \<in> fst ` set (pu_armed s)")
    case False
    with inv show ?thesis by (simp add: timer_fires_def)
  next
    case True
    then obtain at where "p = Scheduled j at" using p by (cases p) auto
    with p have s: "pu_armed s = [(j, at)]" "only_active s None" "\<not> pu_stopped s" by auto
    then have eq: "timer_fires now j s = punctuate_tick now (s\<lparr>pu_armed := []\<rparr>)" by (simp add: timer_fires_def)
    show ?thesis unfolding eq
      by (rule inv_tick) (use old s in \<open>simp_all add: returned_old_def only_active_def\<close>)
  qed
qed

interpretation pm: step_invariant punctuate_step "\<lambda>_ _. True" punctuate_inv
proof
  show "punctuate_inv (punctuate_step s ev)" if "punctuate_inv s" for s ev
  proof (cases ev)
    case (Pair now e)
    with that show ?thesis
      by (cases e) (simp_all add: inv_stop inv_settles inv_timeout inv_rest inv_fires)
  qed
qed

lemma inv_punctuate: "punctuate_inv (punctuate intervalMs now)"
  unfolding punctuate_def by (rule inv_tick) (simp_all add: returned_old_def only_active_def)

definition active_runs :: "punctuator \<Rightarrow> (nat \<times> punctuate_run) list" where
  "active_runs s = filter (\<lambda>x. pr_position (snd x) \<noteq> Returned) (pu_runs s)"

lemma active_runs_count:
  assumes "returned_old s" and "only_active s a" and "\<And>i. a = Some i \<Longrightarrow> \<exists>r. jm_get (pu_runs s) i = Some r \<and> pr_position r \<noteq> Returned"
  shows "length (active_runs s) = (if a = None then 0 else 1)"
proof -
  have wf: "jm_wf (pu_runs s)" by (rule returned_oldD(3) [OF assms(1)])
  have mem: "(i, r) \<in> set (active_runs s) \<longleftrightarrow> jm_get (pu_runs s) i = Some r \<and> pr_position r \<noteq> Returned" for i r
    using jm_mem_get [OF wf] by (simp add: active_runs_def)
  have dist: "distinct (active_runs s)"
    using wf by (simp add: active_runs_def jm_wf_def distinct_map)
  show ?thesis
  proof (cases a)
    case None
    have "x \<notin> set (active_runs s)" for x
      using mem [of "fst x" "snd x"] only_activeD [OF assms(2), of "fst x" "snd x"] None by auto
    then have "active_runs s = []" by (metis list.set_intros(1) neq_Nil_conv)
    with None show ?thesis by simp
  next
    case (Some i)
    then obtain r where r: "jm_get (pu_runs s) i = Some r" "pr_position r \<noteq> Returned" using assms(3) by blast
    have "set (active_runs s) = {(i, r)}"
    proof (rule set_eqI)
      fix x show "x \<in> set (active_runs s) \<longleftrightarrow> x \<in> {(i, r)}"
        using mem [of "fst x" "snd x"] only_activeD [OF assms(2), of "fst x" "snd x"] Some r by (cases x) auto
    qed
    with dist Some show ?thesis by (metis distinct_card card.empty card.insert empty_iff finite.emptyI One_nat_def option.distinct(1))
  qed
qed

text \<open>
  C31: Ticks never overlap and the loop never dies: in every reachable state exactly one tick is in
  flight or scheduled, unless the loop was stopped, when none is scheduled. A run that reads
  \<open>isCurrent()\<close> as true is the one tick in flight and, while its promise is unsettled, has not
  timed out; and once stopped no run is current.
\<close>

theorem punctuate_never_overlaps:
  "let s = run punctuate_step (punctuate intervalMs t0) evs in
     (if pu_stopped s then pu_armed s = [] \<and> length (active_runs s) \<le> 1 \<and> (\<forall>i. \<not> isCurrent s i)
      else length (active_runs s) + length (pu_armed s) = 1) \<and>
     (\<forall>i r. isCurrent s i \<and> jm_get (pu_runs s) i = Some r \<longrightarrow>
        active_runs s = [(i, r)] \<and> (pr_executing r \<longrightarrow> pr_position r = Racing))"
proof -
  define s where "s = run punctuate_step (punctuate intervalMs t0) evs"
  have "punctuate_inv s"
    unfolding s_def by (rule pm.I_run [OF inv_punctuate]) simp
  then obtain p where old: "returned_old s" and p: "progress_ok s p" by (auto simp: punctuate_inv_def)
  have count: "length (active_runs s) = (case p of InFlight i \<Rightarrow> 1 | _ \<Rightarrow> 0)"
    using active_runs_count [OF old, of "case p of InFlight i \<Rightarrow> Some i | _ \<Rightarrow> None"] p by (cases p) auto
  have current: "active_runs s = [(i, r)] \<and> (pr_executing r \<longrightarrow> pr_position r = Racing) \<and> \<not> pu_stopped s"
    if c: "isCurrent s i" and r: "jm_get (pu_runs s) i = Some r" for i r
  proof -
    have live: "\<not> pu_stopped s" "pu_epoch s = pr_epoch r" using c r by (simp_all add: isCurrent_def)
    then have act: "pr_position r \<noteq> Returned" using returned_oldD(1) [OF old r] by auto
    then have pi: "p = InFlight i" by (rule active_is_progress [OF p r])
    then obtain x where x: "active_runs s = [x]" using count by (auto simp: length_Suc_conv)
    have "(i, r) \<in> set (active_runs s)"
      using act r jm_mem_get [OF returned_oldD(3) [OF old]] by (simp add: active_runs_def)
    with x p r live pi show ?thesis by auto
  qed
  have "\<not> isCurrent s i" if "pu_stopped s" for i
    using that by (simp add: isCurrent_def split: option.split)
  then have "if pu_stopped s then pu_armed s = [] \<and> length (active_runs s) \<le> 1 \<and> (\<forall>i. \<not> isCurrent s i)
      else length (active_runs s) + length (pu_armed s) = 1"
    using count p by (cases p) auto
  then show ?thesis using current unfolding s_def [symmetric] Let_def by blast
qed

theorem punctuate_never_overlaps_witness:
  "let s = run punctuate_step (punctuate 5000 0) [(5000, EvTimeout 0), (5000, EvRest 0), (5000, EvFires 1)] in
     isCurrent s 2 \<and> \<not> isCurrent s 0 \<and> active_runs s = [(2, the (jm_get (pu_runs s) 2))]"
proof -
  let ?s = "run punctuate_step (punctuate 5000 0) [(5000, EvTimeout 0), (5000, EvRest 0), (5000, EvFires 1)]"
  have "isCurrent ?s 2" "\<not> isCurrent ?s 0" by code_simp+
  moreover obtain r where "jm_get (pu_runs ?s) 2 = Some r"
    using \<open>isCurrent ?s 2\<close> by (auto simp: isCurrent_def split: option.splits)
  ultimately show ?thesis
    using punctuate_never_overlaps [of 5000 0 "[(5000, EvTimeout 0), (5000, EvRest 0), (5000, EvFires 1)]"]
    unfolding Let_def by simp
qed

end
