(* ===== verification/Subscriber_Canary.thy ===== *)
theory Subscriber_Canary
  imports Prelude
begin

text \<open>
  \<open>src/driver/subscriber-canary.ts\<close>: tokens published to a channel the subscriber listens on. A
  token is the decimal string of the sequence number, which is kept as the number. The time before
  the first token is \<open>None\<close>. What a tick makes the canary do, \<open>publish\<close> or \<open>reconnect\<close>, is its
  result; the promise of a publish settles by an event of its own.
\<close>

definition CANARY_INTERVAL_MS :: ms where "CANARY_INTERVAL_MS = 5000"

definition CANARY_TIMEOUT_MS :: ms where "CANARY_TIMEOUT_MS = 10000"

definition CANARY_CHECK_MS :: ms where "CANARY_CHECK_MS = 1000"

definition CANARY_DETECTION_BOUND_MS :: ms where
  "CANARY_DETECTION_BOUND_MS = CANARY_INTERVAL_MS + CANARY_TIMEOUT_MS + CANARY_CHECK_MS"

record outstanding_token =
  ot_token :: nat
  ot_publishedAt :: "ms option"

record canary =
  ca_sequence :: nat
  ca_lastSentAt :: "ms option"
  ca_outstanding :: "outstanding_token option"

datatype canary_action = Publish nat | Reconnect ms

section \<open>Operations\<close>

definition createSubscriberCanary :: canary where
  "createSubscriberCanary = \<lparr>ca_sequence = 0, ca_lastSentAt = None, ca_outstanding = None\<rparr>"

definition canary_received :: "nat \<Rightarrow> canary \<Rightarrow> canary" where
  "canary_received token s =
     (case ca_outstanding s of
        Some out \<Rightarrow> if ot_token out = token then s\<lparr>ca_outstanding := None\<rparr> else s
      | None \<Rightarrow> s)"

definition canary_tick :: "bool \<Rightarrow> ms \<Rightarrow> canary \<Rightarrow> canary_action list \<times> canary" where
  "canary_tick ready at s =
     (if \<not> ready then ([], s\<lparr>ca_outstanding := None\<rparr>)
      else case ca_outstanding s of
        Some out \<Rightarrow>
          (case ot_publishedAt out of
             Some publishedAt \<Rightarrow>
               if at - publishedAt > CANARY_TIMEOUT_MS then ([Reconnect (at - publishedAt)], s\<lparr>ca_outstanding := None\<rparr>)
               else ([], s)
           | None \<Rightarrow> ([], s))
      | None \<Rightarrow>
          if (case ca_lastSentAt s of Some sentAt \<Rightarrow> at - sentAt < CANARY_INTERVAL_MS | None \<Rightarrow> False) then ([], s)
          else
            let token = Suc (ca_sequence s)
            in ([Publish token],
                \<lparr>ca_sequence = token, ca_lastSentAt = Some at,
                 ca_outstanding = Some \<lparr>ot_token = token, ot_publishedAt = None\<rparr>\<rparr>))"

text \<open>
  The settlement of a publish writes to, or compares, the object of its own token; sequence
  numbers are never reused, so the object is still outstanding exactly when its token is.
\<close>

definition publish_resolved :: "nat \<Rightarrow> ms \<Rightarrow> canary \<Rightarrow> canary" where
  "publish_resolved token now s =
     (case ca_outstanding s of
        Some out \<Rightarrow> if ot_token out = token then s\<lparr>ca_outstanding := Some (out\<lparr>ot_publishedAt := Some now\<rparr>)\<rparr> else s
      | None \<Rightarrow> s)"

definition publish_rejected :: "nat \<Rightarrow> canary \<Rightarrow> canary" where
  "publish_rejected token s =
     (case ca_outstanding s of
        Some out \<Rightarrow> if ot_token out = token then s\<lparr>ca_outstanding := None\<rparr> else s
      | None \<Rightarrow> s)"

section \<open>The machine\<close>

datatype canary_event =
    CaTick bool ms
  | CaReceived nat
  | CaResolved nat ms
  | CaRejected nat

fun canary_step :: "canary \<Rightarrow> canary_event \<Rightarrow> canary" where
  "canary_step s (CaTick ready at) = snd (canary_tick ready at s)"
| "canary_step s (CaReceived token) = canary_received token s"
| "canary_step s (CaResolved token now) = publish_resolved token now s"
| "canary_step s (CaRejected token) = publish_rejected token s"

abbreviation canary_run :: "canary_event list \<Rightarrow> canary" where
  "canary_run evs \<equiv> run canary_step createSubscriberCanary evs"

text \<open>
  A history in which the token was published, its publish resolved at the time given, if any, and
  nothing took it back since: it was not received, its publish was not rejected and the subscriber
  was ready at every tick.
\<close>

definition sent_and_lost :: "nat \<Rightarrow> ms option \<Rightarrow> canary_event list \<Rightarrow> bool" where
  "sent_and_lost token publishedAt evs \<longleftrightarrow>
     (\<exists>before after sent. evs = before @ CaTick True sent # after \<and>
        fst (canary_tick True sent (canary_run before)) = [Publish token] \<and>
        (\<forall>p. publishedAt = Some p \<longrightarrow> CaResolved token p \<in> set after) \<and>
        CaReceived token \<notin> set after \<and> CaRejected token \<notin> set after \<and> (\<forall>at. CaTick False at \<notin> set after))"

definition outstanding_explained :: "canary_event list \<Rightarrow> bool" where
  "outstanding_explained evs \<longleftrightarrow>
     (\<forall>out. ca_outstanding (canary_run evs) = Some out \<longrightarrow> sent_and_lost (ot_token out) (ot_publishedAt out) evs)"

lemma sent_and_lost_snoc:
  assumes "sent_and_lost token p evs" and "e \<noteq> CaReceived token" "e \<noteq> CaRejected token" "\<And>at. e \<noteq> CaTick False at"
  shows "sent_and_lost token p (evs @ [e])" and "e = CaResolved token now \<Longrightarrow> sent_and_lost token (Some now) (evs @ [e])"
proof -
  obtain before after sent where h: "evs = before @ CaTick True sent # after"
    "fst (canary_tick True sent (canary_run before)) = [Publish token]"
    "\<forall>q. p = Some q \<longrightarrow> CaResolved token q \<in> set after"
    "CaReceived token \<notin> set after" "CaRejected token \<notin> set after" "\<forall>at. CaTick False at \<notin> set after"
    using assms(1) unfolding sent_and_lost_def by blast
  from h(1) have "evs @ [e] = before @ CaTick True sent # after @ [e]" by simp
  moreover have "CaReceived token \<notin> set (after @ [e])" "CaRejected token \<notin> set (after @ [e])"
    "\<forall>at. CaTick False at \<notin> set (after @ [e])"
    using h(4-6) assms(2-4) by auto
  moreover have "\<forall>q. p = Some q \<longrightarrow> CaResolved token q \<in> set (after @ [e])"
    and "e = CaResolved token now \<Longrightarrow> \<forall>q. Some now = Some q \<longrightarrow> CaResolved token q \<in> set (after @ [e])"
    using h(3) by auto
  ultimately show "sent_and_lost token p (evs @ [e])" and "e = CaResolved token now \<Longrightarrow> sent_and_lost token (Some now) (evs @ [e])"
    using h(2) unfolding sent_and_lost_def by blast+
qed

lemma run_snoc: "run step s (xs @ [e]) = step (run step s xs) e"
  by (simp add: run_append)

lemma just_published:
  assumes "canary_tick ready at s = (acts, s')" and "Publish token \<in> set acts"
  shows "ready \<and> acts = [Publish token] \<and> ca_outstanding s' = Some \<lparr>ot_token = token, ot_publishedAt = None\<rparr>"
  using assms by (auto simp: canary_tick_def Let_def split: if_splits option.splits)

lemma explained_step:
  assumes "outstanding_explained evs"
  shows "outstanding_explained (evs @ [e])"
proof -
  let ?s = "canary_run evs"
  have old: "sent_and_lost (ot_token out) (ot_publishedAt out) evs" if "ca_outstanding ?s = Some out" for out
    using assms that unfolding outstanding_explained_def by blast
  have "sent_and_lost (ot_token out) (ot_publishedAt out) (evs @ [e])"
    if out: "ca_outstanding (canary_step ?s e) = Some out" for out
  proof (cases e)
    case (CaReceived tok)
    with out have "ca_outstanding ?s = Some out" "tok \<noteq> ot_token out"
      by (auto simp: canary_received_def split: option.splits if_splits)
    then show ?thesis using CaReceived by (intro sent_and_lost_snoc(1) old) auto
  next
    case (CaRejected tok)
    with out have "ca_outstanding ?s = Some out" "tok \<noteq> ot_token out"
      by (auto simp: publish_rejected_def split: option.splits if_splits)
    then show ?thesis using CaRejected by (intro sent_and_lost_snoc(1) old) auto
  next
    case (CaResolved tok now)
    then obtain o' where o': "ca_outstanding ?s = Some o'" "ot_token o' = ot_token out"
      "out = o' \<or> tok = ot_token out \<and> ot_publishedAt out = Some now"
      using out by (auto simp: publish_resolved_def split: option.splits if_splits)
    show ?thesis
      using o'(2,3) CaResolved sent_and_lost_snoc(1) [OF old [OF o'(1)], of e]
        sent_and_lost_snoc(2) [OF old [OF o'(1)], of e now] by auto
  next
    case (CaTick ready at)
    obtain acts s' where tick: "canary_tick ready at ?s = (acts, s')" by fastforce
    then have s': "ca_outstanding s' = Some out" using out CaTick by simp
    show ?thesis
    proof (cases "ca_outstanding ?s = Some out \<and> ready")
      case True
      with CaTick show ?thesis by (intro sent_and_lost_snoc(1) old) auto
    next
      case False
      then have pub: "ready" "acts = [Publish (ot_token out)]" "ot_publishedAt out = None"
        using tick s' by (auto simp: canary_tick_def Let_def split: if_splits option.splits)
      show ?thesis unfolding sent_and_lost_def
        by (rule exI [of _ evs], rule exI [of _ "[]"], rule exI [of _ at]) (use pub tick CaTick in simp)
    qed
  qed
  then show ?thesis unfolding outstanding_explained_def run_snoc by blast
qed

lemma explained: "outstanding_explained evs"
proof (induction evs rule: rev_induct)
  case Nil
  show ?case by (simp add: outstanding_explained_def createSubscriberCanary_def)
qed (rule explained_step)

lemma tick_reconnects:
  assumes "Reconnect missed \<in> set (fst (canary_tick ready at s))"
  shows "\<exists>out. ready \<and> missed > CANARY_TIMEOUT_MS \<and> ca_outstanding s = Some out \<and> ot_publishedAt out = Some (at - missed)"
  using assms by (auto simp: canary_tick_def Let_def split: if_splits option.splits)

text \<open>
  The canary blames the subscriber only for a lost token. Whenever a tick reconnects, the
  subscriber is ready and some token was published more than ten seconds after whose publish
  resolved it has still not been received, while the subscriber was ready at every tick since it
  was sent.
\<close>

theorem canary_blames_only_lost_tokens:
  assumes "Reconnect missed \<in> set (fst (canary_tick ready at (canary_run evs)))"
  shows "ready \<and> missed > 10000 \<and> (\<exists>token. sent_and_lost token (Some (at - missed)) evs)"
proof -
  obtain out where "ready" "missed > CANARY_TIMEOUT_MS" and out: "ca_outstanding (canary_run evs) = Some out"
    "ot_publishedAt out = Some (at - missed)"
    using tick_reconnects [OF assms] by blast
  moreover have "sent_and_lost (ot_token out) (Some (at - missed)) evs"
    using explained [of evs] out unfolding outstanding_explained_def by (metis out(2))
  ultimately show ?thesis by (auto simp: CANARY_TIMEOUT_MS_def)
qed

lemma canary_blames_only_lost_tokens_witness:
  "\<exists>token. sent_and_lost token (Some 3) [CaTick True 0, CaResolved 1 3, CaTick True 10003]"
proof -
  have "Reconnect 10001 \<in> set (fst (canary_tick True 10004 (canary_run [CaTick True 0, CaResolved 1 3, CaTick True 10003])))"
    by code_simp
  from canary_blames_only_lost_tokens [OF this] show ?thesis by simp
qed

section \<open>Detection\<close>

text \<open>
  One second of a subscriber that hears nothing: the tick, and the publish it makes resolving
  \<open>latency\<close> milliseconds later.
\<close>

definition deaf_second :: "ms \<Rightarrow> ms \<Rightarrow> canary \<Rightarrow> canary_action list \<times> canary" where
  "deaf_second latency at s =
     (let (acts, s1) = canary_tick True at s
      in (acts, case acts of [Publish token] \<Rightarrow> publish_resolved token (at + latency) s1 | _ \<Rightarrow> s1))"

text \<open>The ticks every \<open>CANARY_CHECK_MS\<close> from \<open>at\<close> on, each with the latency of its publish.\<close>

fun deaf_seconds :: "ms list \<Rightarrow> ms \<Rightarrow> canary \<Rightarrow> (ms \<times> canary_action) list" where
  "deaf_seconds [] at s = []"
| "deaf_seconds (l # ls) at s =
     (let (acts, s1) = deaf_second l at s
      in map (Pair at) acts @ deaf_seconds ls (at + CANARY_CHECK_MS) s1)"

lemma deaf_seconds_times:
  "(t, act) \<in> set (deaf_seconds ls at s) \<Longrightarrow> at \<le> t \<and> t \<le> at + CANARY_CHECK_MS * (int (length ls) - 1)"
proof (induction ls arbitrary: at s)
  case (Cons l ls)
  obtain acts s1 where sec: "deaf_second l at s = (acts, s1)" by fastforce
  have "t = at \<or> (t, act) \<in> set (deaf_seconds ls (at + CANARY_CHECK_MS) s1)" using Cons.prems sec by auto
  then show ?case using Cons.IH [of "at + CANARY_CHECK_MS" s1] by (auto simp: CANARY_CHECK_MS_def)
qed simp

lemma outstanding_reconnects:
  assumes "ca_outstanding s = Some out" "ot_publishedAt out = Some p"
    and "p + CANARY_TIMEOUT_MS < at + CANARY_CHECK_MS * (int (length ls) - 1)"
  shows "ls \<noteq> [] \<longrightarrow>
    (\<exists>t missed. (t, Reconnect missed) \<in> set (deaf_seconds ls at s))"
  using assms
proof (induction ls arbitrary: at)
  case (Cons l ls)
  show ?case
  proof (cases "at - p > CANARY_TIMEOUT_MS")
    case True
    then show ?thesis using Cons.prems by (auto simp: deaf_second_def canary_tick_def)
  next
    case False
    with Cons.prems have "deaf_second l at s = ([], s)" by (simp add: deaf_second_def canary_tick_def)
    moreover have "ls \<noteq> []" using Cons.prems False by auto
    ultimately show ?thesis
      using Cons.IH [of "at + CANARY_CHECK_MS"] Cons.prems False by (auto simp: CANARY_CHECK_MS_def)
  qed
qed simp

lemma idle_reconnects:
  assumes "ca_outstanding s = None" and "case ca_lastSentAt s of Some t \<Rightarrow> t + CANARY_INTERVAL_MS \<le> at + CANARY_CHECK_MS * int k | None \<Rightarrow> True"
    and "length ls \<ge> k + 12" and "\<forall>l\<in>set ls. 0 \<le> l \<and> l < CANARY_CHECK_MS"
  shows "\<exists>t missed. (t, Reconnect missed) \<in> set (deaf_seconds ls at s)"
  using assms
proof (induction ls arbitrary: at k s)
  case (Cons l ls)
  show ?case
  proof (cases "case ca_lastSentAt s of Some t \<Rightarrow> at - t < CANARY_INTERVAL_MS | None \<Rightarrow> False")
    case True
    then obtain t where t: "ca_lastSentAt s = Some t" "at - t < CANARY_INTERVAL_MS" by (auto split: option.splits)
    have quiet: "deaf_second l at s = ([], s)" using t Cons.prems(1) by (simp add: deaf_second_def canary_tick_def)
    obtain k' where k: "k = Suc k'" using t Cons.prems(2) by (cases k) auto
    have "\<exists>t missed. (t, Reconnect missed) \<in> set (deaf_seconds ls (at + CANARY_CHECK_MS) s)"
      by (rule Cons.IH [of s "at + CANARY_CHECK_MS" k'])
        (use Cons.prems t k in \<open>auto simp: CANARY_CHECK_MS_def\<close>)
    then show ?thesis using quiet by auto
  next
    case False
    let ?tok = "Suc (ca_sequence s)"
    let ?s1 = "\<lparr>ca_sequence = ?tok, ca_lastSentAt = Some at,
      ca_outstanding = Some \<lparr>ot_token = ?tok, ot_publishedAt = Some (at + l)\<rparr>\<rparr>"
    have sec: "deaf_second l at s = ([Publish ?tok], ?s1)"
      using False Cons.prems(1) by (simp add: deaf_second_def canary_tick_def Let_def publish_resolved_def)
    have "length ls \<ge> 11" "0 \<le> l" "l < CANARY_CHECK_MS" using Cons.prems(3,4) by auto
    then have "\<exists>t missed. (t, Reconnect missed) \<in> set (deaf_seconds ls (at + CANARY_CHECK_MS) ?s1)"
      using outstanding_reconnects [of ?s1 "\<lparr>ot_token = ?tok, ot_publishedAt = Some (at + l)\<rparr>" "at + l" "at + CANARY_CHECK_MS" ls]
      by (auto simp: CANARY_CHECK_MS_def CANARY_TIMEOUT_MS_def)
    then show ?thesis using sec by auto
  qed
qed simp

text \<open>
  C34: A deaf subscriber is reconnected within \<open>CANARY_DETECTION_BOUND_MS\<close>. From the first tick
  after it went deaf, with a tick every \<open>CANARY_CHECK_MS\<close> and every publish resolving before the
  next tick, one of sixteen ticks reconnects, so that less than the bound has passed since it went
  deaf. An earlier token, if one is outstanding, has been published.
\<close>

theorem canary_detects_deaf_subscriber:
  assumes "deafSince > at - CANARY_CHECK_MS"
    and "\<And>t. ca_lastSentAt s = Some t \<Longrightarrow> t \<le> at - CANARY_CHECK_MS"
    and "\<And>out. ca_outstanding s = Some out \<Longrightarrow> \<exists>p. ot_publishedAt out = Some p \<and> p < at"
    and "length latencies = 16" and "\<forall>l\<in>set latencies. 0 \<le> l \<and> l < CANARY_CHECK_MS"
  shows "\<exists>t missed. (t, Reconnect missed) \<in> set (deaf_seconds latencies at s) \<and> t - deafSince < CANARY_DETECTION_BOUND_MS"
proof -
  have "\<exists>t missed. (t, Reconnect missed) \<in> set (deaf_seconds latencies at s)"
  proof (cases "ca_outstanding s")
    case None
    show ?thesis
      by (rule idle_reconnects [OF None, where k = 4])
        (use assms in \<open>auto simp: CANARY_CHECK_MS_def CANARY_INTERVAL_MS_def split: option.split\<close>)
  next
    case (Some out)
    from assms(3) [OF this] obtain p where p: "ot_publishedAt out = Some p" "p < at" by blast
    show ?thesis
      using outstanding_reconnects [OF Some p(1), of at latencies] p assms(4)
      by (force simp: CANARY_CHECK_MS_def CANARY_TIMEOUT_MS_def)
  qed
  then obtain t missed where r: "(t, Reconnect missed) \<in> set (deaf_seconds latencies at s)" by blast
  from deaf_seconds_times [OF r] have "t \<le> at + 15000" using assms(4) by (simp add: CANARY_CHECK_MS_def)
  then have "t - deafSince < CANARY_DETECTION_BOUND_MS"
    using assms(1) by (simp add: CANARY_DETECTION_BOUND_MS_def CANARY_INTERVAL_MS_def CANARY_TIMEOUT_MS_def CANARY_CHECK_MS_def)
  with r show ?thesis by blast
qed

lemma canary_detects_deaf_subscriber_witness:
  "\<exists>t missed. (t, Reconnect missed) \<in> set (deaf_seconds (replicate 16 999) 1000 (canary_run [CaTick True 0, CaResolved 1 3, CaReceived 1])) \<and>
     t - 1 < CANARY_DETECTION_BOUND_MS"
proof -
  have s: "canary_run [CaTick True 0, CaResolved 1 3, CaReceived 1] = \<lparr>ca_sequence = 1, ca_lastSentAt = Some 0, ca_outstanding = None\<rparr>"
    by (simp add: createSubscriberCanary_def canary_tick_def publish_resolved_def canary_received_def)
  show ?thesis
    unfolding s by (rule canary_detects_deaf_subscriber) (simp_all add: CANARY_CHECK_MS_def)
qed

end
