(* ===== verification/Redis_Service.thy ===== *)
theory Redis_Service
  imports Driver_Types
begin

text \<open>
  What \<open>src/driver/redis.ts\<close> relies on. Its keys are a datatype with the text \<open>createKeys\<close> gives
  them, which is shown to be injective. A hash field holds a text; the model keeps the value whose
  \<open>String\<close> or \<open>JSON.stringify\<close> the text is. The Redis server is not under \<open>src/\<close>: it is a record
  of commands, arguments of every definition of the driver, each taking the server's clock. What
  its documentation promises of them is the predicate \<open>redis_laws\<close>, over the entries that are
  visible at a time. A plain store shows that the laws can hold.
\<close>

section \<open>Keys\<close>

datatype redis_key =
    KRoom string
  | KRooms
  | KRoomsByServer string
  | KClient string
  | KClientsByRoom string
  | KServer string
  | KServers
  | KLeader
  | KSchemaVersion

fun key_text :: "string \<Rightarrow> redis_key \<Rightarrow> string" where
  "key_text prefix (KRoom roomId) = prefix @ ''room:'' @ roomId"
| "key_text prefix KRooms = prefix @ ''rooms''"
| "key_text prefix (KRoomsByServer serverId) = prefix @ ''rooms:server:'' @ serverId"
| "key_text prefix (KClient clientId) = prefix @ ''client:'' @ clientId"
| "key_text prefix (KClientsByRoom roomId) = prefix @ ''clients:room:'' @ roomId"
| "key_text prefix (KServer serverId) = prefix @ ''server:'' @ serverId"
| "key_text prefix KServers = prefix @ ''servers''"
| "key_text prefix KLeader = prefix @ ''leader''"
| "key_text prefix KSchemaVersion = prefix @ ''schema_version''"

datatype redis_channel = ChannelRoomReady string | ChannelRoomFailed string | ChannelRoomAssigned string | ChannelCanary string

fun channel_text :: "string \<Rightarrow> redis_channel \<Rightarrow> string" where
  "channel_text prefix (ChannelRoomReady roomId) = prefix @ ''room-ready:'' @ roomId"
| "channel_text prefix (ChannelRoomFailed roomId) = prefix @ ''room-failed:'' @ roomId"
| "channel_text prefix (ChannelRoomAssigned serverId) = prefix @ ''room-assigned:'' @ serverId"
| "channel_text prefix (ChannelCanary instanceId) = prefix @ ''canary:'' @ instanceId"

lemma key_text_inj: "key_text prefix k = key_text prefix k' \<longleftrightarrow> k = k'"
  by (cases k; cases k') auto

lemma channel_text_inj: "channel_text prefix c = channel_text prefix c' \<longleftrightarrow> c = c'"
  by (cases c; cases c') auto

text \<open>The keys the reap script builds from the prefixes it is given.\<close>

lemma script_keys:
  "key_text prefix (KRoom []) @ roomId = key_text prefix (KRoom roomId)"
  "key_text prefix (KClientsByRoom []) @ roomId = key_text prefix (KClientsByRoom roomId)"
  "key_text prefix (KClient []) @ clientId = key_text prefix (KClient clientId)"
  by simp_all

section \<open>Values\<close>

datatype field_value = FStr string | FNum ms | FTags tags | FData room_data | FList "string list"

type_synonym hash = "(string, field_value) jsmap"

datatype redis_value = HashV hash | SetV "string set" | StrV string

record redis_entry =
  re_value :: redis_value
  re_expires :: "ms option"

datatype redis_message = MsgReason string | MsgRoomId string | MsgAssignment desired_room | MsgToken string

section \<open>Commands\<close>

text \<open>
  \<open>HGET\<close>, \<open>HEXISTS\<close> and \<open>EXISTS\<close> of the scripts and the driver read what \<open>HGETALL\<close> reads.
  \<open>rd_scan\<close> is a whole \<open>SCAN\<close> iteration over the keys with the driver's prefix.
\<close>

record 'r redis_service =
  rd_hgetall :: "'r \<Rightarrow> ms \<Rightarrow> redis_key \<Rightarrow> hash"
  rd_smembers :: "'r \<Rightarrow> ms \<Rightarrow> redis_key \<Rightarrow> string list"
  rd_get :: "'r \<Rightarrow> ms \<Rightarrow> redis_key \<Rightarrow> string option"
  rd_scan :: "'r \<Rightarrow> ms \<Rightarrow> redis_key list"
  rd_hset :: "redis_key \<Rightarrow> hash \<Rightarrow> ms \<Rightarrow> 'r \<Rightarrow> 'r"
  rd_sadd :: "redis_key \<Rightarrow> string \<Rightarrow> ms \<Rightarrow> 'r \<Rightarrow> 'r"
  rd_srem :: "redis_key \<Rightarrow> string list \<Rightarrow> ms \<Rightarrow> 'r \<Rightarrow> 'r"
  rd_del :: "redis_key \<Rightarrow> ms \<Rightarrow> 'r \<Rightarrow> 'r"
  rd_set :: "redis_key \<Rightarrow> string \<Rightarrow> ms option \<Rightarrow> ms \<Rightarrow> 'r \<Rightarrow> 'r"
  rd_pexpire :: "redis_key \<Rightarrow> ms \<Rightarrow> ms \<Rightarrow> 'r \<Rightarrow> 'r"
  rd_persist :: "redis_key \<Rightarrow> ms \<Rightarrow> 'r \<Rightarrow> 'r"
  rd_publish :: "redis_channel \<Rightarrow> redis_message \<Rightarrow> ms \<Rightarrow> 'r \<Rightarrow> nat \<times> 'r"

section \<open>Their documented effect\<close>

definition timed :: "ms \<Rightarrow> redis_entry \<Rightarrow> redis_entry option" where
  "timed t e = (case re_expires e of Some x \<Rightarrow> if x < t then None else Some e | None \<Rightarrow> Some e)"

definition hash_in :: "redis_entry option \<Rightarrow> hash" where
  "hash_in e = (case e of Some x \<Rightarrow> (case re_value x of HashV h \<Rightarrow> h | _ \<Rightarrow> []) | None \<Rightarrow> [])"

definition set_in :: "redis_entry option \<Rightarrow> string set" where
  "set_in e = (case e of Some x \<Rightarrow> (case re_value x of SetV s \<Rightarrow> s | _ \<Rightarrow> {}) | None \<Rightarrow> {})"

definition str_in :: "redis_entry option \<Rightarrow> string option" where
  "str_in e = (case e of Some x \<Rightarrow> (case re_value x of StrV s \<Rightarrow> Some s | _ \<Rightarrow> None) | None \<Rightarrow> None)"

definition expiry_in :: "redis_entry option \<Rightarrow> ms option" where
  "expiry_in e = Option.bind e re_expires"

text \<open>The type each key is used at; a command on a key of another type is an error of the server.\<close>

fun value_ok :: "redis_key \<Rightarrow> redis_value \<Rightarrow> bool" where
  "value_ok (KRoom _) (HashV h) = (h \<noteq> [])"
| "value_ok (KClient _) (HashV h) = (h \<noteq> [])"
| "value_ok (KServer _) (HashV h) = (h \<noteq> [])"
| "value_ok KRooms (SetV s) = (s \<noteq> {})"
| "value_ok (KRoomsByServer _) (SetV s) = (s \<noteq> {})"
| "value_ok (KClientsByRoom _) (SetV s) = (s \<noteq> {})"
| "value_ok KServers (SetV s) = (s \<noteq> {})"
| "value_ok KLeader (StrV _) = True"
| "value_ok KSchemaVersion (StrV _) = True"
| "value_ok _ _ = False"

definition hash_key :: "redis_key \<Rightarrow> bool" where
  "hash_key k = (case k of KRoom _ \<Rightarrow> True | KClient _ \<Rightarrow> True | KServer _ \<Rightarrow> True | _ \<Rightarrow> False)"

definition set_key :: "redis_key \<Rightarrow> bool" where
  "set_key k = (case k of KRooms \<Rightarrow> True | KRoomsByServer _ \<Rightarrow> True | KClientsByRoom _ \<Rightarrow> True | KServers \<Rightarrow> True | _ \<Rightarrow> False)"

definition typed_at :: "('r \<Rightarrow> ms \<Rightarrow> redis_key \<Rightarrow> redis_entry option) \<Rightarrow> 'r \<Rightarrow> ms \<Rightarrow> bool" where
  "typed_at look st now \<longleftrightarrow> (\<forall>k e. look st now k = Some e \<longrightarrow> value_ok k (re_value e))"

text \<open>Fields are written one by one over those there are.\<close>

definition hash_entry :: "redis_entry option \<Rightarrow> hash \<Rightarrow> redis_entry option" where
  "hash_entry old fs = Some \<lparr>re_value = HashV (jm_merge (hash_in old) fs), re_expires = expiry_in old\<rparr>"

definition set_entry :: "redis_entry option \<Rightarrow> string set \<Rightarrow> redis_entry option" where
  "set_entry old s = (if s = {} then None else Some \<lparr>re_value = SetV s, re_expires = expiry_in old\<rparr>)"

definition expire_entry :: "ms option \<Rightarrow> redis_entry option \<Rightarrow> redis_entry option" where
  "expire_entry x old = map_option (\<lambda>e. e\<lparr>re_expires := x\<rparr>) old"

definition redis_laws ::
    "'r redis_service \<Rightarrow> ('r \<Rightarrow> ms \<Rightarrow> redis_key \<Rightarrow> redis_entry option) \<Rightarrow> bool" where
  "redis_laws R look \<longleftrightarrow>
     (\<forall>st now t k. now \<le> t \<longrightarrow> look st t k = Option.bind (look st now k) (timed t)) \<and>
     (\<forall>st now k. rd_hgetall R st now k = hash_in (look st now k)) \<and>
     (\<forall>st now k. set (rd_smembers R st now k) = set_in (look st now k) \<and> distinct (rd_smembers R st now k)) \<and>
     (\<forall>st now k. rd_get R st now k = str_in (look st now k)) \<and>
     (\<forall>st now k. k \<in> set (rd_scan R st now) \<longleftrightarrow> look st now k \<noteq> None) \<and>
     (\<forall>st now k fs. hash_key k \<and> fs \<noteq> [] \<and> typed_at look st now \<longrightarrow>
        look (rd_hset R k fs now st) now = (look st now)(k := hash_entry (look st now k) fs)) \<and>
     (\<forall>st now k x. set_key k \<and> typed_at look st now \<longrightarrow>
        look (rd_sadd R k x now st) now = (look st now)(k := set_entry (look st now k) (insert x (set_in (look st now k))))) \<and>
     (\<forall>st now k xs. set_key k \<and> typed_at look st now \<longrightarrow>
        look (rd_srem R k xs now st) now = (look st now)(k := set_entry (look st now k) (set_in (look st now k) - set xs))) \<and>
     (\<forall>st now k. look (rd_del R k now st) now = (look st now)(k := None)) \<and>
     (\<forall>st now k v px. \<not> hash_key k \<and> \<not> set_key k \<and> (\<forall>d. px = Some d \<longrightarrow> 0 < d) \<longrightarrow>
        look (rd_set R k v px now st) now =
          (look st now)(k := Some \<lparr>re_value = StrV v, re_expires = map_option (\<lambda>d. now + d) px\<rparr>)) \<and>
     (\<forall>st now k d. look (rd_pexpire R k d now st) now =
        (look st now)(k := if 0 < d then expire_entry (Some (now + d)) (look st now k) else None)) \<and>
     (\<forall>st now k. look (rd_persist R k now st) now = (look st now)(k := expire_entry None (look st now k))) \<and>
     (\<forall>st now c m. look (snd (rd_publish R c m now st)) now = look st now)"

lemma redis_aging:
  assumes "redis_laws R look"
  shows "now \<le> t \<Longrightarrow> look st t k = Option.bind (look st now k) (timed t)"
  using assms unfolding redis_laws_def by (elim conjE, metis)

lemma redis_hgetall:
  assumes "redis_laws R look"
  shows "rd_hgetall R st now k = hash_in (look st now k)"
  using assms unfolding redis_laws_def by (elim conjE, metis)

lemma redis_smembers:
  assumes "redis_laws R look"
  shows "set (rd_smembers R st now k) = set_in (look st now k)"
    and "distinct (rd_smembers R st now k)"
  using assms unfolding redis_laws_def by (elim conjE, metis)+

lemma redis_get:
  assumes "redis_laws R look"
  shows "rd_get R st now k = str_in (look st now k)"
  using assms unfolding redis_laws_def by (elim conjE, metis)

lemma redis_scan:
  assumes "redis_laws R look"
  shows "k \<in> set (rd_scan R st now) \<longleftrightarrow> look st now k \<noteq> None"
  using assms unfolding redis_laws_def by (elim conjE, metis)

lemma redis_hset:
  assumes "redis_laws R look"
  shows "hash_key k \<Longrightarrow> fs \<noteq> [] \<Longrightarrow> typed_at look st now \<Longrightarrow>
        look (rd_hset R k fs now st) now = (look st now)(k := hash_entry (look st now k) fs)"
  using assms unfolding redis_laws_def by (elim conjE, metis)

lemma redis_sadd:
  assumes "redis_laws R look"
  shows "set_key k \<Longrightarrow> typed_at look st now \<Longrightarrow>
        look (rd_sadd R k x now st) now = (look st now)(k := set_entry (look st now k) (insert x (set_in (look st now k))))"
  using assms unfolding redis_laws_def by (elim conjE, metis)

lemma redis_srem:
  assumes "redis_laws R look"
  shows "set_key k \<Longrightarrow> typed_at look st now \<Longrightarrow>
        look (rd_srem R k xs now st) now = (look st now)(k := set_entry (look st now k) (set_in (look st now k) - set xs))"
  using assms unfolding redis_laws_def by (elim conjE, metis)

lemma redis_del:
  assumes "redis_laws R look"
  shows "look (rd_del R k now st) now = (look st now)(k := None)"
  using assms unfolding redis_laws_def by (elim conjE, metis)

lemma redis_set:
  assumes "redis_laws R look"
  shows "\<not> hash_key k \<Longrightarrow> \<not> set_key k \<Longrightarrow> (\<And>d. px = Some d \<Longrightarrow> 0 < d) \<Longrightarrow> look (rd_set R k v px now st) now =
          (look st now)(k := Some \<lparr>re_value = StrV v, re_expires = map_option (\<lambda>d. now + d) px\<rparr>)"
  using assms unfolding redis_laws_def by (elim conjE, metis)

lemma redis_pexpire:
  assumes "redis_laws R look"
  shows "look (rd_pexpire R k d now st) now =
        (look st now)(k := if 0 < d then expire_entry (Some (now + d)) (look st now k) else None)"
  using assms unfolding redis_laws_def by (elim conjE, metis)

lemma redis_persist:
  assumes "redis_laws R look"
  shows "look (rd_persist R k now st) now = (look st now)(k := expire_entry None (look st now k))"
  using assms unfolding redis_laws_def by (elim conjE, metis)

lemma redis_publish:
  assumes "redis_laws R look"
  shows "look (snd (rd_publish R c m now st)) now = look st now"
  using assms unfolding redis_laws_def by (elim conjE, metis)

section \<open>Types are kept\<close>

lemma value_ok_hash: "hash_key k \<Longrightarrow> value_ok k v \<longleftrightarrow> (\<exists>h. v = HashV h \<and> h \<noteq> [])"
  by (cases k; cases v) (auto simp: hash_key_def)

lemma value_ok_set: "set_key k \<Longrightarrow> value_ok k v \<longleftrightarrow> (\<exists>s. v = SetV s \<and> s \<noteq> {})"
  by (cases k; cases v) (auto simp: set_key_def)

lemma jm_merge_ne: "fs \<noteq> [] \<Longrightarrow> jm_merge h fs \<noteq> []"
proof -
  have ne: "jm_set m k v \<noteq> []" for m :: "('a, 'b) jsmap" and k v by (cases m) (auto simp: jm_set_def)
  show "fs \<noteq> [] \<Longrightarrow> jm_merge h fs \<noteq> []"
    by (induction fs rule: rev_induct) (simp_all add: jm_merge_def case_prod_unfold ne)
qed

lemma typed_hset: "redis_laws R look \<Longrightarrow> hash_key k \<Longrightarrow> fs \<noteq> [] \<Longrightarrow> typed_at look st now \<Longrightarrow> typed_at look (rd_hset R k fs now st) now"
  by (auto simp: typed_at_def redis_hset hash_entry_def value_ok_hash jm_merge_ne)

lemma typed_sadd: "redis_laws R look \<Longrightarrow> set_key k \<Longrightarrow> typed_at look st now \<Longrightarrow> typed_at look (rd_sadd R k x now st) now"
  by (auto simp: typed_at_def redis_sadd set_entry_def value_ok_set split: if_splits)

lemma typed_srem: "redis_laws R look \<Longrightarrow> set_key k \<Longrightarrow> typed_at look st now \<Longrightarrow> typed_at look (rd_srem R k xs now st) now"
  by (auto simp: typed_at_def redis_srem set_entry_def value_ok_set split: if_splits)

lemma typed_del: "redis_laws R look \<Longrightarrow> typed_at look st now \<Longrightarrow> typed_at look (rd_del R k now st) now"
  by (auto simp: typed_at_def redis_del split: if_splits)

lemma typed_expire:
  "redis_laws R look \<Longrightarrow> typed_at look st now \<Longrightarrow> typed_at look (rd_pexpire R k d now st) now"
  "redis_laws R look \<Longrightarrow> typed_at look st now \<Longrightarrow> typed_at look (rd_persist R k now st) now"
  by (auto simp: typed_at_def redis_pexpire redis_persist expire_entry_def split: if_splits)

lemma typed_publish: "redis_laws R look \<Longrightarrow> typed_at look st now \<Longrightarrow> typed_at look (snd (rd_publish R c m now st)) now"
  by (simp add: typed_at_def redis_publish)

lemma typed_set: "redis_laws R look \<Longrightarrow> k = KLeader \<or> k = KSchemaVersion \<Longrightarrow> (\<And>d. px = Some d \<Longrightarrow> 0 < d) \<Longrightarrow> typed_at look st now \<Longrightarrow> typed_at look (rd_set R k v px now st) now"
  by (auto simp: typed_at_def redis_set hash_key_def set_key_def split: if_splits)

lemma typed_later: "redis_laws R look \<Longrightarrow> now \<le> t \<Longrightarrow> typed_at look st now \<Longrightarrow> typed_at look st t"
  by (auto simp: typed_at_def redis_aging timed_def bind_eq_Some_conv split: option.splits if_splits)

lemmas typed_writes = typed_hset typed_sadd typed_srem typed_del typed_expire typed_publish typed_set

section \<open>A plain store\<close>

text \<open>A list of keys with their values and expiries; the members of a set are kept in a list.\<close>

datatype plain_value = PHash hash | PSet "string list" | PStr string

type_synonym plain_store = "(redis_key, plain_value \<times> ms option) jsmap"

fun plain_read :: "plain_value \<Rightarrow> redis_value" where
  "plain_read (PHash h) = HashV h"
| "plain_read (PSet xs) = SetV (set xs)"
| "plain_read (PStr s) = StrV s"

definition plain_live :: "plain_store \<Rightarrow> ms \<Rightarrow> redis_key \<Rightarrow> (plain_value \<times> ms option) option" where
  "plain_live st now k =
     Option.bind (jm_get st k) (\<lambda>(v, x). case x of Some t \<Rightarrow> if t < now then None else Some (v, x) | None \<Rightarrow> Some (v, x))"

definition plain_look :: "plain_store \<Rightarrow> ms \<Rightarrow> redis_key \<Rightarrow> redis_entry option" where
  "plain_look st now k = map_option (\<lambda>(v, x). \<lparr>re_value = plain_read v, re_expires = x\<rparr>) (plain_live st now k)"

definition plain_members :: "plain_store \<Rightarrow> ms \<Rightarrow> redis_key \<Rightarrow> string list" where
  "plain_members st now k = (case plain_live st now k of Some (PSet xs, _) \<Rightarrow> remdups xs | _ \<Rightarrow> [])"

definition plain_set :: "redis_key \<Rightarrow> string list \<Rightarrow> ms \<Rightarrow> plain_store \<Rightarrow> plain_store" where
  "plain_set k xs now st =
     (if xs = [] then jm_del st k else jm_set st k (PSet xs, expiry_in (plain_look st now k)))"

definition plain_redis :: "plain_store redis_service" where
  "plain_redis =
     \<lparr>rd_hgetall = (\<lambda>st now k. hash_in (plain_look st now k)),
      rd_smembers = plain_members,
      rd_get = (\<lambda>st now k. str_in (plain_look st now k)),
      rd_scan = (\<lambda>st now. filter (\<lambda>k. plain_look st now k \<noteq> None) (jm_keys st)),
      rd_hset = (\<lambda>k fs now st. jm_set st k (PHash (jm_merge (hash_in (plain_look st now k)) fs), expiry_in (plain_look st now k))),
      rd_sadd = (\<lambda>k x now st. plain_set k (x # plain_members st now k) now st),
      rd_srem = (\<lambda>k xs now st. plain_set k (filter (\<lambda>x. x \<notin> set xs) (plain_members st now k)) now st),
      rd_del = (\<lambda>k now st. jm_del st k),
      rd_set = (\<lambda>k v px now st. jm_set st k (PStr v, map_option (\<lambda>d. now + d) px)),
      rd_pexpire = (\<lambda>k d now st.
        case plain_live st now k of Some (v, _) \<Rightarrow> if 0 < d then jm_set st k (v, Some (now + d)) else jm_del st k | None \<Rightarrow> jm_del st k),
      rd_persist = (\<lambda>k now st. case plain_live st now k of Some (v, _) \<Rightarrow> jm_set st k (v, None) | None \<Rightarrow> jm_del st k),
      rd_publish = (\<lambda>c m now st. (0, st))\<rparr>"

lemma plain_live_set: "(case x of Some t \<Rightarrow> now \<le> t | None \<Rightarrow> True) \<Longrightarrow>
    plain_look (jm_set st k (v, x)) now = (plain_look st now)(k := Some \<lparr>re_value = plain_read v, re_expires = x\<rparr>)"
  by (rule ext) (auto simp: plain_look_def plain_live_def split: option.splits)

lemma plain_look_del: "plain_look (jm_del st k) now = (plain_look st now)(k := None)"
  by (rule ext) (simp add: plain_look_def plain_live_def)

lemma plain_expiry: "case expiry_in (plain_look st now k) of Some t \<Rightarrow> now \<le> t | None \<Rightarrow> True"
  by (auto simp: expiry_in_def plain_look_def plain_live_def bind_eq_Some_conv split: option.splits if_splits)

lemma plain_members_set: "set (plain_members st now k) = set_in (plain_look st now k)" "distinct (plain_members st now k)"
  by (cases "plain_live st now k"; cases "fst (the (plain_live st now k))";
      auto simp: plain_members_def plain_look_def set_in_def)+

lemma plain_look_set:
  "plain_look (plain_set k xs now st) now = (plain_look st now)(k := set_entry (plain_look st now k) (set xs))"
  by (auto simp: plain_set_def plain_look_del plain_live_set [OF plain_expiry] set_entry_def)

lemma plain_live_timed: "plain_live st now k = Some (v, x) \<Longrightarrow> plain_look st now k = Some \<lparr>re_value = plain_read v, re_expires = x\<rparr>"
  by (simp add: plain_look_def)

lemma plain_aging: "now \<le> t \<Longrightarrow> plain_look st t k = Option.bind (plain_look st now k) (timed t)"
  by (cases "jm_get st k") (auto simp: plain_look_def plain_live_def timed_def split: option.splits)

lemma plain_typed: "\<forall>(k, v, x) \<in> set st. value_ok k (plain_read v) \<Longrightarrow> typed_at plain_look st now"
  unfolding typed_at_def
proof (intro allI impI)
  fix k e
  assume ok: "\<forall>(k, v, x) \<in> set st. value_ok k (plain_read v)" and "plain_look st now k = Some e"
  then obtain v x where "plain_live st now k = Some (v, x)" "re_value e = plain_read v" by (auto simp: plain_look_def)
  moreover from this have "jm_get st k = Some (v, x)" by (auto simp: plain_live_def bind_eq_Some_conv split: option.splits if_splits)
  ultimately show "value_ok k (re_value e)" using ok jm_get_mem by fastforce
qed

lemma plain_redis_laws: "redis_laws plain_redis plain_look"
  unfolding redis_laws_def
proof (intro conjI allI impI)
  show "set (rd_smembers plain_redis st now k) = set_in (plain_look st now k)" "distinct (rd_smembers plain_redis st now k)" for st now k
    by (simp_all add: plain_redis_def plain_members_set)
  show "k \<in> set (rd_scan plain_redis st now) \<longleftrightarrow> plain_look st now k \<noteq> None" for st now k
    by (auto simp: plain_redis_def plain_look_def plain_live_def jm_keys_iff bind_eq_Some_conv)
  show "plain_look (rd_hset plain_redis k fs now st) now = (plain_look st now)(k := hash_entry (plain_look st now k) fs)" for st now k fs
    by (simp add: plain_redis_def plain_live_set [OF plain_expiry] hash_entry_def)
  show "plain_look (rd_set plain_redis k v px now st) now =
      (plain_look st now)(k := Some \<lparr>re_value = StrV v, re_expires = map_option (\<lambda>d. now + d) px\<rparr>)"
    if "\<not> hash_key k \<and> \<not> set_key k \<and> (\<forall>d. px = Some d \<longrightarrow> 0 < d)" for st now k v px
    using that by (cases px) (simp_all add: plain_redis_def plain_live_set)
  show "plain_look (rd_pexpire plain_redis k d now st) now =
      (plain_look st now)(k := if 0 < d then expire_entry (Some (now + d)) (plain_look st now k) else None)" for st now k d
    by (auto simp: plain_redis_def plain_look_del plain_live_set plain_live_timed expire_entry_def plain_look_def split: option.split)
  show "plain_look (rd_persist plain_redis k now st) now = (plain_look st now)(k := expire_entry None (plain_look st now k))" for st now k
    by (auto simp: plain_redis_def plain_look_del plain_live_set plain_live_timed expire_entry_def plain_look_def split: option.split)
qed (simp_all add: plain_redis_def plain_aging plain_look_set plain_members_set plain_look_del set_diff_eq [symmetric])

end
