(* ===== verification/Redis_Driver.thy ===== *)
theory Redis_Driver
  imports Redis_Service Memory_Driver
begin

text \<open>
  \<open>src/driver/redis.ts\<close>: every operation of the driver, as the commands it sends to the server
  \<open>R\<close> at its time \<open>now\<close>; \<open>date\<close> is the clock of the host. A script and a \<open>MULTI\<close> are one atomic
  step. The other operations are the schedule in which no other client's command comes between
  theirs, except that the tag operations are split at their await. The driver's instance state is
  the flag \<open>schemaVersionEnsured\<close>; its subscriber connection has a theory of its own.
\<close>

section \<open>Hashes\<close>

definition text_field :: "hash \<Rightarrow> string \<Rightarrow> string" where
  "text_field h f = (case jm_get h f of Some (FStr s) \<Rightarrow> s | _ \<Rightarrow> [])"

definition num_field :: "hash \<Rightarrow> string \<Rightarrow> ms" where
  "num_field h f = (case jm_get h f of Some (FNum n) \<Rightarrow> n | _ \<Rightarrow> 0)"

definition tags_field :: "hash \<Rightarrow> tags" where
  "tags_field h = (case jm_get h ''tags'' of Some (FTags t) \<Rightarrow> t | _ \<Rightarrow> [])"

definition data_field :: "hash \<Rightarrow> room_data" where
  "data_field h = (case jm_get h ''data'' of Some (FData d) \<Rightarrow> d | _ \<Rightarrow> [])"

definition list_field :: "hash \<Rightarrow> string list" where
  "list_field h = (case jm_get h ''roomTypes'' of Some (FList l) \<Rightarrow> l | _ \<Rightarrow> [])"

definition room_status_text :: "room_status \<Rightarrow> string" where
  "room_status_text st = (case st of Requested \<Rightarrow> ''requested'' | Running \<Rightarrow> ''running'')"

definition status_field :: "hash \<Rightarrow> room_status" where
  "status_field h = (if text_field h ''status'' = ''running'' then Running else Requested)"

fun map_state :: "('a \<Rightarrow> 's \<Rightarrow> 'b \<times> 's) \<Rightarrow> 'a list \<Rightarrow> 's \<Rightarrow> 'b list \<times> 's" where
  "map_state f [] s = ([], s)"
| "map_state f (x # xs) s = (let (y, s1) = f x s; (ys, s2) = map_state f xs s1 in (y # ys, s2))"

text \<open>The pipelined reads: the live hashes in order, and the ids whose hash is gone.\<close>

definition read_hashes ::
    "'r redis_service \<Rightarrow> ms \<Rightarrow> (string \<Rightarrow> redis_key) \<Rightarrow> string \<Rightarrow> string list \<Rightarrow> 'r \<Rightarrow> hash list \<times> string list" where
  "read_hashes R now key idField ids st =
     (filter (\<lambda>h. text_field h idField \<noteq> []) (map (\<lambda>i. rd_hgetall R st now (key i)) ids),
      filter (\<lambda>i. text_field (rd_hgetall R st now (key i)) idField = []) ids)"

definition readRoomHashes :: "'r redis_service \<Rightarrow> ms \<Rightarrow> string list \<Rightarrow> 'r \<Rightarrow> hash list \<times> string list" where
  "readRoomHashes R now roomIds st = read_hashes R now KRoom ''roomId'' roomIds st"

definition readServerHashes :: "'r redis_service \<Rightarrow> ms \<Rightarrow> string list \<Rightarrow> 'r \<Rightarrow> hash list \<times> string list" where
  "readServerHashes R now serverIds st = read_hashes R now KServer ''serverId'' serverIds st"

definition srem_stale :: "'r redis_service \<Rightarrow> ms \<Rightarrow> redis_key \<Rightarrow> string list \<Rightarrow> 'r \<Rightarrow> 'r" where
  "srem_stale R now k stale st = (if stale \<noteq> [] then rd_srem R k stale now st else st)"

definition client_info_of :: "hash \<Rightarrow> client_info" where
  "client_info_of h =
     \<lparr>ci_clientId = text_field h ''clientId'',
      ci_status = (if text_field h ''status'' = ''connected'' then Connected else Reserved),
      ci_tags = tags_field h, ci_connectedAt = num_field h ''connectedAt''\<rparr>"

definition redis_getClientsForRoom :: "'r redis_service \<Rightarrow> ms \<Rightarrow> string \<Rightarrow> 'r \<Rightarrow> client_info list \<times> 'r" where
  "redis_getClientsForRoom R now roomId st =
     (let clientIds = rd_smembers R st now (KClientsByRoom roomId) in
      if clientIds = [] then ([], st)
      else
        let (hashes, stale) = read_hashes R now KClient ''clientId'' clientIds st
        in (map client_info_of hashes, srem_stale R now (KClientsByRoom roomId) stale st))"

definition hashToRoomInfo :: "'r redis_service \<Rightarrow> ms \<Rightarrow> hash \<Rightarrow> 'r \<Rightarrow> room_info option \<times> 'r" where
  "hashToRoomInfo R now h st =
     (if text_field h ''roomId'' = [] then (None, st)
      else
        let (clients, st1) = redis_getClientsForRoom R now (text_field h ''roomId'') st;
            endpoint = text_field h ''endpoint''
        in (Some \<lparr>ri_roomId = text_field h ''roomId'', ri_roomType = text_field h ''roomType'',
                  ri_serverId = text_field h ''serverId'', ri_status = status_field h,
                  ri_endpoint = (if endpoint = [] then None else Some endpoint), ri_clients = clients,
                  ri_data = data_field h, ri_tags = tags_field h, ri_createdAt = num_field h ''createdAt''\<rparr>, st1))"

definition somes :: "'a option list \<Rightarrow> 'a list" where
  "somes xs = List.map_filter (\<lambda>x. x) xs"

definition redis_getRoomsForServer :: "'r redis_service \<Rightarrow> ms \<Rightarrow> string \<Rightarrow> 'r \<Rightarrow> room_info list \<times> 'r" where
  "redis_getRoomsForServer R now serverId st =
     (let roomIds = rd_smembers R st now (KRoomsByServer serverId) in
      if roomIds = [] then ([], st)
      else
        let (hashes, stale) = readRoomHashes R now roomIds st;
            st1 = srem_stale R now (KRoomsByServer serverId) stale st;
            (infos, st2) = map_state (hashToRoomInfo R now) hashes st1
        in (somes infos, st2))"

definition hashToServerInfo :: "'r redis_service \<Rightarrow> ms \<Rightarrow> hash \<Rightarrow> 'r \<Rightarrow> server_info option \<times> 'r" where
  "hashToServerInfo R now h st =
     (if text_field h ''serverId'' = [] then (None, st)
      else
        let (infos, st1) = redis_getRoomsForServer R now (text_field h ''serverId'') st
        in (Some \<lparr>si_serverId = text_field h ''serverId'', si_endpoint = text_field h ''endpoint'',
                  si_lastHeartbeat = num_field h ''lastHeartbeat'', si_rooms = infos,
                  si_tags = tags_field h, si_roomTypes = list_field h\<rparr>, st1))"

section \<open>Rooms\<close>

definition REGISTER_ROOM_SERVER_MISSING :: int where "REGISTER_ROOM_SERVER_MISSING = -1"

text \<open>\<open>REGISTER_ROOM_SCRIPT\<close>: the reply, and the new state.\<close>

definition register_room_script ::
    "'r redis_service \<Rightarrow> ms \<Rightarrow> string \<Rightarrow> string \<Rightarrow> string \<Rightarrow> room_data \<Rightarrow> tags \<Rightarrow> ms \<Rightarrow> ms \<Rightarrow> desired_room \<Rightarrow> 'r \<Rightarrow> int \<times> 'r" where
  "register_room_script R now roomId roomType serverId data tags createdAt ttlMs assignment st =
     (if jm_get (rd_hgetall R st now (KServer serverId)) ''endpoint'' = None then (REGISTER_ROOM_SERVER_MISSING, st)
      else
        let st1 = rd_hset R (KRoom roomId)
              [(''roomId'', FStr roomId), (''roomType'', FStr roomType), (''serverId'', FStr serverId),
               (''status'', FStr (room_status_text Requested)), (''data'', FData data), (''tags'', FTags tags),
               (''createdAt'', FNum createdAt)] now st;
            st2 = rd_pexpire R (KRoom roomId) ttlMs now st1;
            st3 = rd_sadd R KRooms roomId now st2;
            st4 = rd_sadd R (KRoomsByServer serverId) roomId now st3;
            (receivers, st5) = rd_publish R (ChannelRoomAssigned serverId) (MsgAssignment assignment) now st4
        in (int receivers, st5))"

definition redis_registerRoom ::
    "'r redis_service \<Rightarrow> ms \<Rightarrow> ms \<Rightarrow> string \<Rightarrow> string \<Rightarrow> string \<Rightarrow> room_data \<Rightarrow> tags \<Rightarrow> js_number \<Rightarrow> 'r \<Rightarrow> (gatho_error + unit) \<times> 'r" where
  "redis_registerRoom R date now roomId roomType serverId data tags ttlMs st =
     (case validateTags tags of Inl e \<Rightarrow> (Inl e, st)
      | Inr _ \<Rightarrow> (case validateRequestedRoomTtl ttlMs of Inl e \<Rightarrow> (Inl e, st)
      | Inr _ \<Rightarrow>
          let assignment = \<lparr>dr_roomId = roomId, dr_roomType = roomType, dr_data = data, dr_status = Requested\<rparr>;
              (receivers, st1) = register_room_script R now roomId roomType serverId data tags date (ttl_ms ttlMs) assignment st
          in (if receivers = REGISTER_ROOM_SERVER_MISSING then Inl (ServerNotFoundError serverId) else Inr (), st1)))"

definition redis_unregisterRoom :: "'r redis_service \<Rightarrow> ms \<Rightarrow> string \<Rightarrow> 'r \<Rightarrow> 'r" where
  "redis_unregisterRoom R now roomId st =
     (let serverId = text_field (rd_hgetall R st now (KRoom roomId)) ''serverId'';
          st1 = (if serverId \<noteq> [] then rd_srem R (KRoomsByServer serverId) [roomId] now st else st);
          clientIds = rd_smembers R st1 now (KClientsByRoom roomId);
          st2 = fold (\<lambda>c. rd_del R (KClient c) now) clientIds st1;
          st3 = rd_del R (KClientsByRoom roomId) now st2;
          st4 = rd_del R (KRoom roomId) now st3
      in rd_srem R KRooms [roomId] now st4)"

text \<open>\<open>ROOM_READY_SCRIPT\<close>; a key exists exactly when \<open>HGETALL\<close> returns a field.\<close>

definition redis_roomReady :: "'r redis_service \<Rightarrow> ms \<Rightarrow> string \<Rightarrow> string \<Rightarrow> string \<Rightarrow> 'r \<Rightarrow> bool \<times> 'r" where
  "redis_roomReady R now roomId endpoint roomSecret st =
     (if rd_hgetall R st now (KRoom roomId) = [] then (False, st)
      else
        let st1 = rd_hset R (KRoom roomId)
              [(''status'', FStr (room_status_text Running)), (''endpoint'', FStr endpoint), (''roomSecret'', FStr roomSecret)] now st;
            st2 = rd_persist R (KRoom roomId) now st1
        in (True, snd (rd_publish R (ChannelRoomReady roomId) (MsgRoomId roomId) now st2)))"

definition redis_roomFailure :: "'r redis_service \<Rightarrow> ms \<Rightarrow> string \<Rightarrow> string \<Rightarrow> 'r \<Rightarrow> 'r" where
  "redis_roomFailure R now roomId reason st =
     redis_unregisterRoom R now roomId (snd (rd_publish R (ChannelRoomFailed roomId) (MsgReason reason) now st))"

definition redis_getRoomInfo :: "'r redis_service \<Rightarrow> ms \<Rightarrow> string \<Rightarrow> 'r \<Rightarrow> room_info option \<times> 'r" where
  "redis_getRoomInfo R now roomId st = hashToRoomInfo R now (rd_hgetall R st now (KRoom roomId)) st"

definition redis_room_matches :: "list_rooms_filter \<Rightarrow> room_info \<Rightarrow> bool" where
  "redis_room_matches f r =
     (str_filter (lf_type f) (ri_roomType r) \<and>
      (case lf_status f of None \<Rightarrow> True | Some x \<Rightarrow> ri_status r = x) \<and>
      str_filter (lf_serverId f) (ri_serverId r) \<and> tags_match (lf_tags f) (ri_tags r))"

definition redis_listRooms :: "'r redis_service \<Rightarrow> ms \<Rightarrow> list_rooms_filter \<Rightarrow> 'r \<Rightarrow> room_info list \<times> 'r" where
  "redis_listRooms R now f st =
     (let roomIds = rd_smembers R st now KRooms in
      if roomIds = [] then ([], st)
      else
        let (hashes, stale) = readRoomHashes R now roomIds st;
            st1 = srem_stale R now KRooms stale st;
            (infos, st2) = map_state (hashToRoomInfo R now) hashes st1
        in (filter (redis_room_matches f) (somes infos), st2))"

text \<open>The tag operations: the read, and the write after the await.\<close>

definition redis_addTags_begin :: "'r redis_service \<Rightarrow> ms \<Rightarrow> redis_key \<Rightarrow> string \<Rightarrow> gatho_error \<Rightarrow> tags \<Rightarrow> 'r \<Rightarrow> gatho_error + tags" where
  "redis_addTags_begin R now key idField missing tags st =
     (case validateTags tags of Inl e \<Rightarrow> Inl e
      | Inr _ \<Rightarrow>
          let h = rd_hgetall R st now key
          in if text_field h idField = [] then Inl missing else Inr (jm_merge (tags_field h) tags))"

definition redis_removeTags_begin :: "'r redis_service \<Rightarrow> ms \<Rightarrow> redis_key \<Rightarrow> string \<Rightarrow> gatho_error \<Rightarrow> string list \<Rightarrow> 'r \<Rightarrow> gatho_error + tags" where
  "redis_removeTags_begin R now key idField missing tagKeys st =
     (let h = rd_hgetall R st now key
      in if text_field h idField = [] then Inl missing else Inr (jm_del_all (tags_field h) tagKeys))"

definition redis_tags_commit :: "'r redis_service \<Rightarrow> ms \<Rightarrow> redis_key \<Rightarrow> gatho_error + tags \<Rightarrow> 'r \<Rightarrow> (gatho_error + unit) \<times> 'r" where
  "redis_tags_commit R now key result st =
     (case result of Inl e \<Rightarrow> (Inl e, st) | Inr merged \<Rightarrow> (Inr (), rd_hset R key [(''tags'', FTags merged)] now st))"

definition redis_addRoomTags :: "'r redis_service \<Rightarrow> ms \<Rightarrow> string \<Rightarrow> tags \<Rightarrow> 'r \<Rightarrow> (gatho_error + unit) \<times> 'r" where
  "redis_addRoomTags R now roomId tags st =
     redis_tags_commit R now (KRoom roomId)
       (redis_addTags_begin R now (KRoom roomId) ''roomId'' (RoomNotFoundError roomId) tags st) st"

definition redis_removeRoomTags :: "'r redis_service \<Rightarrow> ms \<Rightarrow> string \<Rightarrow> string list \<Rightarrow> 'r \<Rightarrow> (gatho_error + unit) \<times> 'r" where
  "redis_removeRoomTags R now roomId tagKeys st =
     redis_tags_commit R now (KRoom roomId)
       (redis_removeTags_begin R now (KRoom roomId) ''roomId'' (RoomNotFoundError roomId) tagKeys st) st"

section \<open>Clients\<close>

definition redis_reserveClient ::
    "(string \<Rightarrow> string \<Rightarrow> string option) \<Rightarrow> (jwt_payload \<Rightarrow> string \<Rightarrow> string) \<Rightarrow> 'r redis_service \<Rightarrow> ms \<Rightarrow> ms \<Rightarrow> string \<Rightarrow>
     ms \<Rightarrow> string \<Rightarrow> tags \<Rightarrow> string \<Rightarrow> 'r \<Rightarrow> (gatho_error + client_reservation) \<times> 'r" where
  "redis_reserveClient with_token jwtSign R date now roomId ttl data tags uuid st =
     (let h = rd_hgetall R st now (KRoom roomId) in
      if text_field h ''roomId'' = [] then (Inl (RoomNotFoundError roomId), st)
      else if status_field h \<noteq> Running \<or> text_field h ''roomSecret'' = [] \<or> text_field h ''endpoint'' = []
      then (Inl (RoomNotRunningError roomId), st)
      else case validateTags tags of Inl e \<Rightarrow> (Inl e, st)
      | Inr _ \<Rightarrow> (case validateReserveData data of Inl e \<Rightarrow> (Inl e, st)
      | Inr _ \<Rightarrow> (case validateReserveTagsSize tags of Inl e \<Rightarrow> (Inl e, st)
      | Inr _ \<Rightarrow>
          let expiresAt = date + ttl;
              token = jwtSign \<lparr>jp_clientId = uuid, jp_roomId = roomId, jp_exp = expiresAt, jp_data = data, jp_tags = tags\<rparr>
                        (text_field h ''roomSecret'');
              st1 = rd_hset R (KClient uuid)
                [(''clientId'', FStr uuid), (''roomId'', FStr roomId), (''status'', FStr ''reserved''),
                 (''expiresAt'', FNum expiresAt), (''tags'', FTags tags), (''connectedAt'', FNum 0)] now st;
              st2 = rd_pexpire R (KClient uuid) ttl now st1;
              st3 = rd_sadd R (KClientsByRoom roomId) uuid now st2
          in (case with_token (text_field h ''endpoint'') token of
                None \<Rightarrow> (Inl (OtherError ''Invalid URL''), st3)
              | Some url \<Rightarrow> (Inr \<lparr>cr_clientId = uuid, cr_url = url, cr_roomId = roomId, cr_expiresAt = expiresAt\<rparr>, st3)))))"

definition redis_connectClient :: "'r redis_service \<Rightarrow> ms \<Rightarrow> ms \<Rightarrow> string \<Rightarrow> string \<Rightarrow> tags \<Rightarrow> 'r \<Rightarrow> 'r" where
  "redis_connectClient R date now clientId roomId tags st =
     (let st1 = rd_hset R (KClient clientId)
            [(''clientId'', FStr clientId), (''roomId'', FStr roomId), (''status'', FStr ''connected''),
             (''expiresAt'', FNum 0), (''tags'', FTags tags), (''connectedAt'', FNum date)] now st;
          st2 = rd_persist R (KClient clientId) now st1
      in rd_sadd R (KClientsByRoom roomId) clientId now st2)"

definition redis_disconnectClient :: "'r redis_service \<Rightarrow> ms \<Rightarrow> string \<Rightarrow> 'r \<Rightarrow> 'r" where
  "redis_disconnectClient R now clientId st =
     (let roomId = text_field (rd_hgetall R st now (KClient clientId)) ''roomId'';
          st1 = (if roomId \<noteq> [] then rd_srem R (KClientsByRoom roomId) [clientId] now st else st)
      in rd_del R (KClient clientId) now st1)"

section \<open>Servers\<close>

definition SCHEMA_VERSION :: string where "SCHEMA_VERSION = ''2''"

definition LEADER_LOCK_TTL_MS :: ms where "LEADER_LOCK_TTL_MS = 30000"

definition ensureSchemaVersion :: "'r redis_service \<Rightarrow> ms \<Rightarrow> 'r \<Rightarrow> 'r" where
  "ensureSchemaVersion R now st =
     (if rd_get R st now KSchemaVersion = Some SCHEMA_VERSION then st
      else rd_set R KSchemaVersion SCHEMA_VERSION None now (fold (\<lambda>k. rd_del R k now) (rd_scan R st now) st))"

definition redis_unregisterServer :: "'r redis_service \<Rightarrow> ms \<Rightarrow> string \<Rightarrow> 'r \<Rightarrow> 'r" where
  "redis_unregisterServer R now serverId st =
     (let roomIds = rd_smembers R st now (KRoomsByServer serverId);
          st1 = fold (redis_unregisterRoom R now) roomIds st;
          st2 = rd_del R (KRoomsByServer serverId) now st1;
          st3 = rd_del R (KServer serverId) now st2
      in rd_srem R KServers [serverId] now st3)"

text \<open>\<open>HSETNX\<close> writes a field there is none of, and says whether it did.\<close>

definition hsetnx :: "'r redis_service \<Rightarrow> redis_key \<Rightarrow> string \<Rightarrow> field_value \<Rightarrow> ms \<Rightarrow> 'r \<Rightarrow> bool \<times> 'r" where
  "hsetnx R k f v now st =
     (if jm_get (rd_hgetall R st now k) f = None then (True, rd_hset R k [(f, v)] now st) else (False, st))"

text \<open>The transaction of a heartbeat: whether the record was new, and the tags after the writes.\<close>

definition heartbeat_tx :: "'r redis_service \<Rightarrow> ms \<Rightarrow> heartbeat_options \<Rightarrow> ms \<Rightarrow> 'r \<Rightarrow> bool \<times> tags \<times> 'r" where
  "heartbeat_tx R now opts nowMs st =
     (let key = KServer (ho_serverId opts);
          (registered, st1) = hsetnx R key ''serverId'' (FStr (ho_serverId opts)) now st;
          (_, st2) = hsetnx R key ''tags'' (FTags (ho_tags opts)) now st1;
          st3 = rd_hset R key [(''endpoint'', FStr (ho_endpoint opts)), (''roomTypes'', FList (ho_roomTypes opts)),
                 (''lastHeartbeat'', FNum nowMs)] now st2;
          st4 = rd_sadd R KServers (ho_serverId opts) now st3
      in (registered, tags_field (rd_hgetall R st4 now key), st4))"

definition evict_endpoint :: "'r redis_service \<Rightarrow> ms \<Rightarrow> heartbeat_options \<Rightarrow> 'r \<Rightarrow> 'r" where
  "evict_endpoint R now opts st =
     fold (\<lambda>i s. if i = ho_serverId opts then s
                 else if jm_get (rd_hgetall R s now (KServer i)) ''endpoint'' = Some (FStr (ho_endpoint opts))
                 then redis_unregisterServer R now i s else s)
       (rd_smembers R st now KServers) st"

definition desired_room_of :: "hash \<Rightarrow> desired_room" where
  "desired_room_of h =
     \<lparr>dr_roomId = text_field h ''roomId'', dr_roomType = text_field h ''roomType'', dr_data = data_field h,
      dr_status = status_field h\<rparr>"

text \<open>The flag is \<open>schemaVersionEnsured\<close> of the driver instance.\<close>

definition redis_heartbeat ::
    "'r redis_service \<Rightarrow> ms \<Rightarrow> heartbeat_options \<Rightarrow> bool \<Rightarrow> 'r \<Rightarrow> (gatho_error + heartbeat_result) \<times> bool \<times> 'r" where
  "redis_heartbeat R now opts ensured st =
     (let st1 = (if ensured then st else ensureSchemaVersion R now st) in
      case validateTags (ho_tags opts) of Inl e \<Rightarrow> (Inl e, True, st1)
      | Inr _ \<Rightarrow>
          let (registered, tags, st2) = heartbeat_tx R now opts now st1;
              st3 = (if registered then evict_endpoint R now opts st2 else st2);
              roomIds = rd_smembers R st3 now (KRoomsByServer (ho_serverId opts));
              (hashes, stale) = readRoomHashes R now roomIds st3;
              st4 = srem_stale R now (KRoomsByServer (ho_serverId opts)) stale st3
          in (Inr \<lparr>hr_tags = tags, hr_desiredRooms = map desired_room_of hashes, hr_registered = registered\<rparr>, True, st4))"

definition redis_addServerTags :: "'r redis_service \<Rightarrow> ms \<Rightarrow> string \<Rightarrow> tags \<Rightarrow> 'r \<Rightarrow> (gatho_error + unit) \<times> 'r" where
  "redis_addServerTags R now serverId tags st =
     redis_tags_commit R now (KServer serverId)
       (redis_addTags_begin R now (KServer serverId) ''serverId'' (ServerNotFoundError serverId) tags st) st"

definition redis_removeServerTags :: "'r redis_service \<Rightarrow> ms \<Rightarrow> string \<Rightarrow> string list \<Rightarrow> 'r \<Rightarrow> (gatho_error + unit) \<times> 'r" where
  "redis_removeServerTags R now serverId tagKeys st =
     redis_tags_commit R now (KServer serverId)
       (redis_removeTags_begin R now (KServer serverId) ''serverId'' (ServerNotFoundError serverId) tagKeys st) st"

definition redis_server_matches :: "list_servers_filter \<Rightarrow> server_info \<Rightarrow> bool" where
  "redis_server_matches f v =
     ((case sf_roomTypes f of None \<Rightarrow> True | Some required \<Rightarrow> list_all (\<lambda>rt. rt \<in> set (si_roomTypes v)) required) \<and>
      tags_match (sf_tags f) (si_tags v))"

definition servers_where :: "'r redis_service \<Rightarrow> ms \<Rightarrow> (ms \<Rightarrow> bool) \<Rightarrow> 'r \<Rightarrow> server_info list \<times> 'r" where
  "servers_where R now P st =
     (let serverIds = rd_smembers R st now KServers in
      if serverIds = [] then ([], st)
      else
        let (hashes, stale) = readServerHashes R now serverIds st;
            st1 = srem_stale R now KServers stale st;
            (infos, st2) = map_state (hashToServerInfo R now) (filter (\<lambda>h. P (num_field h ''lastHeartbeat'')) hashes) st1
        in (somes infos, st2))"

definition redis_listServers :: "'r redis_service \<Rightarrow> ms \<Rightarrow> ms \<Rightarrow> list_servers_filter \<Rightarrow> 'r \<Rightarrow> server_info list \<times> 'r" where
  "redis_listServers R now staleMs f st =
     (let cutoff = now - staleMs;
          (infos, st1) = servers_where R now (\<lambda>lastHeartbeat. \<not> lastHeartbeat < cutoff) st
      in (filter (redis_server_matches f) infos, st1))"

definition redis_listStaleServers :: "'r redis_service \<Rightarrow> ms \<Rightarrow> ms \<Rightarrow> 'r \<Rightarrow> server_info list \<times> 'r" where
  "redis_listStaleServers R now staleMs st =
     (let cutoff = now - staleMs in servers_where R now (\<lambda>lastHeartbeat. \<not> lastHeartbeat \<ge> cutoff) st)"

text \<open>\<open>REAP_SERVER_SCRIPT\<close>; the keys it concatenates are those of \<open>createKeys\<close> (\<open>script_keys\<close>).\<close>

definition reap_room :: "'r redis_service \<Rightarrow> ms \<Rightarrow> string \<Rightarrow> 'r \<Rightarrow> 'r" where
  "reap_room R now roomId st =
     (let clientIds = rd_smembers R st now (KClientsByRoom roomId);
          st1 = fold (\<lambda>c. rd_del R (KClient c) now) clientIds st;
          st2 = rd_del R (KClientsByRoom roomId) now st1;
          st3 = rd_del R (KRoom roomId) now st2
      in rd_srem R KRooms [roomId] now st3)"

definition reap_all :: "'r redis_service \<Rightarrow> ms \<Rightarrow> string \<Rightarrow> 'r \<Rightarrow> bool \<times> 'r" where
  "reap_all R now serverId st =
     (let st1 = fold (reap_room R now) (rd_smembers R st now (KRoomsByServer serverId)) st;
          st2 = rd_del R (KRoomsByServer serverId) now st1;
          st3 = rd_del R (KServer serverId) now st2
      in (True, rd_srem R KServers [serverId] now st3))"

definition reap_server_script :: "'r redis_service \<Rightarrow> ms \<Rightarrow> string \<Rightarrow> ms \<Rightarrow> 'r \<Rightarrow> bool \<times> 'r" where
  "reap_server_script R now serverId cutoff st =
     (case jm_get (rd_hgetall R st now (KServer serverId)) ''lastHeartbeat'' of
        Some (FNum lastHeartbeat) \<Rightarrow> if lastHeartbeat \<ge> cutoff then (False, st) else reap_all R now serverId st
      | _ \<Rightarrow> reap_all R now serverId st)"

definition redis_reapServer :: "'r redis_service \<Rightarrow> ms \<Rightarrow> ms \<Rightarrow> string \<Rightarrow> 'r \<Rightarrow> bool \<times> 'r" where
  "redis_reapServer R now staleMs serverId st = reap_server_script R now serverId (now - staleMs) st"

definition redis_getServer :: "'r redis_service \<Rightarrow> ms \<Rightarrow> string \<Rightarrow> 'r \<Rightarrow> server_info option \<times> 'r" where
  "redis_getServer R now serverId st = hashToServerInfo R now (rd_hgetall R st now (KServer serverId)) st"

text \<open>\<open>SET key value PX ttl NX\<close> is one command.\<close>

definition redis_tryAcquireLeader :: "'r redis_service \<Rightarrow> ms \<Rightarrow> string \<Rightarrow> 'r \<Rightarrow> bool \<times> 'r" where
  "redis_tryAcquireLeader R now serverId st =
     (case rd_get R st now KLeader of
        Some _ \<Rightarrow> (False, st)
      | None \<Rightarrow> (True, rd_set R KLeader serverId (Some LEADER_LOCK_TTL_MS) now st))"

definition redis_renewLeader :: "'r redis_service \<Rightarrow> ms \<Rightarrow> string \<Rightarrow> 'r \<Rightarrow> bool \<times> 'r" where
  "redis_renewLeader R now serverId st =
     (if rd_get R st now KLeader = Some serverId then (True, rd_pexpire R KLeader LEADER_LOCK_TTL_MS now st)
      else (False, st))"

definition redis_releaseLeader :: "'r redis_service \<Rightarrow> ms \<Rightarrow> string \<Rightarrow> 'r \<Rightarrow> 'r" where
  "redis_releaseLeader R now serverId st =
     (if rd_get R st now KLeader = Some serverId then rd_del R KLeader now st else st)"

end
