(* ===== verification/Redis_Subscriber.thy ===== *)
theory Redis_Subscriber
  imports Redis_Service
begin

text \<open>
  The shared subscriber connection of \<open>src/driver/redis.ts\<close>: \<open>subscribeChannel\<close> with its listener
  sets and shared \<open>SUBSCRIBE\<close>, the message handler and \<open>destroy\<close>. A call of \<open>subscribeChannel\<close> is a
  waiter with a number, which is also its listener; its positions are waiting for the shared
  promise, subscribed (its unsubscribe function is with the caller), and done. The commands sent to
  the connection and the deliveries are logged. The canary's own listener is left to
  \<open>Subscriber_Canary\<close>.
\<close>

section \<open>State\<close>

datatype sub_action =
    SendSubscribe redis_channel
  | SendUnsubscribe redis_channel
  | CallListener nat redis_message

datatype waiter_state = WaitingFor nat | Granted | Rejected | Removed

text \<open>\<open>su_pending\<close> holds, per channel, the number of the \<open>SUBSCRIBE\<close> in flight.\<close>

record subscriber =
  su_listeners :: "(redis_channel, nat list) jsmap"
  su_pending :: "(redis_channel, nat) jsmap"
  su_waiters :: "(nat, redis_channel \<times> waiter_state) jsmap"
  su_next :: nat
  su_log :: "sub_action list"

definition new_subscriber :: subscriber where
  "new_subscriber = \<lparr>su_listeners = [], su_pending = [], su_waiters = [], su_next = 0, su_log = []\<rparr>"

definition sub_log :: "sub_action list \<Rightarrow> subscriber \<Rightarrow> subscriber" where
  "sub_log as s = s\<lparr>su_log := su_log s @ as\<rparr>"

definition listeners_of :: "subscriber \<Rightarrow> redis_channel \<Rightarrow> nat list" where
  "listeners_of s ch = (case jm_get (su_listeners s) ch of Some ls \<Rightarrow> ls | None \<Rightarrow> [])"

section \<open>Operations\<close>

definition removeListener :: "redis_channel \<Rightarrow> nat \<Rightarrow> subscriber \<Rightarrow> subscriber" where
  "removeListener ch l s =
     (case jm_get (su_listeners s) ch of None \<Rightarrow> s
      | Some ls \<Rightarrow>
          let ls' = filter (\<lambda>x. x \<noteq> l) ls in
          if ls' = [] then sub_log [SendUnsubscribe ch] (s\<lparr>su_listeners := jm_del (su_listeners s) ch\<rparr>)
          else s\<lparr>su_listeners := jm_set (su_listeners s) ch ls'\<rparr>)"

text \<open>\<open>subscribeChannel\<close> up to its await. The number of a new \<open>SUBSCRIBE\<close> is the waiter's own.\<close>

definition subscribeChannel :: "redis_channel \<Rightarrow> subscriber \<Rightarrow> subscriber" where
  "subscribeChannel ch s =
     (let l = su_next s;
          isNew = (listeners_of s ch = []);
          s1 = s\<lparr>su_listeners := jm_set (su_listeners s) ch (listeners_of s ch @ [l]), su_next := Suc l\<rparr>;
          s2 = (if isNew then sub_log [SendSubscribe ch] (s1\<lparr>su_pending := jm_set (su_pending s1) ch l\<rparr>) else s1)
      in s2\<lparr>su_waiters := jm_set (su_waiters s2) l
             (ch, case jm_get (su_pending s2) ch of Some p \<Rightarrow> WaitingFor p | None \<Rightarrow> Granted)\<rparr>)"

text \<open>
  The reply to the \<open>SUBSCRIBE\<close> with number \<open>p\<close>: the entry is forgotten before any waiter
  continues, then every waiter of it goes on, in the order they came.
\<close>

definition waiters_for :: "nat \<Rightarrow> subscriber \<Rightarrow> nat list" where
  "waiters_for p s = map fst (filter (\<lambda>(_, _, w). w = WaitingFor p) (su_waiters s))"

definition settle_waiter :: "bool \<Rightarrow> nat \<Rightarrow> subscriber \<Rightarrow> subscriber" where
  "settle_waiter ok l s =
     (case jm_get (su_waiters s) l of None \<Rightarrow> s
      | Some (ch, _) \<Rightarrow>
          let s1 = s\<lparr>su_waiters := jm_set (su_waiters s) l (ch, if ok then Granted else Rejected)\<rparr>
          in if ok then s1 else removeListener ch l s1)"

definition forget_pending :: "nat \<Rightarrow> subscriber \<Rightarrow> subscriber" where
  "forget_pending p s =
     (case jm_get (su_waiters s) p of None \<Rightarrow> s
      | Some (ch, _) \<Rightarrow> s\<lparr>su_pending := jm_del (su_pending s) ch\<rparr>)"

definition subscribe_settled :: "bool \<Rightarrow> nat \<Rightarrow> subscriber \<Rightarrow> subscriber" where
  "subscribe_settled ok p s = fold (settle_waiter ok) (waiters_for p s) (forget_pending p s)"

text \<open>The function a granted call returned; it works once.\<close>

definition unsubscribe_waiter :: "nat \<Rightarrow> subscriber \<Rightarrow> subscriber" where
  "unsubscribe_waiter l s =
     (case jm_get (su_waiters s) l of
        Some (ch, Granted) \<Rightarrow> removeListener ch l (s\<lparr>su_waiters := jm_set (su_waiters s) l (ch, Removed)\<rparr>)
      | _ \<Rightarrow> s)"

definition subscriber_message :: "redis_channel \<Rightarrow> redis_message \<Rightarrow> subscriber \<Rightarrow> subscriber" where
  "subscriber_message ch msg s = sub_log (map (\<lambda>l. CallListener l msg) (listeners_of s ch)) s"

text \<open>The channels re-issued when the connection is ready again.\<close>

definition subscriber_ready :: "subscriber \<Rightarrow> redis_channel list" where
  "subscriber_ready s = jm_keys (su_listeners s)"

definition subscriber_destroy :: "subscriber \<Rightarrow> subscriber" where
  "subscriber_destroy s = s\<lparr>su_listeners := [], su_pending := []\<rparr>"

text \<open>
  \<open>subscribeRoomSignals\<close> calls \<open>subscribeChannel\<close> twice, for the waiters \<open>su_next s\<close> and \<open>Suc (su_next s)\<close>.
  Once both are settled (\<open>Promise.allSettled\<close>) it returns a function that leaves both, or leaves
  the one that was granted and rejects; \<open>None\<close>: not settled yet.
\<close>

definition subscribeRoomSignals :: "string \<Rightarrow> subscriber \<Rightarrow> subscriber" where
  "subscribeRoomSignals roomId s = subscribeChannel (ChannelRoomFailed roomId) (subscribeChannel (ChannelRoomReady roomId) s)"

definition waiter_is :: "subscriber \<Rightarrow> nat \<Rightarrow> waiter_state \<Rightarrow> bool" where
  "waiter_is s l w \<longleftrightarrow> map_option snd (jm_get (su_waiters s) l) = Some w"

definition unsubscribe_signals :: "nat \<Rightarrow> nat \<Rightarrow> subscriber \<Rightarrow> subscriber" where
  "unsubscribe_signals ready failed s = unsubscribe_waiter failed (unsubscribe_waiter ready s)"

definition signals_settled :: "nat \<Rightarrow> nat \<Rightarrow> subscriber \<Rightarrow> bool option \<times> subscriber" where
  "signals_settled ready failed s =
     (if waiter_is s ready Granted \<and> waiter_is s failed Granted then (Some True, s)
      else if (waiter_is s ready Granted \<or> waiter_is s ready Rejected) \<and> (waiter_is s failed Granted \<or> waiter_is s failed Rejected)
      then (Some False, unsubscribe_signals ready failed s)
      else (None, s))"

text \<open>The listener of \<open>subscribeRoomAssignments\<close>: what it calls its callback with; \<open>JSON.parse\<close> is a parameter.\<close>

definition assignment_received :: "(redis_message \<Rightarrow> desired_room option) \<Rightarrow> redis_message \<Rightarrow> desired_room option" where
  "assignment_received parse msg = map_option (\<lambda>d. d\<lparr>dr_status := Requested\<rparr>) (parse msg)"

section \<open>The machine\<close>

datatype sub_event =
    SuSubscribe redis_channel
  | SuSettled bool nat
  | SuUnsubscribe nat
  | SuMessage redis_channel redis_message

text \<open>A \<open>SUBSCRIBE\<close> is answered once.\<close>

definition in_flight :: "nat \<Rightarrow> subscriber \<Rightarrow> bool" where
  "in_flight p s \<longleftrightarrow> p \<in> set (jm_values (su_pending s))"

fun sub_step :: "subscriber \<Rightarrow> sub_event \<Rightarrow> subscriber" where
  "sub_step s (SuSubscribe ch) = subscribeChannel ch s"
| "sub_step s (SuSettled ok p) = (if in_flight p s then subscribe_settled ok p s else s)"
| "sub_step s (SuUnsubscribe l) = unsubscribe_waiter l s"
| "sub_step s (SuMessage ch msg) = subscriber_message ch msg s"

section \<open>The invariant\<close>

fun wants :: "waiter_state \<Rightarrow> bool" where
  "wants (WaitingFor _) = True" | "wants Granted = True" | "wants Rejected = False" | "wants Removed = False"

definition wants_channel :: "subscriber \<Rightarrow> redis_channel \<Rightarrow> nat \<Rightarrow> bool" where
  "wants_channel s ch l \<longleftrightarrow> (case jm_get (su_waiters s) l of Some (c, w) \<Rightarrow> c = ch \<and> wants w | None \<Rightarrow> False)"

text \<open>The last command for a channel: was it a \<open>SUBSCRIBE\<close>?\<close>

definition last_command :: "redis_channel \<Rightarrow> sub_action list \<Rightarrow> bool" where
  "last_command ch cmds =
     (case rev (filter (\<lambda>a. a = SendSubscribe ch \<or> a = SendUnsubscribe ch) cmds) of [] \<Rightarrow> False | a # _ \<Rightarrow> a = SendSubscribe ch)"

definition sets_ok :: "subscriber \<Rightarrow> bool" where
  "sets_ok s \<longleftrightarrow>
     (\<forall>ch. distinct (listeners_of s ch) \<and> (\<forall>l. l \<in> set (listeners_of s ch) \<longleftrightarrow> wants_channel s ch l)) \<and>
     (\<forall>ch. jm_get (su_listeners s) ch \<noteq> Some []) \<and>
     (\<forall>l x. jm_get (su_waiters s) l = Some x \<longrightarrow> l < su_next s) \<and>
     (\<forall>ch. last_command ch (su_log s) \<longleftrightarrow> listeners_of s ch \<noteq> []) \<and> jm_wf (su_waiters s)"

definition pending_ok :: "subscriber \<Rightarrow> bool" where
  "pending_ok s \<longleftrightarrow> jm_wf (su_pending s) \<and>
     (\<forall>ch p. jm_get (su_pending s) ch = Some p \<longrightarrow> jm_get (su_waiters s) p = Some (ch, WaitingFor p)) \<and>
     (\<forall>l ch p. jm_get (su_waiters s) l = Some (ch, WaitingFor p) \<longrightarrow> jm_get (su_pending s) ch = Some p)"

definition sub_inv :: "subscriber \<Rightarrow> bool" where
  "sub_inv s \<longleftrightarrow> sets_ok s \<and> pending_ok s"

lemma pending_okD:
  assumes "pending_ok s"
  shows "jm_get (su_pending s) ch = Some p \<Longrightarrow> jm_get (su_waiters s) p = Some (ch, WaitingFor p)"
    and "jm_get (su_waiters s) l = Some (ch, WaitingFor p) \<Longrightarrow> jm_get (su_pending s) ch = Some p"
    and "jm_wf (su_pending s)"
  using assms unfolding pending_ok_def by blast+

lemma pending_okI:
  assumes "jm_wf (su_pending s)"
    and "\<And>ch p. jm_get (su_pending s) ch = Some p \<Longrightarrow> jm_get (su_waiters s) p = Some (ch, WaitingFor p)"
    and "\<And>l ch p. jm_get (su_waiters s) l = Some (ch, WaitingFor p) \<Longrightarrow> jm_get (su_pending s) ch = Some p"
  shows "pending_ok s"
  using assms unfolding pending_ok_def by blast

lemma pending_ok_cong:
  "su_pending s' = su_pending s \<Longrightarrow> su_waiters s' = su_waiters s \<Longrightarrow> pending_ok s' = pending_ok s"
  by (simp only: pending_ok_def)

lemma sub_log_fields [simp]:
  "su_listeners (sub_log as s) = su_listeners s" "su_pending (sub_log as s) = su_pending s"
  "su_waiters (sub_log as s) = su_waiters s" "su_next (sub_log as s) = su_next s" "su_log (sub_log as s) = su_log s @ as"
  "listeners_of (sub_log as s) ch = listeners_of s ch" "wants_channel (sub_log as s) ch l = wants_channel s ch l"
  by (simp_all add: sub_log_def listeners_of_def wants_channel_def)

lemma last_command_snoc [simp]:
  "last_command ch (cmds @ [SendSubscribe c]) = (if c = ch then True else last_command ch cmds)"
  "last_command ch (cmds @ [SendUnsubscribe c]) = (if c = ch then False else last_command ch cmds)"
  by (auto simp: last_command_def)

lemma last_command_calls: "last_command ch (cmds @ map (\<lambda>l. CallListener l msg) ls) = last_command ch cmds"
  by (simp add: last_command_def comp_def)

lemma sets_okD:
  assumes "sets_ok s"
  shows "distinct (listeners_of s ch)" "l \<in> set (listeners_of s ch) \<longleftrightarrow> wants_channel s ch l"
    "jm_get (su_listeners s) ch \<noteq> Some []" "jm_get (su_waiters s) l = Some x \<Longrightarrow> l < su_next s"
    "last_command ch (su_log s) \<longleftrightarrow> listeners_of s ch \<noteq> []" "jm_wf (su_waiters s)"
  using assms unfolding sets_ok_def by simp_all

lemma removeListener_fields [simp]:
  "su_pending (removeListener ch l s) = su_pending s" "su_waiters (removeListener ch l s) = su_waiters s"
  "su_next (removeListener ch l s) = su_next s" "wants_channel (removeListener ch l s) c k = wants_channel s c k"
  by (simp_all add: removeListener_def Let_def wants_channel_def split: option.split)

lemma removeListener_listeners:
  "listeners_of (removeListener ch l s) c = (if c = ch then filter (\<lambda>x. x \<noteq> l) (listeners_of s c) else listeners_of s c)"
  by (auto simp: removeListener_def listeners_of_def Let_def split: option.split)

text \<open>A waiter leaves: its state stops wanting the channel and its listener goes.\<close>

lemma sets_ok_leave:
  assumes ok: "sets_ok s" and w: "jm_get (su_waiters s) l = Some (ch, w)" "wants w" and w': "\<not> wants w'"
  shows "sets_ok (removeListener ch l (s\<lparr>su_waiters := jm_set (su_waiters s) l (ch, w')\<rparr>))"
proof -
  let ?s = "s\<lparr>su_waiters := jm_set (su_waiters s) l (ch, w')\<rparr>"
  let ?t = "removeListener ch l ?s"
  have list: "listeners_of ?t c = (if c = ch then filter (\<lambda>x. x \<noteq> l) (listeners_of s c) else listeners_of s c)" for c
    by (simp add: removeListener_listeners) (simp add: listeners_of_def)
  have wants: "wants_channel ?s c k \<longleftrightarrow> k \<noteq> l \<and> wants_channel s c k" for c k
    using w w' by (auto simp: wants_channel_def)
  have other: "l \<notin> set (listeners_of s c)" if "c \<noteq> ch" for c
    using sets_okD(2) [OF ok, of l c] w that by (simp add: wants_channel_def)
  have "l \<in> set (listeners_of s ch)" using sets_okD(2) [OF ok] w by (simp add: wants_channel_def)
  then obtain ls where ls: "jm_get (su_listeners s) ch = Some ls"
    by (cases "jm_get (su_listeners s) ch") (simp_all add: listeners_of_def)
  then have lsof: "listeners_of s ch = ls" by (simp add: listeners_of_def)
  have cmd: "last_command c (su_log ?t) \<longleftrightarrow> listeners_of ?t c \<noteq> []" for c
    using sets_okD(5) [OF ok, of c] ls lsof \<open>l \<in> set (listeners_of s ch)\<close>
    unfolding list by (auto simp: removeListener_def Let_def)
  have ne: "jm_get (su_listeners ?t) c \<noteq> Some []" for c
    using sets_okD(3) [OF ok, of c] ls by (auto simp: removeListener_def Let_def)
  have mem: "k \<in> set (listeners_of ?t c) \<longleftrightarrow> wants_channel ?t c k" for c k
    using sets_okD(2) [OF ok, of k c] other [of c] by (auto simp: list wants)
  have "\<forall>c. distinct (listeners_of ?t c)" using sets_okD(1) [OF ok] by (simp add: list)
  moreover have "\<forall>k x. jm_get (su_waiters ?t) k = Some x \<longrightarrow> k < su_next ?t"
    using sets_okD(4) [OF ok] w(1) by (auto split: if_splits)
  moreover have "jm_wf (su_waiters ?t)" using sets_okD(6) [OF ok] by simp
  ultimately show ?thesis using cmd ne mem unfolding sets_ok_def by blast
qed

lemma sets_ok_grant:
  assumes ok: "sets_ok s" and w: "jm_get (su_waiters s) l = Some (ch, w)" "wants w" and w': "wants w'"
  shows "sets_ok (s\<lparr>su_waiters := jm_set (su_waiters s) l (ch, w')\<rparr>)"
proof -
  have wants: "wants_channel (s\<lparr>su_waiters := jm_set (su_waiters s) l (ch, w')\<rparr>) c k = wants_channel s c k" for c k
    using w w' by (auto simp: wants_channel_def)
  have list: "listeners_of (s\<lparr>su_waiters := jm_set (su_waiters s) l (ch, w')\<rparr>) c = listeners_of s c" for c
    by (simp add: listeners_of_def)
  show ?thesis using ok w(1) unfolding sets_ok_def wants list by simp
qed

lemma sets_ok_settle:
  assumes "sets_ok s" and "jm_get (su_waiters s) l = Some (ch, w)" "wants w"
  shows "sets_ok (settle_waiter ok l s)"
  using sets_ok_leave [OF assms, of Rejected] sets_ok_grant [OF assms, of Granted] assms(2)
  by (simp add: settle_waiter_def Let_def)

definition settled_state :: "bool \<Rightarrow> waiter_state" where
  "settled_state ok = (if ok then Granted else Rejected)"

lemma settle_waiter_fields:
  "su_pending (settle_waiter ok l s) = su_pending s" "su_next (settle_waiter ok l s) = su_next s"
  "jm_get (su_waiters (settle_waiter ok l s)) k =
     (if k = l then map_option (\<lambda>(ch, _). (ch, settled_state ok)) (jm_get (su_waiters s) l) else jm_get (su_waiters s) k)"
  by (auto simp: settle_waiter_def Let_def settled_state_def split: option.splits)

lemma settle_waiters:
  assumes "sets_ok s" and "distinct ls" and "\<forall>l \<in> set ls. \<exists>ch w. jm_get (su_waiters s) l = Some (ch, w) \<and> wants w"
  shows "sets_ok (fold (settle_waiter ok) ls s) \<and> su_pending (fold (settle_waiter ok) ls s) = su_pending s \<and>
    (\<forall>k. jm_get (su_waiters (fold (settle_waiter ok) ls s)) k =
       (if k \<in> set ls then map_option (\<lambda>(ch, _). (ch, settled_state ok)) (jm_get (su_waiters s) k) else jm_get (su_waiters s) k))"
  using assms
proof (induction ls arbitrary: s)
  case (Cons l ls)
  obtain ch w where "jm_get (su_waiters s) l = Some (ch, w)" "wants w" using Cons.prems(3) by auto
  then have ok: "sets_ok (settle_waiter ok l s)" using sets_ok_settle [OF Cons.prems(1)] by blast
  have "\<forall>k \<in> set ls. \<exists>ch w. jm_get (su_waiters (settle_waiter ok l s)) k = Some (ch, w) \<and> wants w"
    using Cons.prems(2,3) by (auto simp: settle_waiter_fields)
  from Cons.IH [OF ok _ this] Cons.prems(2) show ?case
    by (auto simp: settle_waiter_fields)
qed simp

lemma waiters_for_set: "jm_wf (su_waiters s) \<Longrightarrow> l \<in> set (waiters_for p s) \<longleftrightarrow> (\<exists>ch. jm_get (su_waiters s) l = Some (ch, WaitingFor p))"
  by (force simp: waiters_for_def jm_mem_get [symmetric])

lemma waiters_for_distinct: "jm_wf (su_waiters s) \<Longrightarrow> distinct (waiters_for p s)"
  unfolding waiters_for_def jm_wf_def by (simp add: distinct_map_filter)

lemma sub_inv_settled:
  assumes inv: "sub_inv s" and fly: "in_flight p s"
  shows "sub_inv (subscribe_settled ok p s)"
proof -
  have sets: "sets_ok s" and pend: "pending_ok s" using inv by (simp_all add: sub_inv_def)
  obtain ch where ch: "jm_get (su_pending s) ch = Some p"
    using fly jm_values_iff [OF pending_okD(3) [OF pend], of p] unfolding in_flight_def by blast
  then have w: "jm_get (su_waiters s) p = Some (ch, WaitingFor p)" by (rule pending_okD(1) [OF pend])
  let ?f = "s\<lparr>su_pending := jm_del (su_pending s) ch\<rparr>"
  have f: "forget_pending p s = ?f" using w by (simp add: forget_pending_def)
  have setsf: "sets_ok ?f" using sets by (simp add: sets_ok_def listeners_of_def wants_channel_def)
  have wf: "jm_wf (su_waiters s)" using sets_okD(6) [OF sets] .
  have waiting: "\<forall>l \<in> set (waiters_for p s). \<exists>ch w. jm_get (su_waiters ?f) l = Some (ch, w) \<and> wants w"
    by (auto simp: waiters_for_set [OF wf])
  note r = settle_waiters [OF setsf waiters_for_distinct [OF wf] waiting, of ok]
  let ?t = "subscribe_settled ok p s"
  have t: "sets_ok ?t" "su_pending ?t = jm_del (su_pending s) ch"
    "jm_get (su_waiters ?t) k = (if k \<in> set (waiters_for p s)
       then map_option (\<lambda>(ch, _). (ch, settled_state ok)) (jm_get (su_waiters s) k) else jm_get (su_waiters s) k)" for k
    using r by (simp_all add: subscribe_settled_def f)
  have not: "settled_state ok \<noteq> WaitingFor q" for q by (simp add: settled_state_def)
  have "pending_ok ?t"
    unfolding pending_ok_def
  proof (intro conjI allI impI)
    show "jm_wf (su_pending ?t)" using pending_okD(3) [OF pend] by (simp add: t)
    fix c q assume "jm_get (su_pending ?t) c = Some q"
    then have c: "c \<noteq> ch" "jm_get (su_pending s) c = Some q" by (auto simp: t split: if_splits)
    then have "jm_get (su_waiters s) q = Some (c, WaitingFor q)" by (intro pending_okD(1) [OF pend])
    moreover have "q \<noteq> p" using c(1) w calculation by auto
    ultimately show "jm_get (su_waiters ?t) q = Some (c, WaitingFor q)"
      by (auto simp: t(3) waiters_for_set [OF wf])
  next
    fix l c q assume "jm_get (su_waiters ?t) l = Some (c, WaitingFor q)"
    then have l: "l \<notin> set (waiters_for p s)" "jm_get (su_waiters s) l = Some (c, WaitingFor q)"
      using not by (auto simp: t(3) split: if_splits)
    then have "q \<noteq> p" by (auto simp: waiters_for_set [OF wf])
    moreover have "jm_get (su_pending s) c = Some q" by (rule pending_okD(2) [OF pend l(2)])
    ultimately show "jm_get (su_pending ?t) c = Some q" using ch by (auto simp: t(2))
  qed
  with t(1) show ?thesis by (simp add: sub_inv_def)
qed

lemma sub_inv_unsubscribe:
  assumes inv: "sub_inv s"
  shows "sub_inv (unsubscribe_waiter l s)"
proof (cases "\<exists>ch. jm_get (su_waiters s) l = Some (ch, Granted)")
  case False
  then have "unsubscribe_waiter l s = s" by (auto simp: unsubscribe_waiter_def split: option.split waiter_state.split)
  with inv show ?thesis by simp
next
  case True
  then obtain ch where w: "jm_get (su_waiters s) l = Some (ch, Granted)" by blast
  have "sets_ok (unsubscribe_waiter l s)"
    using sets_ok_leave [OF _ w, of Removed] inv w by (simp add: unsubscribe_waiter_def sub_inv_def)
  moreover have "pending_ok (unsubscribe_waiter l s)"
  proof (rule pending_okI)
    have pend: "pending_ok s" using inv by (simp add: sub_inv_def)
    have fields: "su_pending (unsubscribe_waiter l s) = su_pending s"
      "jm_get (su_waiters (unsubscribe_waiter l s)) k = (if k = l then Some (ch, Removed) else jm_get (su_waiters s) k)" for k
      using w by (simp_all add: unsubscribe_waiter_def)
    show "jm_wf (su_pending (unsubscribe_waiter l s))" using pending_okD(3) [OF pend] by (simp add: fields)
    show "jm_get (su_waiters (unsubscribe_waiter l s)) p = Some (c, WaitingFor p)"
      if "jm_get (su_pending (unsubscribe_waiter l s)) c = Some p" for c p
      using pending_okD(1) [OF pend, of c p] that w by (auto simp: fields)
    show "jm_get (su_pending (unsubscribe_waiter l s)) c = Some p"
      if "jm_get (su_waiters (unsubscribe_waiter l s)) k = Some (c, WaitingFor p)" for k c p
      using pending_okD(2) [OF pend, of k c p] that by (auto simp: fields split: if_splits)
  qed
  ultimately show ?thesis by (simp add: sub_inv_def)
qed

lemma sub_inv_subscribe:
  assumes inv: "sub_inv s"
  shows "sub_inv (subscribeChannel ch s)"
proof -
  have sets: "sets_ok s" and pend: "pending_ok s" using inv by (simp_all add: sub_inv_def)
  let ?l = "su_next s" and ?t = "subscribeChannel ch s"
  let ?new = "listeners_of s ch = []"
  have none: "jm_get (su_waiters s) ?l = None"
    using sets_okD(4) [OF sets, of ?l] by (cases "jm_get (su_waiters s) ?l") auto
  have list: "listeners_of ?t c = (if c = ch then listeners_of s ch @ [?l] else listeners_of s c)" for c
    by (simp add: subscribeChannel_def Let_def) (simp add: listeners_of_def)
  have pending: "jm_get (su_pending ?t) c = (if ?new \<and> c = ch then Some ?l else jm_get (su_pending s) c)" for c
    by (simp add: subscribeChannel_def Let_def)
  define w where "w = (case jm_get (su_pending ?t) ch of Some p \<Rightarrow> WaitingFor p | None \<Rightarrow> Granted)"
  have w_wants: "wants w" by (simp add: w_def split: option.split)
  have waiters: "jm_get (su_waiters ?t) k = (if k = ?l then Some (ch, w) else jm_get (su_waiters s) k)" for k
    by (simp add: w_def subscribeChannel_def Let_def)
  have wants: "wants_channel ?t c k \<longleftrightarrow> k = ?l \<and> c = ch \<or> wants_channel s c k" for c k
    using none w_wants by (auto simp: wants_channel_def waiters split: option.split)
  have fresh: "?l \<notin> set (listeners_of s c)" for c
    using sets_okD(2) [OF sets, of ?l c] none by (simp add: wants_channel_def)
  have cmd: "last_command c (su_log ?t) \<longleftrightarrow> listeners_of ?t c \<noteq> []" for c
    using sets_okD(5) [OF sets, of c] unfolding list by (auto simp: subscribeChannel_def Let_def)
  have ne: "jm_get (su_listeners ?t) c \<noteq> Some []" for c
    using sets_okD(3) [OF sets, of c] by (simp add: subscribeChannel_def Let_def)
  have dist: "distinct (listeners_of ?t c)" for c using sets_okD(1) [OF sets] fresh by (simp add: list)
  have mem: "k \<in> set (listeners_of ?t c) \<longleftrightarrow> wants_channel ?t c k" for c k
    using sets_okD(2) [OF sets, of k c] by (auto simp: list wants)
  have next_t: "su_next ?t = Suc ?l" and wf: "jm_wf (su_waiters ?t)" "jm_wf (su_pending ?t)"
    using sets_okD(6) [OF sets] pending_okD(3) [OF pend] by (simp_all add: subscribeChannel_def Let_def)
  have "\<forall>k x. jm_get (su_waiters ?t) k = Some x \<longrightarrow> k < su_next ?t"
    using sets_okD(4) [OF sets] by (auto simp: waiters next_t less_SucI)
  then have "sets_ok ?t" using cmd ne dist mem wf(1) unfolding sets_ok_def by blast
  moreover have old: "jm_get (su_pending s) ch = None" if "?new"
  proof (rule ccontr)
    assume "jm_get (su_pending s) ch \<noteq> None"
    then obtain p where "jm_get (su_pending s) ch = Some p" by blast
    then have "jm_get (su_waiters s) p = Some (ch, WaitingFor p)" by (rule pending_okD(1) [OF pend])
    then have "p \<in> set (listeners_of s ch)" using sets_okD(2) [OF sets] by (simp add: wants_channel_def)
    with that show False by simp
  qed
  have "pending_ok ?t"
    unfolding pending_ok_def
  proof (intro conjI allI impI)
    show "jm_wf (su_pending ?t)" by (rule wf(2))
    fix c p assume p: "jm_get (su_pending ?t) c = Some p"
    show "jm_get (su_waiters ?t) p = Some (c, WaitingFor p)"
    proof (cases "?new \<and> c = ch")
      case True
      then show ?thesis using p by (simp add: pending waiters w_def)
    next
      case False
      then have "jm_get (su_pending s) c = Some p" using p by (auto simp: pending split: if_splits)
      then have "jm_get (su_waiters s) p = Some (c, WaitingFor p)" by (rule pending_okD(1) [OF pend])
      then show ?thesis using none by (auto simp: waiters)
    qed
  next
    fix k c p assume k: "jm_get (su_waiters ?t) k = Some (c, WaitingFor p)"
    show "jm_get (su_pending ?t) c = Some p"
    proof (cases "k = ?l")
      case True
      then have "c = ch" "w = WaitingFor p" using k by (simp_all add: waiters)
      then show ?thesis by (simp add: w_def split: option.splits)
    next
      case False
      then have "jm_get (su_waiters s) k = Some (c, WaitingFor p)" using k by (simp add: waiters)
      then have c: "jm_get (su_pending s) c = Some p" by (rule pending_okD(2) [OF pend])
      then show ?thesis using old by (auto simp: pending)
    qed
  qed
  ultimately show ?thesis by (simp add: sub_inv_def)
qed

lemma sub_inv_message:
  assumes "sub_inv s"
  shows "sub_inv (subscriber_message ch msg s)"
proof -
  have "pending_ok (subscriber_message ch msg s) = pending_ok s"
    by (rule pending_ok_cong) (simp_all add: subscriber_message_def)
  moreover have "sets_ok (subscriber_message ch msg s) = sets_ok s"
    by (simp add: subscriber_message_def sets_ok_def last_command_calls)
  ultimately show ?thesis using assms by (simp add: sub_inv_def)
qed

lemma sub_inv_step: "sub_inv s \<Longrightarrow> sub_inv (sub_step s e)"
  by (cases e) (simp_all add: sub_inv_subscribe sub_inv_settled sub_inv_unsubscribe sub_inv_message)

lemma sub_inv_initial: "sub_inv new_subscriber"
proof -
  have "pending_ok new_subscriber" by (rule pending_okI) (simp_all add: new_subscriber_def)
  then show ?thesis
    by (simp add: new_subscriber_def sub_inv_def sets_ok_def listeners_of_def wants_channel_def last_command_def)
qed

text \<open>Both channels or neither: a rejected pair leaves no listener behind.\<close>

lemma unsubscribe_wants:
  "wants_channel (unsubscribe_waiter l s) ch k \<longleftrightarrow> wants_channel s ch k \<and> \<not> (k = l \<and> waiter_is s l Granted)"
  by (auto simp: unsubscribe_waiter_def wants_channel_def waiter_is_def split: option.splits waiter_state.splits)

lemma signals_both_or_neither:
  assumes "ready \<noteq> failed" and "signals_settled ready failed s = (Some granted, s')"
  shows "(if granted then s' = s \<and> waiter_is s ready Granted \<and> waiter_is s failed Granted
          else \<not> wants_channel s' ch ready \<and> \<not> wants_channel s' ch failed)"
proof (cases granted)
  case False
  have rej: "\<not> wants_channel s ch l" if "waiter_is s l Rejected" for l
    using that by (auto simp: waiter_is_def wants_channel_def split: option.splits)
  have same: "waiter_is (unsubscribe_waiter ready s) failed w = waiter_is s failed w" for w
    using assms(1) by (auto simp: waiter_is_def unsubscribe_waiter_def split: option.splits waiter_state.splits)
  show ?thesis
    using assms(2) False rej
    by (auto simp: signals_settled_def unsubscribe_signals_def unsubscribe_wants same split: if_splits)
qed (use assms in \<open>auto simp: signals_settled_def split: if_splits\<close>)

interpretation su: step_invariant sub_step "\<lambda>_ _. True" sub_inv
  by unfold_locales (rule sub_inv_step)

text \<open>
  C36: The shared subscription follows its listeners. After any calls, replies and messages, the
  last command sent for a channel is a \<open>SUBSCRIBE\<close> exactly if some call for it is waiting or was
  granted and not given back; a message then reaches each such call exactly once and no other,
  and a call waits exactly for the \<open>SUBSCRIBE\<close> in flight on its channel.
\<close>

theorem subscription_follows_listeners:
  "let s = run sub_step new_subscriber evs in
     (last_command ch (su_log s) \<longleftrightarrow> (\<exists>l. wants_channel s ch l)) \<and>
     (\<exists>ls. distinct ls \<and> (\<forall>l. l \<in> set ls \<longleftrightarrow> wants_channel s ch l) \<and>
        su_log (subscriber_message ch msg s) = su_log s @ map (\<lambda>l. CallListener l msg) ls) \<and>
     (\<forall>l p. jm_get (su_waiters s) l = Some (ch, WaitingFor p) \<longrightarrow> jm_get (su_pending s) ch = Some p)"
proof -
  define s where "s = run sub_step new_subscriber evs"
  have inv: "sub_inv s" unfolding s_def by (rule su.I_run [OF sub_inv_initial]) simp
  then have sets: "sets_ok s" and pend: "pending_ok s" by (simp_all add: sub_inv_def)
  have mem: "l \<in> set (listeners_of s ch) \<longleftrightarrow> wants_channel s ch l" for l by (rule sets_okD(2) [OF sets])
  have "last_command ch (su_log s) \<longleftrightarrow> (\<exists>l. wants_channel s ch l)"
    using sets_okD(5) [OF sets, of ch] mem by (cases "listeners_of s ch") auto
  moreover have "\<exists>ls. distinct ls \<and> (\<forall>l. l \<in> set ls \<longleftrightarrow> wants_channel s ch l) \<and>
      su_log (subscriber_message ch msg s) = su_log s @ map (\<lambda>l. CallListener l msg) ls"
    using mem sets_okD(1) [OF sets, of ch] by (intro exI [of _ "listeners_of s ch"]) (simp add: subscriber_message_def)
  moreover have "\<forall>l p. jm_get (su_waiters s) l = Some (ch, WaitingFor p) \<longrightarrow> jm_get (su_pending s) ch = Some p"
    using pending_okD(2) [OF pend] by blast
  ultimately show ?thesis unfolding s_def [symmetric] Let_def by blast
qed

lemma subscription_follows_listeners_witness:
  "\<not> (\<exists>l. wants_channel (run sub_step new_subscriber [SuSubscribe (ChannelRoomReady ''r''), SuSubscribe (ChannelRoomReady ''r''), SuSettled False 0])
     (ChannelRoomReady ''r'') l)"
proof -
  have "\<not> last_command (ChannelRoomReady ''r'') (su_log (run sub_step new_subscriber
      [SuSubscribe (ChannelRoomReady ''r''), SuSubscribe (ChannelRoomReady ''r''), SuSettled False 0]))"
    by code_simp
  then show ?thesis
    using conjunct1 [OF subscription_follows_listeners [unfolded Let_def], of "ChannelRoomReady ''r''"] by metis
qed

end
