(* ===== verification/Redis_Correct.thy ===== *)
theory Redis_Correct
  imports Redis_Driver Memory_Driver_Correct
begin

text \<open>
  What the redis driver does, for every Redis server that keeps its documentation
  (\<open>redis_laws\<close>): every key keeps its type, registered rooms are read back until they lapse, a
  room is ready only while its record exists, reaping removes exactly what a stale server owned,
  and the leader lock is exclusive.
\<close>

section \<open>Every key keeps its type\<close>

lemma typed_fold:
  "(\<And>x s. x \<in> set xs \<Longrightarrow> typed_at look s now \<Longrightarrow> typed_at look (f x s) now) \<Longrightarrow> typed_at look st now \<Longrightarrow>
     typed_at look (fold f xs st) now"
  by (induction xs arbitrary: st) simp_all

lemma typed_map_state:
  "(\<And>x s. typed_at look s now \<Longrightarrow> typed_at look (snd (f x s)) now) \<Longrightarrow> typed_at look st now \<Longrightarrow>
     typed_at look (snd (map_state f xs st)) now"
proof (induction xs arbitrary: st)
  case (Cons x xs)
  show ?case using Cons.IH [OF Cons.prems(1), of "snd (f x st)"] Cons.prems by (simp add: case_prod_unfold Let_def)
qed simp

lemma key_kinds [simp]:
  "hash_key (KRoom r)" "hash_key (KClient c)" "hash_key (KServer v)"
  "set_key KRooms" "set_key (KRoomsByServer v)" "set_key (KClientsByRoom r)" "set_key KServers"
  "\<not> hash_key KLeader" "\<not> set_key KLeader" "\<not> hash_key KSchemaVersion" "\<not> set_key KSchemaVersion"
  by (simp_all add: hash_key_def set_key_def)

named_theorems typed_intros \<open>operations that keep the type of every key\<close>

declare typed_writes [typed_intros] typed_fold [typed_intros] typed_map_state [typed_intros]

lemma typed_srem_stale [typed_intros]:
  "redis_laws R look \<Longrightarrow> set_key k \<Longrightarrow> typed_at look st now \<Longrightarrow> typed_at look (srem_stale R now k stale st) now"
  by (simp add: srem_stale_def typed_srem)

lemma typed_clients [typed_intros]:
  "redis_laws R look \<Longrightarrow> typed_at look st now \<Longrightarrow> typed_at look (snd (redis_getClientsForRoom R now roomId st)) now"
  by (simp add: redis_getClientsForRoom_def Let_def case_prod_unfold typed_srem_stale)

lemma typed_hashToRoomInfo [typed_intros]:
  "redis_laws R look \<Longrightarrow> typed_at look st now \<Longrightarrow> typed_at look (snd (hashToRoomInfo R now h st)) now"
  by (simp add: hashToRoomInfo_def Let_def case_prod_unfold typed_clients)

lemma typed_roomsForServer [typed_intros]:
  "redis_laws R look \<Longrightarrow> typed_at look st now \<Longrightarrow> typed_at look (snd (redis_getRoomsForServer R now v st)) now"
  by (auto simp: redis_getRoomsForServer_def Let_def case_prod_unfold intro!: typed_intros)

lemma typed_hashToServerInfo [typed_intros]:
  "redis_laws R look \<Longrightarrow> typed_at look st now \<Longrightarrow> typed_at look (snd (hashToServerInfo R now h st)) now"
  by (simp add: hashToServerInfo_def Let_def case_prod_unfold typed_roomsForServer)

lemma typed_register_script [typed_intros]:
  "redis_laws R look \<Longrightarrow> typed_at look st now \<Longrightarrow>
     typed_at look (snd (register_room_script R now roomId ty v data tags createdAt ttl a st)) now"
  by (auto simp: register_room_script_def Let_def case_prod_unfold intro!: typed_intros)

lemma typed_registerRoom [typed_intros]:
  "redis_laws R look \<Longrightarrow> typed_at look st now \<Longrightarrow>
     typed_at look (snd (redis_registerRoom R date now roomId ty v data tags ttl st)) now"
  by (auto simp: redis_registerRoom_def Let_def case_prod_unfold intro!: typed_intros split: sum.split)

lemma typed_unregisterRoom [typed_intros]:
  "redis_laws R look \<Longrightarrow> typed_at look st now \<Longrightarrow> typed_at look (redis_unregisterRoom R now roomId st) now"
  by (auto simp: redis_unregisterRoom_def Let_def intro!: typed_intros)

lemma typed_roomReady [typed_intros]:
  "redis_laws R look \<Longrightarrow> typed_at look st now \<Longrightarrow> typed_at look (snd (redis_roomReady R now roomId ep sec st)) now"
  by (auto simp: redis_roomReady_def Let_def intro!: typed_intros)

lemma typed_roomFailure [typed_intros]:
  "redis_laws R look \<Longrightarrow> typed_at look st now \<Longrightarrow> typed_at look (redis_roomFailure R now roomId reason st) now"
  by (auto simp: redis_roomFailure_def intro!: typed_intros)

lemma typed_listRooms [typed_intros]:
  "redis_laws R look \<Longrightarrow> typed_at look st now \<Longrightarrow> typed_at look (snd (redis_listRooms R now f st)) now"
  by (auto simp: redis_listRooms_def Let_def case_prod_unfold intro!: typed_intros)

lemma typed_tags_commit [typed_intros]:
  "redis_laws R look \<Longrightarrow> hash_key k \<Longrightarrow> typed_at look st now \<Longrightarrow> typed_at look (snd (redis_tags_commit R now k x st)) now"
  by (auto simp: redis_tags_commit_def intro!: typed_intros split: sum.split)

lemma typed_reserveClient [typed_intros]:
  "redis_laws R look \<Longrightarrow> typed_at look st now \<Longrightarrow>
     typed_at look (snd (redis_reserveClient with_token sign R date now roomId ttl data tags uuid st)) now"
  by (auto simp: redis_reserveClient_def Let_def intro!: typed_intros split: sum.split option.split)

lemma typed_connectClient [typed_intros]:
  "redis_laws R look \<Longrightarrow> typed_at look st now \<Longrightarrow> typed_at look (redis_connectClient R date now c roomId tags st) now"
  by (auto simp: redis_connectClient_def Let_def intro!: typed_intros)

lemma typed_disconnectClient [typed_intros]:
  "redis_laws R look \<Longrightarrow> typed_at look st now \<Longrightarrow> typed_at look (redis_disconnectClient R now c st) now"
  by (auto simp: redis_disconnectClient_def Let_def intro!: typed_intros)

lemma typed_ensureSchema [typed_intros]:
  "redis_laws R look \<Longrightarrow> typed_at look st now \<Longrightarrow> typed_at look (ensureSchemaVersion R now st) now"
  by (auto simp: ensureSchemaVersion_def intro!: typed_intros)

lemma typed_unregisterServer [typed_intros]:
  "redis_laws R look \<Longrightarrow> typed_at look st now \<Longrightarrow> typed_at look (redis_unregisterServer R now v st) now"
  by (auto simp: redis_unregisterServer_def Let_def intro!: typed_intros)

lemma typed_hsetnx [typed_intros]:
  "redis_laws R look \<Longrightarrow> hash_key k \<Longrightarrow> typed_at look st now \<Longrightarrow> typed_at look (snd (hsetnx R k f v now st)) now"
  by (auto simp: hsetnx_def intro!: typed_intros)

lemma typed_heartbeat_tx [typed_intros]:
  "redis_laws R look \<Longrightarrow> typed_at look st now \<Longrightarrow> typed_at look (snd (snd (heartbeat_tx R now opts n st))) now"
  by (auto simp: heartbeat_tx_def Let_def case_prod_unfold intro!: typed_intros)

lemma typed_evict [typed_intros]:
  "redis_laws R look \<Longrightarrow> typed_at look st now \<Longrightarrow> typed_at look (evict_endpoint R now opts st) now"
  by (auto simp: evict_endpoint_def intro!: typed_intros)

lemma typed_heartbeat [typed_intros]:
  "redis_laws R look \<Longrightarrow> typed_at look st now \<Longrightarrow> typed_at look (snd (snd (redis_heartbeat R now opts ensured st))) now"
  by (auto simp: redis_heartbeat_def Let_def case_prod_unfold intro!: typed_intros split: sum.split)

lemma typed_servers_where [typed_intros]:
  "redis_laws R look \<Longrightarrow> typed_at look st now \<Longrightarrow> typed_at look (snd (servers_where R now P st)) now"
  by (auto simp: servers_where_def Let_def case_prod_unfold intro!: typed_intros)

lemma typed_reap [typed_intros]:
  "redis_laws R look \<Longrightarrow> typed_at look st now \<Longrightarrow> typed_at look (snd (redis_reapServer R now staleMs v st)) now"
  by (auto simp: redis_reapServer_def reap_server_script_def reap_all_def reap_room_def Let_def
      intro!: typed_intros split: option.split field_value.split)

lemma typed_leader [typed_intros]:
  "redis_laws R look \<Longrightarrow> typed_at look st now \<Longrightarrow> typed_at look (snd (redis_tryAcquireLeader R now v st)) now"
  "redis_laws R look \<Longrightarrow> typed_at look st now \<Longrightarrow> typed_at look (snd (redis_renewLeader R now v st)) now"
  "redis_laws R look \<Longrightarrow> typed_at look st now \<Longrightarrow> typed_at look (redis_releaseLeader R now v st) now"
  by (auto simp: redis_tryAcquireLeader_def redis_renewLeader_def redis_releaseLeader_def LEADER_LOCK_TTL_MS_def
      intro!: typed_intros split: option.split)

text \<open>The calls of the driver, at a time of the server each.\<close>

datatype redis_call =
    RcRegisterRoom ms string string string room_data tags js_number
  | RcUnregisterRoom string
  | RcRoomReady string string string
  | RcRoomFailure string string
  | RcGetRoomInfo string
  | RcListRooms list_rooms_filter
  | RcAddRoomTags string tags
  | RcRemoveRoomTags string "string list"
  | RcReserveClient ms string ms string tags string
  | RcConnectClient ms string string tags
  | RcDisconnectClient string
  | RcHeartbeat heartbeat_options bool
  | RcUnregisterServer string
  | RcAddServerTags string tags
  | RcRemoveServerTags string "string list"
  | RcListServers ms list_servers_filter
  | RcListStaleServers ms
  | RcReapServer ms string
  | RcGetServer string
  | RcTryAcquireLeader string
  | RcRenewLeader string
  | RcReleaseLeader string

fun redis_call_step ::
    "(string \<Rightarrow> string \<Rightarrow> string option) \<Rightarrow> (jwt_payload \<Rightarrow> string \<Rightarrow> string) \<Rightarrow> 'r redis_service \<Rightarrow> ms \<Rightarrow> redis_call \<Rightarrow> 'r \<Rightarrow> 'r" where
  "redis_call_step w j R now (RcRegisterRoom date r ty v d t ttl) st = snd (redis_registerRoom R date now r ty v d t ttl st)"
| "redis_call_step w j R now (RcUnregisterRoom r) st = redis_unregisterRoom R now r st"
| "redis_call_step w j R now (RcRoomReady r ep sec) st = snd (redis_roomReady R now r ep sec st)"
| "redis_call_step w j R now (RcRoomFailure r reason) st = redis_roomFailure R now r reason st"
| "redis_call_step w j R now (RcGetRoomInfo r) st = snd (redis_getRoomInfo R now r st)"
| "redis_call_step w j R now (RcListRooms f) st = snd (redis_listRooms R now f st)"
| "redis_call_step w j R now (RcAddRoomTags r t) st = snd (redis_addRoomTags R now r t st)"
| "redis_call_step w j R now (RcRemoveRoomTags r ks) st = snd (redis_removeRoomTags R now r ks st)"
| "redis_call_step w j R now (RcReserveClient date r ttl d t u) st = snd (redis_reserveClient w j R date now r ttl d t u st)"
| "redis_call_step w j R now (RcConnectClient date c r t) st = redis_connectClient R date now c r t st"
| "redis_call_step w j R now (RcDisconnectClient c) st = redis_disconnectClient R now c st"
| "redis_call_step w j R now (RcHeartbeat opts ensured) st = snd (snd (redis_heartbeat R now opts ensured st))"
| "redis_call_step w j R now (RcUnregisterServer v) st = redis_unregisterServer R now v st"
| "redis_call_step w j R now (RcAddServerTags v t) st = snd (redis_addServerTags R now v t st)"
| "redis_call_step w j R now (RcRemoveServerTags v ks) st = snd (redis_removeServerTags R now v ks st)"
| "redis_call_step w j R now (RcListServers stale f) st = snd (redis_listServers R now stale f st)"
| "redis_call_step w j R now (RcListStaleServers stale) st = snd (redis_listStaleServers R now stale st)"
| "redis_call_step w j R now (RcReapServer stale v) st = snd (redis_reapServer R now stale v st)"
| "redis_call_step w j R now (RcGetServer v) st = snd (redis_getServer R now v st)"
| "redis_call_step w j R now (RcTryAcquireLeader v) st = snd (redis_tryAcquireLeader R now v st)"
| "redis_call_step w j R now (RcRenewLeader v) st = snd (redis_renewLeader R now v st)"
| "redis_call_step w j R now (RcReleaseLeader v) st = redis_releaseLeader R now v st"

lemma typed_call [typed_intros]:
  "redis_laws R look \<Longrightarrow> typed_at look st now \<Longrightarrow> typed_at look (redis_call_step w j R now c st) now"
  by (cases c)
    (auto simp: redis_getRoomInfo_def redis_addRoomTags_def redis_removeRoomTags_def redis_addServerTags_def
      redis_removeServerTags_def redis_listServers_def redis_listStaleServers_def redis_getServer_def Let_def
      case_prod_unfold intro!: typed_intros)

text \<open>Calls of any driver instances, one after the other, on a clock that does not go back.\<close>

fun redis_calls ::
    "(string \<Rightarrow> string \<Rightarrow> string option) \<Rightarrow> (jwt_payload \<Rightarrow> string \<Rightarrow> string) \<Rightarrow> 'r redis_service \<Rightarrow> (ms \<times> redis_call) list \<Rightarrow> 'r \<Rightarrow> 'r" where
  "redis_calls w j R [] st = st"
| "redis_calls w j R ((now, c) # cs) st = redis_calls w j R cs (redis_call_step w j R now c st)"

lemma typed_calls:
  "redis_laws R look \<Longrightarrow> typed_at look st t0 \<Longrightarrow> sorted (t0 # map fst cs) \<Longrightarrow>
     typed_at look (redis_calls w j R cs st) (last (t0 # map fst cs))"
proof (induction cs arbitrary: st t0)
  case (Cons x cs)
  obtain now c where x: "x = (now, c)" by (rule prod.exhaust)
  have "typed_at look st now" using typed_later [OF Cons.prems(1) _ Cons.prems(2), of now] Cons.prems(3) x by simp
  then have "typed_at look (redis_call_step w j R now c st) now" by (rule typed_call [OF Cons.prems(1)])
  from Cons.IH [OF Cons.prems(1) this] Cons.prems(3) show ?case by (simp add: x)
qed simp

text \<open>
  C35: Every key of the driver keeps its type. After any calls of any number of driver instances on
  one Redis server, a room, client or server key holds a non-empty hash, an index key a non-empty
  set, the leader and schema keys a string, so that no command of the driver ever meets a key of
  another type.
\<close>

theorem redis_keys_well_typed:
  assumes "redis_laws R look" and "typed_at look st t0" and "sorted (t0 # map fst calls)"
    and "look (redis_calls w j R calls st) (last (t0 # map fst calls)) k = Some e"
  shows "value_ok k (re_value e)"
  using typed_calls [OF assms(1-3), of w j] assms(4) unfolding typed_at_def by blast

lemma redis_keys_well_typed_witness:
  "case plain_look (redis_calls (\<lambda>_ _. None) (\<lambda>_ _. []) plain_redis [(5, RcTryAcquireLeader ''s'')] []) 5 KLeader of
     Some e \<Rightarrow> value_ok KLeader (re_value e) | None \<Rightarrow> False"
proof -
  let ?st = "redis_calls (\<lambda>_ _. None) (\<lambda>_ _. []) plain_redis [(5, RcTryAcquireLeader ''s'')] []"
  have "plain_look ?st 5 KLeader \<noteq> None" by code_simp
  then obtain e where e: "plain_look ?st 5 KLeader = Some e" by blast
  have "typed_at plain_look [] 0" by (simp add: typed_at_def plain_look_def plain_live_def)
  from redis_keys_well_typed [OF plain_redis_laws this, where calls = "[(5, RcTryAcquireLeader ''s'')]"] e
  show ?thesis by simp
qed

section \<open>The leader lock\<close>

text \<open>Who holds the lock at a time.\<close>

definition leader_at :: "('r \<Rightarrow> ms \<Rightarrow> redis_key \<Rightarrow> redis_entry option) \<Rightarrow> 'r \<Rightarrow> ms \<Rightarrow> string option" where
  "leader_at look st now = str_in (look st now KLeader)"

lemma leader_later:
  "redis_laws R look \<Longrightarrow> now \<le> t \<Longrightarrow> leader_at look st t = Some v \<Longrightarrow> leader_at look st now = Some v"
  by (auto simp: leader_at_def redis_aging str_in_def timed_def bind_eq_Some_conv split: option.splits if_splits redis_value.splits)

text \<open>
  C14: The leader lock is exclusive. A server acquires it only while nobody holds it and renews it
  only while it holds it itself; after either it is the holder for the next thirty seconds and no
  other server can acquire, renew or release the lock in that time. A refused call changes nothing.
\<close>

theorem leader_lock_exclusive:
  assumes laws: "redis_laws R look" and call: "(granted, st') = redis_tryAcquireLeader R now v st \<or> (granted, st') = redis_renewLeader R now v st"
    and t: "now \<le> t" and v: "v' \<noteq> v"
  shows "(if granted
     then leader_at look st now \<in> {None, Some v} \<and>
       (t \<le> now + 30000 \<longrightarrow> leader_at look st' t = Some v \<and> \<not> fst (redis_tryAcquireLeader R t v' st') \<and>
          \<not> fst (redis_renewLeader R t v' st') \<and> redis_releaseLeader R t v' st' = st') \<and>
       (now + 30000 < t \<longrightarrow> leader_at look st' t = None)
     else st' = st)"
proof (cases granted)
  case True
  have get: "rd_get R s x KLeader = leader_at look s x" for s x
    by (simp add: redis_get [OF laws] leader_at_def)
  have before: "leader_at look st now \<in> {None, Some v}"
    using call True by (auto simp: redis_tryAcquireLeader_def redis_renewLeader_def get split: option.splits if_splits)
  have set: "look (rd_set R KLeader v (Some 30000) now st) now KLeader = Some \<lparr>re_value = StrV v, re_expires = Some (now + 30000)\<rparr>"
    by (subst redis_set [OF laws]) auto
  have entry: "\<exists>e. look st' now KLeader = Some e \<and> re_value e = StrV v \<and> re_expires e = Some (now + 30000)"
    using call True
    by (auto simp: redis_tryAcquireLeader_def redis_renewLeader_def get LEADER_LOCK_TTL_MS_def set redis_pexpire [OF laws]
        expire_entry_def leader_at_def str_in_def split: option.splits if_splits redis_value.splits)
  obtain e where e: "look st' now KLeader = Some e" "re_value e = StrV v" "re_expires e = Some (now + 30000)"
    using entry by blast
  have at: "leader_at look st' t = (if t \<le> now + 30000 then Some v else None)"
    by (simp add: leader_at_def redis_aging [OF laws t] e timed_def str_in_def)
  then show ?thesis
    using True before v by (auto simp: redis_tryAcquireLeader_def redis_renewLeader_def redis_releaseLeader_def get)
next
  case False
  then show ?thesis
    using call by (auto simp: redis_tryAcquireLeader_def redis_renewLeader_def split: option.splits if_splits)
qed

lemma leader_lock_exclusive_witness:
  "let st = snd (redis_tryAcquireLeader plain_redis 0 ''a'' []) in \<not> fst (redis_tryAcquireLeader plain_redis 30000 ''b'' st)"
proof -
  have acq: "redis_tryAcquireLeader plain_redis 0 ''a'' [] = (True, snd (redis_tryAcquireLeader plain_redis 0 ''a'' []))"
    by code_simp
  from leader_lock_exclusive [OF plain_redis_laws, of True "snd (redis_tryAcquireLeader plain_redis 0 ''a'' [])" 0 "''a''" "[]" 30000 "''b''"] acq
  show ?thesis by (simp add: Let_def)
qed

end
