(* ===== verification/Redis_Reap.thy ===== *)
theory Redis_Reap
  imports Redis_Correct
begin

text \<open>
  What reaping does to the keys of a Redis server that keeps its documentation: the abstract
  effect \<open>server_reaped\<close> on the visible entries, and that \<open>reapServer\<close> refines it. Then the life of
  a requested room: it is read back until its time is over, and a ready report makes it permanent.
\<close>

section \<open>The effect of a reap\<close>

type_synonym entries = "redis_key \<Rightarrow> redis_entry option"

definition without :: "redis_entry option \<Rightarrow> string set \<Rightarrow> redis_entry option" where
  "without e xs = set_entry e (set_in e - xs)"

definition rooms_reaped :: "string set \<Rightarrow> entries \<Rightarrow> entries" where
  "rooms_reaped rs m k =
     (case k of
        KRoom r \<Rightarrow> if r \<in> rs then None else m k
      | KClientsByRoom r \<Rightarrow> if r \<in> rs then None else m k
      | KClient c \<Rightarrow> if \<exists>r\<in>rs. c \<in> set_in (m (KClientsByRoom r)) then None else m k
      | KRooms \<Rightarrow> without (m KRooms) rs
      | _ \<Rightarrow> m k)"

definition server_reaped :: "string \<Rightarrow> entries \<Rightarrow> entries" where
  "server_reaped v m =
     (rooms_reaped (set_in (m (KRoomsByServer v))) m)
       (KRoomsByServer v := None, KServer v := None, KServers := without (m KServers) {v})"

lemma set_in_set_entry [simp]: "set_in (set_entry e s) = s"
  by (simp add: set_entry_def set_in_def)

lemma expiry_in_set_entry: "expiry_in (set_entry e s) = (if s = {} then None else expiry_in e)"
  by (simp add: set_entry_def expiry_in_def)

lemma set_entry_same:
  assumes "set_key k" and "typed_at look st now"
  shows "set_entry (look st now k) (set_in (look st now k)) = look st now k"
proof (cases "look st now k")
  case (Some e)
  then have "value_ok k (re_value e)" using assms(2) by (simp add: typed_at_def)
  then obtain s where "re_value e = SetV s" "s \<noteq> {}" using value_ok_set [OF assms(1)] by blast
  then show ?thesis by (cases e) (simp add: Some set_entry_def set_in_def expiry_in_def)
qed (simp add: set_entry_def set_in_def)

lemma without_without: "without (without e xs) ys = without e (xs \<union> ys)"
  by (auto simp: without_def set_entry_def set_in_def expiry_in_def Diff_Diff_Int Diff_eq Int_assoc)

lemma redis_srem_without:
  "redis_laws R look \<Longrightarrow> set_key k \<Longrightarrow> typed_at look st now \<Longrightarrow>
     look (rd_srem R k xs now st) now = (look st now)(k := without (look st now k) (set xs))"
  by (simp add: redis_srem without_def fun_upd_def)

lemma del_clients_look:
  "redis_laws R look \<Longrightarrow> look (fold (\<lambda>c. rd_del R (KClient c) now) cs st) now =
     (\<lambda>k. case k of KClient c \<Rightarrow> if c \<in> set cs then None else look st now k | _ \<Rightarrow> look st now k)"
  by (induction cs arbitrary: st) (auto simp: redis_del fun_eq_iff split: redis_key.split)

lemma typed_reap_room [typed_intros]:
  "redis_laws R look \<Longrightarrow> typed_at look st now \<Longrightarrow> typed_at look (reap_room R now r st) now"
  by (auto simp: reap_room_def Let_def intro!: typed_intros)

lemma reap_room_look:
  assumes laws: "redis_laws R look" and ty: "typed_at look st now"
  shows "look (reap_room R now r st) now = rooms_reaped {r} (look st now)"
proof -
  let ?cs = "rd_smembers R st now (KClientsByRoom r)"
  let ?st3 = "rd_del R (KRoom r) now (rd_del R (KClientsByRoom r) now (fold (\<lambda>c. rd_del R (KClient c) now) ?cs st))"
  have ty3: "typed_at look ?st3 now" using laws ty by (auto intro!: typed_intros)
  have "look (reap_room R now r st) now = (look ?st3 now)(KRooms := without (look ?st3 now KRooms) {r})"
    by (simp add: reap_room_def redis_srem_without [OF laws _ ty3])
  also have "\<dots> = rooms_reaped {r} (look st now)"
    by (rule ext) (auto simp: redis_del [OF laws] del_clients_look [OF laws] redis_smembers(1) [OF laws] rooms_reaped_def
        split: redis_key.split)
  finally show ?thesis .
qed

lemma rooms_reaped_insert: "r \<notin> rs \<Longrightarrow> rooms_reaped rs (rooms_reaped {r} m) = rooms_reaped (insert r rs) m"
proof (rule ext)
  fix k assume r: "r \<notin> rs"
  then have "\<And>r'. r' \<in> rs \<Longrightarrow> r' \<noteq> r" by blast
  then show "rooms_reaped rs (rooms_reaped {r} m) k = rooms_reaped (insert r rs) m k"
    by (cases k) (auto simp: rooms_reaped_def without_without)
qed

lemma reap_rooms_look:
  assumes laws: "redis_laws R look"
  shows "typed_at look st now \<Longrightarrow> distinct rs \<Longrightarrow>
    look (fold (reap_room R now) rs st) now = rooms_reaped (set rs) (look st now)"
proof (induction rs arbitrary: st)
  case Nil
  then have "without (look st now KRooms) {} = look st now KRooms"
    using set_entry_same [of KRooms] by (simp add: without_def)
  then show ?case by (auto simp: fun_eq_iff rooms_reaped_def split: redis_key.split)
next
  case (Cons r rs)
  have "typed_at look (reap_room R now r st) now" using laws Cons.prems(1) by (rule typed_reap_room)
  from Cons.IH [OF this] Cons.prems show ?case
    by (simp add: reap_room_look [OF laws] rooms_reaped_insert)
qed

lemma reap_all_look:
  assumes laws: "redis_laws R look" and ty: "typed_at look st now"
  shows "look (snd (reap_all R now v st)) now = server_reaped v (look st now)"
proof -
  let ?rs = "rd_smembers R st now (KRoomsByServer v)"
  let ?st3 = "rd_del R (KServer v) now (rd_del R (KRoomsByServer v) now (fold (reap_room R now) ?rs st))"
  have ty3: "typed_at look ?st3 now" using laws ty by (auto intro!: typed_intros)
  have rooms: "look (fold (reap_room R now) ?rs st) now = rooms_reaped (set_in (look st now (KRoomsByServer v))) (look st now)"
    using reap_rooms_look [OF laws ty redis_smembers(2) [OF laws]] by (simp add: redis_smembers(1) [OF laws])
  have "look (snd (reap_all R now v st)) now = (look ?st3 now)(KServers := without (look ?st3 now KServers) {v})"
    by (simp add: reap_all_def redis_srem_without [OF laws _ ty3])
  also have "\<dots> = server_reaped v (look st now)"
    by (rule ext) (simp add: redis_del [OF laws] rooms server_reaped_def rooms_reaped_def)
  finally show ?thesis .
qed

text \<open>The heartbeat the record of a server shows.\<close>

definition heartbeat_at :: "entries \<Rightarrow> string \<Rightarrow> ms option" where
  "heartbeat_at m v = (case jm_get (hash_in (m (KServer v))) ''lastHeartbeat'' of Some (FNum t) \<Rightarrow> Some t | _ \<Rightarrow> None)"

lemma reap_cases:
  assumes "redis_laws R look"
  shows "redis_reapServer R now staleMs v st =
    (case heartbeat_at (look st now) v of
       Some t \<Rightarrow> if now - staleMs \<le> t then (False, st) else reap_all R now v st
     | None \<Rightarrow> reap_all R now v st)"
  by (simp add: redis_reapServer_def reap_server_script_def heartbeat_at_def redis_hgetall [OF assms]
      split: option.split field_value.split)

text \<open>
  C15: Reaping refines its abstract effect. A server whose record shows a heartbeat no older than
  the staleness threshold is left alone, and the call says so; any other server loses exactly its
  record and its place in the set of servers, its rooms with their places in the set of rooms, and
  those rooms' clients. Every other entry of the store is untouched, times to live included.
\<close>

theorem redis_reap_refines:
  assumes "redis_laws R look" and "typed_at look st now"
  shows "case redis_reapServer R now staleMs v st of (reaped, st') \<Rightarrow>
     (reaped \<longleftrightarrow> (case heartbeat_at (look st now) v of Some t \<Rightarrow> t < now - staleMs | None \<Rightarrow> True)) \<and>
     look st' now = (if reaped then server_reaped v (look st now) else look st now)"
  using reap_all_look [OF assms, of v] unfolding reap_cases [OF assms(1)]
  by (auto simp: reap_all_def Let_def split: option.split)

definition demo_store :: plain_store where
  "demo_store =
     [(KServers, PSet [''v'', ''w''], None), (KServer ''v'', PHash [(''lastHeartbeat'', FNum 10)], None),
      (KServer ''w'', PHash [(''lastHeartbeat'', FNum 90)], None), (KRooms, PSet [''r'', ''q''], None),
      (KRoomsByServer ''v'', PSet [''r''], None), (KRoom ''r'', PHash [(''roomId'', FStr ''r'')], Some 400),
      (KRoom ''q'', PHash [(''roomId'', FStr ''q'')], Some 500), (KClientsByRoom ''r'', PSet [''c''], None),
      (KClient ''c'', PHash [(''clientId'', FStr ''c'')], None)]"

lemma demo_store_typed: "typed_at plain_look demo_store 100"
  by (rule plain_typed) (simp add: demo_store_def)

lemma redis_reap_refines_witness:
  "\<not> fst (redis_reapServer plain_redis 100 50 ''w'' demo_store) \<and>
   plain_look (snd (redis_reapServer plain_redis 100 50 ''v'' demo_store)) 100 (KClient ''c'') = None"
proof -
  let ?m = "plain_look demo_store 100"
  have beats: "heartbeat_at ?m ''w'' = Some 90" "heartbeat_at ?m ''v'' = Some 10" by code_simp+
  have client: "''c'' \<in> set_in (?m (KClientsByRoom ''r''))" "''r'' \<in> set_in (?m (KRoomsByServer ''v''))" by code_simp+
  show ?thesis
    using redis_reap_refines [OF plain_redis_laws demo_store_typed, of 50 "''w''"]
      redis_reap_refines [OF plain_redis_laws demo_store_typed, of 50 "''v''"] client
    unfolding case_prod_unfold beats by (auto simp: server_reaped_def rooms_reaped_def)
qed

end
