(* ===== verification/Redis_Recovery.thy ===== *)
theory Redis_Recovery
  imports Redis_Reap Reap_Recovery
begin

text \<open>
  The redis driver keeps the contract of \<open>Reap_Recovery\<close>, on every Redis server that keeps its
  documentation: a server whose record was reaped restores its rooms. On the way, the life of a
  requested room: it is read back until its time is over, and a ready report makes it permanent.
\<close>

section \<open>Registering a room and reporting it ready\<close>

definition requested_hash :: "string \<Rightarrow> string \<Rightarrow> string \<Rightarrow> room_data \<Rightarrow> tags \<Rightarrow> ms \<Rightarrow> hash" where
  "requested_hash r ty v data tags date =
     [(''roomId'', FStr r), (''roomType'', FStr ty), (''serverId'', FStr v), (''status'', FStr ''requested''),
      (''data'', FData data), (''tags'', FTags tags), (''createdAt'', FNum date)]"

definition ready_hash :: "string \<Rightarrow> string \<Rightarrow> hash" where
  "ready_hash ep sec = [(''status'', FStr ''running''), (''endpoint'', FStr ep), (''roomSecret'', FStr sec)]"

definition server_known :: "('r \<Rightarrow> ms \<Rightarrow> redis_key \<Rightarrow> redis_entry option) \<Rightarrow> 'r \<Rightarrow> ms \<Rightarrow> string \<Rightarrow> bool" where
  "server_known look st now v \<longleftrightarrow> typed_at look st now \<and> jm_get (hash_in (look st now (KServer v))) ''endpoint'' \<noteq> None"

definition with_member :: "redis_entry option \<Rightarrow> string \<Rightarrow> redis_entry option" where
  "with_member e x = set_entry e (insert x (set_in e))"

text \<open>What a registration leaves of the store.\<close>

definition room_requested :: "string \<Rightarrow> string \<Rightarrow> hash \<Rightarrow> ms \<Rightarrow> entries \<Rightarrow> entries" where
  "room_requested r v h expires m =
     m(KRoom r := Some \<lparr>re_value = HashV (jm_merge (hash_in (m (KRoom r))) h), re_expires = Some expires\<rparr>,
       KRooms := with_member (m KRooms) r, KRoomsByServer v := with_member (m (KRoomsByServer v)) r)"

lemma register_room_look:
  assumes laws: "redis_laws R look" and known: "server_known look st now v"
    and tags: "validateTags tags = Inr u" and ttl: "validateRequestedRoomTtl ttlMs = Inr u'"
  shows "fst (redis_registerRoom R date now r ty v data tags ttlMs st) = Inr ()"
    and "look (snd (redis_registerRoom R date now r ty v data tags ttlMs st)) now =
      room_requested r v (requested_hash r ty v data tags date) (now + ttl_ms ttlMs) (look st now)"
proof -
  have ty: "typed_at look st now" and ep: "jm_get (hash_in (look st now (KServer v))) ''endpoint'' \<noteq> None"
    using known by (simp_all add: server_known_def)
  let ?h = "requested_hash r ty v data tags date"
  let ?st1 = "rd_hset R (KRoom r) ?h now st"
  let ?st2 = "rd_pexpire R (KRoom r) (ttl_ms ttlMs) now ?st1"
  let ?st3 = "rd_sadd R KRooms r now ?st2"
  let ?st4 = "rd_sadd R (KRoomsByServer v) r now ?st3"
  let ?a = "\<lparr>dr_roomId = r, dr_roomType = ty, dr_data = data, dr_status = Requested\<rparr>"
  have ne: "?h \<noteq> []" by (simp add: requested_hash_def)
  have ty1: "typed_at look ?st1 now" using typed_hset [OF laws _ ne ty] by simp
  then have ty2: "typed_at look ?st2 now" by (rule typed_expire(1) [OF laws])
  then have ty3: "typed_at look ?st3 now" using typed_sadd [OF laws] by simp
  have pos: "0 < ttl_ms ttlMs" using ttl by (rule ttl_ms_positive)
  have look4: "look ?st4 now = room_requested r v ?h (now + ttl_ms ttlMs) (look st now)"
    by (rule ext) (simp add: redis_sadd [OF laws _ ty3] redis_sadd [OF laws _ ty2] redis_pexpire [OF laws]
      redis_hset [OF laws _ ne ty] pos expire_entry_def hash_entry_def room_requested_def with_member_def)
  have reg: "redis_registerRoom R date now r ty v data tags ttlMs st =
      (Inr (), snd (rd_publish R (ChannelRoomAssigned v) (MsgAssignment ?a) now ?st4))"
    using ep tags ttl
    by (simp add: redis_registerRoom_def register_room_script_def redis_hgetall [OF laws] room_status_text_def
        requested_hash_def REGISTER_ROOM_SERVER_MISSING_def Let_def case_prod_unfold)
  show "fst (redis_registerRoom R date now r ty v data tags ttlMs st) = Inr ()"
    and "look (snd (redis_registerRoom R date now r ty v data tags ttlMs st)) now =
      room_requested r v ?h (now + ttl_ms ttlMs) (look st now)"
    by (simp_all add: reg redis_publish [OF laws] look4)
qed

definition room_running :: "string \<Rightarrow> string \<Rightarrow> string \<Rightarrow> entries \<Rightarrow> entries" where
  "room_running r ep sec m =
     m(KRoom r := Some \<lparr>re_value = HashV (jm_merge (hash_in (m (KRoom r))) (ready_hash ep sec)), re_expires = None\<rparr>)"

lemma hash_in_empty: "typed_at look st now \<Longrightarrow> hash_key k \<Longrightarrow> hash_in (look st now k) = [] \<longleftrightarrow> look st now k = None"
proof (cases "look st now k")
  case (Some e)
  assume "typed_at look st now" "hash_key k"
  then have "value_ok k (re_value e)" "hash_key k" using Some by (simp_all add: typed_at_def)
  then show ?thesis using value_ok_hash [of k] by (auto simp: Some hash_in_def)
qed (simp add: hash_in_def)

lemma room_ready_look:
  assumes laws: "redis_laws R look" and ty: "typed_at look st now"
  shows "fst (redis_roomReady R now r ep sec st) \<longleftrightarrow> look st now (KRoom r) \<noteq> None"
    and "look (snd (redis_roomReady R now r ep sec st)) now =
      (if look st now (KRoom r) = None then look st now else room_running r ep sec (look st now))"
proof -
  have ne: "ready_hash ep sec \<noteq> []" by (simp add: ready_hash_def)
  have hset: "look (rd_hset R (KRoom r) (ready_hash ep sec) now st) now =
      (look st now)(KRoom r := hash_entry (look st now (KRoom r)) (ready_hash ep sec))"
    by (rule redis_hset [OF laws _ ne ty]) simp
  have empty: "rd_hgetall R st now (KRoom r) = [] \<longleftrightarrow> look st now (KRoom r) = None"
    by (simp add: redis_hgetall [OF laws] hash_in_empty [OF ty])
  show "fst (redis_roomReady R now r ep sec st) \<longleftrightarrow> look st now (KRoom r) \<noteq> None"
    by (simp add: redis_roomReady_def empty Let_def)
  show "look (snd (redis_roomReady R now r ep sec st)) now =
      (if look st now (KRoom r) = None then look st now else room_running r ep sec (look st now))"
  proof (cases "look st now (KRoom r) = None")
    case False
    have "snd (redis_roomReady R now r ep sec st) = snd (rd_publish R (ChannelRoomReady r) (MsgRoomId r) now
        (rd_persist R (KRoom r) now (rd_hset R (KRoom r) (ready_hash ep sec) now st)))"
      using False by (auto simp: redis_roomReady_def empty Let_def room_status_text_def ready_hash_def)
    then show ?thesis
      using False by (auto simp: redis_publish [OF laws] redis_persist [OF laws] hset room_running_def hash_entry_def expire_entry_def)
  qed (simp add: redis_roomReady_def empty)
qed

text \<open>What a reader sees of a room: its record, except for the clients.\<close>

definition seen_room :: "room_info option \<Rightarrow> (string \<times> string \<times> string \<times> room_status \<times> string option \<times> room_data \<times> tags \<times> ms) option" where
  "seen_room i = map_option (\<lambda>x. (ri_roomId x, ri_roomType x, ri_serverId x, ri_status x, ri_endpoint x, ri_data x,
     ri_tags x, ri_createdAt x)) i"

lemma seen_getRoomInfo:
  assumes "redis_laws R look"
  shows "seen_room (fst (redis_getRoomInfo R now r st)) =
     (let h = hash_in (look st now (KRoom r)); ep = text_field h ''endpoint'' in
      if text_field h ''roomId'' = [] then None
      else Some (text_field h ''roomId'', text_field h ''roomType'', text_field h ''serverId'', status_field h,
                 if ep = [] then None else Some ep, data_field h, tags_field h, num_field h ''createdAt''))"
  by (simp add: redis_getRoomInfo_def hashToRoomInfo_def Let_def case_prod_unfold seen_room_def redis_hgetall [OF assms])

lemmas field_defs = text_field_def num_field_def tags_field_def data_field_def status_field_def list_field_def

lemma requested_fields:
  "text_field (jm_merge h0 (requested_hash r ty v data tags date)) ''roomId'' = r"
  "text_field (jm_merge h0 (requested_hash r ty v data tags date)) ''roomType'' = ty"
  "text_field (jm_merge h0 (requested_hash r ty v data tags date)) ''serverId'' = v"
  "text_field (jm_merge h0 (requested_hash r ty v data tags date)) ''endpoint'' = text_field h0 ''endpoint''"
  "status_field (jm_merge h0 (requested_hash r ty v data tags date)) = Requested"
  "data_field (jm_merge h0 (requested_hash r ty v data tags date)) = data"
  "tags_field (jm_merge h0 (requested_hash r ty v data tags date)) = tags"
  "num_field (jm_merge h0 (requested_hash r ty v data tags date)) ''createdAt'' = date"
  by (simp_all add: field_defs requested_hash_def jm_get_merge jm_get_Cons)

lemma ready_fields:
  "f \<notin> {''status'', ''endpoint'', ''roomSecret''} \<Longrightarrow> text_field (jm_merge h (ready_hash ep sec)) f = text_field h f"
  "text_field (jm_merge h (ready_hash ep sec)) ''endpoint'' = ep"
  "text_field (jm_merge h (ready_hash ep sec)) ''roomSecret'' = sec"
  "text_field (jm_merge h (ready_hash ep sec)) ''status'' = ''running''"
  "status_field (jm_merge h (ready_hash ep sec)) = Running"
  "data_field (jm_merge h (ready_hash ep sec)) = data_field h"
  "tags_field (jm_merge h (ready_hash ep sec)) = tags_field h"
  "num_field (jm_merge h (ready_hash ep sec)) ''createdAt'' = num_field h ''createdAt''"
  by (simp_all add: field_defs ready_hash_def jm_get_merge jm_get_Cons)

text \<open>
  C18: The life of a requested room. Registering a fresh room id for a known server succeeds; until
  its time is over the room is read back as it was requested, and a ready report is applied and
  makes it run for good, with everything else of the request kept. After that time the room is
  gone, and a late ready report is refused and changes nothing.
\<close>

theorem requested_room_life:
  assumes laws: "redis_laws R look" and known: "server_known look st now v" and fresh: "look st now (KRoom r) = None"
    and r: "r \<noteq> []" and tags: "validateTags tags = Inr u" and ttl: "validateRequestedRoomTtl ttlMs = Inr u'" and t: "now \<le> t"
  shows "case redis_registerRoom R date now r ty v data tags ttlMs st of (result, st1) \<Rightarrow> result = Inr () \<and>
     (if t \<le> now + ttl_ms ttlMs
      then seen_room (fst (redis_getRoomInfo R t r st1)) = Some (r, ty, v, Requested, None, data, tags, date) \<and>
        (case redis_roomReady R t r ep sec st1 of (applied, st2) \<Rightarrow> applied \<and>
           (\<forall>t' \<ge> t. seen_room (fst (redis_getRoomInfo R t' r st2)) =
              Some (r, ty, v, Running, if ep = [] then None else Some ep, data, tags, date)))
      else fst (redis_getRoomInfo R t r st1) = None \<and> redis_roomReady R t r ep sec st1 = (False, st1))"
proof -
  define st1 where "st1 = snd (redis_registerRoom R date now r ty v data tags ttlMs st)"
  define h where "h = requested_hash r ty v data tags date"
  note reg = register_room_look [OF laws known tags ttl, of date r ty data]
  have ty1: "typed_at look st1 t"
    using typed_later [OF laws t] typed_registerRoom [OF laws] known by (simp add: st1_def server_known_def)
  have entry: "look st1 t (KRoom r) = (if t \<le> now + ttl_ms ttlMs
      then Some \<lparr>re_value = HashV (jm_merge [] h), re_expires = Some (now + ttl_ms ttlMs)\<rparr> else None)"
    by (simp add: redis_aging [OF laws t] st1_def reg(2) room_requested_def fresh hash_in_def timed_def h_def [symmetric])
  have result: "redis_registerRoom R date now r ty v data tags ttlMs st = (Inr (), st1)"
    using reg(1) by (simp add: st1_def prod_eq_iff)
  note ready = room_ready_look [OF laws ty1, of r ep sec]
  let ?st2 = "snd (redis_roomReady R t r ep sec st1)"
  have running: "look ?st2 t' (KRoom r) = Some \<lparr>re_value = HashV (jm_merge (jm_merge [] h) (ready_hash ep sec)), re_expires = None\<rparr>"
    if "t \<le> now + ttl_ms ttlMs" "t \<le> t'" for t'
    by (simp add: redis_aging [OF laws that(2)] ready(2) entry that(1) room_running_def hash_in_def timed_def)
  show ?thesis
  proof (cases "t \<le> now + ttl_ms ttlMs")
    case True
    have "fst (redis_roomReady R t r ep sec st1)" by (simp add: ready(1) entry True)
    moreover have "seen_room (fst (redis_getRoomInfo R t r st1)) = Some (r, ty, v, Requested, None, data, tags, date)"
      using r by (simp add: seen_getRoomInfo [OF laws] entry True hash_in_def h_def requested_fields) (simp add: text_field_def)
    moreover have "seen_room (fst (redis_getRoomInfo R t' r ?st2)) =
        Some (r, ty, v, Running, if ep = [] then None else Some ep, data, tags, date)" if "t \<le> t'" for t'
      using r by (simp add: seen_getRoomInfo [OF laws] running [OF True that] hash_in_def h_def requested_fields ready_fields)
    ultimately show ?thesis by (simp add: result True case_prod_unfold)
  next
    case False
    have "seen_room (fst (redis_getRoomInfo R t r st1)) = None"
      using False by (simp add: seen_getRoomInfo [OF laws] entry hash_in_def text_field_def)
    moreover have "redis_roomReady R t r ep sec st1 = (False, st1)"
      using False hash_in_empty [OF ty1, of "KRoom r"] by (simp add: redis_roomReady_def redis_hgetall [OF laws] entry)
    ultimately show ?thesis by (simp add: result False seen_room_def)
  qed
qed

lemma requested_room_life_witness:
  "\<not> fst (redis_roomReady plain_redis 1100 ''r'' ''ws://h'' ''s''
      (snd (redis_registerRoom plain_redis 0 100 ''r'' ''game'' ''v'' [] [] (Fin 999) [(KServer ''v'', PHash [(''endpoint'', FStr ''e'')], None)])))"
proof -
  let ?st = "[(KServer ''v'', PHash [(''endpoint'', FStr ''e'')], None)]"
  have known: "server_known plain_look ?st 100 ''v''"
    by (simp add: server_known_def plain_typed plain_look_def plain_live_def hash_in_def jm_get_Cons)
  have fresh: "plain_look ?st 100 (KRoom ''r'') = None" by (simp add: plain_look_def plain_live_def jm_get_Cons)
  have tags: "validateTags [] = Inr ()" by code_simp
  have ttl: "validateRequestedRoomTtl (Fin 999) = Inr ()"
    unfolding validateRequestedRoomTtl_ok by (rule exI [of _ 999]) (simp add: MAX_SAFE_INTEGER_def)
  obtain result st1 where reg: "redis_registerRoom plain_redis 0 100 ''r'' ''game'' ''v'' [] [] (Fin 999) ?st = (result, st1)"
    by (rule prod.exhaust)
  have r: "''r'' \<noteq> []" and t: "(100::ms) \<le> 1100" and late: "\<not> (1100::ms) \<le> 100 + ttl_ms (Fin 999)" by simp_all
  note life = requested_room_life [OF plain_redis_laws, OF known fresh r tags ttl t, where date = 0 and ty = "''game''"
      and data = "[]" and ep = "''ws://h''" and sec = "''s''", unfolded reg prod.case if_not_P [OF late]]
  have "redis_roomReady plain_redis 1100 ''r'' ''ws://h'' ''s'' st1 = (False, st1)"
    by (rule conjunct2 [OF conjunct2 [OF life]])
  then show ?thesis by (simp add: reg)
qed

section \<open>A new heartbeat\<close>

text \<open>
  The driver as the server meets it: no tags for a re-asserted room, and \<open>schemaVersionEnsured\<close>
  set, since the server has had a heartbeat before. One clock serves the host and the server.
\<close>

definition redis_register ::
    "'r redis_service \<Rightarrow> 'r \<Rightarrow> ms \<Rightarrow> string \<Rightarrow> string \<Rightarrow> string \<Rightarrow> room_data \<Rightarrow> ms \<Rightarrow> bool \<times> 'r" where
  "redis_register R d now r ty v data ttl =
     (case redis_registerRoom R now now r ty v data [] (Fin (of_int ttl)) d of (x, d1) \<Rightarrow> (x = Inr (), d1))"

definition redis_ready :: "'r redis_service \<Rightarrow> 'r \<Rightarrow> ms \<Rightarrow> string \<Rightarrow> string \<Rightarrow> string \<Rightarrow> bool \<times> 'r" where
  "redis_ready R d now r ep sec = redis_roomReady R now r ep sec d"

definition redis_beat :: "'r redis_service \<Rightarrow> 'r \<Rightarrow> ms \<Rightarrow> heartbeat_options \<Rightarrow> heartbeat_result option \<times> 'r" where
  "redis_beat R d now opts =
     (case redis_heartbeat R now opts True d of (Inr r, _, d1) \<Rightarrow> (Some r, d1) | (Inl _, _, d1) \<Rightarrow> (None, d1))"

definition server_forgotten :: "('r \<Rightarrow> ms \<Rightarrow> redis_key \<Rightarrow> redis_entry option) \<Rightarrow> 'r \<Rightarrow> ms \<Rightarrow> string \<Rightarrow> bool" where
  "server_forgotten look st now v \<longleftrightarrow>
     typed_at look st now \<and> look st now (KServer v) = None \<and> look st now (KRoomsByServer v) = None"

text \<open>A room that runs for good: its server, endpoint and secret.\<close>

definition redis_running :: "('r \<Rightarrow> ms \<Rightarrow> redis_key \<Rightarrow> redis_entry option) \<Rightarrow> 'r \<Rightarrow> ms \<Rightarrow> string \<Rightarrow> (string \<times> string \<times> string) option" where
  "redis_running look st now r =
     (let h = hash_in (look st now (KRoom r)) in
      if text_field h ''status'' = ''running'' \<and> expiry_in (look st now (KRoom r)) = None
      then Some (text_field h ''serverId'', text_field h ''endpoint'', text_field h ''roomSecret'') else None)"

lemma reaped_forgotten:
  assumes laws: "redis_laws R look" and ty: "typed_at look st t0"
    and reaped: "redis_reapServer R t0 staleMs v st = (True, st')" and t: "t0 \<le> now"
  shows "server_forgotten look st' now v"
proof -
  have all: "(True, st') = reap_all R t0 v st"
    using reaped unfolding reap_cases [OF laws] by (auto split: option.splits if_splits)
  then have "look st' t0 = server_reaped v (look st t0)" using reap_all_look [OF laws ty, of v] by (metis snd_conv)
  moreover have "typed_at look st' t0" using typed_reap [OF laws ty, of staleMs v] reaped by simp
  ultimately show ?thesis
    using typed_later [OF laws t] by (simp add: server_forgotten_def redis_aging [OF laws t] server_reaped_def)
qed

text \<open>Unregistering another server leaves a server without rooms as it is.\<close>

definition keeps_server :: "string \<Rightarrow> entries \<Rightarrow> entries \<Rightarrow> bool" where
  "keeps_server v m m' \<longleftrightarrow>
     m' (KServer v) = m (KServer v) \<and> (m (KRoomsByServer v) = None \<longrightarrow> m' (KRoomsByServer v) = None)"

lemma keeps_refl [simp]: "keeps_server v m m"
  by (simp add: keeps_server_def)

lemma keeps_trans [trans]: "keeps_server v m m' \<Longrightarrow> keeps_server v m' m'' \<Longrightarrow> keeps_server v m m''"
  by (simp add: keeps_server_def)

lemma without_None [simp]: "without None xs = None"
  by (simp add: without_def set_in_def set_entry_def)

lemma keeps_del: "redis_laws R look \<Longrightarrow> k \<noteq> KServer v \<Longrightarrow> keeps_server v (look st now) (look (rd_del R k now st) now)"
  by (simp add: keeps_server_def redis_del)

lemma keeps_srem:
  "redis_laws R look \<Longrightarrow> set_key k \<Longrightarrow> typed_at look st now \<Longrightarrow> keeps_server v (look st now) (look (rd_srem R k xs now st) now)"
  by (auto simp: keeps_server_def redis_srem_without set_key_def)

lemma keeps_del_clients: "redis_laws R look \<Longrightarrow> keeps_server v (look st now) (look (fold (\<lambda>c. rd_del R (KClient c) now) cs st) now)"
  by (simp add: keeps_server_def del_clients_look)

lemma keeps_unregisterRoom:
  assumes laws: "redis_laws R look" and ty: "typed_at look st now"
  shows "keeps_server v (look st now) (look (redis_unregisterRoom R now r st) now)"
proof -
  let ?s = "text_field (rd_hgetall R st now (KRoom r)) ''serverId''"
  let ?st1 = "if ?s \<noteq> [] then rd_srem R (KRoomsByServer ?s) [r] now st else st"
  let ?st2 = "fold (\<lambda>c. rd_del R (KClient c) now) (rd_smembers R ?st1 now (KClientsByRoom r)) ?st1"
  let ?st4 = "rd_del R (KRoom r) now (rd_del R (KClientsByRoom r) now ?st2)"
  have ty1: "typed_at look ?st1 now" using typed_srem [OF laws _ ty] ty by simp
  then have ty4: "typed_at look ?st4 now"
    by (intro typed_del [OF laws] typed_fold [of "rd_smembers R ?st1 now (KClientsByRoom r)"])
  have "keeps_server v (look st now) (look ?st1 now)" using keeps_srem [OF laws _ ty] by simp
  also have "keeps_server v (look ?st1 now) (look ?st2 now)" by (rule keeps_del_clients [OF laws])
  also have "keeps_server v (look ?st2 now) (look (rd_del R (KClientsByRoom r) now ?st2) now)"
    by (rule keeps_del [OF laws]) simp
  also have "keeps_server v \<dots> (look ?st4 now)" by (rule keeps_del [OF laws]) simp
  also have "keeps_server v \<dots> (look (rd_srem R KRooms [r] now ?st4) now)"
    using keeps_srem [OF laws _ ty4] by simp
  finally show ?thesis by (simp add: redis_unregisterRoom_def Let_def)
qed

lemma keeps_fold:
  assumes "\<And>x s. typed_at look s now \<Longrightarrow> typed_at look (f x s) now \<and> keeps_server v (look s now) (look (f x s) now)"
  shows "typed_at look st now \<Longrightarrow> keeps_server v (look st now) (look (fold f xs st) now)"
proof (induction xs arbitrary: st)
  case (Cons x xs)
  from keeps_trans [OF _ Cons.IH [of "f x st"]] assms [OF Cons.prems, of x] show ?case by simp
qed simp

lemma keeps_unregisterServer:
  assumes laws: "redis_laws R look" and ty: "typed_at look st now" and other: "i \<noteq> v"
  shows "keeps_server v (look st now) (look (redis_unregisterServer R now i st) now)"
proof -
  let ?st1 = "fold (redis_unregisterRoom R now) (rd_smembers R st now (KRoomsByServer i)) st"
  let ?st3 = "rd_del R (KServer i) now (rd_del R (KRoomsByServer i) now ?st1)"
  have ty3: "typed_at look ?st3 now" using laws ty by (auto intro!: typed_intros)
  have "keeps_server v (look st now) (look ?st1 now)"
    by (rule keeps_fold [OF _ ty]) (use laws in \<open>auto intro!: typed_intros keeps_unregisterRoom\<close>)
  also have "keeps_server v (look ?st1 now) (look (rd_del R (KRoomsByServer i) now ?st1) now)"
    by (rule keeps_del [OF laws]) simp
  also have "keeps_server v \<dots> (look ?st3 now)" by (rule keeps_del [OF laws]) (use other in simp)
  also have "keeps_server v \<dots> (look (rd_srem R KServers [i] now ?st3) now)"
    using keeps_srem [OF laws _ ty3] by simp
  finally show ?thesis by (simp add: redis_unregisterServer_def Let_def)
qed

lemma keeps_evict:
  assumes laws: "redis_laws R look" and ty: "typed_at look st now"
  shows "keeps_server (ho_serverId opts) (look st now) (look (evict_endpoint R now opts st) now)"
  unfolding evict_endpoint_def
  by (rule keeps_fold [OF _ ty]) (use laws in \<open>auto intro!: typed_intros keeps_unregisterServer\<close>)

lemma hash_in_hash_entry [simp]: "hash_in (hash_entry e fs) = jm_merge (hash_in e) fs"
  by (simp add: hash_entry_def hash_in_def)

text \<open>The heartbeat transaction of a forgotten server writes its record whole.\<close>

lemma tx_of_forgotten:
  assumes laws: "redis_laws R look" and forgot: "server_forgotten look st now (ho_serverId opts)"
  shows "\<exists>st4. heartbeat_tx R now opts t st = (True, ho_tags opts, st4) \<and> server_known look st4 now (ho_serverId opts) \<and>
     look st4 now (KRoomsByServer (ho_serverId opts)) = None"
proof -
  let ?v = "ho_serverId opts" and ?k = "KServer (ho_serverId opts)"
  have ty: "typed_at look st now" and none: "look st now ?k = None" "look st now (KRoomsByServer ?v) = None"
    using forgot by (simp_all add: server_forgotten_def)
  define st1 where "st1 = rd_hset R ?k [(''serverId'', FStr ?v)] now st"
  define st2 where "st2 = rd_hset R ?k [(''tags'', FTags (ho_tags opts))] now st1"
  define st3 where "st3 = rd_hset R ?k [(''endpoint'', FStr (ho_endpoint opts)), (''roomTypes'', FList (ho_roomTypes opts)),
      (''lastHeartbeat'', FNum t)] now st2"
  define st4 where "st4 = rd_sadd R KServers ?v now st3"
  have ty1: "typed_at look st1 now" unfolding st1_def using typed_hset [OF laws _ _ ty] by simp
  then have ty2: "typed_at look st2 now" unfolding st2_def using typed_hset [OF laws] by simp
  then have ty3: "typed_at look st3 now" unfolding st3_def using typed_hset [OF laws] by simp
  then have ty4: "typed_at look st4 now" unfolding st4_def using typed_sadd [OF laws] by simp
  have look1: "look st1 now = (look st now)(?k := hash_entry (look st now ?k) [(''serverId'', FStr ?v)])"
    unfolding st1_def by (rule redis_hset [OF laws _ _ ty]) simp_all
  have look2: "look st2 now = (look st1 now)(?k := hash_entry (look st1 now ?k) [(''tags'', FTags (ho_tags opts))])"
    unfolding st2_def by (rule redis_hset [OF laws _ _ ty1]) simp_all
  have look3: "look st3 now = (look st2 now)(?k := hash_entry (look st2 now ?k)
      [(''endpoint'', FStr (ho_endpoint opts)), (''roomTypes'', FList (ho_roomTypes opts)), (''lastHeartbeat'', FNum t)])"
    unfolding st3_def by (rule redis_hset [OF laws _ _ ty2]) simp_all
  have look4: "look st4 now = (look st3 now)(KServers := with_member (look st3 now KServers) ?v)"
    unfolding st4_def with_member_def by (rule redis_sadd [OF laws _ ty3]) simp
  have h: "hash_in (look st1 now ?k) = jm_merge [] [(''serverId'', FStr ?v)]"
    "hash_in (look st4 now ?k) = jm_merge (jm_merge (jm_merge [] [(''serverId'', FStr ?v)]) [(''tags'', FTags (ho_tags opts))])
      [(''endpoint'', FStr (ho_endpoint opts)), (''roomTypes'', FList (ho_roomTypes opts)), (''lastHeartbeat'', FNum t)]"
    by (simp_all add: look4 look3 look2 look1 none) (simp_all add: hash_in_def)
  have "heartbeat_tx R now opts t st = (True, tags_field (hash_in (look st4 now ?k)), st4)"
    using h(1) none
    by (simp add: heartbeat_tx_def hsetnx_def redis_hgetall [OF laws] hash_in_def [of None] Let_def st1_def [symmetric]
        jm_get_merge jm_get_Cons st2_def [symmetric] st3_def [symmetric] st4_def [symmetric])
  moreover have "tags_field (hash_in (look st4 now ?k)) = ho_tags opts"
    by (simp add: h(2) tags_field_def jm_get_merge jm_get_Cons)
  moreover have "server_known look st4 now ?v" by (simp add: server_known_def ty4 h(2) jm_get_merge jm_get_Cons)
  moreover have "look st4 now (KRoomsByServer ?v) = None" by (simp add: look4 look3 look2 look1 none)
  ultimately show ?thesis by metis
qed

lemma beat_of_forgotten:
  assumes laws: "redis_laws R look" and forgot: "server_forgotten look st now (ho_serverId opts)"
    and tags: "validateTags (ho_tags opts) = Inr ()"
  shows "\<exists>st'. redis_beat R st now opts = (Some \<lparr>hr_tags = ho_tags opts, hr_desiredRooms = [], hr_registered = True\<rparr>, st') \<and>
     server_known look st' now (ho_serverId opts)"
proof -
  let ?v = "ho_serverId opts"
  obtain st4 where tx: "heartbeat_tx R now opts now st = (True, ho_tags opts, st4)"
    and st4: "server_known look st4 now ?v" "look st4 now (KRoomsByServer ?v) = None"
    using tx_of_forgotten [OF laws forgot] by blast
  let ?st5 = "evict_endpoint R now opts st4"
  have ty4: "typed_at look st4 now" using st4(1) by (simp add: server_known_def)
  have keeps: "keeps_server ?v (look st4 now) (look ?st5 now)" by (rule keeps_evict [OF laws ty4])
  then have known: "server_known look ?st5 now ?v"
    using st4(1) typed_evict [OF laws ty4] by (simp add: server_known_def keeps_server_def)
  have "set (rd_smembers R ?st5 now (KRoomsByServer ?v)) = {}"
    using keeps st4(2) by (simp add: redis_smembers(1) [OF laws] keeps_server_def set_in_def)
  then have none: "rd_smembers R ?st5 now (KRoomsByServer ?v) = []" by simp
  have "redis_beat R st now opts = (Some \<lparr>hr_tags = ho_tags opts, hr_desiredRooms = [], hr_registered = True\<rparr>, ?st5)"
    using tags by (simp add: redis_beat_def redis_heartbeat_def tx none readRoomHashes_def read_hashes_def srem_stale_def Let_def)
  with known show ?thesis by blast
qed

section \<open>The contract\<close>

lemma readied_look:
  assumes laws: "redis_laws R look" and known: "server_known look d now v" and ttl: "valid_ttl ttl"
  shows "fst (redis_register R d now r ty v data ttl)"
    and "fst (redis_ready R (snd (redis_register R d now r ty v data ttl)) now r ep sec)"
    and "look (snd (redis_ready R (snd (redis_register R d now r ty v data ttl)) now r ep sec)) now =
      room_running r ep sec (room_requested r v (requested_hash r ty v data [] now) (now + ttl) (look d now))"
proof -
  have tags: "validateTags [] = Inr ()" by code_simp
  have valid: "validateRequestedRoomTtl (Fin (of_int ttl)) = Inr ()"
    using ttl by (auto simp: validateRequestedRoomTtl_ok valid_ttl_def)
  note reg = register_room_look [OF laws known tags valid, of now r ty data]
  have ty: "typed_at look (snd (redis_register R d now r ty v data ttl)) now"
    using typed_registerRoom [OF laws] known by (simp add: redis_register_def case_prod_unfold server_known_def)
  show "fst (redis_register R d now r ty v data ttl)" using reg(1) by (simp add: redis_register_def case_prod_unfold)
  have look: "look (snd (redis_register R d now r ty v data ttl)) now =
      room_requested r v (requested_hash r ty v data [] now) (now + ttl) (look d now)"
    using reg(2) by (simp add: redis_register_def case_prod_unfold)
  have some: "look (snd (redis_register R d now r ty v data ttl)) now (KRoom r) \<noteq> None"
    by (simp add: look room_requested_def)
  show "fst (redis_ready R (snd (redis_register R d now r ty v data ttl)) now r ep sec)"
    using room_ready_look(1) [OF laws ty] some by (simp add: redis_ready_def)
  show "look (snd (redis_ready R (snd (redis_register R d now r ty v data ttl)) now r ep sec)) now =
      room_running r ep sec (room_requested r v (requested_hash r ty v data [] now) (now + ttl) (look d now))"
    using room_ready_look(2) [OF laws ty, of r ep sec] some by (auto simp: redis_ready_def look)
qed

lemma redis_recovery:
  assumes laws: "redis_laws R look"
  shows "reap_recovery (redis_register R) (redis_ready R) (server_known look) (redis_running look) (redis_beat R)
    (server_forgotten look)"
proof unfold_locales
  fix d now v ttl r ty data ep sec r'
  assume known: "server_known look d now v" and ttl: "valid_ttl ttl"
  note look = readied_look [OF laws known ttl, of r ty data]
  let ?d2 = "snd (redis_ready R (snd (redis_register R d now r ty v data ttl)) now r ep sec)"
  show "fst (redis_register R d now r ty v data ttl)" by (rule look(1))
  show "fst (redis_ready R (snd (redis_register R d now r ty v data ttl)) now r ep sec)" by (rule look(2))
  show "redis_running look ?d2 now r' = (if r' = r then Some (v, ep, sec) else redis_running look d now r')"
    by (simp add: redis_running_def look(3) room_running_def room_requested_def)
      (simp add: hash_in_def expiry_in_def ready_fields requested_fields)
  have "typed_at look ?d2 now"
    using typed_registerRoom [OF laws] typed_roomReady [OF laws] known
    by (simp add: redis_register_def redis_ready_def case_prod_unfold server_known_def)
  then show "server_known look ?d2 now v"
    using known by (simp add: server_known_def look(3) room_running_def room_requested_def)
next
  fix d now and opts :: heartbeat_options
  assume "server_forgotten look d now (ho_serverId opts)" "validateTags (ho_tags opts) = Inr ()"
  then show "\<exists>d1. redis_beat R d now opts = (Some \<lparr>hr_tags = ho_tags opts, hr_desiredRooms = [], hr_registered = True\<rparr>, d1) \<and>
      server_known look d1 now (ho_serverId opts)"
    by (rule beat_of_forgotten [OF laws])
qed

text \<open>
  C13: A live server survives being reaped from Redis. If the leader reaped the record of a server
  that is alive, then with one tick of its heartbeat (its calls answered in order, nothing between)
  every room it had ready runs again for good under its own endpoint and secret, and the tick kills
  exactly the rooms that were not ready, unless they were spawned after the heartbeat was sent.
\<close>

theorem reaped_server_recovers_redis:
  assumes laws: "redis_laws R look" and typed: "typed_at look d0 t0"
    and reaped: "redis_reapServer R t0 staleMs (ss_serverId s) d0 = (True, d)" and t: "t0 \<le> now"
    and inv: "server_inv (now, s)" and prev: "ss_previouslyRegistered s"
    and tags: "validateTags (ss_serverTags s) = Inr ()"
    and beats: "\<forall>(r, b)\<in>set (ss_lastHeartbeats s). now - b \<le> stallTimeoutMs s"
    and ttl: "valid_ttl (startupTimeoutMs s)"
  shows "\<exists>n s' d'.
     (answer (redis_beat R) (redis_register R) (redis_ready R) e now (ss_next s) ^^ n) (heartbeatTick now ep s, d) = (s', d') \<and>
     (\<forall>r k p. jm_get (ss_processes s) r = Some k \<and> jm_get (ss_objects s) k = Some p \<and> restorable s k \<longrightarrow>
        redis_running look d' now r = Some (ss_serverId s, the (rp_endpoint p), rp_roomSecret p)) \<and>
     kills s' = kills s @ map snd (filter (\<lambda>(r, k). \<not> restorable s k \<and> \<not> spawnedAfter s r now \<and> can_kill s k)
                                          (ss_processes s))"
  by (rule reap_recovery.recovers [OF redis_recovery [OF laws] inv prev reaped_forgotten [OF laws typed reaped t] tags beats ttl])

lemma reaped_server_recovers_redis_witness:
  "\<exists>n s' d'.
     (answer (redis_beat plain_redis) (redis_register plain_redis) (redis_ready plain_redis) demo_env 20 (ss_next demo_alive) ^^ n)
       (heartbeatTick 20 ''http://a'' demo_alive, snd (redis_reapServer plain_redis 10 5 ''srv'' [])) = (s', d') \<and>
     redis_running plain_look d' 20 ''r1'' = Some (''srv'', ''ws://r1'', ''secret'') \<and> kills s' = []"
proof -
  have typed: "typed_at plain_look [] 10" by (rule plain_typed) simp
  have reaped: "redis_reapServer plain_redis 10 5 (ss_serverId demo_alive) [] = (True, snd (redis_reapServer plain_redis 10 5 ''srv'' []))"
    by code_simp
  have t: "(10::ms) \<le> 20" by simp
  show ?thesis
    using reaped_server_recovers_redis [OF plain_redis_laws typed reaped t demo_alive_inv demo_alive_ready(1-4),
        of demo_env "''http://a''"] demo_alive_room
    unfolding demo_alive_kept by (fastforce split: option.splits)
qed

end
