(* ===== verification/Spec2Isabelle.thy ===== *)
theory Spec2Isabelle
  imports Prelude Workerd_Adapter Workerd_Correct Workerd_Relay Workerd_Host Logger Subprocess End_To_End Create_Scenario Notify_Protocol Driver_Types Memory_Driver Memory_Driver_Correct Protocol Room_Engine Room_Engine_Correct Room_Properties Ws_Transport Client Client_Correct Server Server_Loops Server_Correct Server_Properties Server_Driver Punctuate Wait_For_Room Jwt Subscriber_Canary Notify_Channels Runner Room_Ipc Sdk Reap_Recovery Redis_Service Redis_Driver Redis_Subscriber Redis_Correct Redis_Reap Redis_Recovery
begin

text \<open>
  A verification library for gatho, a toolkit for multiplayer rooms over websockets. The model is
  translated from the TypeScript under \<open>src/src/\<close>; file names below are relative to it.

  \<^bold>\<open>The program.\<close> An application calls the sdk (\<open>sdk/index.ts\<close>), which works on a driver
  (\<open>driver/\<close>), the registry of servers, rooms and clients that all servers share. A game server
  (\<open>server/server.ts\<close>) registers itself with a heartbeat, is told which rooms it should run, starts
  each through a runner (\<open>server/runner/\<close>, \<open>server/subprocess.ts\<close>), hears from it over a notify
  channel (\<open>common/notify-protocol.ts\<close>) and reports to the driver. A room (\<open>room/start.ts\<close>) admits
  clients by a seat token (\<open>common/jwt.ts\<close>) that the driver signed with the secret the server gave the
  room, and talks to them through a transport (\<open>room/transport/ws.ts\<close>) in frames
  (\<open>common/protocol.ts\<close>). The client (\<open>client/index.ts\<close>) connects, buffers and reconnects.

  \<^bold>\<open>Modelling conventions.\<close> JavaScript runs one synchronous piece of code at a time. Every component
  is a record of the variables its closures share, and a function per piece of code between two
  awaits; timers, settled promises, user callbacks, sockets and calls of the application are events.
  A component as a whole is a step function over those events, and \<open>run\<close> (theory \<open>Prelude\<close>) folds it
  over any list of them, so that a statement about \<open>run\<close> is one about all interleavings. What a
  component does to the outside is appended to a log in order. Objects that outlive the map entry
  that held them (tracked clients, room processes, connection states) live in a heap and are referred
  to by address. A \<open>Map\<close>, a \<open>Set\<close> and a dictionary object are lists in insertion order. Throws and
  rejections are values of a sum or option type. Times are integers in milliseconds and the clock is
  an argument, so it may jump except where a property says otherwise.

  \<^bold>\<open>Theories.\<close>
  \<^item> \<open>Prelude\<close>: the JavaScript map with its lemmas (collections \<open>jm_simps\<close>, \<open>wf_intros\<close>), \<open>run\<close>, and
    the locales \<open>keyed_store\<close> and \<open>step_invariant\<close>; each machine with an invariant interprets the
    latter and takes its reachability theorem from it.
  \<^item> \<open>Logger\<close>: \<open>common/logger.ts\<close> (\<open>resolveLevel\<close>, \<open>buildLine\<close>, \<open>log\<close>, \<open>child\<close>).
  \<^item> \<open>Notify_Protocol\<close>: \<open>common/notify-protocol.ts\<close> (framing on 32-bit lengths, the streaming parser
    and the reader). \<open>Protocol\<close>: \<open>common/protocol.ts\<close>, \<open>common/close-code.ts\<close>, with UTF-8 and UTF-16
    written out. \<open>Jwt\<close>: \<open>common/jwt.ts\<close> (base64url, signing, verifying, the key cache).
  \<^item> \<open>Driver_Types\<close>: \<open>driver/types.ts\<close>, \<open>driver/errors.ts\<close> and the validators.
  \<^item> \<open>Memory_Driver\<close>, \<open>Memory_Driver_Correct\<close>: \<open>driver/memory.ts\<close>, its registry invariant
    \<open>driver_inv\<close> and the contracts of heartbeat, reservation, reap, prune and listing.
  \<^item> \<open>Redis_Service\<close>, \<open>Redis_Driver\<close>, \<open>Redis_Subscriber\<close>: \<open>driver/redis.ts\<close>, as the commands it sends
    to a Redis server; \<open>redis_laws\<close> states what the server documents of each command over the
    entries visible at a time, and the plain store of \<open>Redis_Service\<close> satisfies it. \<open>Redis_Correct\<close>
    holds typing of the keys and the leader lock, \<open>Redis_Reap\<close> the refinement of the reap script to its
    abstract effect, \<open>Redis_Recovery\<close> the life of a requested room and the registry contract.
  \<^item> \<open>Subscriber_Canary\<close>, \<open>Wait_For_Room\<close>: \<open>driver/subscriber-canary.ts\<close>, \<open>driver/wait-for-room.ts\<close>.
  \<^item> \<open>Sdk\<close>: \<open>sdk/index.ts\<close>; \<open>createRoom\<close> is a machine around the wait.
  \<^item> \<open>Room_Engine\<close>, \<open>Room_Engine_Correct\<close>, \<open>Room_Properties\<close>: \<open>room/start.ts\<close> and \<open>room/index.ts\<close>
    (create, start, upgrade, open, message, reconnect, close, handles, timers, broadcast, stop), the
    invariant \<open>room_inv\<close> of heap, session tokens, buffers and timers, and the properties.
  \<^item> \<open>Ws_Transport\<close>: \<open>room/transport/ws.ts\<close>, and a room running on it (record \<open>world\<close>).
  \<^item> \<open>Room_Ipc\<close>: \<open>room/ipc.ts\<close>, the room's end of a notify channel. \<open>Notify_Channels\<close>, \<open>Runner\<close>:
    \<open>server/runner/notify.ts\<close> and \<open>server/runner/runner.ts\<close>, the server's end, the token gate, the
    socket paths and the runner adapter. \<open>Subprocess\<close>: \<open>server/subprocess.ts\<close>, with the life of a child
    by its events alone (\<open>child_life\<close>) as the specification.
  \<^item> \<open>Client\<close>, \<open>Client_Correct\<close>: \<open>client/index.ts\<close>, one connection from \<open>connect\<close> to CLOSED. A
    close event says what the application's \<open>onDrop\<close> calls and whether it throws.
  \<^item> \<open>Punctuate\<close>: \<open>common/punctuate.ts\<close>, the loop under the server's heartbeat and leader loops.
  \<^item> \<open>Server\<close>, \<open>Server_Loops\<close>, \<open>Server_Correct\<close>, \<open>Server_Properties\<close>: \<open>server/server.ts\<close>; the first
    holds processes, notify messages and spawning, the second the heartbeat tick cut at its awaits,
    the leader loop, client reconciliation, start and stop; then the invariant \<open>server_inv\<close> with the
    spacing of spawns, and the properties.
  \<^item> \<open>Reap_Recovery\<close>: the recovery of a live server whose record was reaped, once for any driver. The
    locale \<open>room_registry\<close> states what the server relies on of a driver and \<open>reap_recovery\<close> extends
    it; \<open>Server_Driver\<close> interprets both on the memory driver, \<open>Redis_Recovery\<close> discharges their laws
    for the redis driver under \<open>redis_laws\<close>.
  \<^item> \<open>Create_Scenario\<close>: one \<open>createRoom\<close> from the call to the resolved promise, through sdk, driver,
    server and room report. \<open>End_To_End\<close>: a subprocess gets a managed room, and a seat the driver
    reserved is admitted by that room only.
  \<^item> \<open>Workerd_Adapter\<close>, \<open>Workerd_Correct\<close>: \<open>examples/workerd/adapter/index.ts\<close> (beside \<open>src/src/\<close>), a second
    transport, for isolates whose sockets belong to the request that accepted them; a simulation shows
    that the room cannot tell it from the websocket transport as long as no upgrade is accepted after the
    end of its socket. \<open>Workerd_Relay\<close>:
    \<open>examples/workerd/harness/harness.ts\<close> and the listener of \<open>host/host.ts\<close>, the way of notify messages
    out of an isolate. \<open>Workerd_Host\<close>: the runner of \<open>host/host.ts\<close> with its shared process.

  \<^bold>\<open>What the properties show.\<close> Invariants of every reachable state of the room, the server, the client
  connection, the memory registry and the redis subscriber; abstract effects with refinement lemmas
  (\<open>server_reaped\<close> for the reap script, the registry contract for both drivers, broadcasts on the
  transport); round trips of frames, tokens and the notify channel; safety of the gates (seat tokens,
  notify tokens, the leader lock, reaping, sweeps, respawn spacing); that a reconnecting client whose
  \<open>onDrop\<close> does not throw never gets stuck and gives up after ten attempts, that a wait settles; that the
  relay of an isolate loses no message as long as no write fails and no character is cut in two; error outcomes of \<open>createRoom\<close> and
  \<open>reserveClient\<close>; and the composition of the components. Some theorems state behaviour that differs
  from what the code or its comments mean, as the text before each of them says.

  \<^bold>\<open>Recursion and bounds.\<close> Every definition is total: the loops of the source run over finite data
  (\<open>fun\<close> with a measure where the recursion is not structural), the loops that pace themselves are one
  event per round, and retries are counted in the state. No fuel is used. Lengths of frames are taken
  modulo \<open>2 ^ 32\<close> as \<open>DataView\<close> does, and bytes are words of eight bits. The jitter of the client's
  backoff is exact rational arithmetic on a random number that is an argument.

  \<^bold>\<open>Parameters.\<close> Code that is not under \<open>src/\<close> is an argument: the packcat codecs, HMAC and JSON, the
  platform's \<open>URL\<close>, the Redis server, the application's runner and \<open>roomEndpoint\<close>. Where a property
  relies on them, their documented behaviour is a named hypothesis (a check accepts exactly its own
  MAC; parsing a stringified payload returns it; \<open>redis_laws\<close>) and its witness gives an instance.

  \<^bold>\<open>Not modelled.\<close> Log lines the components write, and the life cycle events of the redis connection;
  the text of error messages beyond the data they are built from; the formatting of http answers and
  the file system; bundling, configuration text and port search of the workerd host. Times are
  integers, also where the source would take a fraction. \<open>dist/\<close> is the build of \<open>src/\<close>; \<open>docs/\<close>,
  \<open>website/\<close> and the example applications use the toolkit and hold no logic of it; \<open>tst/\<close> holds its
  tests.
\<close>

end
